(* ===== verification/Prelude.thy ===== *)
theory Prelude
  imports Main "HOL-Library.Char_ord" "HOL-Library.List_Lexorder" "HOL-Library.Sublist"
begin

text \<open>
  Shared vocabulary of the development: Python strings and the string methods the
  dispatcher calls, the dynamically typed values a parsed YAML row holds, and the generic
  list facts that several components use.

  A Python \<^verbatim>\<open>str\<close> is a \<^typ>\<open>string\<close>: one \<^typ>\<open>char\<close> per code point, so the model covers
  texts whose code points are below 256. Within that range the character classes below
  (white space, lower case) are those of \<^verbatim>\<open>str.strip\<close> and \<^verbatim>\<open>str.lower\<close>.
\<close>

section \<open>Collections of facts\<close>

named_theorems py_simps \<open>unfolding equations of the Python string and value operations\<close>
named_theorems gate_defs \<open>definitions of the gates' decision functions\<close>

section \<open>Results\<close>

lemma map_sum_Inr_iff [simp]:
  "map_sum id f x = Inr y \<longleftrightarrow> (\<exists>z. x = Inr z \<and> y = f z)"
  "map_sum id f x = Inl e \<longleftrightarrow> x = Inl e"
  by (cases x; auto)+

section \<open>Strings\<close>

definition starts_with :: "string \<Rightarrow> string \<Rightarrow> bool" where
  "starts_with s p = (take (length p) s = p)"

definition ends_with :: "string \<Rightarrow> string \<Rightarrow> bool" where
  "ends_with s p = (drop (length s - length p) s = p)"

fun contains :: "string \<Rightarrow> string \<Rightarrow> bool" where
  "contains s p = (starts_with s p \<or> (case s of [] \<Rightarrow> False | _ # s' \<Rightarrow> contains s' p))"

declare contains.simps [simp del]

definition py_space :: "char \<Rightarrow> bool" where
  "py_space c = (let n = of_char c :: nat in
     (9 \<le> n \<and> n \<le> 13) \<or> (28 \<le> n \<and> n \<le> 32) \<or> n = 133 \<or> n = 160)"

definition lower_char :: "char \<Rightarrow> char" where
  "lower_char c = (let n = of_char c :: nat in
     if (65 \<le> n \<and> n \<le> 90) \<or> (192 \<le> n \<and> n \<le> 222 \<and> n \<noteq> 215)
     then char_of (n + 32) else c)"

definition py_lower :: "string \<Rightarrow> string" where
  "py_lower s = map lower_char s"

definition py_strip :: "string \<Rightarrow> string" where
  "py_strip s = rev (dropWhile py_space (rev (dropWhile py_space s)))"

definition split_once :: "char \<Rightarrow> string \<Rightarrow> string \<times> string" where
  \<comment> \<open>\<^verbatim>\<open>s.split(c, 1)\<close> on a string that contains \<open>c\<close>; without one the second part is empty.\<close>
  "split_once c s = (takeWhile (\<lambda>x. x \<noteq> c) s, drop 1 (dropWhile (\<lambda>x. x \<noteq> c) s))"

fun split_all :: "char \<Rightarrow> string \<Rightarrow> string list" where
  "split_all c [] = [[]]"
| "split_all c (x # s) =
     (if x = c then [] # split_all c s
      else (case split_all c s of [] \<Rightarrow> [[x]] | w # ws \<Rightarrow> (x # w) # ws))"

lemma starts_with_iff_prefix: "starts_with s p \<longleftrightarrow> (\<exists>t. s = p @ t)"
  unfolding starts_with_def by (metis append_eq_conv_conj append_take_drop_id)

lemma starts_with_Nil [simp]: "starts_with s []"
  by (simp add: starts_with_def)

lemma starts_with_Cons [simp]:
  "starts_with (x # s) (y # p) \<longleftrightarrow> x = y \<and> starts_with s p"
  "\<not> starts_with [] (y # p)"
  by (auto simp: starts_with_def)

lemma ends_with_iff_suffix: "ends_with s p \<longleftrightarrow> (\<exists>t. s = t @ p)"
proof
  assume "ends_with s p"
  then have "s = take (length s - length p) s @ p"
    unfolding ends_with_def by (metis append_take_drop_id)
  then show "\<exists>t. s = t @ p" by blast
next
  assume "\<exists>t. s = t @ p"
  then show "ends_with s p" by (auto simp: ends_with_def)
qed

lemma contains_iff: "contains s p \<longleftrightarrow> (\<exists>a b. s = a @ p @ b)"
proof (induction s)
  case Nil
  show ?case
    by (subst contains.simps) (auto simp: starts_with_iff_prefix)
next
  case (Cons x s)
  show ?case
  proof
    assume "contains (x # s) p"
    then consider "starts_with (x # s) p" | "contains s p"
      by (subst (asm) contains.simps) auto
    then show "\<exists>a b. x # s = a @ p @ b"
    proof cases
      case 1
      then obtain t where "x # s = [] @ p @ t" by (auto simp: starts_with_iff_prefix)
      then show ?thesis by blast
    next
      case 2
      with Cons.IH obtain a b where "s = a @ p @ b" by blast
      then have "x # s = (x # a) @ p @ b" by simp
      then show ?thesis by blast
    qed
  next
    assume "\<exists>a b. x # s = a @ p @ b"
    then obtain a b where ab: "x # s = a @ p @ b" by blast
    show "contains (x # s) p"
    proof (cases a)
      case Nil
      with ab show ?thesis
        by (subst contains.simps) (auto simp: starts_with_iff_prefix)
    next
      case (Cons y a')
      with ab have "s = a' @ p @ b" by simp
      with Cons.IH show ?thesis by (subst contains.simps) auto
    qed
  qed
qed

lemma split_all_nonempty [simp]: "split_all c s \<noteq> []"
  by (cases s) (auto split: list.splits)

lemma py_strip_Nil [simp]: "py_strip [] = []"
  by (simp add: py_strip_def)

lemma py_strip_idem [simp]: "py_strip (py_strip s) = py_strip s"
proof -
  have dw: "dropWhile P (rev (dropWhile P (rev (dropWhile P t)))) = rev (dropWhile P (rev (dropWhile P t)))"
    for P and t :: string
  proof (cases "dropWhile P t")
    case Nil
    show ?thesis unfolding Nil by simp
  next
    case (Cons a u)
    then have na: "\<not> P a" by (metis hd_dropWhile list.sel(1) list.distinct(1))
    have "dropWhile P (rev u @ [a]) = dropWhile P (rev u) @ [a]
          \<or> dropWhile P (rev u @ [a]) = [a]"
      using na by (simp add: dropWhile_append)
    with Cons na show ?thesis by auto
  qed
  show ?thesis
    unfolding py_strip_def by (simp add: dw)
qed

section \<open>Values of a parsed YAML document\<close>

text \<open>
  What a ruamel document is made of. \<open>POther\<close> is any further scalar (a float, a date): it
  carries what the code can observe of it: its \<^verbatim>\<open>str()\<close> text, its \<^verbatim>\<open>repr()\<close> text, its
  truth value and the result of \<^verbatim>\<open>int()\<close> (None where that raises). A mapping is an association list in file
  order; the loader never produces a repeated key.
\<close>

datatype pyval =
    PNone
  | PBool bool
  | PInt int
  | PStr string
  | PList "pyval list"
  | PDict "(string \<times> pyval) list"
  | POther string string bool "int option"

fun truthy :: "pyval \<Rightarrow> bool" where
  "truthy PNone = False"
| "truthy (PBool b) = b"
| "truthy (PInt i) = (i \<noteq> 0)"
| "truthy (PStr s) = (s \<noteq> [])"
| "truthy (PList xs) = (xs \<noteq> [])"
| "truthy (PDict kvs) = (kvs \<noteq> [])"
| "truthy (POther _ _ t _) = t"

fun nat_digits :: "nat \<Rightarrow> string" where
  "nat_digits n = (if n < 10 then [char_of (48 + n)]
                   else nat_digits (n div 10) @ [char_of (48 + n mod 10)])"

declare nat_digits.simps [simp del]

definition int_text :: "int \<Rightarrow> string" where
  "int_text i = (if i < 0 then ''-'' @ nat_digits (nat (- i)) else nat_digits (nat i))"

definition hex_digit :: "nat \<Rightarrow> char" where
  "hex_digit n = (if n < 10 then char_of (48 + n) else char_of (87 + n))"

definition repr_char :: "char \<Rightarrow> char \<Rightarrow> string" where
  \<comment> \<open>one character of a string literal whose quote is \<open>q\<close>\<close>
  "repr_char q c = (let n = of_char c :: nat in
     if c = q \<or> c = CHR 92 then [CHR 92, c]
     else if n = 10 then [CHR 92, CHR ''n''] else if n = 13 then [CHR 92, CHR ''r'']
     else if n = 9 then [CHR 92, CHR ''t'']
     else if n < 32 \<or> (127 \<le> n \<and> n \<le> 160) \<or> n = 173
     then [CHR 92, CHR ''x'', hex_digit (n div 16), hex_digit (n mod 16)]
     else [c])"

definition str_repr :: "string \<Rightarrow> string" where
  "str_repr s = (let q = (if CHR 39 \<in> set s \<and> CHR 34 \<notin> set s then CHR 34 else CHR 39)
     in [q] @ concat (map (repr_char q) s) @ [q])"

fun join :: "string \<Rightarrow> string list \<Rightarrow> string" where
  "join sep [] = []"
| "join sep [x] = x"
| "join sep (x # y # xs) = x @ sep @ join sep (y # xs)"

fun py_repr :: "pyval \<Rightarrow> string" where
  "py_repr PNone = ''None''"
| "py_repr (PBool b) = (if b then ''True'' else ''False'')"
| "py_repr (PInt i) = int_text i"
| "py_repr (PStr s) = str_repr s"
| "py_repr (PList xs) = ''['' @ join '', '' (map py_repr xs) @ '']''"
| "py_repr (PDict kvs) =
     ''{'' @ join '', '' (map (\<lambda>kv. str_repr (fst kv) @ '': '' @ py_repr (snd kv)) kvs) @ ''}''"
| "py_repr (POther _ r _ _) = r"

definition py_str :: "pyval \<Rightarrow> string" where
  "py_str v = (case v of PStr s \<Rightarrow> s | POther t _ _ _ \<Rightarrow> t | _ \<Rightarrow> py_repr v)"

lemma py_str_PStr [simp]: "py_str (PStr s) = s"
  by (simp add: py_str_def)

section \<open>Numbers in text, lines\<close>

definition is_digit :: "char \<Rightarrow> bool" where
  "is_digit c = (CHR ''0'' \<le> c \<and> c \<le> CHR ''9'')"

fun parse_digits :: "int \<Rightarrow> string \<Rightarrow> int option" where
  \<comment> \<open>digits with single underscores between them, after a first digit\<close>
  "parse_digits acc [] = Some acc"
| "parse_digits acc (c # cs) =
     (if is_digit c then parse_digits (10 * acc + (of_char c - 48)) cs
      else if c = CHR ''_'' then
        (case cs of [] \<Rightarrow> None | d # _ \<Rightarrow> if is_digit d then parse_digits acc cs else None)
      else None)"

definition int_of_text :: "string \<Rightarrow> int option" where
  \<comment> \<open>\<^verbatim>\<open>int(s)\<close> of a string, None where it raises \<^verbatim>\<open>ValueError\<close>\<close>
  "int_of_text s = (let t = py_strip s;
       sign = (if starts_with t ''-'' then - 1 else 1);
       u = (if starts_with t ''-'' \<or> starts_with t ''+'' then tl t else t)
     in case u of [] \<Rightarrow> None
        | d # _ \<Rightarrow> if is_digit d then map_option ((*) sign) (parse_digits 0 u) else None)"

definition py_int :: "pyval \<Rightarrow> int option" where
  "py_int v = (case v of PInt i \<Rightarrow> Some i | PBool b \<Rightarrow> Some (if b then 1 else 0)
     | PStr s \<Rightarrow> int_of_text s | POther _ _ _ i \<Rightarrow> i | _ \<Rightarrow> None)"

definition eq_zero :: "pyval \<Rightarrow> bool" where
  \<comment> \<open>\<^verbatim>\<open>v == 0\<close>: false is 0, and so is a zero float\<close>
  "eq_zero v = (case v of PInt i \<Rightarrow> i = 0 | PBool b \<Rightarrow> \<not> b
     | POther _ _ t i \<Rightarrow> \<not> t \<and> i = Some 0 | _ \<Rightarrow> False)"

definition line_break :: "char \<Rightarrow> bool" where
  "line_break c = (let n = of_char c :: nat in
     (10 \<le> n \<and> n \<le> 13) \<or> (28 \<le> n \<and> n \<le> 30) \<or> n = 133)"

fun splitlines_from :: "bool \<Rightarrow> string \<Rightarrow> string \<Rightarrow> string list" where
  \<comment> \<open>\<open>cr\<close>: the previous character was a carriage return; \<open>acc\<close>: the current line, in reverse\<close>
  "splitlines_from cr acc [] = (if acc = [] then [] else [rev acc])"
| "splitlines_from cr acc (c # cs) =
     (if cr \<and> c = CHR 10 then splitlines_from False acc cs
      else if line_break c then rev acc # splitlines_from (c = CHR 13) [] cs
      else splitlines_from False (c # acc) cs)"

definition py_splitlines :: "string \<Rightarrow> string list" where
  "py_splitlines s = splitlines_from False [] s"

section \<open>Rows and dictionaries\<close>

text \<open>
  A mapping read by key is \<open>map_of\<close>; \<open>row_set\<close> is \<^verbatim>\<open>row[k] = v\<close> (in place for a present
  key, appended for a new one, as a Python dict keeps its order) and \<open>row_pop\<close> is
  \<^verbatim>\<open>row.pop(k, None)\<close>.
\<close>

type_synonym row = "(string \<times> pyval) list"

definition row_get :: "row \<Rightarrow> string \<Rightarrow> pyval" where
  \<comment> \<open>\<^verbatim>\<open>row.get(key)\<close>\<close>
  "row_get r k = (case map_of r k of None \<Rightarrow> PNone | Some v \<Rightarrow> v)"

fun row_set :: "row \<Rightarrow> string \<Rightarrow> pyval \<Rightarrow> row" where
  "row_set [] k v = [(k, v)]"
| "row_set ((k', v') # r) k v = (if k' = k then (k, v) # r else (k', v') # row_set r k v)"

definition row_pop :: "row \<Rightarrow> string \<Rightarrow> row" where
  "row_pop r k = filter (\<lambda>kv. fst kv \<noteq> k) r"

definition row_update :: "row \<Rightarrow> (string \<times> pyval) list \<Rightarrow> row" where
  "row_update r kvs = fold (\<lambda>kv acc. row_set acc (fst kv) (snd kv)) kvs r"

lemma map_of_row_set [simp]: "map_of (row_set r k v) = (map_of r)(k \<mapsto> v)"
  by (induction r) (auto simp: fun_eq_iff)

lemma map_of_row_pop [simp]: "map_of (row_pop r k) = (map_of r)(k := None)"
  by (induction r) (auto simp: row_pop_def fun_eq_iff)

lemma row_get_set [simp]: "row_get (row_set r k v) k' = (if k' = k then v else row_get r k')"
  by (simp add: row_get_def)

lemma row_get_pop [simp]: "row_get (row_pop r k) k' = (if k' = k then PNone else row_get r k')"
  by (simp add: row_get_def)

lemma map_of_row_update:
  "map_of (row_update r kvs) = map_of r ++ map_of (rev kvs)"
  by (induction kvs arbitrary: r) (auto simp: row_update_def map_add_def fun_eq_iff split: option.splits)

end
