(* ===== verification/Glob.thy ===== *)
theory Glob
  imports Prelude
begin

text \<open>
  The glob engine of \<^verbatim>\<open>src/claude_dispatcher/risk.py\<close>, on which every path gate of the
  dispatcher is built (risk rules, role allowlists, the floor). \<^verbatim>\<open>_glob_to_regex\<close> translates
  a gitignore-style pattern to one anchored regular expression; it only ever emits four
  forms, which are the constructors of \<open>gtok\<close> below. \<^verbatim>\<open>_compiled(p).match(path)\<close> with
  \<^verbatim>\<open>\Z\<close> and \<^verbatim>\<open>re.DOTALL\<close> is membership of the whole path in the language of that
  expression: \<open>gmatch\<close> is the executable matcher, \<open>toks_lang\<close> the language.
\<close>

section \<open>Translation and matching\<close>

datatype gtok =
    DirStar      \<comment> \<open>\<^verbatim>\<open>(?:.*/)?\<close>, from \<^verbatim>\<open>**/\<close>\<close>
  | AnyRun       \<comment> \<open>\<^verbatim>\<open>.*\<close>, from \<^verbatim>\<open>**\<close> and from \<^verbatim>\<open>*\<close>\<close>
  | AnyOne       \<comment> \<open>\<^verbatim>\<open>.\<close>, from \<^verbatim>\<open>?\<close>\<close>
  | Lit char     \<comment> \<open>\<^verbatim>\<open>re.escape(c)\<close>\<close>

fun glob_to_regex :: "string \<Rightarrow> gtok list" where
  "glob_to_regex [] = []"
| "glob_to_regex (c # cs) =
     (if c = CHR ''*'' then
        (case cs of
           d # ds \<Rightarrow>
             if d = CHR ''*'' then
               (case ds of
                  e # es \<Rightarrow> if e = CHR ''/'' then DirStar # glob_to_regex es
                            else AnyRun # glob_to_regex ds
                | [] \<Rightarrow> AnyRun # glob_to_regex ds)
             else AnyRun # glob_to_regex cs
         | [] \<Rightarrow> AnyRun # glob_to_regex cs)
      else if c = CHR ''?'' then AnyOne # glob_to_regex cs
      else Lit c # glob_to_regex cs)"

text \<open>The suffixes of a string that start right after one of its slashes.\<close>

fun after_slash :: "string \<Rightarrow> string list" where
  "after_slash [] = []"
| "after_slash (c # cs) = (if c = CHR ''/'' then cs # after_slash cs else after_slash cs)"

fun gmatch :: "gtok list \<Rightarrow> string \<Rightarrow> bool" where
  "gmatch [] s = (s = [])"
| "gmatch (Lit c # ts) s = (case s of [] \<Rightarrow> False | d # s' \<Rightarrow> c = d \<and> gmatch ts s')"
| "gmatch (AnyOne # ts) s = (case s of [] \<Rightarrow> False | d # s' \<Rightarrow> gmatch ts s')"
| "gmatch (AnyRun # ts) s = list_ex (gmatch ts) (suffixes s)"
| "gmatch (DirStar # ts) s = (gmatch ts s \<or> list_ex (gmatch ts) (after_slash s))"

definition glob_matches :: "string \<Rightarrow> string \<Rightarrow> bool" where
  \<comment> \<open>\<^verbatim>\<open>_compiled(pattern).match(path)\<close>\<close>
  "glob_matches path pat = gmatch (glob_to_regex pat) path"

definition matches_any_glob :: "string \<Rightarrow> string list \<Rightarrow> bool" where
  "matches_any_glob path pats = list_ex (glob_matches path) pats"

fun first_matching_glob :: "string \<Rightarrow> string list \<Rightarrow> string option" where
  "first_matching_glob path [] = None"
| "first_matching_glob path (p # ps) =
     (if glob_matches path p then Some p else first_matching_glob path ps)"

section \<open>The language of a pattern\<close>

fun tok_lang :: "gtok \<Rightarrow> string set" where
  "tok_lang (Lit c) = {[c]}"
| "tok_lang AnyOne = {[c] | c. True}"
| "tok_lang AnyRun = UNIV"
| "tok_lang DirStar = insert [] {u @ ''/'' | u. True}"

fun toks_lang :: "gtok list \<Rightarrow> string set" where
  "toks_lang [] = {[]}"
| "toks_lang (t # ts) = {u @ v | u v. u \<in> tok_lang t \<and> v \<in> toks_lang ts}"

lemma after_slash_iff: "v \<in> set (after_slash s) \<longleftrightarrow> (\<exists>u. s = u @ ''/'' @ v)"
proof (induction s)
  case Nil
  show ?case by simp
next
  case (Cons c s)
  have split: "(\<exists>u. c # s = u @ ''/'' @ v) \<longleftrightarrow>
      (c = CHR ''/'' \<and> s = v) \<or> (\<exists>u. s = u @ ''/'' @ v)"
    by (metis append_Cons append_Nil list.exhaust list.inject)
  show ?case
    unfolding split using Cons.IH by auto
qed

lemma toks_lang_Cons_simps:
  "[] \<notin> toks_lang (Lit c # ts)" "[] \<notin> toks_lang (AnyOne # ts)"
  "d # s \<in> toks_lang (Lit c # ts) \<longleftrightarrow> c = d \<and> s \<in> toks_lang ts"
  "d # s \<in> toks_lang (AnyOne # ts) \<longleftrightarrow> s \<in> toks_lang ts"
  by auto (metis append_Cons append_Nil)

lemma gmatch_lang: "gmatch ts s \<longleftrightarrow> s \<in> toks_lang ts"
proof (induction ts s rule: gmatch.induct)
  case (4 ts s)
  show ?case
  proof
    assume "gmatch (AnyRun # ts) s"
    then obtain v where v: "v \<in> set (suffixes s)" "gmatch ts v"
      by (auto simp: list_ex_iff)
    then obtain u where "s = u @ v" by (auto simp: suffix_def)
    moreover have "v \<in> toks_lang ts" using 4 v by blast
    ultimately show "s \<in> toks_lang (AnyRun # ts)" by auto
  next
    assume "s \<in> toks_lang (AnyRun # ts)"
    then obtain u v where "s = u @ v" "v \<in> toks_lang ts" by auto
    moreover from this have "v \<in> set (suffixes s)" by (auto simp: suffix_def)
    ultimately show "gmatch (AnyRun # ts) s" using 4 by (auto simp: list_ex_iff)
  qed
next
  case (5 ts s)
  show ?case
  proof
    assume "gmatch (DirStar # ts) s"
    then consider "gmatch ts s" | v where "v \<in> set (after_slash s)" "gmatch ts v"
      by (auto simp: list_ex_iff)
    then show "s \<in> toks_lang (DirStar # ts)"
    proof cases
      case 1
      then have "s \<in> toks_lang ts" using 5 by blast
      then show ?thesis by force
    next
      case (2 v)
      then obtain u where "s = (u @ ''/'') @ v" by (auto simp: after_slash_iff)
      moreover have "v \<in> toks_lang ts" using 5 2 by blast
      ultimately show ?thesis by (auto intro: exI [of _ "u @ ''/''"])
    qed
  next
    assume "s \<in> toks_lang (DirStar # ts)"
    then obtain u v where uv: "s = u @ v" "v \<in> toks_lang ts" "u \<in> tok_lang DirStar" by auto
    show "gmatch (DirStar # ts) s"
    proof (cases "u = []")
      case True
      with uv 5 show ?thesis by simp
    next
      case False
      with uv obtain w where "u = w @ ''/''" by auto
      with uv have "v \<in> set (after_slash s)" by (auto simp: after_slash_iff)
      with uv 5 show ?thesis by (auto simp: list_ex_iff)
    qed
  qed
next
  case (2 c ts s)
  then show ?case by (cases s) (simp_all add: toks_lang_Cons_simps del: toks_lang.simps)
next
  case (3 ts s)
  then show ?case by (cases s) (simp_all add: toks_lang_Cons_simps del: toks_lang.simps)
qed simp

lemma glob_matches_lang: "glob_matches path pat \<longleftrightarrow> path \<in> toks_lang (glob_to_regex pat)"
  by (simp add: glob_matches_def gmatch_lang)

lemma toks_lang_append: "toks_lang (xs @ ys) = {u @ v | u v. u \<in> toks_lang xs \<and> v \<in> toks_lang ys}"
proof (induction xs)
  case Nil
  show ?case by simp
next
  case (Cons x xs)
  show ?case
    unfolding append_Cons toks_lang.simps Cons.IH
    by (auto, metis append.assoc, metis append.assoc)
qed

section \<open>Literal patterns, directory patterns\<close>

definition glob_meta :: "char \<Rightarrow> bool" where
  "glob_meta c = (c = CHR ''*'' \<or> c = CHR ''?'')"

definition glob_literal :: "string \<Rightarrow> bool" where
  "glob_literal s = (\<forall>c \<in> set s. \<not> glob_meta c)"

lemma glob_literal_simps [simp]:
  "glob_literal []"
  "glob_literal (c # s) \<longleftrightarrow> \<not> glob_meta c \<and> glob_literal s"
  "glob_literal (s @ t) \<longleftrightarrow> glob_literal s \<and> glob_literal t"
  by (auto simp: glob_literal_def)

lemma glob_to_regex_literal_append:
  "glob_literal d \<Longrightarrow> glob_to_regex (d @ p) = map Lit d @ glob_to_regex p"
  by (induction d) (auto simp: glob_meta_def)

lemma toks_lang_literal [simp]: "toks_lang (map Lit d) = {d}"
  by (induction d) auto

lemma glob_literal_lang: "glob_literal p \<Longrightarrow> toks_lang (glob_to_regex p) = {p}"
  using glob_to_regex_literal_append [of p "[]"] by simp

lemma glob_prefix_lang:
  assumes "glob_literal d"
  shows "toks_lang (glob_to_regex (d @ p)) = {d @ v | v. v \<in> toks_lang (glob_to_regex p)}"
  unfolding glob_to_regex_literal_append [OF assms] toks_lang_append by simp

section \<open>Relabelling of characters the pattern does not name\<close>

text \<open>
  Apart from the slash and the literals of the pattern, the engine treats every character
  alike. Any injective relabelling that fixes those leaves the answer unchanged: no
  character (a line feed, a control character) is a hole in the matcher.
\<close>

lemma after_slash_map:
  assumes "\<And>c. f c = CHR ''/'' \<longleftrightarrow> c = CHR ''/''"
  shows "after_slash (map f s) = map (map f) (after_slash s)"
  by (induction s) (auto simp: assms)

lemma suffixes_map: "suffixes (map f s) = map (map f) (suffixes s)"
  by (induction s) auto

fun tok_fixed :: "(char \<Rightarrow> char) \<Rightarrow> gtok \<Rightarrow> bool" where
  "tok_fixed f (Lit c) = (\<forall>d. f d = c \<longleftrightarrow> d = c)"
| "tok_fixed f _ = True"

lemma gmatch_map:
  assumes "\<And>c. f c = CHR ''/'' \<longleftrightarrow> c = CHR ''/''"
    and "\<forall>t \<in> set ts. tok_fixed f t"
  shows "gmatch ts (map f s) \<longleftrightarrow> gmatch ts s"
  using assms(2)
proof (induction ts s rule: gmatch.induct)
  case (2 c ts s)
  show ?case
  proof (cases s)
    case (Cons a s')
    from "2.prems" have "f a = c \<longleftrightarrow> a = c" by simp
    with 2 Cons show ?thesis by (auto simp: eq_commute [of c])
  qed simp
next
  case (3 ts s)
  then show ?case by (cases s) auto
next
  case (4 ts s)
  then show ?case by (simp add: suffixes_map list_ex_iff)
next
  case (5 ts s)
  then show ?case by (simp add: after_slash_map [OF assms(1)] list_ex_iff)
qed simp

lemma glob_to_regex_step:
  "\<exists>t n. glob_to_regex (c # cs) = t # glob_to_regex (drop n cs) \<and> (\<forall>d. t = Lit d \<longrightarrow> d = c)"
proof -
  have "glob_to_regex (c # cs) = DirStar # glob_to_regex (drop 2 cs)
      \<or> glob_to_regex (c # cs) = AnyRun # glob_to_regex (drop 1 cs)
      \<or> (\<exists>t. glob_to_regex (c # cs) = t # glob_to_regex (drop 0 cs) \<and> (\<forall>d. t = Lit d \<longrightarrow> d = c))"
    unfolding glob_to_regex.simps(2) [of c cs]
    by (simp del: glob_to_regex.simps split: list.split)
  then show ?thesis by blast
qed

lemma glob_to_regex_lits: "Lit c \<in> set (glob_to_regex p) \<Longrightarrow> c \<in> set p"
proof (induction p rule: length_induct)
  case (1 p)
  show ?case
  proof (cases p)
    case (Cons d cs)
    obtain t n where tn: "glob_to_regex p = t # glob_to_regex (drop n cs)" "\<forall>e. t = Lit e \<longrightarrow> e = d"
      using glob_to_regex_step [of d cs] Cons by auto
    have "length (drop n cs) < length p" using Cons by simp
    with 1 tn have "t = Lit c \<or> c \<in> set (drop n cs)" by auto
    with tn(2) Cons show ?thesis by (auto dest: in_set_dropD)
  qed (use 1 in simp)
qed

section \<open>The matcher as an interface\<close>

text \<open>
  What the gates rely on: a pattern without metacharacters names one path, and
  \<^verbatim>\<open>d/**\<close> is the tree below \<open>d\<close>.
\<close>

locale path_matcher =
  fixes matches :: "string \<Rightarrow> string \<Rightarrow> bool"
    and literal :: "string \<Rightarrow> bool"
  assumes literal_exact: "literal p \<Longrightarrow> matches path p \<longleftrightarrow> path = p"
    and tree_exact: "literal d \<Longrightarrow> matches path (d @ ''/**'') \<longleftrightarrow> starts_with path (d @ ''/'')"
begin

lemma tree_contains_children: "literal d \<Longrightarrow> matches (d @ ''/'' @ x) (d @ ''/**'')"
  by (subst tree_exact) (auto simp: starts_with_iff_prefix)

lemma tree_excludes_sibling:
  assumes "literal d" "c \<noteq> CHR ''/''"
  shows "\<not> matches (d @ c # x) (d @ ''/**'')"
  using assms by (simp add: tree_exact starts_with_def)

lemma literal_selfmatch: "literal p \<Longrightarrow> list_ex (matches p) (xs @ p # ys)"
  by (simp add: literal_exact)

end

lemma glob_tree: "glob_literal d \<Longrightarrow> glob_matches path (d @ ''/**'') \<longleftrightarrow> starts_with path (d @ ''/'')"
proof -
  assume "glob_literal d"
  then have "glob_literal (d @ ''/'')" by (simp add: glob_meta_def)
  from glob_prefix_lang [OF this, of "''**''"] show ?thesis
    by (auto simp: glob_matches_lang starts_with_iff_prefix)
qed

interpretation risk_glob: path_matcher glob_matches glob_literal
  by unfold_locales (auto simp: glob_matches_lang glob_literal_lang glob_tree[unfolded glob_matches_lang])

lemma matches_any_glob_iff: "matches_any_glob path pats \<longleftrightarrow> (\<exists>p \<in> set pats. glob_matches path p)"
  by (simp add: matches_any_glob_def list_ex_iff)

lemma first_matching_glob_SomeD:
  "first_matching_glob path pats = Some p \<Longrightarrow> p \<in> set pats \<and> glob_matches path p"
  by (induction pats) (auto split: if_splits)

lemma first_matching_glob_None:
  "first_matching_glob path pats = None \<longleftrightarrow> \<not> matches_any_glob path pats"
  by (induction pats) (auto simp: matches_any_glob_iff split: if_splits)

section \<open>Properties\<close>


text \<open>
  No character is a hole in the matcher: replacing characters of a path by others,
  where neither the slash nor a character of the pattern is involved, does not change
  whether the path matches. In particular a line feed in a path is matched by a wildcard like
  any other character (the defect the \<^verbatim>\<open>DOTALL\<close> comment describes).
\<close>

theorem glob_no_special_character:
  assumes "f (CHR ''/'') = CHR ''/''" and "inj f" and "\<And>c. c \<in> set pat \<Longrightarrow> f c = c"
  shows "glob_matches (map f path) pat \<longleftrightarrow> glob_matches path pat"
proof -
  have "\<forall>t \<in> set (glob_to_regex pat). tok_fixed f t"
  proof
    fix t assume t: "t \<in> set (glob_to_regex pat)"
    show "tok_fixed f t"
    proof (cases t)
      case (Lit c)
      with t have "f c = c" using assms(3) glob_to_regex_lits by blast
      with Lit assms(2) show ?thesis by (metis injD tok_fixed.simps(1))
    qed simp_all
  qed
  moreover have "f c = CHR ''/'' \<longleftrightarrow> c = CHR ''/''" for c
    using assms(1,2) by (metis injD)
  ultimately show ?thesis
    by (simp add: glob_matches_def gmatch_map)
qed

theorem glob_no_special_character_witness:
  "glob_matches (map (\<lambda>c. if c = CHR ''x'' then CHR 10 else if c = CHR 10 then CHR ''x'' else c)
      ''.github/ax.yml'') ''.github/**'' \<longleftrightarrow> glob_matches ''.github/ax.yml'' ''.github/**''"
  by (rule glob_no_special_character) (auto simp: inj_def split: if_splits)

end
