(* ===== verification/GitPath.thy ===== *)
theory GitPath
  imports Prelude
begin

text \<open>
  \<^verbatim>\<open>role_protocol._unquote_git_path\<close> and the two loops that read git's path listings with
  it (\<^verbatim>\<open>role_protocol.changed_paths_between\<close> here, \<^verbatim>\<open>risk.collect_diff\<close> in theory Risk).
  In this theory a path is the byte string git stores: a \<^typ>\<open>char\<close> is one byte of the UTF-8
  form. Every character the decoder looks at (quote, backslash, digits) is ASCII, and
  UTF-8 never uses an ASCII byte inside a longer character, so the byte view and the text
  view of the function agree.
\<close>

section \<open>Reversing C-quoting\<close>

datatype unquote_error =
    TrailingBackslash
  | BadOctal string
  | BadEscape char
  | ByteRange nat
  | NotUtf8

abbreviation bslash :: char where "bslash \<equiv> CHR 92"
abbreviation dquote :: char where "dquote \<equiv> CHR 34"

definition c_quote_escapes :: "(char \<times> char) list" where
  "c_quote_escapes =
     [(CHR ''a'', CHR 7), (CHR ''b'', CHR 8), (CHR ''f'', CHR 12), (CHR ''n'', CHR 10),
      (CHR ''r'', CHR 13), (CHR ''t'', CHR 9), (CHR ''v'', CHR 11), (bslash, bslash),
      (dquote, dquote)]"

definition is_octal :: "char \<Rightarrow> bool" where
  "is_octal c = (CHR ''0'' \<le> c \<and> c \<le> CHR ''7'')"

definition octal_value :: "char \<Rightarrow> nat" where
  "octal_value c = of_char c - 48"

definition octal3 :: "char \<Rightarrow> char \<Rightarrow> char \<Rightarrow> nat" where
  "octal3 a b c = 64 * octal_value a + 8 * octal_value b + octal_value c"

fun unquote_body :: "string \<Rightarrow> unquote_error + string" where
  "unquote_body [] = Inr []"
| "unquote_body (c # cs) =
     (if c \<noteq> bslash then map_sum id ((#) c) (unquote_body cs)
      else (case cs of
          [] \<Rightarrow> Inl TrailingBackslash
        | e # rest \<Rightarrow>
            (case map_of c_quote_escapes e of
               Some b \<Rightarrow> map_sum id ((#) b) (unquote_body rest)
             | None \<Rightarrow>
                 if is_octal e then
                   (case rest of
                      d1 # d2 # rest' \<Rightarrow>
                        if is_octal d1 \<and> is_octal d2 then
                          if octal3 e d1 d2 < 256
                          then map_sum id ((#) (char_of (octal3 e d1 d2))) (unquote_body rest')
                          else Inl (ByteRange (octal3 e d1 d2))
                        else Inl (BadOctal [e, d1, d2])
                    | _ \<Rightarrow> Inl (BadOctal (e # rest)))
                 else Inl (BadEscape e))))"

declare unquote_body.simps(2) [simp del]

definition cont_byte :: "nat \<Rightarrow> bool" where
  "cont_byte b = (128 \<le> b \<and> b \<le> 191)"

fun utf8_valid :: "nat list \<Rightarrow> bool" where
  "utf8_valid [] = True"
| "utf8_valid (b # bs) =
     (if b < 128 then utf8_valid bs
      else if 194 \<le> b \<and> b \<le> 223 then
        (case bs of c1 # r \<Rightarrow> cont_byte c1 \<and> utf8_valid r | _ \<Rightarrow> False)
      else if 224 \<le> b \<and> b \<le> 239 then
        (case bs of c1 # c2 # r \<Rightarrow> cont_byte c1 \<and> cont_byte c2
            \<and> (b = 224 \<longrightarrow> 160 \<le> c1) \<and> (b = 237 \<longrightarrow> c1 \<le> 159) \<and> utf8_valid r | _ \<Rightarrow> False)
      else if 240 \<le> b \<and> b \<le> 244 then
        (case bs of c1 # c2 # c3 # r \<Rightarrow> cont_byte c1 \<and> cont_byte c2 \<and> cont_byte c3
            \<and> (b = 240 \<longrightarrow> 144 \<le> c1) \<and> (b = 244 \<longrightarrow> c1 \<le> 143) \<and> utf8_valid r | _ \<Rightarrow> False)
      else False)"

declare utf8_valid.simps(2) [simp del]

definition is_utf8 :: "string \<Rightarrow> bool" where
  "is_utf8 s = utf8_valid (map of_char s)"

definition unquote_git_path :: "string \<Rightarrow> unquote_error + string" where
  "unquote_git_path line =
     (if length line < 2 \<or> \<not> starts_with line [dquote] \<or> \<not> ends_with line [dquote] then Inr line
      else case unquote_body (butlast (tl line)) of
          Inl e \<Rightarrow> Inl e
        | Inr bytes \<Rightarrow> if is_utf8 bytes then Inr bytes else Inl NotUtf8)"

section \<open>Listing the changed paths\<close>

datatype listing_error = GitFailed int | BlankPath string | Undecodable string unquote_error

fun decode_lines :: "string list \<Rightarrow> string list \<Rightarrow> listing_error + string list" where
  \<comment> \<open>the loop over the lines; \<open>acc\<close> is \<^verbatim>\<open>paths\<close> so far, in reverse\<close>
  "decode_lines [] acc = Inr (rev acc)"
| "decode_lines (line # rest) acc =
     (if line = [] then decode_lines rest acc
      else if py_strip line = [] then Inl (BlankPath line)
      else case unquote_git_path line of
          Inl e \<Rightarrow> Inl (Undecodable line e)
        | Inr path \<Rightarrow>
            if path \<in> set acc then decode_lines rest acc else decode_lines rest (path # acc))"

definition changed_paths_between :: "int \<times> string \<Rightarrow> listing_error + string list" where
  \<comment> \<open>of the exit status and the output of \<^verbatim>\<open>git diff --name-only --no-renames base...branch\<close>\<close>
  "changed_paths_between run =
     (if fst run \<noteq> 0 then Inl (GitFailed (fst run))
      else decode_lines (split_all (CHR 10) (snd run)) [])"

section \<open>What a rendering denotes\<close>

text \<open>
  \<open>renders r p\<close>: the text \<open>r\<close> between the quotes spells the path \<open>p\<close>. A byte may stand for
  itself, may use its letter escape, or may be three octal digits; the choice is git's
  (it depends on \<^verbatim>\<open>core.quotePath\<close>).
\<close>

inductive renders :: "string \<Rightarrow> string \<Rightarrow> bool" where
  end_of_body: "renders [] []"
| verbatim: "c \<noteq> bslash \<Longrightarrow> renders r p \<Longrightarrow> renders (c # r) (c # p)"
| letter: "map_of c_quote_escapes e = Some b \<Longrightarrow> renders r p \<Longrightarrow> renders (bslash # e # r) (b # p)"
| octal: "is_octal d0 \<Longrightarrow> is_octal d1 \<Longrightarrow> is_octal d2 \<Longrightarrow> octal3 d0 d1 d2 < 256 \<Longrightarrow>
     renders r p \<Longrightarrow> renders (bslash # d0 # d1 # d2 # r) (char_of (octal3 d0 d1 d2) # p)"

lemma octal_not_letter: "is_octal d \<Longrightarrow> map_of c_quote_escapes d = None"
proof -
  assume d: "is_octal d"
  have "map_of c_quote_escapes d = None \<longleftrightarrow> d \<notin> fst ` set c_quote_escapes"
    by (rule map_of_eq_None_iff)
  moreover have "\<forall>e \<in> fst ` set c_quote_escapes. \<not> is_octal e" by code_simp
  ultimately show ?thesis using d by blast
qed

lemma unquote_body_steps:
  "c \<noteq> bslash \<Longrightarrow> unquote_body (c # r) = map_sum id ((#) c) (unquote_body r)"
  "unquote_body [bslash] = Inl TrailingBackslash"
  "map_of c_quote_escapes e = Some b \<Longrightarrow>
     unquote_body (bslash # e # r) = map_sum id ((#) b) (unquote_body r)"
  "is_octal d0 \<Longrightarrow> is_octal d1 \<Longrightarrow> is_octal d2 \<Longrightarrow> octal3 d0 d1 d2 < 256 \<Longrightarrow>
     unquote_body (bslash # d0 # d1 # d2 # r)
       = map_sum id ((#) (char_of (octal3 d0 d1 d2))) (unquote_body r)"
  by (simp_all add: unquote_body.simps(2) octal_not_letter)

lemma unquote_body_InrE:
  assumes "unquote_body (c # cs) = Inr p"
  obtains (plain) q where "c \<noteq> bslash" "unquote_body cs = Inr q" "p = c # q"
  | (esc) e b r q where "c = bslash" "cs = e # r" "map_of c_quote_escapes e = Some b"
      "unquote_body r = Inr q" "p = b # q"
  | (oct) d0 d1 d2 r q where "c = bslash" "cs = d0 # d1 # d2 # r" "map_of c_quote_escapes d0 = None"
      "is_octal d0" "is_octal d1" "is_octal d2" "octal3 d0 d1 d2 < 256"
      "unquote_body r = Inr q" "p = char_of (octal3 d0 d1 d2) # q"
proof (cases "c = bslash")
  case False
  with assms plain show thesis by (auto simp: unquote_body_steps)
next
  case True
  with assms obtain e r where cs: "cs = e # r"
    by (cases cs) (simp_all add: unquote_body_steps)
  show thesis
  proof (cases "map_of c_quote_escapes e")
    case (Some b)
    with assms True cs esc show thesis by (auto simp: unquote_body_steps)
  next
    case None
    with assms True cs oct show thesis
      by (simp add: unquote_body.simps(2) split: if_splits list.splits) blast
  qed
qed

lemma unquote_body_renders: "unquote_body r = Inr p \<longleftrightarrow> renders r p"
proof
  assume "renders r p"
  then show "unquote_body r = Inr p"
    by induction (simp_all add: unquote_body_steps)
next
  assume "unquote_body r = Inr p"
  then show "renders r p"
  proof (induction "length r" arbitrary: r p rule: less_induct)
    case less
    show ?case
    proof (cases r)
      case Nil
      with less show ?thesis by (simp add: renders.intros)
    next
      case (Cons c cs)
      from less.prems [unfolded Cons] show ?thesis
        by (cases rule: unquote_body_InrE) (use less.hyps Cons in \<open>simp_all add: renders.intros\<close>)
    qed
  qed
qed

lemma quoted_line [simp]:
  "unquote_git_path (dquote # r @ [dquote]) =
     (case unquote_body r of Inl e \<Rightarrow> Inl e
      | Inr bytes \<Rightarrow> if is_utf8 bytes then Inr bytes else Inl NotUtf8)"
  by (simp add: unquote_git_path_def ends_with_def Suc_diff_le)

lemma decode_lines_InrE:
  assumes "decode_lines (line # rest) acc = Inr ps"
  obtains (skip) "line = []" "decode_lines rest acc = Inr ps"
  | (path) p where "line \<noteq> []" "unquote_git_path line = Inr p"
      "decode_lines rest (if p \<in> set acc then acc else p # acc) = Inr ps"
  using assms by (cases "line = []") (auto split: if_splits sum.splits)

lemma decode_lines_sound:
  "decode_lines lines acc = Inr ps \<Longrightarrow>
     set ps = set acc \<union> {p. \<exists>l \<in> set lines. l \<noteq> [] \<and> unquote_git_path l = Inr p}
     \<and> (\<forall>l \<in> set lines. l = [] \<or> (\<exists>p. unquote_git_path l = Inr p))"
proof (induction lines arbitrary: acc)
  case (Cons line rest)
  from Cons.prems show ?case
  proof (cases rule: decode_lines_InrE)
    case skip
    from Cons.IH [OF skip(2)] skip(1) show ?thesis by simp
  next
    case (path p)
    from Cons.IH [OF path(3)] path(1,2) show ?thesis by (cases "p \<in> set acc") auto
  qed
qed auto

lemma decode_lines_distinct:
  "decode_lines lines acc = Inr ps \<Longrightarrow> distinct acc \<Longrightarrow> distinct ps"
proof (induction lines arbitrary: acc)
  case (Cons line rest)
  from Cons.prems(1) show ?case
  proof (cases rule: decode_lines_InrE)
    case (path p)
    from Cons.IH [OF path(3)] Cons.prems(2) show ?thesis by simp
  qed (use Cons in simp)
qed auto

section \<open>Properties\<close>

text \<open>
  C11. The decoder inverts every rendering git may choose and nothing else: a quoted line
  decodes to \<open>p\<close> exactly when its body spells \<open>p\<close> (verbatim bytes, letter escapes, three-digit
  octal bytes in any mixture) and \<open>p\<close> is valid UTF-8. Every other quoted line is an error,
  never a half-decoded name.
\<close>

theorem unquote_exact:
  "unquote_git_path (dquote # r @ [dquote]) = Inr p \<longleftrightarrow> renders r p \<and> is_utf8 p"
  by (auto simp: unquote_body_renders[symmetric] split: sum.splits)

text \<open>
  C10. The changed-path listing is complete and duplicate free: when it answers, every
  non-empty line git printed decoded to a path of the answer, every path of the answer
  comes from a line, and no path is named twice. A failed git command, a blank line or an
  undecodable line is an error, so an empty answer means an empty diff.
\<close>

theorem changed_paths_complete:
  assumes "changed_paths_between (rc, out) = Inr ps"
  shows "rc = 0 \<and> distinct ps
    \<and> set ps = {p. \<exists>l \<in> set (split_all (CHR 10) out). l \<noteq> [] \<and> unquote_git_path l = Inr p}
    \<and> (\<forall>l \<in> set (split_all (CHR 10) out). l = [] \<or> (\<exists>p. unquote_git_path l = Inr p))"
  using assms decode_lines_sound [of _ "[]" ps] decode_lines_distinct [of _ "[]" ps]
  by (auto simp: changed_paths_between_def split: if_splits)

theorem changed_paths_complete_witness:
  "changed_paths_between (0, ''a.py'' @ [CHR 10, dquote] @ ''b'' @ [bslash] @ ''303'' @ [bslash] @ ''251.py'' @ [dquote, CHR 10] @ ''a.py'')
     = Inr [''a.py'', ''b'' @ [CHR 195, CHR 169] @ ''.py'']
   \<and> distinct [''a.py'', ''b'' @ [CHR 195, CHR 169] @ ''.py'']"
proof -
  have "changed_paths_between (0, ''a.py'' @ [CHR 10, dquote] @ ''b'' @ [bslash] @ ''303'' @ [bslash] @ ''251.py'' @ [dquote, CHR 10] @ ''a.py'')
     = Inr [''a.py'', ''b'' @ [CHR 195, CHR 169] @ ''.py'']" by code_simp
  from changed_paths_complete [OF this] this show ?thesis by blast
qed

end
