(* ===== verification/Quality.thy ===== *)
theory Quality
  imports Prelude
begin

text \<open>
  \<^verbatim>\<open>quality_levels.py\<close> (risk tier of a task from its labels, resolution of the verification
  and panel levels) and \<^verbatim>\<open>routing.py\<close> (default implementer). Levels and tiers are the
  strings the code uses; a label list stands for \<^verbatim>\<open>labels or []\<close>.
\<close>

section \<open>Ranked levels\<close>

definition known_verify :: "string list" where
  "known_verify = [''none'', ''mechanical'', ''llm'', ''llm_strict'']"

definition known_panel :: "string list" where
  "known_panel = [''never'', ''auto'', ''single'', ''full'', ''always'']"

definition verify_rank :: "(string \<times> nat) list" where
  "verify_rank = [(''none'', 0), (''mechanical'', 1), (''llm'', 2), (''llm_strict'', 3)]"

definition panel_rank :: "(string \<times> nat) list" where
  "panel_rank = [(''never'', 0), (''auto'', 1), (''single'', 2), (''full'', 3), (''always'', 4)]"

definition rank_of :: "(string \<times> nat) list \<Rightarrow> string \<Rightarrow> nat" where
  "rank_of ranks a = (case map_of ranks a of None \<Rightarrow> 0 | Some n \<Rightarrow> n)"

definition max_level :: "string \<Rightarrow> string \<Rightarrow> (string \<times> nat) list \<Rightarrow> string" where
  "max_level a b ranks = (if rank_of ranks b \<le> rank_of ranks a then a else b)"

section \<open>Risk vocabulary\<close>

definition critical_tokens :: "string list" where
  "critical_tokens = [''critical'', ''security'', ''financial'']"

definition high_tokens :: "string list" where
  "high_tokens = [''high'']"

definition risk_prefixes :: "string list" where
  "risk_prefixes = [''risk:'', ''tier:'', ''severity:'', ''priority:'']"

definition norm_label :: "string \<Rightarrow> string" where
  "norm_label raw = py_lower (py_strip raw)"

definition label_token :: "string \<Rightarrow> string option" where
  \<comment> \<open>the loop body of \<^verbatim>\<open>risk_tokens\<close>: the token one label contributes, if any\<close>
  "label_token raw = (let lab = norm_label raw in
     if lab = [] then None
     else if lab \<in> set critical_tokens \<or> lab \<in> set high_tokens then Some lab
     else if list_ex (starts_with lab) risk_prefixes then
       (let bare = py_strip (snd (split_once (CHR '':'') lab)) in
        if bare \<in> set critical_tokens \<or> bare \<in> set high_tokens then Some bare else None)
     else None)"

definition risk_tokens :: "string list \<Rightarrow> string list" where
  "risk_tokens labels = List.map_filter label_token labels"

definition has_risk_label :: "string list \<Rightarrow> bool" where
  "has_risk_label labels = (risk_tokens labels \<noteq> [])"

definition is_large :: "string list \<Rightarrow> bool" where
  "is_large labs = list_ex (\<lambda>l. l = ''size:l'' \<or> l = ''size:xl'') labs"

definition is_hard_task_labels :: "string list \<Rightarrow> bool" where
  "is_hard_task_labels labels =
     (is_large (map norm_label labels)
      \<or> list_ex (\<lambda>t. t \<in> set critical_tokens \<or> t \<in> set high_tokens) (risk_tokens labels))"

definition risk_tier :: "string list \<Rightarrow> string" where
  "risk_tier labels = (let labs = map norm_label labels; tokens = risk_tokens labs in
     if list_ex (\<lambda>t. t \<in> set critical_tokens) tokens then ''critical''
     else if list_ex (\<lambda>t. t \<in> set high_tokens) tokens then ''high''
     else if is_large labs then ''high''
     else if list_ex (\<lambda>l. l = ''size:m'') labs then ''medium''
     else ''low'')"

definition design_words :: "string list" where
  "design_words = [''new contract'', ''new interface'', ''state machine'',
     ''architecture'', ''skeleton'', ''novel'']"

definition design_required :: "string list \<Rightarrow> bool option \<Rightarrow> int \<Rightarrow> string \<Rightarrow> bool" where
  "design_required labels task_design blocked_by_count description =
     (case task_design of
        Some d \<Rightarrow> d
      | None \<Rightarrow>
         (let labs = map norm_label labels; tier = risk_tier labs in
          if tier = ''critical'' \<or> tier = ''high'' then True
          else if is_large labs then True
          else if ''design'' \<in> set labs \<or> list_ex (\<lambda>l. ends_with l '':design'') labs then True
          else if list_ex (\<lambda>l. l = ''size:m'') labs then
            (let desc = py_lower description in
             if list_ex (contains desc) design_words then True
             else if 2 \<le> blocked_by_count then True
             else list_ex (\<lambda>l. l = ''area:core'' \<or> l = ''area:skeleton'') labs)
          else False))"

section \<open>Resolution of the levels\<close>

definition floors :: "string \<Rightarrow> string \<times> string" where
  "floors tier =
     (if tier = ''critical'' then (''llm_strict'', ''full'')
      else if tier = ''high'' then (''llm'', ''full'')
      else if tier = ''medium'' then (''llm'', ''auto'')
      else (''mechanical'', ''never''))"

record quality_levels =
  q_verify :: string
  q_panel :: string
  q_source :: string

record quality_inputs =
  in_labels :: "string list"
  task_verify :: "string option"
  task_panel :: "string option"
  design_verify :: "string option"
  design_panel :: "string option"
  run_verify :: string
  run_panel :: string

definition known :: "string list \<Rightarrow> string option \<Rightarrow> bool" where
  "known vocabulary v = (case v of None \<Rightarrow> False | Some s \<Rightarrow> s \<in> set vocabulary)"

definition resolve_quality_levels :: "quality_inputs \<Rightarrow> quality_levels" where
  "resolve_quality_levels i =
    (let (floor_v, floor_p) = floors (risk_tier (in_labels i));
         rv = (if run_verify i \<in> set known_verify then run_verify i else ''llm'');
         rp = (if run_panel i \<in> set known_panel then run_panel i else ''auto'');
         verify0 = max_level rv floor_v verify_rank;
         (panel0, source0) =
           (if rp = ''never'' \<and> design_panel i = None \<and> task_panel i = None
            then (''never'', ''run_never'')
            else (max_level rp floor_p panel_rank, ''floor+run''));
         (verify1, source1) =
           (if known known_verify (design_verify i)
            then (max_level verify0 (the (design_verify i)) verify_rank, ''design+floor'')
            else (verify0, source0));
         (panel1, source2) =
           (if known known_panel (design_panel i)
            then (max_level panel0 (the (design_panel i)) panel_rank, ''design+floor'')
            else (panel0, source1));
         (verify2, source3) =
           (if known known_verify (task_verify i) then (the (task_verify i), ''task'')
            else (verify1, source2));
         (panel2, source4) =
           (if known known_panel (task_panel i) then (the (task_panel i), ''task'')
            else (panel1, source3))
     in \<lparr>q_verify = verify2, q_panel = panel2, q_source = source4\<rparr>)"

section \<open>Default implementer\<close>

definition default_implementer ::
    "string list \<Rightarrow> string option \<Rightarrow> bool \<Rightarrow> bool \<Rightarrow> string" where
  "default_implementer labels run_implementer no_claude cheap_first =
     (if run_implementer \<noteq> None \<and> the run_implementer \<noteq> []
      then py_lower (py_strip (the run_implementer))
      else if no_claude then ''grok''
      else if \<not> cheap_first then ''claude''
      else (let tier = risk_tier labels in
        if tier = ''critical'' \<or> tier = ''high'' then ''claude''
        else if is_large (map norm_label labels) then ''claude''
        else ''grok''))"

section \<open>Levels as a ranked choice\<close>

locale ranked_choice =
  fixes rank :: "'a \<Rightarrow> nat" and pick :: "'a \<Rightarrow> 'a \<Rightarrow> 'a"
  assumes pick_cases: "pick a b = (if rank b \<le> rank a then a else b)"
begin

lemma pick_rank: "rank (pick a b) = max (rank a) (rank b)"
  by (simp add: pick_cases)

lemma pick_left: "rank a \<le> rank (pick a b)"
  by (simp add: pick_rank)

lemma pick_right: "rank b \<le> rank (pick a b)"
  by (simp add: pick_rank)

lemma pick_in: "pick a b \<in> {a, b}"
  by (simp add: pick_cases)

lemma pick_keeps: "rank b \<le> rank a \<Longrightarrow> pick a b = a"
  by (simp add: pick_cases)

end

interpretation verify_choice: ranked_choice "rank_of verify_rank" "\<lambda>a b. max_level a b verify_rank"
  by unfold_locales (simp add: max_level_def)

interpretation panel_choice: ranked_choice "rank_of panel_rank" "\<lambda>a b. max_level a b panel_rank"
  by unfold_locales (simp add: max_level_def)

lemmas resolve_defs = resolve_quality_levels_def Let_def case_prod_unfold

lemma resolve_verify:
  "q_verify (resolve_quality_levels i) =
     (if known known_verify (task_verify i) then the (task_verify i)
      else let v = max_level (if run_verify i \<in> set known_verify then run_verify i else ''llm'')
                     (fst (floors (risk_tier (in_labels i)))) verify_rank
           in if known known_verify (design_verify i)
              then max_level v (the (design_verify i)) verify_rank else v)"
  by (simp add: resolve_defs)

lemma resolve_panel:
  "q_panel (resolve_quality_levels i) =
     (if known known_panel (task_panel i) then the (task_panel i)
      else let rp = (if run_panel i \<in> set known_panel then run_panel i else ''auto'');
               p = (if rp = ''never'' \<and> design_panel i = None \<and> task_panel i = None then ''never''
                    else max_level rp (snd (floors (risk_tier (in_labels i)))) panel_rank)
           in if known known_panel (design_panel i)
              then max_level p (the (design_panel i)) panel_rank else p)"
  by (simp add: resolve_defs)

definition tier_rank :: "string \<Rightarrow> nat" where
  "tier_rank t = (if t = ''critical'' then 3 else if t = ''high'' then 2
     else if t = ''medium'' then 1 else 0)"

lemma risk_tokens_append: "risk_tokens (xs @ ys) = risk_tokens xs @ risk_tokens ys"
  by (simp add: risk_tokens_def map_filter_def)

lemma tier_rank_risk_tier:
  "tier_rank (risk_tier labels) =
     (let labs = map norm_label labels; tokens = risk_tokens labs in
      if list_ex (\<lambda>t. t \<in> set critical_tokens) tokens then 3
      else if list_ex (\<lambda>t. t \<in> set high_tokens) tokens \<or> is_large labs then 2
      else if list_ex (\<lambda>l. l = ''size:m'') labs then 1 else 0)"
  by (simp add: risk_tier_def tier_rank_def Let_def)

section \<open>Properties\<close>

text \<open>
  Unless the task itself names a verification level, the resolved level is at least the
  floor of the task's risk tier, at least a known run default, and at least a known design
  recommendation: neither the run configuration nor the design stage can sink it.
\<close>

theorem verify_never_below_floor:
  assumes "\<not> known known_verify (task_verify i)"
  shows "rank_of verify_rank (fst (floors (risk_tier (in_labels i))))
           \<le> rank_of verify_rank (q_verify (resolve_quality_levels i))
    \<and> (run_verify i \<in> set known_verify \<longrightarrow>
           rank_of verify_rank (run_verify i) \<le> rank_of verify_rank (q_verify (resolve_quality_levels i)))
    \<and> (\<forall>d. design_verify i = Some d \<and> d \<in> set known_verify \<longrightarrow>
           rank_of verify_rank d \<le> rank_of verify_rank (q_verify (resolve_quality_levels i)))"
  using assms by (auto simp: resolve_verify Let_def verify_choice.pick_rank known_def)

definition example_inputs :: quality_inputs where
  "example_inputs = \<lparr>in_labels = [''Risk:Critical'', ''size:S''], task_verify = None,
     task_panel = None, design_verify = Some ''none'', design_panel = None,
     run_verify = ''mechanical'', run_panel = ''auto''\<rparr>"

theorem verify_never_below_floor_witness:
  "\<not> known known_verify (task_verify example_inputs)
   \<and> q_verify (resolve_quality_levels example_inputs) = ''llm_strict''
   \<and> rank_of verify_rank (fst (floors (risk_tier (in_labels example_inputs))))
           \<le> rank_of verify_rank (q_verify (resolve_quality_levels example_inputs))"
proof -
  have h: "\<not> known known_verify (task_verify example_inputs)" by code_simp
  have v: "q_verify (resolve_quality_levels example_inputs) = ''llm_strict''" by code_simp
  from verify_never_below_floor [OF h] h v show ?thesis by blast
qed

text \<open>
  The panel level is at least the tier's floor unless the task names a panel, or the
  run opted out with \<^verbatim>\<open>panel: never\<close> and neither design nor task named one; that opt-out
  is the only way below the floor, and it then yields exactly \<^verbatim>\<open>never\<close>.
\<close>

theorem panel_below_floor_only_by_opt_out:
  "rank_of panel_rank (snd (floors (risk_tier (in_labels i))))
      \<le> rank_of panel_rank (q_panel (resolve_quality_levels i))
   \<or> known known_panel (task_panel i)
   \<or> (run_panel i = ''never'' \<and> design_panel i = None \<and> task_panel i = None
      \<and> q_panel (resolve_quality_levels i) = ''never''
      \<and> q_source (resolve_quality_levels i) \<in> {''run_never'', ''design+floor'', ''task''})"
proof (cases "run_panel i = ''never'' \<and> design_panel i = None \<and> task_panel i = None")
  case True
  then show ?thesis by (simp add: resolve_defs known_def known_panel_def)
next
  case False
  then show ?thesis
    by (auto simp: resolve_panel Let_def panel_choice.pick_rank known_def known_panel_def)
qed

text \<open>
  Labels only ever raise the risk tier: whatever labels are added to a task, its tier
  does not drop.
\<close>

theorem risk_tier_monotone:
  "tier_rank (risk_tier xs) \<le> tier_rank (risk_tier (ys @ xs @ zs))"
  by (auto simp: tier_rank_risk_tier Let_def risk_tokens_append is_large_def)

lemma of_char_lower: "(of_char (lower_char c) :: nat) =
   (let n = of_char c in if (65 \<le> n \<and> n \<le> 90) \<or> (192 \<le> n \<and> n \<le> 222 \<and> n \<noteq> 215) then n + 32 else n)"
  by (auto simp: lower_char_def Let_def of_char_of)

lemma py_space_lower [simp]: "py_space (lower_char c) \<longleftrightarrow> py_space c"
  by (auto simp: py_space_def of_char_lower Let_def)

lemma lower_char_idem [simp]: "lower_char (lower_char c) = lower_char c"
  unfolding lower_char_def [of "lower_char c"]
  by (auto simp: of_char_lower Let_def)

lemma py_strip_lower: "py_strip (py_lower s) = py_lower (py_strip s)"
  by (simp add: py_strip_def py_lower_def dropWhile_map rev_map o_def)

lemma norm_label_idem [simp]: "norm_label (norm_label l) = norm_label l"
proof -
  have "py_lower (py_lower s) = py_lower s" for s by (simp add: py_lower_def)
  then show ?thesis by (simp add: norm_label_def py_strip_lower)
qed

lemma risk_tokens_norm: "risk_tokens (map norm_label labels) = risk_tokens labels"
proof -
  have "label_token (norm_label l) = label_token l" for l
    by (simp add: label_token_def)
  then show ?thesis by (simp add: risk_tokens_def map_filter_def o_def filter_map)
qed

lemma hard_is_high_tier:
  "is_hard_task_labels labels \<longleftrightarrow> risk_tier labels \<in> {''critical'', ''high''}"
  by (auto simp: is_hard_task_labels_def risk_tier_def Let_def risk_tokens_norm list_ex_iff)

text \<open>
  The three notions of a risky task agree: a task is HARD under agent routing iff its
  tier is critical or high, and then the design stage is required unless the row pins it,
  and cheap-first routing implements it with claude unless the run pins an implementer or
  excludes claude. An easy task is routed to grok.
\<close>

theorem hard_tasks_routed_and_designed:
  "(is_hard_task_labels labels \<longleftrightarrow> risk_tier labels \<in> {''critical'', ''high''})
   \<and> (is_hard_task_labels labels \<longrightarrow> design_required labels None n desc)
   \<and> default_implementer labels None False True =
       (if is_hard_task_labels labels then ''claude'' else ''grok'')"
proof (intro conjI impI)
  show *: "is_hard_task_labels labels \<longleftrightarrow> risk_tier labels \<in> {''critical'', ''high''}"
    by (rule hard_is_high_tier)
  have norm_tier: "risk_tier (map norm_label labels) = risk_tier labels"
    by (simp add: risk_tier_def Let_def risk_tokens_norm o_def)
  show "design_required labels None n desc" if "is_hard_task_labels labels"
    using that * norm_tier by (auto simp: design_required_def Let_def)
  have "is_large (map norm_label labels) \<Longrightarrow> is_hard_task_labels labels"
    by (simp add: is_hard_task_labels_def)
  with * show "default_implementer labels None False True =
     (if is_hard_task_labels labels then ''claude'' else ''grok'')"
    by (auto simp: default_implementer_def Let_def)
qed

theorem hard_tasks_routed_and_designed_witness:
  "is_hard_task_labels [''tier: HIGH''] \<and> design_required [''tier: HIGH''] None 0 []"
proof -
  have h: "is_hard_task_labels [''tier: HIGH'']" by code_simp
  from hard_tasks_routed_and_designed [of "[''tier: HIGH'']" 0 "[]"] h show ?thesis by blast
qed

text \<open>
  \<^verbatim>\<open>default_implementer\<close> promises a non-empty family, but a run whose implementer is only
  white space gets the empty name: the truth test is made before the strip.
\<close>

theorem default_implementer_blank:
  "default_implementer labels run no_claude cheap_first = [] \<longleftrightarrow>
     (\<exists>r. run = Some r \<and> r \<noteq> [] \<and> py_strip r = [])"
  by (auto simp: default_implementer_def Let_def py_lower_def split: if_splits)

end
