(* ===== verification/Risk.thy ===== *)
theory Risk
  imports Glob GitPath Quality
begin

text \<open>
  \<^verbatim>\<open>risk.py\<close>: the deterministic low/elevated classifier behind the approval ladder, the
  loading of its configuration, and the reading of a diff; with the part of
  \<^verbatim>\<open>classification.py\<close> it consumes. A verdict's reasons are constructors that carry what
  the code's message names; git and the \<^verbatim>\<open>classify\<close> binary are arguments.
\<close>

section \<open>Configuration\<close>

definition size_order :: "(string \<times> nat) list" where
  "size_order = [(''XS'', 0), (''S'', 1), (''M'', 2), (''L'', 3), (''XL'', 4)]"

record risk_config =
  max_size :: string
  forbidden_labels :: "string list"
  forbidden_paths :: "string list"
  max_effective_diff_lines :: int
  test_globs :: "string list"
  generated_globs :: "string list"
  docs_only_low_risk :: bool

definition default_risk_config :: risk_config where
  "default_risk_config = \<lparr>
     max_size = ''S'',
     forbidden_labels = [''security'', ''critical'', ''financial''],
     forbidden_paths = [''**/migrations/**'', ''**/*.proto'', ''**/auth/**'', ''.github/**'',
        ''go.mod'', ''go.sum'', ''pyproject.toml'', ''Dockerfile*'', ''compose*.y*ml''],
     max_effective_diff_lines = 200,
     test_globs = [''*_test.go'', ''**/testdata/**'', ''tests/**'', ''*.spec.*''],
     generated_globs = [''*.pb.go'', ''**/sqlc/**'', ''*_pb2.py''],
     docs_only_low_risk = True\<rparr>"

datatype config_error =
    NotMapping pyval
  | BadMaxSize pyval
  | BadMaxLines pyval
  | BadDocsOnly pyval
  | NotAList string pyval
  | BadEntry string pyval
  | MalformedYaml

fun str_entries :: "string \<Rightarrow> pyval list \<Rightarrow> config_error + string list" where
  "str_entries key [] = Inr []"
| "str_entries key (v # vs) =
     (case v of
        PStr s \<Rightarrow> if py_strip s = [] then Inl (BadEntry key v)
                  else map_sum id ((#) s) (str_entries key vs)
      | _ \<Rightarrow> Inl (BadEntry key v))"

definition str_tuple :: "row \<Rightarrow> string \<Rightarrow> string list \<Rightarrow> config_error + string list" where
  "str_tuple section key dflt =
     (case map_of section key of
        None \<Rightarrow> Inr dflt
      | Some (PList vs) \<Rightarrow> str_entries key vs
      | Some v \<Rightarrow> Inl (NotAList key v))"

definition read_max_size :: "row \<Rightarrow> config_error + string" where
  "read_max_size section =
     (case map_of section ''max_size'' of
        None \<Rightarrow> Inr (max_size default_risk_config)
      | Some v \<Rightarrow> (case v of
            PStr s \<Rightarrow> if map_of size_order s = None then Inl (BadMaxSize v) else Inr s
          | _ \<Rightarrow> Inl (BadMaxSize v)))"

definition read_max_lines :: "row \<Rightarrow> config_error + int" where
  "read_max_lines section =
     (case map_of section ''max_effective_diff_lines'' of
        None \<Rightarrow> Inr (max_effective_diff_lines default_risk_config)
      | Some v \<Rightarrow> (case v of
            PInt n \<Rightarrow> if n < 0 then Inl (BadMaxLines v) else Inr n
          | _ \<Rightarrow> Inl (BadMaxLines v)))"

definition read_docs_only :: "row \<Rightarrow> config_error + bool" where
  "read_docs_only section =
     (case map_of section ''docs_only_low_risk'' of
        None \<Rightarrow> Inr (docs_only_low_risk default_risk_config)
      | Some v \<Rightarrow> (case v of PBool b \<Rightarrow> Inr b | _ \<Rightarrow> Inl (BadDocsOnly v)))"

definition risk_config_from_mapping :: "pyval \<Rightarrow> config_error + risk_config" where
  "risk_config_from_mapping section =
    (case section of
       PNone \<Rightarrow> Inr default_risk_config
     | PDict sec \<Rightarrow>
        (let d = default_risk_config in
         case read_max_size sec of Inl e \<Rightarrow> Inl e | Inr ms \<Rightarrow>
         case read_max_lines sec of Inl e \<Rightarrow> Inl e | Inr ml \<Rightarrow>
         case read_docs_only sec of Inl e \<Rightarrow> Inl e | Inr docs \<Rightarrow>
         case str_tuple sec ''forbidden_labels'' (forbidden_labels d) of Inl e \<Rightarrow> Inl e | Inr fl \<Rightarrow>
         case str_tuple sec ''forbidden_paths'' (forbidden_paths d) of Inl e \<Rightarrow> Inl e | Inr fp \<Rightarrow>
         case str_tuple sec ''test_globs'' (test_globs d) of Inl e \<Rightarrow> Inl e | Inr tg \<Rightarrow>
         case str_tuple sec ''generated_globs'' (generated_globs d) of Inl e \<Rightarrow> Inl e | Inr gg \<Rightarrow>
         Inr \<lparr>max_size = ms, forbidden_labels = fl, forbidden_paths = fp,
              max_effective_diff_lines = ml, test_globs = tg, generated_globs = gg,
              docs_only_low_risk = docs\<rparr>)
     | _ \<Rightarrow> Inl (NotMapping section))"

definition load_risk_config :: "(unit + pyval) option \<Rightarrow> config_error + risk_config" where
  \<comment> \<open>of the configuration file: absent, unparsable, or its document\<close>
  "load_risk_config file =
     (case file of
        None \<Rightarrow> Inr default_risk_config
      | Some (Inl _) \<Rightarrow> Inl MalformedYaml
      | Some (Inr (PDict doc)) \<Rightarrow> risk_config_from_mapping (row_get doc ''risk'')
      | Some (Inr _) \<Rightarrow> Inr default_risk_config)"

section \<open>Path-derived classification\<close>

record classification =
  cl_risk :: string
  cl_components :: "string list"
  cl_financial :: bool
  cl_migration :: bool
  cl_panel_reduced :: bool
  cl_gate_signals :: "string list"
  cl_unmatched_files :: "string list"

definition requires_full_panel :: "classification \<Rightarrow> bool" where
  "requires_full_panel c = (\<not> cl_panel_reduced c)"

definition sorted_set :: "string list \<Rightarrow> string list" where
  "sorted_set xs = sort (remdups xs)"

definition summary_line :: "classification \<Rightarrow> string" where
  "summary_line c = join '' ''
     ([''risk='' @ cl_risk c]
      @ (if cl_components c \<noteq> [] then [''components='' @ join '','' (cl_components c)] else [])
      @ (if cl_financial c then [''financial''] else [])
      @ (if cl_migration c then [''migration''] else [])
      @ (if cl_gate_signals c \<noteq> []
         then [''gate-signals='' @ join '','' (sorted_set (cl_gate_signals c))] else [])
      @ (if cl_unmatched_files c \<noteq> []
         then [''unclassified='' @ int_text (int (length (cl_unmatched_files c)))] else []))"

section \<open>Rules\<close>

datatype risk_level = Low | Elevated

datatype risk_reason =
    DocsOnlyChange
  | SizeUnrecognised "string option"
  | SizeExceeds string string
  | ForbiddenLabel string
  | ForbiddenPath string string
  | DiffTooLarge int int
  | NotFirstPass pyval pyval
  | ClassTier string
  | ClassFinancial
  | ClassGateSignals "string list"
  | DiffNotComputed
  | ClassifyFailed

datatype class_note = NoNote | EmptyDiff | BinaryAbsent | BinaryFailed | Summary string

record risk_verdict =
  level :: risk_level
  reasons :: "risk_reason list"
  class_note :: class_note

record file_diff =
  fd_path :: string
  insertions :: int
  deletions :: int

definition is_doc :: "string \<Rightarrow> bool" where
  "is_doc path = ends_with (py_lower path) ''.md''"

definition counts_toward_diff :: "risk_config \<Rightarrow> file_diff \<Rightarrow> bool" where
  "counts_toward_diff cfg f =
     (\<not> (matches_any_glob (fd_path f) (test_globs cfg)
         \<or> matches_any_glob (fd_path f) (generated_globs cfg)))"

fun effective_diff_lines :: "file_diff list \<Rightarrow> risk_config \<Rightarrow> int" where
  "effective_diff_lines [] cfg = 0"
| "effective_diff_lines (f # fs) cfg =
     (if counts_toward_diff cfg f then insertions f + deletions f else 0) + effective_diff_lines fs cfg"

definition size_reasons :: "string option \<Rightarrow> risk_config \<Rightarrow> risk_reason list" where
  "size_reasons size_label cfg =
     (case size_label of
        None \<Rightarrow> [SizeUnrecognised None]
      | Some s \<Rightarrow>
          (case map_of size_order s of
             None \<Rightarrow> [SizeUnrecognised (Some s)]
           | Some n \<Rightarrow> if rank_of size_order (max_size cfg) < n
                       then [SizeExceeds s (max_size cfg)] else []))"

definition label_reasons :: "string list \<Rightarrow> risk_config \<Rightarrow> risk_reason list" where
  "label_reasons labels cfg = map ForbiddenLabel (filter (\<lambda>l. l \<in> set (forbidden_labels cfg)) labels)"

definition path_reasons :: "file_diff list \<Rightarrow> risk_config \<Rightarrow> risk_reason list" where
  "path_reasons files cfg =
     concat (map (\<lambda>f. case first_matching_glob (fd_path f) (forbidden_paths cfg) of
                        None \<Rightarrow> [] | Some pat \<Rightarrow> [ForbiddenPath (fd_path f) pat]) files)"

definition diff_reasons :: "file_diff list \<Rightarrow> risk_config \<Rightarrow> risk_reason list" where
  "diff_reasons files cfg =
     (if max_effective_diff_lines cfg < effective_diff_lines files cfg
      then [DiffTooLarge (effective_diff_lines files cfg) (max_effective_diff_lines cfg)] else [])"

definition verification_reasons :: "pyval \<Rightarrow> pyval \<Rightarrow> risk_reason list" where
  "verification_reasons verified iterations =
     (if verified \<noteq> PBool True \<or> \<not> eq_zero iterations
      then [NotFirstPass verified iterations] else [])"

record risk_inputs =
  size_label :: "string option"
  labels :: "string list"
  changed_files :: "file_diff list"
  verified :: pyval
  verification_iterations :: pyval

definition evaluate_rules :: "risk_inputs \<Rightarrow> risk_config \<Rightarrow> risk_level \<times> risk_reason list" where
  "evaluate_rules i cfg =
     (let files = changed_files i in
      if docs_only_low_risk cfg \<and> files \<noteq> [] \<and> list_all (\<lambda>f. is_doc (fd_path f)) files
      then (Low, [DocsOnlyChange])
      else
        (let rs = size_reasons (size_label i) cfg
                  @ label_reasons (labels i) cfg
                  @ path_reasons files cfg
                  @ diff_reasons files cfg
                  @ verification_reasons (verified i) (verification_iterations i)
         in if rs \<noteq> [] then (Elevated, rs) else (Low, [])))"

definition elevating_risk_tiers :: "string list" where
  "elevating_risk_tiers = [''high'', ''critical'']"

definition classification_reasons :: "classification option \<Rightarrow> risk_reason list" where
  "classification_reasons c =
     (case c of
        None \<Rightarrow> []
      | Some cl \<Rightarrow>
          (if py_lower (cl_risk cl) \<in> set elevating_risk_tiers then [ClassTier (cl_risk cl)] else [])
          @ (if cl_financial cl then [ClassFinancial] else [])
          @ (if cl_gate_signals cl \<noteq> [] then [ClassGateSignals (sorted_set (cl_gate_signals cl))] else []))"

definition evaluate :: "risk_inputs \<Rightarrow> risk_config \<Rightarrow> classification option \<Rightarrow> risk_level \<times> risk_reason list" where
  "evaluate i cfg cls =
     (let v = evaluate_rules i cfg; extra = classification_reasons cls in
      if extra = [] then v
      else (Elevated, (if fst v = Elevated then snd v else []) @ extra))"


section \<open>Reading a diff\<close>

text \<open>
  A git invocation answers, fails to launch (\<^verbatim>\<open>OSError\<close>) or exceeds its timeout
  (\<^verbatim>\<open>TimeoutExpired\<close>, which is not an \<^verbatim>\<open>OSError\<close>). What leaves the functions below by an
  exception is a \<open>git_exn\<close>; only \<open>RiskDiffError\<close> is caught by \<^verbatim>\<open>classify\<close>.
\<close>

datatype git_run = Ran int string | LaunchFailed | TimedOut

datatype git_exn = RiskDiffError | TimeoutExpired | ValueError

definition run_with_fallback :: "(bool \<Rightarrow> git_run) \<Rightarrow> git_exn + string" where
  \<comment> \<open>the three-dot range (\<open>True\<close>), then the two-dot one\<close>
  "run_with_fallback run =
     (case run True of
        LaunchFailed \<Rightarrow> Inl RiskDiffError
      | TimedOut \<Rightarrow> Inl TimeoutExpired
      | Ran rc out \<Rightarrow>
          if rc = 0 then Inr out
          else (case run False of
                  LaunchFailed \<Rightarrow> Inl RiskDiffError
                | TimedOut \<Rightarrow> Inl TimeoutExpired
                | Ran rc' out' \<Rightarrow> if rc' = 0 then Inr out' else Inl RiskDiffError))"

definition count_field :: "string \<Rightarrow> int option" where
  "count_field s = (if s = ''-'' then Some 0 else int_of_text s)"

definition split_tabs :: "string \<Rightarrow> (string \<times> string \<times> string) option" where
  \<comment> \<open>\<^verbatim>\<open>line.split(TAB, 2)\<close> where it gives three parts\<close>
  "split_tabs line =
     (if CHR 9 \<in> set line \<and> CHR 9 \<in> set (snd (split_once (CHR 9) line))
      then Some (fst (split_once (CHR 9) line),
                 fst (split_once (CHR 9) (snd (split_once (CHR 9) line))),
                 snd (split_once (CHR 9) (snd (split_once (CHR 9) line))))
      else None)"

fun parse_numstat :: "string list \<Rightarrow> git_exn + file_diff list" where
  "parse_numstat [] = Inr []"
| "parse_numstat (line # rest) =
     (if py_strip line = [] then parse_numstat rest
      else case split_tabs line of
          None \<Rightarrow> parse_numstat rest
        | Some (ins_s, del_s, rendered) \<Rightarrow>
            (case unquote_git_path rendered of
               Inl _ \<Rightarrow> Inl RiskDiffError
             | Inr path \<Rightarrow>
                 (case (count_field ins_s, count_field del_s) of
                    (Some ins, Some dels) \<Rightarrow>
                      map_sum id ((#) \<lparr>fd_path = path, insertions = ins, deletions = dels\<rparr>)
                        (parse_numstat rest)
                  | _ \<Rightarrow> Inl ValueError)))"

definition collect_diff :: "(bool \<Rightarrow> git_run) \<Rightarrow> git_exn + file_diff list" where
  "collect_diff run =
     (case run_with_fallback run of Inl e \<Rightarrow> Inl e | Inr out \<Rightarrow> parse_numstat (py_splitlines out))"

definition unified_diff :: "(bool \<Rightarrow> git_run) \<Rightarrow> git_exn + string" where
  "unified_diff run = run_with_fallback run"

definition resolve_commit :: "git_run \<Rightarrow> git_exn + string" where
  "resolve_commit run =
     (case run of
        LaunchFailed \<Rightarrow> Inl RiskDiffError
      | TimedOut \<Rightarrow> Inl TimeoutExpired
      | Ran rc out \<Rightarrow> if rc \<noteq> 0 \<or> py_strip out = [] then Inl RiskDiffError else Inr (py_strip out))"

section \<open>Classifying a task's branch\<close>

record git_view =
  rev_parse :: "string \<Rightarrow> git_run"
  numstat :: "string \<Rightarrow> string \<Rightarrow> bool \<Rightarrow> git_run"
  unified :: "string \<Rightarrow> string \<Rightarrow> bool \<Rightarrow> git_run"

fun size_from_labels :: "string list \<Rightarrow> string option" where
  "size_from_labels [] = None"
| "size_from_labels (l # ls) =
     (if starts_with l ''size:'' then Some (snd (split_once (CHR '':'') l)) else size_from_labels ls)"

definition iter_values :: "pyval \<Rightarrow> (unit + pyval list)" where
  \<comment> \<open>iterating a value: a list gives its items, a string its characters, a mapping its keys;
      anything else raises \<^verbatim>\<open>TypeError\<close>\<close>
  "iter_values v = (case v of
       PList vs \<Rightarrow> Inr vs
     | PStr s \<Rightarrow> Inr (map (\<lambda>c. PStr [c]) s)
     | PDict kvs \<Rightarrow> Inr (map (\<lambda>kv. PStr (fst kv)) kvs)
     | _ \<Rightarrow> Inl ())"

datatype classify_exn = GitExn git_exn | LabelsTypeError

definition read_diffs :: "git_view \<Rightarrow> string \<Rightarrow> string \<Rightarrow> git_exn + (file_diff list \<times> string)" where
  "read_diffs g base_ref head_ref =
     (case resolve_commit (rev_parse g base_ref) of Inl e \<Rightarrow> Inl e | Inr base_sha \<Rightarrow>
      case resolve_commit (rev_parse g head_ref) of Inl e \<Rightarrow> Inl e | Inr head_sha \<Rightarrow>
      case collect_diff (numstat g base_sha head_sha) of Inl e \<Rightarrow> Inl e | Inr files \<Rightarrow>
      case unified_diff (unified g base_sha head_sha) of Inl e \<Rightarrow> Inl e | Inr text \<Rightarrow>
      Inr (files, text))"

definition elevated_verdict :: "risk_reason \<Rightarrow> class_note \<Rightarrow> risk_verdict" where
  "elevated_verdict r n = \<lparr>level = Elevated, reasons = [r], class_note = n\<rparr>"

definition risk_classify ::
    "row \<Rightarrow> git_view \<Rightarrow> (string \<Rightarrow> unit + classification option) \<Rightarrow> risk_config
     \<Rightarrow> string \<Rightarrow> string \<Rightarrow> classify_exn + risk_verdict" where
  \<comment> \<open>\<open>strict\<close> is \<^verbatim>\<open>classify_diff_strict\<close> of the unified diff: \<open>Inl\<close> when it raises\<close>
  "risk_classify task_row g strict cfg base_ref head_ref =
    (let raw = row_get task_row ''labels'' in
     case (if truthy raw then iter_values raw else Inr []) of
       Inl _ \<Rightarrow> Inl LabelsTypeError
     | Inr items \<Rightarrow>
      (let lbls = map py_str items;
           inputs = (\<lambda>files. \<lparr>size_label = size_from_labels lbls, labels = lbls,
              changed_files = files, verified = row_get task_row ''verified'',
              verification_iterations = row_get task_row ''verification_iterations''\<rparr>) in
       case read_diffs g base_ref head_ref of
         Inl RiskDiffError \<Rightarrow> Inr (elevated_verdict DiffNotComputed NoNote)
       | Inl e \<Rightarrow> Inl (GitExn e)
       | Inr (files, text) \<Rightarrow>
          (if py_strip text = [] then
             (let v = evaluate (inputs files) cfg None in
              Inr \<lparr>level = fst v, reasons = snd v, class_note = EmptyDiff\<rparr>)
           else case strict text of
             Inl _ \<Rightarrow> Inr (elevated_verdict ClassifyFailed BinaryFailed)
           | Inr None \<Rightarrow>
               (let v = evaluate (inputs files) cfg None in
                Inr \<lparr>level = fst v, reasons = snd v, class_note = BinaryAbsent\<rparr>)
           | Inr (Some cl) \<Rightarrow>
               (let v = evaluate (inputs files) cfg (Some cl) in
                Inr \<lparr>level = fst v, reasons = snd v, class_note = Summary (summary_line cl)\<rparr>))))"


section \<open>Facts about the rules\<close>

lemma effective_diff_lines_sum:
  "effective_diff_lines fs cfg
     = sum_list (map (\<lambda>f. insertions f + deletions f) (filter (counts_toward_diff cfg) fs))"
  by (induction fs) auto

lemma size_reasons_empty:
  "size_reasons sl cfg = [] \<longleftrightarrow>
     (\<exists>s n. sl = Some s \<and> map_of size_order s = Some n \<and> n \<le> rank_of size_order (max_size cfg))"
  by (auto simp: size_reasons_def split: option.splits if_splits)

lemma label_reasons_empty:
  "label_reasons ls cfg = [] \<longleftrightarrow> set ls \<inter> set (forbidden_labels cfg) = {}"
  by (auto simp: label_reasons_def filter_empty_conv)

lemma path_reasons_empty:
  "path_reasons fs cfg = [] \<longleftrightarrow> (\<forall>f \<in> set fs. \<not> matches_any_glob (fd_path f) (forbidden_paths cfg))"
proof -
  have "(case first_matching_glob p pats of None \<Rightarrow> [] | Some pat \<Rightarrow> [ForbiddenPath p pat]) = []
        \<longleftrightarrow> \<not> matches_any_glob p pats" for p pats
    by (auto simp: first_matching_glob_None[symmetric] split: option.splits)
  then show ?thesis by (simp add: path_reasons_def)
qed

lemma diff_reasons_empty:
  "diff_reasons fs cfg = [] \<longleftrightarrow> effective_diff_lines fs cfg \<le> max_effective_diff_lines cfg"
  by (auto simp: diff_reasons_def)

lemma verification_reasons_empty:
  "verification_reasons v n = [] \<longleftrightarrow> v = PBool True \<and> eq_zero n"
  by (auto simp: verification_reasons_def)

lemmas reasons_empty =
  size_reasons_empty label_reasons_empty path_reasons_empty diff_reasons_empty verification_reasons_empty

definition docs_only :: "risk_inputs \<Rightarrow> risk_config \<Rightarrow> bool" where
  "docs_only i cfg = (docs_only_low_risk cfg \<and> changed_files i \<noteq> []
     \<and> (\<forall>f \<in> set (changed_files i). is_doc (fd_path f)))"

definition rules_hold :: "risk_inputs \<Rightarrow> risk_config \<Rightarrow> bool" where
  "rules_hold i cfg =
     ((\<exists>s n. size_label i = Some s \<and> map_of size_order s = Some n
             \<and> n \<le> rank_of size_order (max_size cfg))
      \<and> set (labels i) \<inter> set (forbidden_labels cfg) = {}
      \<and> (\<forall>f \<in> set (changed_files i). \<forall>p \<in> set (forbidden_paths cfg). \<not> glob_matches (fd_path f) p)
      \<and> sum_list (map (\<lambda>f. insertions f + deletions f)
                   (filter (counts_toward_diff cfg) (changed_files i))) \<le> max_effective_diff_lines cfg
      \<and> verified i = PBool True \<and> eq_zero (verification_iterations i))"

lemma evaluate_rules_low:
  "fst (evaluate_rules i cfg) = Low \<longleftrightarrow> docs_only i cfg \<or> rules_hold i cfg"
proof -
  have "rules_hold i cfg \<longleftrightarrow>
      size_reasons (size_label i) cfg @ label_reasons (labels i) cfg
        @ path_reasons (changed_files i) cfg @ diff_reasons (changed_files i) cfg
        @ verification_reasons (verified i) (verification_iterations i) = []"
    unfolding append_is_Nil_conv reasons_empty rules_hold_def effective_diff_lines_sum
    by (auto simp: matches_any_glob_iff)
  then show ?thesis
    by (simp add: evaluate_rules_def docs_only_def Let_def list_all_iff)
qed

definition class_quiet :: "classification option \<Rightarrow> bool" where
  "class_quiet cls = (case cls of None \<Rightarrow> True | Some cl \<Rightarrow>
     py_lower (cl_risk cl) \<notin> {''high'', ''critical''} \<and> \<not> cl_financial cl \<and> cl_gate_signals cl = [])"

lemma classification_reasons_empty: "classification_reasons cls = [] \<longleftrightarrow> class_quiet cls"
  by (auto simp: classification_reasons_def class_quiet_def elevating_risk_tiers_def split: option.splits)

section \<open>Properties\<close>

text \<open>
  Exactly when a change is low risk: the path-derived classification, if there is
  one, raises nothing, and either the diff is a non-empty set of Markdown files (with the
  carve-out enabled) or every rule holds: a recognised size within the maximum, no
  forbidden label, no touched path that matches a forbidden glob, an effective diff (test
  and generated files left out) within the limit, and first-pass verification.
\<close>

theorem low_risk_exactly:
  "fst (evaluate i cfg cls) = Low \<longleftrightarrow> class_quiet cls \<and> (docs_only i cfg \<or> rules_hold i cfg)"
  by (auto simp: evaluate_def Let_def classification_reasons_empty evaluate_rules_low[symmetric])

text \<open>
  The classification can only add review: with one present the verdict is at least as
  strict, every reason of an elevated verdict is kept in its place, and without it the
  verdict is that of the rules alone.
\<close>

theorem classification_only_elevates:
  "evaluate i cfg None = evaluate_rules i cfg
   \<and> (fst (evaluate i cfg None) = Elevated \<longrightarrow>
        fst (evaluate i cfg cls) = Elevated
        \<and> (\<exists>more. snd (evaluate i cfg cls) = snd (evaluate i cfg None) @ more))"
  by (auto simp: evaluate_def Let_def classification_reasons_def split: option.splits)

theorem classification_only_elevates_witness:
  "fst (evaluate \<lparr>size_label = None, labels = [], changed_files = [],
      verified = PBool True, verification_iterations = PInt 0\<rparr> default_risk_config
      (Some \<lparr>cl_risk = ''low'', cl_components = [], cl_financial = True, cl_migration = False,
        cl_panel_reduced = True, cl_gate_signals = [], cl_unmatched_files = []\<rparr>)) = Elevated"
proof -
  let ?i = "\<lparr>size_label = None, labels = [], changed_files = [],
      verified = PBool True, verification_iterations = PInt 0\<rparr>"
  have "fst (evaluate ?i default_risk_config None) = Elevated" by code_simp
  then show ?thesis using classification_only_elevates by blast
qed

text \<open>
  The classifier fails closed: a low verdict means that both refs resolved to commits,
  the numstat and the unified diff of those commits were read, and the classify binary,
  when it was asked, did not fail. A git launch failure, a failing command, an undecodable
  path or a failing binary never gives a low verdict.
\<close>

theorem classify_low_means_measured:
  assumes "risk_classify task_row g strict cfg base_ref head_ref = Inr v" and "level v = Low"
  shows "\<exists>base_sha head_sha files text.
     resolve_commit (rev_parse g base_ref) = Inr base_sha
     \<and> resolve_commit (rev_parse g head_ref) = Inr head_sha
     \<and> collect_diff (numstat g base_sha head_sha) = Inr files
     \<and> unified_diff (unified g base_sha head_sha) = Inr text
     \<and> (py_strip text = [] \<or> (\<exists>cls. strict text = Inr cls \<and> class_quiet cls))"
proof -
  obtain files udiff where fd: "read_diffs g base_ref head_ref = Inr (files, udiff)"
    using assms
    by (auto simp: risk_classify_def Let_def elevated_verdict_def
        split: sum.splits if_splits git_exn.splits)
  then obtain b h where bh: "resolve_commit (rev_parse g base_ref) = Inr b"
      "resolve_commit (rev_parse g head_ref) = Inr h"
      "collect_diff (numstat g b h) = Inr files" "unified_diff (unified g b h) = Inr udiff"
    by (auto simp: read_diffs_def split: sum.splits)
  have "py_strip udiff = [] \<or> (\<exists>cls. strict udiff = Inr cls \<and> class_quiet cls)"
    using assms fd
    by (auto simp: risk_classify_def Let_def elevated_verdict_def low_risk_exactly
        split: sum.splits if_splits option.splits)
  with bh show ?thesis by blast
qed

definition example_git :: git_view where
  "example_git = \<lparr>rev_parse = (\<lambda>r. Ran 0 (r @ [CHR 10])),
     numstat = (\<lambda>b h three. if three then Ran 1 [] else Ran 0 (''3'' @ [CHR 9] @ ''0'' @ [CHR 9] @ ''a.py'')),
     unified = (\<lambda>b h three. Ran 0 ''+x'')\<rparr>"

definition example_row :: row where
  "example_row = [(''labels'', PList [PStr ''size:S'']), (''verified'', PBool True),
     (''verification_iterations'', PInt 0)]"

theorem classify_low_means_measured_witness:
  "resolve_commit (rev_parse example_git ''main'') = Inr ''main''
   \<and> (\<exists>v. risk_classify example_row example_git (\<lambda>_. Inr None) default_risk_config ''main'' ''b'' = Inr v
      \<and> level v = Low)"
proof -
  have v: "risk_classify example_row example_git (\<lambda>_. Inr None) default_risk_config ''main'' ''b''
     = Inr \<lparr>level = Low, reasons = [], class_note = BinaryAbsent\<rparr>" by code_simp
  from classify_low_means_measured [OF v] obtain b where
    "resolve_commit (rev_parse example_git ''main'') = Inr b" by auto
  moreover have "resolve_commit (rev_parse example_git ''main'') = Inr ''main''" by code_simp
  ultimately show ?thesis using v by auto
qed

text \<open>
  A loaded configuration is always usable: its maximum size is a size of the scale, its
  line limit is not negative, every entry of its four lists is either a default or a
  non-blank string, and a section that names no key gives the defaults.
\<close>

theorem loaded_config_wellformed:
  assumes "risk_config_from_mapping section = Inr c"
  shows "map_of size_order (max_size c) \<noteq> None \<and> 0 \<le> max_effective_diff_lines c
     \<and> (\<forall>g \<in> set (forbidden_labels c @ forbidden_paths c @ test_globs c @ generated_globs c).
           py_strip g \<noteq> [])
     \<and> (section = PNone \<or> section = PDict [] \<longrightarrow> c = default_risk_config)"
proof -
  have entries: "str_entries key vs = Inr out \<Longrightarrow> \<forall>g \<in> set out. py_strip g \<noteq> []" for key vs out
    by (induction vs arbitrary: out) (auto split: pyval.splits if_splits)
  have tuple: "str_tuple sec key dflt = Inr out \<Longrightarrow> \<forall>g \<in> set dflt. py_strip g \<noteq> [] \<Longrightarrow>
      \<forall>g \<in> set out. py_strip g \<noteq> []" for sec key dflt out
    by (auto simp: str_tuple_def dest!: entries split: option.splits pyval.splits)
  have d: "map_of size_order (max_size default_risk_config) \<noteq> None"
      "0 \<le> max_effective_diff_lines default_risk_config"
      "\<forall>g \<in> set (forbidden_labels default_risk_config). py_strip g \<noteq> []"
      "\<forall>g \<in> set (forbidden_paths default_risk_config). py_strip g \<noteq> []"
      "\<forall>g \<in> set (test_globs default_risk_config). py_strip g \<noteq> []"
      "\<forall>g \<in> set (generated_globs default_risk_config). py_strip g \<noteq> []"
    by code_simp+
  have ms: "read_max_size sec = Inr m \<Longrightarrow> map_of size_order m \<noteq> None" for sec m
    using d(1) by (auto simp: read_max_size_def split: option.splits pyval.splits if_splits)
  have ml: "read_max_lines sec = Inr n \<Longrightarrow> 0 \<le> n" for sec n
    using d(2) by (auto simp: read_max_lines_def split: option.splits pyval.splits if_splits)
  show ?thesis
  proof (cases "section")
    case (PDict sec)
    with assms obtain fl fp tg gg where t:
        "str_tuple sec ''forbidden_labels'' (forbidden_labels default_risk_config) = Inr fl"
        "str_tuple sec ''forbidden_paths'' (forbidden_paths default_risk_config) = Inr fp"
        "str_tuple sec ''test_globs'' (test_globs default_risk_config) = Inr tg"
        "str_tuple sec ''generated_globs'' (generated_globs default_risk_config) = Inr gg"
        "forbidden_labels c = fl" "forbidden_paths c = fp" "test_globs c = tg" "generated_globs c = gg"
        "read_max_size sec = Inr (max_size c)" "read_max_lines sec = Inr (max_effective_diff_lines c)"
        "read_docs_only sec = Inr (docs_only_low_risk c)"
      by (auto simp: risk_config_from_mapping_def Let_def split: sum.splits)
    have "sec = [] \<Longrightarrow> c = default_risk_config"
      using t by (auto simp: str_tuple_def read_max_size_def read_max_lines_def read_docs_only_def
          intro!: risk_config.equality)
    with t(5-8) ms [OF t(9)] ml [OF t(10)] tuple [OF t(1) d(3)] tuple [OF t(2) d(4)]
      tuple [OF t(3) d(5)] tuple [OF t(4) d(6)] PDict
    show ?thesis by auto
  qed (use assms d in \<open>auto simp: risk_config_from_mapping_def\<close>)
qed

theorem loaded_config_wellformed_witness:
  "\<exists>c. risk_config_from_mapping (PDict [(''max_size'', PStr ''M''), (''test_globs'', PList [PStr ''t/**''])]) = Inr c
     \<and> map_of size_order (max_size c) \<noteq> None \<and> test_globs c = [''t/**'']"
proof -
  let ?s = "PDict [(''max_size'', PStr ''M''), (''test_globs'', PList [PStr ''t/**''])]"
  have r: "risk_config_from_mapping ?s = Inr (default_risk_config
      \<lparr>max_size := ''M'', test_globs := [''t/**'']\<rparr>)" by code_simp
  from loaded_config_wellformed [OF r] r show ?thesis by auto
qed

end
