(* ===== verification/Tasks.thy ===== *)
theory Tasks
  imports Quality
begin

text \<open>
  The task rows of \<^verbatim>\<open>plan.py\<close>: the \<^verbatim>\<open>Task\<close> view, the per-row part of \<^verbatim>\<open>load_tasks\<close>, the
  dependency field, and the check that the dependency graph is closed and acyclic. An
  error is a constructor that carries what the message names.
\<close>

section \<open>Statuses and vocabularies\<close>

definition TODO :: string where "TODO = ''To Do''"
definition IN_PROGRESS :: string where "IN_PROGRESS = ''In Progress''"
definition DONE :: string where "DONE = ''Done''"
definition BLOCKED :: string where "BLOCKED = ''Blocked''"
definition ESCALATED :: string where "ESCALATED = ''Escalated''"
definition AWAITING_REVIEW :: string where "AWAITING_REVIEW = ''Awaiting Review''"
definition MERGED :: string where "MERGED = ''Merged''"

lemmas status_defs = TODO_def IN_PROGRESS_def DONE_def BLOCKED_def ESCALATED_def
  AWAITING_REVIEW_def MERGED_def

lemma status_distinct [simp]:
  "TODO \<noteq> DONE" "DONE \<noteq> TODO" "AWAITING_REVIEW \<noteq> MERGED" "MERGED \<noteq> AWAITING_REVIEW"
  "DONE \<noteq> AWAITING_REVIEW" "DONE \<noteq> MERGED" "TODO \<noteq> MERGED" "MERGED \<noteq> TODO"
  "TODO \<noteq> AWAITING_REVIEW" "AWAITING_REVIEW \<noteq> TODO" "AWAITING_REVIEW \<noteq> DONE" "MERGED \<noteq> DONE"
  by (simp_all add: status_defs)

definition known_agents :: "string list" where
  "known_agents = [''claude'', ''codex'', ''grok'', ''gemini'', ''kimi'', ''glm'', ''deepseek'']"

definition known_efforts :: "string list" where
  "known_efforts = [''low'', ''medium'', ''high'', ''xhigh'', ''max'', ''ultra'']"

definition agent_efforts :: "(string \<times> string list) list" where
  "agent_efforts =
     [(''claude'', [''low'', ''medium'', ''high'']),
      (''codex'', [''low'', ''medium'', ''high'', ''xhigh'', ''max'', ''ultra'']),
      (''grok'', [''low'', ''medium'', ''high'', ''xhigh''])]"

section \<open>The task view\<close>

record task =
  t_key :: string
  t_summary :: string
  t_description :: string
  t_type :: string
  t_labels :: "string list"
  t_blocked_by :: "string list"
  t_status :: string
  t_raw :: row
  t_model :: "string option"
  t_owns :: "string list"
  t_agent :: "string option"
  t_effort :: "string option"
  t_batch_id :: "string option"
  t_verify :: "string option"
  t_panel :: "string option"
  t_design :: "bool option"

definition is_runnable_status :: "task \<Rightarrow> bool" where
  "is_runnable_status t = (t_status t = TODO)"

definition is_done :: "task \<Rightarrow> bool" where
  "is_done t = (t_status t = DONE)"

definition is_merged :: "task \<Rightarrow> bool" where
  "is_merged t = (t_status t = MERGED)"

datatype load_error =
    RootNotMapping
  | TasksNotSequence
  | RowNotMapping nat
  | MissingFields nat "string list"
  | NoSizeLabel nat
  | DuplicateKey string
  | UnknownAgent nat string
  | UnknownEffort nat string
  | EffortNotAccepted nat string string
  | UnknownVerify nat string
  | UnknownPanel nat string
  | UnknownDesign nat pyval
  | AmbiguousDependencies nat "string list"
  | UnknownDependency string string
  | DependencyCycle "string list"
  | ModelFloorNotMapping
  | ModelFloorEmpty
  | WorklistRefused nat      \<comment> \<open>number of collected defects\<close>
  | PyTypeError              \<comment> \<open>iterating a value that is no sequence\<close>
  | PyKeyError string

section \<open>Reading one row\<close>

definition as_str_list :: "pyval \<Rightarrow> load_error + string list" where
  "as_str_list v = (case v of
       PNone \<Rightarrow> Inr []
     | PList vs \<Rightarrow> Inr (map py_str vs)
     | PStr s \<Rightarrow> Inr (map (\<lambda>c. [c]) s)
     | PDict kvs \<Rightarrow> Inr (map fst kvs)
     | _ \<Rightarrow> Inl PyTypeError)"

definition size_names :: "string list" where
  "size_names = [''XS'', ''S'', ''M'', ''L'', ''XL'']"

definition size_pattern_match :: "string \<Rightarrow> bool" where
  \<comment> \<open>\<^verbatim>\<open>^size:(XS|S|M|L|XL)$\<close>; the dollar also matches before a final line feed\<close>
  "size_pattern_match lbl =
     list_ex (\<lambda>n. lbl = ''size:'' @ n \<or> lbl = ''size:'' @ n @ [CHR 10]) size_names"

definition required_fields :: "string list" where
  "required_fields = [''key'', ''summary'', ''description'', ''type'', ''labels'']"

definition missing_fields :: "row \<Rightarrow> string list" where
  "missing_fields r = filter (\<lambda>f. map_of r f = None) required_fields"

definition stripped_field :: "row \<Rightarrow> string \<Rightarrow> string option" where
  \<comment> \<open>\<^verbatim>\<open>str(v).strip()\<close> of a truthy value; an absent, falsy or blank one is None\<close>
  "stripped_field r k =
     (let v = row_get r k in
      if truthy v \<and> py_strip (py_str v) \<noteq> [] then Some (py_strip (py_str v)) else None)"

definition lowered_field :: "row \<Rightarrow> string \<Rightarrow> string option" where
  "lowered_field r k = map_option py_lower (stripped_field r k)"

definition read_effort :: "row \<Rightarrow> nat \<Rightarrow> string option \<Rightarrow> load_error + string option" where
  "read_effort r idx agent =
     (case lowered_field r ''effort'' of
        None \<Rightarrow> Inr None
      | Some e \<Rightarrow>
          if e \<notin> set known_efforts then Inl (UnknownEffort idx e)
          else (let a = (case agent of None \<Rightarrow> ''claude'' | Some x \<Rightarrow> x) in
                case map_of agent_efforts a of
                  None \<Rightarrow> Inr (Some e)
                | Some allowed \<Rightarrow> if e \<in> set allowed then Inr (Some e)
                                  else Inl (EffortNotAccepted idx e a)))"

definition read_agent :: "row \<Rightarrow> nat \<Rightarrow> load_error + string option" where
  "read_agent r idx =
     (case lowered_field r ''agent'' of
        None \<Rightarrow> Inr None
      | Some a \<Rightarrow> if a \<in> set known_agents then Inr (Some a) else Inl (UnknownAgent idx a))"

definition read_verify :: "row \<Rightarrow> nat \<Rightarrow> load_error + string option" where
  "read_verify r idx =
     (case lowered_field r ''verify'' of
        None \<Rightarrow> Inr None
      | Some v \<Rightarrow> if v \<in> set known_verify then Inr (Some v) else Inl (UnknownVerify idx v))"

definition read_panel :: "row \<Rightarrow> nat \<Rightarrow> load_error + string option" where
  "read_panel r idx =
     (case lowered_field r ''panel'' of
        None \<Rightarrow> Inr None
      | Some v \<Rightarrow> if v \<in> set known_panel then Inr (Some v) else Inl (UnknownPanel idx v))"

definition read_design :: "row \<Rightarrow> nat \<Rightarrow> load_error + bool option" where
  "read_design r idx =
     (case row_get r ''design'' of
        PNone \<Rightarrow> Inr None
      | PBool b \<Rightarrow> Inr (Some b)
      | v \<Rightarrow> if v = PStr [] then Inr None
             else (let s = py_lower (py_strip (py_str v)) in
               if s \<in> set [''true'', ''yes'', ''1'', ''on''] then Inr (Some True)
               else if s \<in> set [''false'', ''no'', ''0'', ''off''] then Inr (Some False)
               else Inl (UnknownDesign idx v)))"

definition dep_field_aliases :: "string list" where
  "dep_field_aliases = [''blockedBy'', ''blocked_by'', ''depends_on'', ''dependsOn'']"

definition dependency_list :: "row \<Rightarrow> nat \<Rightarrow> load_error + string list" where
  "dependency_list r idx =
     (case filter (\<lambda>f. row_get r f \<noteq> PNone) dep_field_aliases of
        [] \<Rightarrow> Inr []
      | [f] \<Rightarrow> as_str_list (row_get r f)
      | fs \<Rightarrow> Inl (AmbiguousDependencies idx fs))"

definition read_status :: "row \<Rightarrow> string" where
  "read_status r = (case map_of r ''status'' of None \<Rightarrow> TODO | Some v \<Rightarrow> py_str v)"

definition parse_row :: "nat \<Rightarrow> string list \<Rightarrow> pyval \<Rightarrow> load_error + task" where
  \<comment> \<open>the body of \<^verbatim>\<open>load_tasks\<close>' loop; \<open>seen\<close> holds the keys of the rows before\<close>
  "parse_row idx seen v =
    (case v of
       PDict r \<Rightarrow>
        if missing_fields r \<noteq> [] then Inl (MissingFields idx (missing_fields r)) else
        (case as_str_list (row_get r ''labels'') of Inl e \<Rightarrow> Inl e | Inr labels \<Rightarrow>
         if \<not> list_ex size_pattern_match labels then Inl (NoSizeLabel idx) else
         (let key = py_str (row_get r ''key'') in
          if key \<in> set seen then Inl (DuplicateKey key) else
          case as_str_list (row_get r ''owns'') of Inl e \<Rightarrow> Inl e | Inr owns \<Rightarrow>
          case read_agent r idx of Inl e \<Rightarrow> Inl e | Inr agent \<Rightarrow>
          case read_effort r idx agent of Inl e \<Rightarrow> Inl e | Inr effort \<Rightarrow>
          case read_verify r idx of Inl e \<Rightarrow> Inl e | Inr verify \<Rightarrow>
          case read_panel r idx of Inl e \<Rightarrow> Inl e | Inr panel \<Rightarrow>
          case read_design r idx of Inl e \<Rightarrow> Inl e | Inr design \<Rightarrow>
          case dependency_list r idx of Inl e \<Rightarrow> Inl e | Inr deps \<Rightarrow>
          Inr \<lparr>t_key = key, t_summary = py_str (row_get r ''summary''),
               t_description = py_str (row_get r ''description''),
               t_type = py_str (row_get r ''type''), t_labels = labels,
               t_blocked_by = deps, t_status = read_status r, t_raw = r,
               t_model = stripped_field r ''model'', t_owns = owns, t_agent = agent,
               t_effort = effort, t_batch_id = stripped_field r ''batch_id'',
               t_verify = verify, t_panel = panel, t_design = design\<rparr>))
     | _ \<Rightarrow> Inl (RowNotMapping idx))"

fun parse_rows :: "nat \<Rightarrow> string list \<Rightarrow> pyval list \<Rightarrow> load_error + task list" where
  "parse_rows idx seen [] = Inr []"
| "parse_rows idx seen (v # vs) =
     (case parse_row idx seen v of
        Inl e \<Rightarrow> Inl e
      | Inr t \<Rightarrow> map_sum id ((#) t) (parse_rows (Suc idx) (t_key t # seen) vs))"

section \<open>The dependency graph\<close>

definition graph_of :: "task list \<Rightarrow> (string \<times> string list) list" where
  \<comment> \<open>\<^verbatim>\<open>{t.key: t}\<close>: of two rows with one key the later counts\<close>
  "graph_of tasks = rev (map (\<lambda>t. (t_key t, t_blocked_by t)) tasks)"

text \<open>
  \<^verbatim>\<open>_check_for_cycles\<close>: \<open>visit\<close> over a list of keys. \<open>stack\<close> is the code's stack, whose members
  are its \<^verbatim>\<open>visiting\<close> set; \<open>visited\<close> lists the finished keys, the latest first. Looking up
  a key that is no task raises \<^verbatim>\<open>KeyError\<close>.
\<close>

function visit :: "(string \<times> string list) list \<Rightarrow> string list \<Rightarrow> string list \<Rightarrow> string list
    \<Rightarrow> load_error + string list" where
  "visit g [] stack visited = Inr visited"
| "visit g (k # ks) stack visited =
     (if k \<in> set visited then visit g ks stack visited
      else if k \<in> set stack then Inl (DependencyCycle (dropWhile (\<lambda>x. x \<noteq> k) stack @ [k]))
      else case map_of g k of
          None \<Rightarrow> Inl (PyKeyError k)
        | Some deps \<Rightarrow>
            (case visit g deps (stack @ [k]) visited of
               Inl e \<Rightarrow> Inl e
             | Inr visited' \<Rightarrow> visit g ks stack (k # visited')))"
  by pat_completeness auto

termination visit
proof (relation "measures [\<lambda>(g, ks, stack, visited). card (fst ` set g - set stack),
                           \<lambda>(g, ks, stack, visited). length ks]", goal_cases)
  case (3 g k ks stack visited deps)
  then have "k \<in> fst ` set g - set stack"
    by (metis DiffI domI dom_map_of_conv_image_fst)
  then have "fst ` set g - set (stack @ [k]) \<subset> fst ` set g - set stack" by auto
  then have "card (fst ` set g - set (stack @ [k])) < card (fst ` set g - set stack)"
    by (rule psubset_card_mono [rotated]) simp
  then show ?case by simp
qed auto

definition check_for_cycles :: "task list \<Rightarrow> load_error option" where
  "check_for_cycles tasks =
     (case visit (graph_of tasks) (map t_key tasks) [] [] of Inl e \<Rightarrow> Some e | Inr _ \<Rightarrow> None)"

fun first_unknown_dep :: "string list \<Rightarrow> task list \<Rightarrow> load_error option" where
  "first_unknown_dep known_keys [] = None"
| "first_unknown_dep known_keys (t # ts) =
     (case filter (\<lambda>d. d \<notin> set known_keys) (t_blocked_by t) of
        d # _ \<Rightarrow> Some (UnknownDependency (t_key t) d)
      | [] \<Rightarrow> first_unknown_dep known_keys ts)"

definition validate_blocked_by :: "task list \<Rightarrow> load_error option" where
  "validate_blocked_by tasks =
     (case first_unknown_dep (map t_key tasks) tasks of
        Some e \<Rightarrow> Some e
      | None \<Rightarrow> check_for_cycles tasks)"


section \<open>Correctness of the cycle check\<close>

definition edges :: "(string \<times> string list) list \<Rightarrow> (string \<times> string) set" where
  "edges g = {(k, d). \<exists>ds. map_of g k = Some ds \<and> d \<in> set ds}"

fun finished :: "(string \<times> string list) list \<Rightarrow> string list \<Rightarrow> bool" where
  \<comment> \<open>every key comes after all its dependencies (the list is latest first)\<close>
  "finished g [] = True"
| "finished g (k # v) =
     (finished g v \<and> (\<exists>ds. map_of g k = Some ds \<and> set ds \<subseteq> set v))"

lemma visit_ConsE:
  assumes "visit g (k # ks) stack visited = Inr v"
  obtains (seen) "k \<in> set visited" "visit g ks stack visited = Inr v"
  | (new) ds w where "k \<notin> set visited" "k \<notin> set stack" "map_of g k = Some ds"
      "visit g ds (stack @ [k]) visited = Inr w" "visit g ks stack (k # w) = Inr v"
  using assms by (auto split: if_splits option.splits sum.splits)

lemma visit_finished:
  "visit g ks stack visited = Inr v \<Longrightarrow> finished g visited \<Longrightarrow>
     finished g v \<and> set ks \<subseteq> set v \<and> set visited \<subseteq> set v"
proof (induction g ks stack visited arbitrary: v rule: visit.induct)
  case (2 g k ks stack visited)
  from "2.prems"(1) show ?case
  proof (cases rule: visit_ConsE)
    case seen
    from "2.IH"(1) [OF seen "2.prems"(2)] seen(1) show ?thesis by auto
  next
    case (new ds w)
    from "2.IH"(2) [OF new(1-4) "2.prems"(2)] have w: "finished g w" "set ds \<subseteq> set w"
      "set visited \<subseteq> set w" by auto
    with new(3) have "finished g (k # w)" by simp
    from "2.IH"(3) [OF new(1-4) new(5) this] w show ?thesis by auto
  qed
qed simp

lemma finished_closed: "finished g v \<Longrightarrow> k \<in> set v \<Longrightarrow> (k, d) \<in> edges g \<Longrightarrow> d \<in> set v"
  by (induction v) (auto simp: edges_def)

lemma finished_closed_trancl:
  "(k, d) \<in> (edges g)\<^sup>+ \<Longrightarrow> finished g v \<Longrightarrow> k \<in> set v \<Longrightarrow> d \<in> set v"
  by (induction rule: trancl.induct) (auto dest: finished_closed)

lemma finished_acyclic: "finished g v \<Longrightarrow> k \<in> set v \<Longrightarrow> (k, k) \<notin> (edges g)\<^sup>+"
proof (induction v)
  case (Cons x v)
  show ?case
  proof (cases "k \<in> set v")
    case True
    with Cons show ?thesis by simp
  next
    case False
    with Cons.prems have k: "k = x" by simp
    show ?thesis
    proof
      assume "(k, k) \<in> (edges g)\<^sup>+"
      then obtain d where d: "(k, d) \<in> edges g" "(d, k) \<in> (edges g)\<^sup>*"
        by (metis tranclD)
      with Cons.prems k have "d \<in> set v" by (auto simp: edges_def)
      moreover from d have "d = k \<or> (d, k) \<in> (edges g)\<^sup>+" by (auto simp: rtrancl_eq_or_trancl)
      ultimately have "k \<in> set v"
        using Cons.prems(1) finished_closed_trancl by fastforce
      with False show False by blast
    qed
  qed
qed simp

definition path_in :: "(string \<times> string) set \<Rightarrow> string list \<Rightarrow> bool" where
  "path_in E p = (\<forall>i. Suc i < length p \<longrightarrow> (p ! i, p ! Suc i) \<in> E)"

lemma path_in_snoc:
  "path_in E (p @ [k]) \<longleftrightarrow> path_in E p \<and> (p \<noteq> [] \<longrightarrow> (last p, k) \<in> E)"
  by (induction p rule: rev_induct)
     (auto simp: path_in_def nth_append less_Suc_eq all_conj_distrib split: if_splits)

lemma path_in_append: "path_in E (p @ q) \<Longrightarrow> path_in E q"
proof (induction p)
  case (Cons a p)
  have "path_in E (p @ q)"
    unfolding path_in_def
  proof (intro allI impI)
    fix i assume "Suc i < length (p @ q)"
    then show "((p @ q) ! i, (p @ q) ! Suc i) \<in> E"
      using Cons.prems unfolding path_in_def by (auto dest: spec [of _ "Suc i"])
  qed
  with Cons.IH show ?case by blast
qed simp

definition cycle_in :: "(string \<times> string) set \<Rightarrow> string list \<Rightarrow> bool" where
  "cycle_in E c = (2 \<le> length c \<and> hd c = last c \<and> path_in E c)"

lemma visit_error:
  "visit g ks stack visited = Inl e \<Longrightarrow> path_in (edges g) stack \<Longrightarrow>
     (stack \<noteq> [] \<longrightarrow> (\<forall>k \<in> set ks. (last stack, k) \<in> edges g)) \<Longrightarrow>
     (\<exists>c. e = DependencyCycle c \<and> cycle_in (edges g) c)
     \<or> (\<exists>k. e = PyKeyError k \<and> map_of g k = None \<and> (k \<in> set ks \<or> k \<in> Range (edges g)))"
proof (induction g ks stack visited rule: visit.induct)
  case (2 g k ks stack visited)
  show ?case
  proof (cases "k \<in> set visited")
    case True
    from "2.IH"(1) [OF True] "2.prems" True show ?thesis by auto
  next
    case nv: False
    show ?thesis
    proof (cases "k \<in> set stack")
      case True
      let ?c = "dropWhile (\<lambda>x. x \<noteq> k) stack"
      from True have c: "?c \<noteq> []" "hd ?c = k" by (auto simp: dropWhile_eq_Nil_conv hd_dropWhile)
        (metis (mono_tags, lifting) dropWhile_eq_Nil_conv hd_dropWhile)
      have "path_in (edges g) (stack @ [k])"
        using "2.prems"(2,3) by (simp add: path_in_snoc)
      then have "path_in (edges g) (?c @ [k])"
        by (metis append_assoc path_in_append takeWhile_dropWhile_id)
      with c have "cycle_in (edges g) (?c @ [k])" by (cases ?c) (auto simp: cycle_in_def)
      with "2.prems"(1) nv True show ?thesis by auto
    next
      case ns: False
      show ?thesis
      proof (cases "map_of g k")
        case None
        with "2.prems"(1) nv ns show ?thesis by auto
      next
        case (Some ds)
        have p: "path_in (edges g) (stack @ [k])"
          using "2.prems"(2,3) by (simp add: path_in_snoc)
        have e: "\<forall>d \<in> set ds. (k, d) \<in> edges g" using Some by (auto simp: edges_def)
        show ?thesis
        proof (cases "visit g ds (stack @ [k]) visited")
          case (Inl e')
          then have v: "visit g ds (stack @ [k]) visited = Inl e"
            using "2.prems"(1) nv ns Some by simp
          have "set ds \<subseteq> Range (edges g)" using e by blast
          with "2.IH"(2) [OF nv ns Some v p] e show ?thesis by auto
        next
          case (Inr w)
          then have "visit g ks stack (k # w) = Inl e" using "2.prems"(1) nv ns Some by simp
          from "2.IH"(3) [OF nv ns Some Inr this "2.prems"(2)] "2.prems"(3) show ?thesis by auto
        qed
      qed
    qed
  qed
qed simp


lemma path_in_trancl:
  "path_in E p \<Longrightarrow> 2 \<le> length p \<Longrightarrow> (hd p, last p) \<in> E\<^sup>+"
proof (induction p rule: rev_induct)
  case (snoc k p)
  show ?case
  proof (cases "length p = 1")
    case True
    then obtain a where a: "p = [a]" by (auto simp: length_Suc_conv)
    have "(last p, k) \<in> E" using snoc.prems(1) a unfolding path_in_snoc by simp
    with a show ?thesis by auto
  next
    case False
    with snoc.prems have "2 \<le> length p" by simp
    with snoc have "(hd p, last p) \<in> E\<^sup>+" "(last p, k) \<in> E" by (auto simp: path_in_snoc)
    then show ?thesis using \<open>2 \<le> length p\<close> by (cases p) auto
  qed
qed simp

lemma cycle_in_not_acyclic: "cycle_in E c \<Longrightarrow> \<not> acyclic E"
  using path_in_trancl [of E c] by (auto simp: cycle_in_def acyclic_def)

lemma first_unknown_dep_None:
  "first_unknown_dep ks ts = None \<longleftrightarrow> (\<forall>t \<in> set ts. set (t_blocked_by t) \<subseteq> set ks)"
  by (induction ts) (auto simp: filter_empty_conv dest!: filter_eq_ConsD split: list.splits)

lemma graph_of_dom: "(\<exists>ds. map_of (graph_of tasks) k = Some ds) \<longleftrightarrow> k \<in> t_key ` set tasks"
proof -
  have "dom (map_of (graph_of tasks)) = t_key ` set tasks"
    by (simp add: dom_map_of_conv_image_fst graph_of_def image_image)
  then show ?thesis by (auto simp: dom_def)
qed

lemma graph_of_Some: "map_of (graph_of tasks) k = Some ds \<Longrightarrow> \<exists>t \<in> set tasks. t_key t = k \<and> t_blocked_by t = ds"
  by (auto simp: graph_of_def dest!: map_of_SomeD)

lemma check_for_cycles_None:
  assumes "check_for_cycles tasks = None"
  shows "acyclic (edges (graph_of tasks))"
proof -
  obtain v where v: "visit (graph_of tasks) (map t_key tasks) [] [] = Inr v"
    using assms by (auto simp: check_for_cycles_def split: sum.splits)
  from visit_finished [OF this] have f: "finished (graph_of tasks) v" "t_key ` set tasks \<subseteq> set v"
    by auto
  show ?thesis
    unfolding acyclic_def
  proof (intro allI notI)
    fix k assume "(k, k) \<in> (edges (graph_of tasks))\<^sup>+"
    moreover from this obtain d where "(k, d) \<in> edges (graph_of tasks)" by (meson tranclD)
    then have "k \<in> t_key ` set tasks"
      using graph_of_dom [of tasks k] by (auto simp: edges_def)
    ultimately show False using finished_acyclic f by blast
  qed
qed

lemma check_for_cycles_Some:
  assumes "check_for_cycles tasks = Some e" and known: "\<forall>t \<in> set tasks. set (t_blocked_by t) \<subseteq> t_key ` set tasks"
  shows "\<exists>c. e = DependencyCycle c \<and> cycle_in (edges (graph_of tasks)) c"
proof -
  have v: "visit (graph_of tasks) (map t_key tasks) [] [] = Inl e"
    using assms by (auto simp: check_for_cycles_def split: sum.splits)
  have in_graph: "k \<in> t_key ` set tasks" if "k \<in> set (map t_key tasks) \<or> k \<in> Range (edges (graph_of tasks))" for k
    using that known by (auto simp: edges_def dest!: graph_of_Some)
  from visit_error [OF v] consider "\<exists>c. e = DependencyCycle c \<and> cycle_in (edges (graph_of tasks)) c"
    | k where "map_of (graph_of tasks) k = None"
        "k \<in> set (map t_key tasks) \<or> k \<in> Range (edges (graph_of tasks))"
    by (auto simp: path_in_def)
  then show ?thesis
  proof cases
    case (2 k)
    from in_graph [OF 2(2)] 2(1) show ?thesis by (simp flip: graph_of_dom)
  qed
qed

lemma first_unknown_dep_Some: "first_unknown_dep ks ts = Some e \<Longrightarrow> \<exists>k d. e = UnknownDependency k d"
  by (induction ts) (auto split: list.splits)

section \<open>Properties\<close>

text \<open>
  The dependency check accepts a worklist exactly when every dependency names a row of
  the file and the graph has no cycle; a cycle it reports is a real one, a list of at least
  two keys that follows dependency edges and ends where it starts.
\<close>

theorem validate_blocked_by_exact:
  "(validate_blocked_by tasks = None \<longleftrightarrow>
      (\<forall>t \<in> set tasks. set (t_blocked_by t) \<subseteq> t_key ` set tasks) \<and> acyclic (edges (graph_of tasks)))
   \<and> (\<forall>c. validate_blocked_by tasks = Some (DependencyCycle c) \<longrightarrow> cycle_in (edges (graph_of tasks)) c)"
proof (cases "first_unknown_dep (map t_key tasks) tasks")
  case (Some e)
  from first_unknown_dep_Some [OF this] Some
    first_unknown_dep_None [of "map t_key tasks" tasks]
  show ?thesis by (auto simp: validate_blocked_by_def)
next
  case None
  then have known: "\<forall>t \<in> set tasks. set (t_blocked_by t) \<subseteq> t_key ` set tasks"
    by (simp add: first_unknown_dep_None)
  with None check_for_cycles_None [of tasks] check_for_cycles_Some [of tasks]
  show ?thesis
    by (cases "check_for_cycles tasks")
       (auto simp: validate_blocked_by_def dest: cycle_in_not_acyclic)
qed

definition example_task :: "string \<Rightarrow> string list \<Rightarrow> string \<Rightarrow> task" where
  "example_task k deps st = \<lparr>t_key = k, t_summary = [], t_description = [], t_type = ''task'',
     t_labels = [''size:S''], t_blocked_by = deps, t_status = st, t_raw = [], t_model = None,
     t_owns = [], t_agent = None, t_effort = None, t_batch_id = None, t_verify = None,
     t_panel = None, t_design = None\<rparr>"

theorem validate_blocked_by_exact_witness:
  "cycle_in (edges (graph_of [example_task ''A'' [''B''] TODO, example_task ''B'' [''A''] TODO]))
     [''A'', ''B'', ''A'']"
proof -
  let ?ts = "[example_task ''A'' [''B''] TODO, example_task ''B'' [''A''] TODO]"
  have "validate_blocked_by ?ts = Some (DependencyCycle [''A'', ''B'', ''A''])" by code_simp
  then show ?thesis using validate_blocked_by_exact [of ?ts] by blast
qed

section \<open>Well-formed rows\<close>

definition wf_task :: "task \<Rightarrow> bool" where
  "wf_task t =
     (list_ex size_pattern_match (t_labels t)
      \<and> (\<forall>a. t_agent t = Some a \<longrightarrow> a \<in> set known_agents)
      \<and> (\<forall>e. t_effort t = Some e \<longrightarrow> e \<in> set known_efforts
            \<and> (\<forall>allowed. map_of agent_efforts (case t_agent t of None \<Rightarrow> ''claude'' | Some a \<Rightarrow> a)
                  = Some allowed \<longrightarrow> e \<in> set allowed))
      \<and> (\<forall>v. t_verify t = Some v \<longrightarrow> v \<in> set known_verify)
      \<and> (\<forall>p. t_panel t = Some p \<longrightarrow> p \<in> set known_panel)
      \<and> t_model t \<noteq> Some [] \<and> t_batch_id t \<noteq> Some [])"

lemma parse_row_wf: "parse_row idx seen v = Inr t \<Longrightarrow> wf_task t \<and> t_key t \<notin> set seen"
proof -
  assume p: "parse_row idx seen v = Inr t"
  then obtain r where v: "v = PDict r" by (cases v) (auto simp: parse_row_def)
  from p v obtain labels owns agent effort verify panel design deps where
    t: "list_ex size_pattern_match labels" "py_str (row_get r ''key'') \<notin> set seen"
      "read_agent r idx = Inr agent" "read_effort r idx agent = Inr effort"
      "read_verify r idx = Inr verify" "read_panel r idx = Inr panel"
      "t_key t = py_str (row_get r ''key'')" "t_labels t = labels" "t_agent t = agent"
      "t_effort t = effort" "t_verify t = verify" "t_panel t = panel"
      "t_model t = stripped_field r ''model''" "t_batch_id t = stripped_field r ''batch_id''"
    by (auto simp: parse_row_def Let_def split: if_splits sum.splits)
  have s: "stripped_field r k \<noteq> Some []" for k by (simp add: stripped_field_def Let_def)
  from t(3) have "\<forall>a. agent = Some a \<longrightarrow> a \<in> set known_agents"
    by (auto simp: read_agent_def split: option.splits if_splits)
  moreover from t(4) have "\<forall>e. effort = Some e \<longrightarrow> e \<in> set known_efforts
      \<and> (\<forall>allowed. map_of agent_efforts (case agent of None \<Rightarrow> ''claude'' | Some a \<Rightarrow> a)
            = Some allowed \<longrightarrow> e \<in> set allowed)"
    by (auto simp: read_effort_def Let_def split: option.splits if_splits)
  moreover from t(5) have "\<forall>v. verify = Some v \<longrightarrow> v \<in> set known_verify"
    by (auto simp: read_verify_def split: option.splits if_splits)
  moreover from t(6) have "\<forall>v. panel = Some v \<longrightarrow> v \<in> set known_panel"
    by (auto simp: read_panel_def split: option.splits if_splits)
  ultimately show ?thesis using t s by (simp add: wf_task_def)
qed

lemma parse_rows_wf:
  "parse_rows idx seen vs = Inr ts \<Longrightarrow>
     length ts = length vs \<and> (\<forall>t \<in> set ts. wf_task t)
     \<and> distinct (map t_key ts) \<and> set (map t_key ts) \<inter> set seen = {}"
proof (induction vs arbitrary: idx seen ts)
  case (Cons v vs)
  then obtain t us where t: "parse_row idx seen v = Inr t"
      "parse_rows (Suc idx) (t_key t # seen) vs = Inr us" "ts = t # us"
    by (auto split: sum.splits)
  from parse_row_wf [OF t(1)] Cons.IH [OF t(2)] t(3) show ?case by auto
qed simp

end
