(* ===== verification/Roles.thy ===== *)
theory Roles
  imports Glob Tasks
begin

text \<open>
  The build protocol's vocabulary and policy (\<^verbatim>\<open>role_protocol.py\<close>): the roles, the path rule
  of each role, the floor no role may write, the reading of a task row's role fields, and
  the two ways a rule can be extended (a task's \<^verbatim>\<open>immutable_paths\<close>, the repository's
  \<^verbatim>\<open>roles\<close> section). A rule's \<open>rationale\<close> is message text that no decision reads and is left
  out; an error is a constructor that carries what its message names.
\<close>

section \<open>Roles and rules\<close>

datatype role = Scaffold | Seals | Bodies | Adjudicate | Legacy

fun role_value :: "role \<Rightarrow> string" where
  "role_value Scaffold = ''scaffold''"
| "role_value Seals = ''seals''"
| "role_value Bodies = ''bodies''"
| "role_value Adjudicate = ''adjudicate''"
| "role_value Legacy = ''legacy''"

definition authorable_roles :: "role list" where
  "authorable_roles = [Scaffold, Seals, Bodies, Adjudicate]"

definition mandatory_phase_order :: "role list" where
  "mandatory_phase_order = [Scaffold, Seals, Bodies]"

definition role_field_aliases :: "string list" where
  "role_field_aliases = [''role'', ''roles'', ''task_role'']"

datatype suite_expectation = Green | RedFromOwnRows | Unjudged

fun suite_expectation_of :: "role \<Rightarrow> suite_expectation" where
  "suite_expectation_of Seals = Unjudged"
| "suite_expectation_of Scaffold = Green"
| "suite_expectation_of Bodies = Green"
| "suite_expectation_of Adjudicate = Green"
| "suite_expectation_of Legacy = Green"

datatype rule_kind = DenyGlobs | AllowOnlyGlobs | Unrestricted

record role_rule =
  rr_role :: role
  rr_kind :: rule_kind
  rr_globs :: "string list"

definition allowlist_miss :: string where
  "allowlist_miss = ''<allowlist miss: path is outside the role's writable set>''"

definition seal_verify_test_paths :: string where
  "seal_verify_test_paths = ''<seal_verify.is_test_path: this repo's test files>''"

definition test_path_delegated_roles :: "role list" where
  "test_path_delegated_roles = [Scaffold, Bodies]"

definition rulings_glob :: string where
  "rulings_glob = ''**/docs/rulings/**''"

definition default_role_rules :: "role_rule list" where
  "default_role_rules =
     [\<lparr>rr_role = Scaffold, rr_kind = DenyGlobs, rr_globs =
        [''**/tests/**'', ''**/test_*.py'', ''**/*_test.py'', ''**/*_test.go'',
         ''**/*.test.*'', ''**/*.spec.*'', ''**/testdata/**'', ''**/conftest.py'',
         ''**/.dispatcher.yaml'', ''**/.dispatcher.staged.yaml'', ''**/roles/*.md'',
         ''**/reviewer_prompts/**'', ''**/verifier_prompts/**'']\<rparr>,
      \<lparr>rr_role = Seals, rr_kind = AllowOnlyGlobs, rr_globs =
        [seal_verify_test_paths, ''**/docs/**'']\<rparr>,
      \<lparr>rr_role = Bodies, rr_kind = DenyGlobs, rr_globs =
        [''**/tests/**'', ''**/test_*.py'', ''**/*_test.py'', ''**/*_test.go'',
         ''**/*.test.*'', ''**/*.spec.*'', ''**/testdata/**'', ''**/conftest.py'',
         ''**/schema/**'', ''**/.dispatcher.yaml'', ''**/.dispatcher.staged.yaml'',
         ''**/roles/*.md'', ''**/reviewer_prompts/**'', ''**/verifier_prompts/**'']\<rparr>,
      \<lparr>rr_role = Adjudicate, rr_kind = AllowOnlyGlobs, rr_globs = []\<rparr>,
      \<lparr>rr_role = Legacy, rr_kind = Unrestricted, rr_globs = []\<rparr>]"

definition forbidden_disputed_globs :: "string list" where
  "forbidden_disputed_globs = [''*'', ''**'', ''**/*'', ''/'', ''./**'', ''.'']"

definition glob_metacharacters :: string where
  "glob_metacharacters = ''*?[]''"

definition floor_globs :: "string list" where
  "floor_globs =
    [''**/.dispatcher.yaml'', ''**/scripts/check_body_branch.sh'',
     ''**/src/claude_dispatcher/role_protocol.py'',
     ''**/src/claude_dispatcher/go_signature_fingerprint/**'',
     ''**/src/claude_dispatcher/ts_signature_fingerprint/**'',
     ''**/src/claude_dispatcher/risk.py'', ''**/src/claude_dispatcher/seal_verify.py'',
     ''**/src/claude_dispatcher/repo_config.py'',
     ''**/src/claude_dispatcher/yaml_io.py'',
     ''**/src/claude_dispatcher/mechanical_verify.py'',
     ''**/src/claude_dispatcher/known_red.py'', ''**/config/known-red.yaml'',
     ''**/src/claude_dispatcher/scaffold_shape.py'',
     ''**/src/claude_dispatcher/call_site_reachability.py'',
     ''**/src/claude_dispatcher/go_reachability.py'',
     ''**/src/claude_dispatcher/go_call_reachability/**'',
     ''**/src/claude_dispatcher/call_site_contract.py'',
     ''**/src/claude_dispatcher/branch_reachability.py'',
     ''**/src/claude_dispatcher/loop_gate.py'',
     ''**/src/claude_dispatcher/orchestrator.py'',
     ''**/src/claude_dispatcher/branch_surface.py'',
     ''**/src/claude_dispatcher/reviewer_prompts/**'',
     ''**/src/claude_dispatcher/verifier_prompts/**'',
     ''**/src/claude_dispatcher/prompt_provenance.py'']"

section \<open>Policies\<close>

datatype policy_source = BuiltInDefaults | BasePinnedConfig | ConfigMapping

record role_policy =
  rp_rules :: "role_rule list"
  rp_source :: policy_source
  rp_base_ref :: "string option"

record role_spec =
  rs_task_key :: string
  rs_role :: role
  rs_added_immutable_globs :: "string list"
  rs_disputed_paths :: "string list"
  rs_declared_agent :: "string option"
  rs_declared_holes :: "string list"

datatype role_error =
    NoRuleFor role
  | NotStringList string
  | BlankEntry string pyval
  | NegationShaped string
  | TwoRoleFields "string list"
  | RoleIsCollection
  | RoleIsNull
  | RoleNotString
  | RoleBlank
  | RoleNamesSeveral string
  | RoleSpellsLegacy
  | RoleUnknown string
  | ImmutablePathsOnNonDeny role
  | DisputedPathsMissing
  | DisputedPathsEmpty
  | WildcardAdjudication string
  | DisputedOnFloor string string
  | DisputedPathsForbidden role
  | DeclaresNotMapping
  | DeclaresUnknownKeys "string list"
  | HolesOnWrongRole role
  | HolesNotList
  | HolesBadEntry pyval
  | HolesBlankPart string
  | RuleBlankGlob role string
  | DenyWithoutGlobs role
  | WildcardAllow role string
  | UnrestrictedWithGlobs role
  | OverrideOnNonDeny role
  | OverrideBlank
  | OverrideDrops "string list"
  | EffectiveRuleInvalid role_error
  | AllowsNothing role
  | SectionNotMapping
  | SectionUnknownRole string
  | SectionNotOptions string
  | SectionUnknownKeys string "string list"
  | SectionOnNonDeny string

fun rule_in :: "role_rule list \<Rightarrow> role \<Rightarrow> role_error + role_rule" where
  "rule_in [] r = Inl (NoRuleFor r)"
| "rule_in (x # xs) r = (if rr_role x = r then Inr x else rule_in xs r)"

definition rule_for :: "role_policy \<Rightarrow> role \<Rightarrow> role_error + role_rule" where
  "rule_for p r = rule_in (rp_rules p) r"

definition default_kind :: "role \<Rightarrow> role_error + rule_kind" where
  "default_kind r = map_sum id rr_kind (rule_in default_role_rules r)"

fun dedup_from :: "string list \<Rightarrow> string list \<Rightarrow> string list" where
  "dedup_from seen [] = []"
| "dedup_from seen (g # gs) =
     (if g \<in> set seen then dedup_from seen gs else g # dedup_from (g # seen) gs)"

definition dedup :: "string list \<Rightarrow> string list" where
  "dedup gs = dedup_from [] gs"

fun string_entries :: "string \<Rightarrow> pyval list \<Rightarrow> role_error + string list" where
  "string_entries f [] = Inr []"
| "string_entries f (v # vs) = (case v of
       PStr s \<Rightarrow> if py_strip s = [] then Inl (BlankEntry f v)
                 else map_sum id ((#) s) (string_entries f vs)
     | _ \<Rightarrow> Inl (BlankEntry f v))"

definition string_list :: "pyval \<Rightarrow> string \<Rightarrow> role_error + string list" where
  "string_list v f = (case v of PList vs \<Rightarrow> string_entries f vs | _ \<Rightarrow> Inl (NotStringList f))"

definition py_alnum :: "char \<Rightarrow> bool" where
  "py_alnum c = (let n = of_char c :: nat in
     (48 \<le> n \<and> n \<le> 57) \<or> (65 \<le> n \<and> n \<le> 90) \<or> (97 \<le> n \<and> n \<le> 122)
     \<or> n \<in> {170, 178, 179, 181, 185, 186, 188, 189, 190}
     \<or> (192 \<le> n \<and> n \<noteq> 215 \<and> n \<noteq> 247))"

definition names_no_artifact :: "string \<Rightarrow> bool" where
  "names_no_artifact entry =
     (let residue = filter (\<lambda>c. c \<notin> set glob_metacharacters) (py_strip entry)
      in \<not> list_ex py_alnum residue)"

definition negation_shaped :: "string \<Rightarrow> bool" where
  "negation_shaped entry =
     (let t = py_strip entry
      in list_ex (starts_with t) [''!'', ''-'', ''^'', ''~''] \<or> contains t '':'')"

fun rstrip_slash :: "string \<Rightarrow> string" where
  "rstrip_slash s = rev (dropWhile (\<lambda>c. c = CHR ''/'') (rev s))"

definition last_segment :: "string \<Rightarrow> string" where
  \<comment> \<open>\<^verbatim>\<open>s.rsplit("/", 1)[-1]\<close>\<close>
  "last_segment s = rev (takeWhile (\<lambda>c. c \<noteq> CHR ''/'') (rev s))"

definition strip_glob :: "string \<Rightarrow> string" where
  \<comment> \<open>\<^verbatim>\<open>s.strip("*?[]")\<close>\<close>
  "strip_glob s = rev (dropWhile (\<lambda>c. c \<in> set glob_metacharacters)
     (rev (dropWhile (\<lambda>c. c \<in> set glob_metacharacters) s)))"

definition floor_glob_named_by :: "string \<Rightarrow> string option" where
  "floor_glob_named_by entry =
     (let candidate = rstrip_slash (py_strip entry) in
      if candidate = [] then None
      else case first_matching_glob candidate floor_globs of
        Some g \<Rightarrow> Some g
      | None \<Rightarrow>
         (let base = last_segment candidate in
          if strip_glob base = [] then None
          else find (\<lambda>fl. first_matching_glob (last_segment (rstrip_slash fl)) [base] \<noteq> None)
                 floor_globs))"

section \<open>The role fields of a row\<close>

definition role_separators :: string where
  "role_separators = '',+/|'' @ [CHR 92] @ '';&''"

definition role_of_text :: "string \<Rightarrow> role_error + role" where
  "role_of_text v =
     (let t = py_strip v in
      if t = [] then Inl RoleBlank
      else if list_ex (\<lambda>c. c \<in> set role_separators \<or> py_space c) t then Inl (RoleNamesSeveral v)
      else let l = py_lower t in
        if l = role_value Legacy then Inl RoleSpellsLegacy
        else case find (\<lambda>r. role_value r = l) authorable_roles of
          Some r \<Rightarrow> Inr r | None \<Rightarrow> Inl (RoleUnknown v))"

definition parse_role_field :: "row \<Rightarrow> role_error + role" where
  "parse_role_field r =
     (case filter (\<lambda>a. map_of r a \<noteq> None) role_field_aliases of
        [] \<Rightarrow> Inr Legacy
      | [f] \<Rightarrow> (case row_get r f of
            PList _ \<Rightarrow> Inl RoleIsCollection
          | PDict _ \<Rightarrow> Inl RoleIsCollection
          | PNone \<Rightarrow> Inl RoleIsNull
          | PStr s \<Rightarrow> role_of_text s
          | _ \<Rightarrow> Inl RoleNotString)
      | fs \<Rightarrow> Inl (TwoRoleFields (sorted_list_of_set (set fs))))"

definition read_immutable :: "row \<Rightarrow> role \<Rightarrow> role_error + string list" where
  "read_immutable r ro =
     (case map_of r ''immutable_paths'' of
        None \<Rightarrow> Inr []
      | Some v \<Rightarrow> (case default_kind ro of
            Inl e \<Rightarrow> Inl e
          | Inr k \<Rightarrow> if k \<noteq> DenyGlobs then Inl (ImmutablePathsOnNonDeny ro)
                     else string_list v ''immutable_paths''))"

fun check_disputed :: "string list \<Rightarrow> role_error option" where
  "check_disputed [] = None"
| "check_disputed (e # es) =
     (if py_strip e \<in> set forbidden_disputed_globs \<or> names_no_artifact e
      then Some (WildcardAdjudication e)
      else case floor_glob_named_by e of
        Some fl \<Rightarrow> Some (DisputedOnFloor e fl)
      | None \<Rightarrow> check_disputed es)"

definition read_disputed :: "row \<Rightarrow> role \<Rightarrow> role_error + string list" where
  "read_disputed r ro =
     (if ro = Adjudicate then
        (case map_of r ''disputed_paths'' of
           None \<Rightarrow> Inl DisputedPathsMissing
         | Some v \<Rightarrow> (case string_list v ''disputed_paths'' of
               Inl e \<Rightarrow> Inl e
             | Inr [] \<Rightarrow> Inl DisputedPathsEmpty
             | Inr es \<Rightarrow> (case check_disputed es of Some e \<Rightarrow> Inl e | None \<Rightarrow> Inr es)))
      else if map_of r ''disputed_paths'' \<noteq> None then Inl (DisputedPathsForbidden ro)
      else Inr [])"

fun count_double_colon :: "string \<Rightarrow> nat" where
  \<comment> \<open>\<^verbatim>\<open>s.count("::")\<close>: occurrences that do not overlap\<close>
  "count_double_colon (a # b # s) =
     (if a = CHR '':'' \<and> b = CHR '':'' then Suc (count_double_colon s)
      else count_double_colon (b # s))"
| "count_double_colon s = 0"

fun split_double_colon :: "string \<Rightarrow> string \<times> string" where
  \<comment> \<open>\<^verbatim>\<open>s.split("::", 1)\<close> of a string that has one\<close>
  "split_double_colon (a # b # s) =
     (if a = CHR '':'' \<and> b = CHR '':'' then ([], s)
      else (case split_double_colon (b # s) of (x, y) \<Rightarrow> (a # x, y)))"
| "split_double_colon s = (s, [])"

fun hole_entries :: "pyval list \<Rightarrow> role_error + string list" where
  "hole_entries [] = Inr []"
| "hole_entries (v # vs) = (case v of
       PStr e \<Rightarrow>
         if count_double_colon e \<noteq> 1 then Inl (HolesBadEntry v)
         else (case split_double_colon e of (path, qual) \<Rightarrow>
           if py_strip path = [] \<or> py_strip qual = [] then Inl (HolesBlankPart e)
           else map_sum id ((#) (py_strip e)) (hole_entries vs))
     | _ \<Rightarrow> Inl (HolesBadEntry v))"

definition read_holes :: "row \<Rightarrow> role \<Rightarrow> role_error + string list" where
  "read_holes r ro =
     (case map_of r ''declares'' of
        None \<Rightarrow> Inr []
      | Some (PDict block) \<Rightarrow>
          (let unknown = filter (\<lambda>k. k \<noteq> ''holes'') (map fst block) in
           if unknown \<noteq> [] then Inl (DeclaresUnknownKeys (sort unknown))
           else case map_of block ''holes'' of
             None \<Rightarrow> Inr []
           | Some h \<Rightarrow>
               if ro \<noteq> Scaffold then Inl (HolesOnWrongRole ro)
               else (case h of
                   PList (x # xs) \<Rightarrow> hole_entries (x # xs)
                 | _ \<Rightarrow> Inl HolesNotList))
      | Some _ \<Rightarrow> Inl DeclaresNotMapping)"

definition read_declared_agent :: "row \<Rightarrow> string option" where
  "read_declared_agent r = (case row_get r ''agent'' of
      PStr s \<Rightarrow> if py_strip s = [] then None else Some s | _ \<Rightarrow> None)"

definition parse_task_role_spec :: "row \<Rightarrow> string \<Rightarrow> role_error + role_spec" where
  "parse_task_role_spec r key =
     (case parse_role_field r of Inl e \<Rightarrow> Inl e | Inr ro \<Rightarrow>
      (case read_immutable r ro of Inl e \<Rightarrow> Inl e | Inr added \<Rightarrow>
       (case read_disputed r ro of Inl e \<Rightarrow> Inl e | Inr disputed \<Rightarrow>
        (case read_holes r ro of Inl e \<Rightarrow> Inl e | Inr holes \<Rightarrow>
         Inr \<lparr>rs_task_key = key, rs_role = ro, rs_added_immutable_globs = added,
              rs_disputed_paths = disputed, rs_declared_agent = read_declared_agent r,
              rs_declared_holes = holes\<rparr>))))"

section \<open>Validation and the effective rule\<close>

definition wildcard_glob :: "string \<Rightarrow> bool" where
  "wildcard_glob g = (py_strip g \<in> set forbidden_disputed_globs \<or> names_no_artifact g)"

definition validate_rule :: "role_rule \<Rightarrow> role_error option" where
  "validate_rule r =
     (case find (\<lambda>g. py_strip g = []) (rr_globs r) of
        Some g \<Rightarrow> Some (RuleBlankGlob (rr_role r) g)
      | None \<Rightarrow> (case rr_kind r of
          DenyGlobs \<Rightarrow> if rr_globs r = [] then Some (DenyWithoutGlobs (rr_role r)) else None
        | AllowOnlyGlobs \<Rightarrow> map_option (WildcardAllow (rr_role r)) (find wildcard_glob (rr_globs r))
        | Unrestricted \<Rightarrow>
            if rr_globs r \<noteq> [] then Some (UnrestrictedWithGlobs (rr_role r)) else None))"

fun override_entries :: "string list \<Rightarrow> role_error option" where
  "override_entries [] = None"
| "override_entries (e # es) =
     (if py_strip e = [] then Some OverrideBlank
      else if negation_shaped e then Some (NegationShaped e)
      else override_entries es)"

definition validate_override :: "role_spec \<Rightarrow> role_policy \<Rightarrow> role_error option" where
  "validate_override sp p =
     (if rs_added_immutable_globs sp = [] then None
      else case rule_for p (rs_role sp) of
        Inl e \<Rightarrow> Some e
      | Inr r \<Rightarrow>
          if rr_kind r \<noteq> DenyGlobs then Some (OverrideOnNonDeny (rs_role sp))
          else case override_entries (rs_added_immutable_globs sp) of
            Some e \<Rightarrow> Some e
          | None \<Rightarrow>
             (let eff = dedup (rr_globs r @ rs_added_immutable_globs sp);
                  lost = filter (\<lambda>g. g \<notin> set eff) (rr_globs r)
              in if lost \<noteq> [] then Some (OverrideDrops lost) else None))"

definition effective_rule :: "role_spec \<Rightarrow> role_policy \<Rightarrow> role_error + role_rule" where
  "effective_rule sp p =
     (case validate_override sp p of Some e \<Rightarrow> Inl e | None \<Rightarrow>
      (case rule_for p (rs_role sp) of Inl e \<Rightarrow> Inl e | Inr r \<Rightarrow>
       (let built = (case rr_kind r of
             DenyGlobs \<Rightarrow> r\<lparr>rr_globs := dedup (rr_globs r @ rs_added_immutable_globs sp)\<rparr>
           | AllowOnlyGlobs \<Rightarrow>
               if rs_disputed_paths sp \<noteq> [] then r\<lparr>rr_globs := rs_disputed_paths sp\<rparr> else r
           | Unrestricted \<Rightarrow> r)
        in case validate_rule built of
             Some e \<Rightarrow> Inl (EffectiveRuleInvalid e)
           | None \<Rightarrow>
               if rr_kind built = AllowOnlyGlobs \<and> rr_globs built = []
               then Inl (AllowsNothing (rs_role sp)) else Inr built)))"

fun with_marker :: "role_rule \<Rightarrow> role_rule" where
  "with_marker r =
     (if rr_role r \<in> set test_path_delegated_roles
      then r\<lparr>rr_globs := dedup (rr_globs r @ [seal_verify_test_paths])\<rparr> else r)"

fun validated :: "role_rule list \<Rightarrow> role_error + role_rule list" where
  "validated [] = Inr []"
| "validated (r # rs) = (case validate_rule r of
     Some e \<Rightarrow> Inl e | None \<Rightarrow> map_sum id ((#) r) (validated rs))"

definition built_in_policy :: "role_error + role_policy" where
  "built_in_policy =
     map_sum id (\<lambda>rs. \<lparr>rp_rules = rs, rp_source = BuiltInDefaults, rp_base_ref = None\<rparr>)
       (validated (map with_marker default_role_rules))"

section \<open>The repository's additions\<close>

definition section_entries :: "string \<Rightarrow> role \<Rightarrow> row \<Rightarrow> role_error + string list option" where
  \<comment> \<open>one entry of the \<^verbatim>\<open>roles\<close> section; None where it declares no paths\<close>
  "section_entries key ro opts =
     (let unknown = filter (\<lambda>k. k \<noteq> ''immutable_paths'') (map fst opts) in
      if unknown \<noteq> [] then Inl (SectionUnknownKeys key (sort unknown))
      else case map_of opts ''immutable_paths'' of
        None \<Rightarrow> Inr None
      | Some v \<Rightarrow> (case default_kind ro of
          Inl e \<Rightarrow> Inl e
        | Inr k \<Rightarrow>
          if k \<noteq> DenyGlobs then Inl (SectionOnNonDeny key)
          else (case string_list v ''immutable_paths'' of
            Inl e \<Rightarrow> Inl e
          | Inr es \<Rightarrow> (case find negation_shaped es of
              Some e \<Rightarrow> Inl (NegationShaped e)
            | None \<Rightarrow> Inr (Some es)))))"

fun section_additions ::
  "(role \<Rightarrow> string list) \<Rightarrow> (string \<times> pyval) list \<Rightarrow> role_error + (role \<Rightarrow> string list)" where
  "section_additions acc [] = Inr acc"
| "section_additions acc ((raw, v) # kvs) =
     (let key = py_lower (py_strip raw) in
      case find (\<lambda>r. role_value r = key) authorable_roles of
        None \<Rightarrow> Inl (SectionUnknownRole raw)
      | Some ro \<Rightarrow> (case v of
          PDict opts \<Rightarrow> (case section_entries key ro opts of
              Inl e \<Rightarrow> Inl e
            | Inr None \<Rightarrow> section_additions acc kvs
            | Inr (Some es) \<Rightarrow> section_additions (acc(ro := es)) kvs)
        | _ \<Rightarrow> Inl (SectionNotOptions key)))"

definition with_additions :: "(role \<Rightarrow> string list) \<Rightarrow> role_rule \<Rightarrow> role_rule" where
  "with_additions adds r =
     (if adds (rr_role r) = [] then r
      else r\<lparr>rr_globs := dedup (rr_globs r @ adds (rr_role r))\<rparr>)"

definition role_policy_from_mapping :: "pyval \<Rightarrow> role_error + role_policy" where
  "role_policy_from_mapping v = (case v of
       PNone \<Rightarrow> built_in_policy
     | PDict kvs \<Rightarrow> (case section_additions (\<lambda>_. []) kvs of
         Inl e \<Rightarrow> Inl e
       | Inr adds \<Rightarrow> (case built_in_policy of
           Inl e \<Rightarrow> Inl e
         | Inr d \<Rightarrow> map_sum id
             (\<lambda>rs. \<lparr>rp_rules = rs, rp_source = ConfigMapping, rp_base_ref = None\<rparr>)
             (validated (map (with_additions adds) (rp_rules d)))))
     | _ \<Rightarrow> Inl SectionNotMapping)"

datatype policy_error = RoleErr role_error | BaseUnreadable | BadYaml | RootMustBeMapping

definition load_role_policy_from_base ::
  "(string \<Rightarrow> unit + string option) \<Rightarrow> (string \<Rightarrow> unit + pyval) \<Rightarrow> string
   \<Rightarrow> policy_error + role_policy" where
  \<comment> \<open>\<open>text_at\<close> is the base-pinned read of the configuration file (\<open>Inl\<close>: it raised, \<open>None\<close>:
      absent), \<open>yaml_loads\<close> the YAML parser\<close>
  "load_role_policy_from_base text_at yaml_loads base =
     (case text_at base of
        Inl _ \<Rightarrow> Inl BaseUnreadable
      | Inr None \<Rightarrow> map_sum RoleErr id built_in_policy
      | Inr (Some t) \<Rightarrow>
          if py_strip t = [] then map_sum RoleErr id built_in_policy
          else (case yaml_loads t of
            Inl _ \<Rightarrow> Inl BadYaml
          | Inr PNone \<Rightarrow> map_sum RoleErr id built_in_policy
          | Inr (PDict doc) \<Rightarrow>
              (case row_get doc ''roles'' of
                 PNone \<Rightarrow> map_sum RoleErr id built_in_policy
               | v \<Rightarrow> map_sum RoleErr
                   (\<lambda>p. p\<lparr>rp_source := BasePinnedConfig, rp_base_ref := Some base\<rparr>)
                   (role_policy_from_mapping v))
          | Inr _ \<Rightarrow> Inl RootMustBeMapping))"

section \<open>The path gate\<close>

definition is_test_path :: "string \<Rightarrow> bool" where
  \<comment> \<open>\<^verbatim>\<open>seal_verify.is_test_path\<close>; a dollar sign matches at the end or before a final line feed\<close>
  "is_test_path path =
     (let probe0 = ''/'' @ path;
          probe = (if ends_with probe0 [CHR 10] then probe0 @ [CHR 0x00] else probe0)
      in list_ex (contains probe)
           [''_test.'', ''.test.'', ''.spec.'', ''/test/'', ''/tests/'', ''/__tests__/'', ''/spec/'',
            ''/testdata/'', ''/fixtures/'']
         \<or> list_ex (starts_with probe) [''test/'', ''tests/'', ''spec/'']
         \<or> ends_with probe ''conftest.py'' \<or> ends_with probe (''conftest.py'' @ [CHR 10]))"

record path_violation =
  pv_path :: string
  pv_glob :: string
  pv_kind :: rule_kind

definition split_delegation_marker :: "string list \<Rightarrow> string list \<times> bool" where
  "split_delegation_marker globs =
     (filter (\<lambda>g. g \<noteq> seal_verify_test_paths) globs, seal_verify_test_paths \<in> set globs)"

definition deny_violation :: "string list \<Rightarrow> bool \<Rightarrow> string \<Rightarrow> path_violation option" where
  "deny_violation patterns delegate path =
     (case (case first_matching_glob path patterns of
              Some g \<Rightarrow> Some g
            | None \<Rightarrow> if delegate \<and> is_test_path path then Some seal_verify_test_paths else None) of
        None \<Rightarrow> None
      | Some g \<Rightarrow> Some \<lparr>pv_path = path, pv_glob = g, pv_kind = DenyGlobs\<rparr>)"

definition evaluate_changed_paths :: "role_rule \<Rightarrow> string list \<Rightarrow> path_violation list" where
  "evaluate_changed_paths r changed =
     (case split_delegation_marker (rr_globs r) of (patterns, delegate) \<Rightarrow>
      (case rr_kind r of
         Unrestricted \<Rightarrow> []
       | DenyGlobs \<Rightarrow> List.map_filter (deny_violation patterns delegate) changed
       | AllowOnlyGlobs \<Rightarrow>
           map (\<lambda>p. \<lparr>pv_path = p, pv_glob = allowlist_miss, pv_kind = AllowOnlyGlobs\<rparr>)
             (filter (\<lambda>p. first_matching_glob p patterns = None
                          \<and> \<not> (delegate \<and> is_test_path p)) changed)))"

definition floor_violations :: "string list \<Rightarrow> path_violation list" where
  "floor_violations changed = List.map_filter
     (\<lambda>p. map_option (\<lambda>g. \<lparr>pv_path = p, pv_glob = g, pv_kind = DenyGlobs\<rparr>)
            (first_matching_glob p floor_globs)) changed"

definition drop_commons :: "path_violation list \<Rightarrow> path_violation list \<Rightarrow> path_violation list" where
  "drop_commons vs fvs =
     (let floored = map pv_path fvs in
      filter (\<lambda>v. pv_path v \<in> set floored
                  \<or> \<not> (case first_matching_glob (pv_path v) [rulings_glob] of
                          None \<Rightarrow> False | Some g \<Rightarrow> g \<noteq> [])) vs)"

fun union_from ::
  "path_violation list \<Rightarrow> path_violation list \<Rightarrow> string list \<Rightarrow> string list \<Rightarrow> path_violation list" where
  "union_from rules fvs reported [] = []"
| "union_from rules fvs reported (p # ps) =
     (if p \<in> set reported then union_from rules fvs reported ps
      else case find (\<lambda>v. pv_path v = p) (rev fvs) of
        Some v \<Rightarrow> v # union_from rules fvs (p # reported) ps
      | None \<Rightarrow> (case find (\<lambda>v. pv_path v = p) rules of
            Some v \<Rightarrow> v # union_from rules fvs (p # reported) ps
          | None \<Rightarrow> union_from rules fvs reported ps))"

definition union_with_floor ::
  "path_violation list \<Rightarrow> path_violation list \<Rightarrow> string list \<Rightarrow> path_violation list" where
  "union_with_floor rules fvs changed = union_from rules fvs [] changed"

section \<open>Facts about the rules\<close>

lemma set_dedup_from: "set (dedup_from seen gs) = set gs - set seen"
  by (induction gs arbitrary: seen) auto

lemma distinct_dedup_from: "distinct (dedup_from seen gs)"
  by (induction gs arbitrary: seen) (auto simp: set_dedup_from)

lemma set_dedup [simp]: "set (dedup gs) = set gs"
  by (simp add: dedup_def set_dedup_from)

lemma dedup_Nil_iff [simp]: "dedup gs = [] \<longleftrightarrow> gs = []"
  by (metis set_dedup set_empty)

lemma rule_in_role: "rule_in rs ro = Inr r \<Longrightarrow> r \<in> set rs \<and> rr_role r = ro"
  by (induction rs) (auto split: if_splits)

lemma rule_in_map:
  assumes "\<And>r. rr_role (f r) = rr_role r"
  shows "rule_in (map f rs) ro = map_sum id f (rule_in rs ro)"
  by (induction rs) (auto simp: assms)

lemma validated_Inr_iff: "validated rs = Inr rs' \<longleftrightarrow> rs' = rs \<and> list_all (\<lambda>r. validate_rule r = None) rs"
  by (induction rs arbitrary: rs') (auto split: option.splits)

lemma string_entries_Inr:
  "string_entries f vs = Inr es \<Longrightarrow> vs = map PStr es \<and> (\<forall>e \<in> set es. py_strip e \<noteq> [])"
  by (induction vs arbitrary: es) (auto split: pyval.splits if_splits)

lemma string_list_Inr:
  "string_list v f = Inr es \<Longrightarrow> v = PList (map PStr es) \<and> (\<forall>e \<in> set es. py_strip e \<noteq> [])"
  by (auto simp: string_list_def split: pyval.splits dest: string_entries_Inr)

definition path_refused :: "role_rule \<Rightarrow> string \<Rightarrow> bool" where
  \<comment> \<open>the path gate alone, for one path\<close>
  "path_refused r p \<longleftrightarrow>
     (case rr_kind r of
        Unrestricted \<Rightarrow> False
      | DenyGlobs \<Rightarrow> (\<exists>g \<in> set (rr_globs r). g \<noteq> seal_verify_test_paths \<and> glob_matches p g)
                     \<or> (seal_verify_test_paths \<in> set (rr_globs r) \<and> is_test_path p)
      | AllowOnlyGlobs \<Rightarrow>
          \<not> (\<exists>g \<in> set (rr_globs r). g \<noteq> seal_verify_test_paths \<and> glob_matches p g)
          \<and> \<not> (seal_verify_test_paths \<in> set (rr_globs r) \<and> is_test_path p))"

lemma first_matching_glob_None_iff:
  "first_matching_glob p gs = None \<longleftrightarrow> (\<forall>g \<in> set gs. \<not> glob_matches p g)"
  by (simp add: first_matching_glob_None matches_any_glob_def list_ex_iff)

lemma map_filter_paths:
  "(\<And>p v. f p = Some v \<Longrightarrow> pv_path v = p)
   \<Longrightarrow> map pv_path (List.map_filter f ps) = filter (\<lambda>p. f p \<noteq> None) ps"
  by (induction ps) (auto simp: List.map_filter_simps split: option.splits)

lemma deny_violation_path: "deny_violation ps d p = Some v \<Longrightarrow> pv_path v = p"
  by (auto simp: deny_violation_def split: option.splits if_splits)

lemma deny_violation_None:
  "deny_violation ps d p = None \<longleftrightarrow> first_matching_glob p ps = None \<and> \<not> (d \<and> is_test_path p)"
  by (auto simp: deny_violation_def split: option.splits)

lemma evaluate_paths:
  "map pv_path (evaluate_changed_paths r ps) = filter (path_refused r) ps"
proof (cases "rr_kind r")
  case DenyGlobs
  then show ?thesis
    by (auto simp: evaluate_changed_paths_def split_delegation_marker_def path_refused_def
        map_filter_paths[OF deny_violation_path] deny_violation_None first_matching_glob_None_iff
        intro!: filter_cong)
next
  case AllowOnlyGlobs
  then show ?thesis
    by (auto simp: evaluate_changed_paths_def split_delegation_marker_def path_refused_def comp_def
        first_matching_glob_None_iff intro!: filter_cong)
next
  case Unrestricted
  then show ?thesis
    by (simp add: evaluate_changed_paths_def split_delegation_marker_def path_refused_def)
qed

lemma path_refused_mono:
  "rr_kind r = DenyGlobs \<Longrightarrow> rr_kind r' = DenyGlobs \<Longrightarrow> set (rr_globs r) \<subseteq> set (rr_globs r')
   \<Longrightarrow> path_refused r p \<Longrightarrow> path_refused r' p"
  by (auto simp: path_refused_def)

lemma built_in_policy_ok:
  "built_in_policy = Inr \<lparr>rp_rules = map with_marker default_role_rules,
     rp_source = BuiltInDefaults, rp_base_ref = None\<rparr>"
  by code_simp

definition built_in_rule :: "role \<Rightarrow> role_rule" where
  "built_in_rule ro = (case rule_in (map with_marker default_role_rules) ro of
     Inr r \<Rightarrow> r | Inl _ \<Rightarrow> \<lparr>rr_role = ro, rr_kind = DenyGlobs, rr_globs = []\<rparr>)"

lemma built_in_rule: "rule_in (map with_marker default_role_rules) ro = Inr (built_in_rule ro)"
  by (cases ro) (simp_all add: built_in_rule_def default_role_rules_def
      test_path_delegated_roles_def del: set_dedup)

lemma built_in_kind [simp]:
  "rr_kind (built_in_rule Scaffold) = DenyGlobs" "rr_kind (built_in_rule Seals) = AllowOnlyGlobs"
  "rr_kind (built_in_rule Bodies) = DenyGlobs" "rr_kind (built_in_rule Adjudicate) = AllowOnlyGlobs"
  "rr_kind (built_in_rule Legacy) = Unrestricted"
  by code_simp+

lemma default_kind_built_in: "default_kind ro = Inr (rr_kind (built_in_rule ro))"
  by (cases ro) (simp_all add: default_kind_def built_in_rule_def default_role_rules_def
      test_path_delegated_roles_def)

lemma section_entries_deny:
  "section_entries key ro opts = Inr (Some es) \<Longrightarrow> rr_kind (built_in_rule ro) = DenyGlobs"
  by (auto simp: section_entries_def default_kind_built_in Let_def
      split: if_splits option.splits sum.splits)

lemma section_additions_deny:
  "section_additions acc kvs = Inr adds
   \<Longrightarrow> (\<And>ro. acc ro \<noteq> [] \<Longrightarrow> rr_kind (built_in_rule ro) = DenyGlobs)
   \<Longrightarrow> adds ro \<noteq> [] \<Longrightarrow> rr_kind (built_in_rule ro) = DenyGlobs"
proof (induction acc kvs arbitrary: ro rule: section_additions.induct)
  case (1 acc)
  then show ?case by simp
next
  case (2 acc raw v kvs)
  from "2.prems"(1) obtain ro' opts where
    f: "find (\<lambda>r. role_value r = py_lower (py_strip raw)) authorable_roles = Some ro'" and
    v: "v = PDict opts"
    by (auto simp: Let_def split: option.splits pyval.splits)
  obtain oes where e: "section_entries (py_lower (py_strip raw)) ro' opts = Inr oes"
    using "2.prems"(1) f v by (auto simp: Let_def split: sum.splits)
  show ?case
  proof (cases oes)
    case None
    with 2 f v e show ?thesis by (simp add: Let_def)
  next
    case (Some es)
    have step: "section_additions (acc(ro' := es)) kvs = Inr adds"
      using "2.prems"(1) f v e Some by (simp add: Let_def)
    have deny: "rr_kind (built_in_rule r) = DenyGlobs" if "(acc(ro' := es)) r \<noteq> []" for r
      using that "2.prems"(2)[of r] section_entries_deny[of _ ro' opts es] e Some
      by (auto split: if_splits)
    show ?thesis
      by (rule "2.IH"(2)[OF refl f v e Some step deny "2.prems"(3)])
  qed
qed

lemma with_additions_simps [simp]:
  "rr_role (with_additions adds r) = rr_role r"
  "rr_kind (with_additions adds r) = rr_kind r"
  "set (rr_globs (with_additions adds r)) = set (rr_globs r) \<union> set (adds (rr_role r))"
  by (simp_all add: with_additions_def)

lemma mapping_rules:
  assumes "role_policy_from_mapping v = Inr p"
  obtains adds where
    "rp_rules p = map (with_additions adds) (map with_marker default_role_rules)"
    "list_all (\<lambda>r. validate_rule r = None) (rp_rules p)"
    "\<And>ro. adds ro \<noteq> [] \<Longrightarrow> rr_kind (built_in_rule ro) = DenyGlobs"
proof (cases v)
  case PNone
  have none: "with_additions (\<lambda>_. []) = id" by (auto simp: with_additions_def)
  have "validated (map with_marker default_role_rules) = Inr (map with_marker default_role_rules)"
    using built_in_policy_ok by (auto simp: built_in_policy_def)
  with PNone assms show ?thesis
    by (intro that[of "\<lambda>_. []"]) (auto simp: role_policy_from_mapping_def built_in_policy_ok none
        validated_Inr_iff)
next
  case (PDict kvs)
  with assms obtain adds where
    a: "section_additions (\<lambda>_. []) kvs = Inr adds" and
    w: "validated (map (with_additions adds) (map with_marker default_role_rules)) = Inr (rp_rules p)"
    by (auto simp: role_policy_from_mapping_def built_in_policy_ok split: sum.splits)
  from w have "rp_rules p = map (with_additions adds) (map with_marker default_role_rules)"
    "list_all (\<lambda>r. validate_rule r = None) (rp_rules p)"
    by (simp_all add: validated_Inr_iff del: map_map)
  then show ?thesis using section_additions_deny[OF a] by (intro that) auto
qed (use assms in \<open>auto simp: role_policy_from_mapping_def\<close>)

lemma loaded_rules:
  assumes "load_role_policy_from_base text_at yaml_loads base = Inr p"
  obtains adds where
    "rp_rules p = map (with_additions adds) (map with_marker default_role_rules)"
    "list_all (\<lambda>r. validate_rule r = None) (rp_rules p)"
    "\<And>ro. adds ro \<noteq> [] \<Longrightarrow> rr_kind (built_in_rule ro) = DenyGlobs"
proof -
  have built: "built_in_policy = role_policy_from_mapping PNone"
    by (simp add: role_policy_from_mapping_def)
  from assms obtain v q where q: "role_policy_from_mapping v = Inr q" and "rp_rules p = rp_rules q"
    unfolding load_role_policy_from_base_def built
    by (fastforce split: sum.splits option.splits if_splits pyval.splits simp: map_sum_def)
  with mapping_rules[OF q] that show ?thesis by metis
qed

lemma loaded_rule_for:
  assumes "load_role_policy_from_base text_at yaml_loads base = Inr p"
  obtains adds where
    "rule_for p ro = Inr (with_additions adds (built_in_rule ro))"
    "validate_rule (with_additions adds (built_in_rule ro)) = None"
    "adds ro \<noteq> [] \<Longrightarrow> rr_kind (built_in_rule ro) = DenyGlobs"
proof -
  from loaded_rules[OF assms] obtain adds where
    a: "rp_rules p = map (with_additions adds) (map with_marker default_role_rules)"
       "list_all (\<lambda>r. validate_rule r = None) (rp_rules p)"
       "\<And>ro. adds ro \<noteq> [] \<Longrightarrow> rr_kind (built_in_rule ro) = DenyGlobs" by metis
  have "rule_for p ro = map_sum id (with_additions adds)
          (rule_in (map with_marker default_role_rules) ro)"
    unfolding rule_for_def a(1) by (rule rule_in_map) simp
  then have f: "rule_for p ro = Inr (with_additions adds (built_in_rule ro))"
    by (simp add: built_in_rule)
  then have "with_additions adds (built_in_rule ro) \<in> set (rp_rules p)"
    unfolding rule_for_def by (blast dest: rule_in_role)
  with a(2) have "validate_rule (with_additions adds (built_in_rule ro)) = None"
    by (auto simp: list_all_iff)
  with f a(3) that show ?thesis by blast
qed

lemma built_in_rule_role [simp]: "rr_role (built_in_rule ro) = ro"
  using built_in_rule rule_in_role by blast

lemma effective_rule_Inr:
  assumes "effective_rule sp p = Inr r"
  obtains r0 where "rule_for p (rs_role sp) = Inr r0"
    "validate_override sp p = None" "validate_rule r = None"
    "r = (case rr_kind r0 of
             DenyGlobs \<Rightarrow> r0\<lparr>rr_globs := dedup (rr_globs r0 @ rs_added_immutable_globs sp)\<rparr>
           | AllowOnlyGlobs \<Rightarrow>
               if rs_disputed_paths sp \<noteq> [] then r0\<lparr>rr_globs := rs_disputed_paths sp\<rparr> else r0
           | Unrestricted \<Rightarrow> r0)"
    "rr_kind r = AllowOnlyGlobs \<Longrightarrow> rr_globs r \<noteq> []"
  using assms unfolding effective_rule_def Let_def
  by (auto split: option.splits sum.splits if_splits)

section \<open>Facts about parsed rows\<close>

lemma role_of_text_authorable: "role_of_text v = Inr ro \<Longrightarrow> ro \<in> set authorable_roles"
  by (auto simp: role_of_text_def Let_def find_Some_iff2 find_Some_iff nth_mem
      split: if_splits option.splits)

lemma parse_role_field_legacy:
  assumes "parse_role_field r = Inr ro"
  shows "ro = Legacy \<longleftrightarrow> (\<forall>a \<in> set role_field_aliases. map_of r a = None)"
proof (cases "filter (\<lambda>a. map_of r a \<noteq> None) role_field_aliases")
  case Nil
  with assms have "ro = Legacy" by (simp add: parse_role_field_def)
  moreover have "\<forall>a \<in> set role_field_aliases. map_of r a = None"
    using Nil by (auto simp: filter_empty_conv)
  ultimately show ?thesis by simp
next
  case (Cons f fs)
  with assms have "ro \<in> set authorable_roles"
    by (auto simp: parse_role_field_def dest: role_of_text_authorable split: list.splits pyval.splits)
  then have "ro \<noteq> Legacy" by (auto simp: authorable_roles_def)
  moreover have "f \<in> set (filter (\<lambda>a. map_of r a \<noteq> None) role_field_aliases)"
    using Cons by simp
  ultimately show ?thesis by auto
qed

lemma check_disputed_None:
  "check_disputed es = None \<longleftrightarrow> (\<forall>e \<in> set es. \<not> wildcard_glob e \<and> floor_glob_named_by e = None)"
  by (induction es) (auto simp: wildcard_glob_def split: option.splits)

lemma find_SomeD: "find P xs = Some x \<Longrightarrow> x \<in> set xs \<and> P x"
  by (induction xs) (auto split: if_splits)

lemma read_disputed_Inr:
  assumes "read_disputed r ro = Inr es"
  shows "(ro \<noteq> Adjudicate \<longrightarrow> es = []) \<and>
    (ro = Adjudicate \<longrightarrow> es \<noteq> [] \<and>
      (\<forall>e \<in> set es. py_strip e \<noteq> [] \<and> \<not> wildcard_glob e \<and> floor_glob_named_by e = None))"
proof (cases "ro = Adjudicate")
  case True
  with assms obtain v where "string_list v ''disputed_paths'' = Inr es"
    "check_disputed es = None" "es \<noteq> []"
    by (auto simp: read_disputed_def simp del: check_disputed.simps
        split: option.splits sum.splits list.splits)
  with True string_list_Inr[of v _ es] show ?thesis by (auto simp: check_disputed_None)
next
  case False
  with assms show ?thesis by (auto simp: read_disputed_def split: if_splits)
qed

lemma read_immutable_Inr:
  assumes "read_immutable r ro = Inr es"
  shows "(\<forall>e \<in> set es. py_strip e \<noteq> []) \<and> (es \<noteq> [] \<longrightarrow> rr_kind (built_in_rule ro) = DenyGlobs)"
  using assms string_list_Inr
  by (fastforce simp: read_immutable_def default_kind_built_in split: if_splits option.splits sum.splits)

lemma parse_task_role_spec_Inr:
  assumes "parse_task_role_spec r k = Inr sp"
  shows "parse_role_field r = Inr (rs_role sp)
    \<and> read_immutable r (rs_role sp) = Inr (rs_added_immutable_globs sp)
    \<and> read_disputed r (rs_role sp) = Inr (rs_disputed_paths sp)
    \<and> read_holes r (rs_role sp) = Inr (rs_declared_holes sp)
    \<and> rs_declared_agent sp = read_declared_agent r \<and> rs_task_key sp = k"
  using assms by (auto simp: parse_task_role_spec_def split: sum.splits)

lemma override_entries_result:
  assumes "\<forall>e \<in> set es. py_strip e \<noteq> []"
  shows "override_entries es = None \<and> \<not> list_ex negation_shaped es
    \<or> (\<exists>e \<in> set es. negation_shaped e \<and> override_entries es = Some (NegationShaped e))"
  using assms by (induction es) auto

lemma validate_rule_deny:
  "rr_kind r = DenyGlobs \<Longrightarrow>
   validate_rule r = None \<longleftrightarrow> rr_globs r \<noteq> [] \<and> (\<forall>g \<in> set (rr_globs r). py_strip g \<noteq> [])"
  by (auto simp: validate_rule_def find_None_iff split: option.splits dest: find_SomeD)

lemma validate_rule_allow:
  "rr_kind r = AllowOnlyGlobs \<Longrightarrow>
   validate_rule r = None \<longleftrightarrow>
     (\<forall>g \<in> set (rr_globs r). py_strip g \<noteq> [] \<and> \<not> wildcard_glob g)"
  by (auto simp: validate_rule_def find_None_iff split: option.splits dest: find_SomeD)

section \<open>Properties\<close>

text \<open>
  A task's declarations never weaken its role: when an effective rule is built, it has
  the kind of the policy's rule, and for a deny-based role it denies exactly the policy's
  globs and the task's additions, so every path the policy refuses is still refused. For
  an allow-only role the writable set is the task's own list of disputed paths or the policy's.
\<close>

theorem override_never_weakens:
  assumes "effective_rule sp p = Inr r"
  shows "\<exists>r0. rule_for p (rs_role sp) = Inr r0 \<and> rr_kind r = rr_kind r0
     \<and> (rr_kind r0 = DenyGlobs \<longrightarrow>
          set (rr_globs r) = set (rr_globs r0) \<union> set (rs_added_immutable_globs sp)
          \<and> (\<forall>path. path_refused r0 path \<longrightarrow> path_refused r path))
     \<and> (rr_kind r0 = AllowOnlyGlobs \<longrightarrow> rr_globs r \<noteq> []
          \<and> rr_globs r = (if rs_disputed_paths sp \<noteq> [] then rs_disputed_paths sp else rr_globs r0))
     \<and> (rr_kind r0 = Unrestricted \<longrightarrow> r = r0 \<and> rs_added_immutable_globs sp = [])"
proof -
  from effective_rule_Inr[OF assms] obtain r0 where r0: "rule_for p (rs_role sp) = Inr r0"
    "validate_override sp p = None"
    "r = (case rr_kind r0 of
             DenyGlobs \<Rightarrow> r0\<lparr>rr_globs := dedup (rr_globs r0 @ rs_added_immutable_globs sp)\<rparr>
           | AllowOnlyGlobs \<Rightarrow>
               if rs_disputed_paths sp \<noteq> [] then r0\<lparr>rr_globs := rs_disputed_paths sp\<rparr> else r0
           | Unrestricted \<Rightarrow> r0)"
    "rr_kind r = AllowOnlyGlobs \<Longrightarrow> rr_globs r \<noteq> []" by metis
  have none: "rs_added_immutable_globs sp = []" if "rr_kind r0 = Unrestricted"
    using r0(1,2) that by (auto simp: validate_override_def split: if_splits)
  show ?thesis
  proof (cases "rr_kind r0")
    case DenyGlobs
    with r0 have k: "rr_kind r = DenyGlobs"
      and g: "set (rr_globs r) = set (rr_globs r0) \<union> set (rs_added_immutable_globs sp)" by simp_all
    then show ?thesis
      using r0(1) DenyGlobs path_refused_mono[OF DenyGlobs k] by auto
  qed (use r0 none in auto)
qed

definition example_spec :: role_spec where
  "example_spec = \<lparr>rs_task_key = ''T-3'', rs_role = Bodies,
     rs_added_immutable_globs = [''db/**''], rs_disputed_paths = [], rs_declared_agent = None,
     rs_declared_holes = []\<rparr>"

definition example_policy :: role_policy where
  "example_policy = \<lparr>rp_rules = map with_marker default_role_rules,
     rp_source = BuiltInDefaults, rp_base_ref = None\<rparr>"

lemma override_never_weakens_witness:
  "(\<exists>r. effective_rule example_spec example_policy = Inr r \<and> rr_kind r = DenyGlobs)"
proof -
  have "\<not> isl (effective_rule example_spec example_policy)" by code_simp
  then obtain r where r: "effective_rule example_spec example_policy = Inr r"
    by (cases "effective_rule example_spec example_policy") auto
  moreover have "map_sum id rr_kind (rule_for example_policy (rs_role example_spec)) = Inr DenyGlobs"
    by code_simp
  moreover obtain r0 where "rule_for example_policy (rs_role example_spec) = Inr r0"
    "rr_kind r = rr_kind r0" using override_never_weakens[OF r] by blast
  ultimately show ?thesis by simp
qed

text \<open>
  The repository's configuration can only add protection: in every policy read from the base, each
  role has a rule of the kind the built-in table gives it, whose globs include the
  built-in ones; every path the built-in rule refuses is still refused, and a role that is
  not deny-based keeps its built-in rule unchanged.
\<close>

theorem loaded_policy_only_adds:
  assumes "load_role_policy_from_base text_at yaml_loads base = Inr p"
  shows "\<exists>r. rule_for p ro = Inr r \<and> rr_kind r = rr_kind (built_in_rule ro)
     \<and> set (rr_globs (built_in_rule ro)) \<subseteq> set (rr_globs r)
     \<and> (rr_kind r \<noteq> DenyGlobs \<longrightarrow> r = built_in_rule ro)
     \<and> (\<forall>path. path_refused (built_in_rule ro) path \<longrightarrow> path_refused r path)"
proof -
  from loaded_rule_for[OF assms, of ro] obtain adds where
    a: "rule_for p ro = Inr (with_additions adds (built_in_rule ro))"
       "adds ro \<noteq> [] \<Longrightarrow> rr_kind (built_in_rule ro) = DenyGlobs" by metis
  let ?r = "with_additions adds (built_in_rule ro)"
  have same: "?r = built_in_rule ro" if "rr_kind ?r \<noteq> DenyGlobs"
    using that a(2) by (auto simp: with_additions_def)
  have "path_refused ?r path" if "path_refused (built_in_rule ro) path" for path
  proof (cases "rr_kind ?r = DenyGlobs")
    case True
    then show ?thesis using that by (intro path_refused_mono[of "built_in_rule ro" ?r path]) auto
  next
    case False
    then show ?thesis using that same by metis
  qed
  with a(1) same show ?thesis by auto
qed

lemma loaded_policy_only_adds_witness:
  "\<exists>p r. load_role_policy_from_base (\<lambda>_. Inr (Some ''x''))
      (\<lambda>_. Inr (PDict [(''roles'', PDict [(''bodies'',
         PDict [(''immutable_paths'', PList [PStr ''db/**''])])])])) ''main'' = Inr p
    \<and> rule_for p Bodies = Inr r \<and> rr_kind r = DenyGlobs"
proof -
  let ?l = "load_role_policy_from_base (\<lambda>_. Inr (Some ''x''))
      (\<lambda>_. Inr (PDict [(''roles'', PDict [(''bodies'',
         PDict [(''immutable_paths'', PList [PStr ''db/**''])])])])) ''main''"
  have "\<not> isl ?l" by code_simp
  then have "\<exists>p. ?l = Inr p" by (cases ?l) auto
  moreover have "rr_kind (built_in_rule Bodies) = DenyGlobs" by code_simp
  moreover obtain p where "?l = Inr p" using calculation by blast
  moreover obtain r where "rule_for p Bodies = Inr r" "rr_kind r = rr_kind (built_in_rule Bodies)"
    using loaded_policy_only_adds[OF \<open>?l = Inr p\<close>, of Bodies] by blast
  ultimately show ?thesis by metis
qed

text \<open>
  A row that parses is well formed: its role is legacy exactly when the row carries none
  of the role keys (the protocol cannot be opted out of by a value), only an adjudication has
  disputed paths, it has at least one, and none of them is a wildcard or names the floor; only
  a deny-based role has added globs, and none of those is blank.
\<close>

theorem parsed_spec_wellformed:
  assumes "parse_task_role_spec r k = Inr sp"
  shows "(rs_role sp = Legacy \<longleftrightarrow> (\<forall>a \<in> set role_field_aliases. map_of r a = None))
    \<and> (rs_role sp = Adjudicate \<longleftrightarrow> rs_disputed_paths sp \<noteq> [])
    \<and> (\<forall>e \<in> set (rs_disputed_paths sp).
         py_strip e \<noteq> [] \<and> \<not> wildcard_glob e \<and> floor_glob_named_by e = None)
    \<and> (\<forall>e \<in> set (rs_added_immutable_globs sp). py_strip e \<noteq> [])
    \<and> (rs_added_immutable_globs sp \<noteq> [] \<longrightarrow> rs_role sp = Scaffold \<or> rs_role sp = Bodies)"
proof -
  note p = parse_task_role_spec_Inr[OF assms]
  have deny: "rr_kind (built_in_rule ro) = DenyGlobs \<longleftrightarrow> ro = Scaffold \<or> ro = Bodies" for ro
    by (cases ro) simp_all
  show ?thesis
    using parse_role_field_legacy[OF p[THEN conjunct1]]
      read_immutable_Inr[OF p[THEN conjunct2, THEN conjunct1]] deny[of "rs_role sp"]
      read_disputed_Inr[OF p[THEN conjunct2, THEN conjunct2, THEN conjunct1]]
    by (cases "rs_role sp = Adjudicate") auto
qed

definition example_role_row :: row where
  "example_role_row = [(''key'', PStr ''T-9''), (''role'', PStr '' Adjudicate ''),
     (''disputed_paths'', PList [PStr ''docs/**'', PStr ''src/app/ledger.py''])]"

lemma parsed_spec_wellformed_witness:
  "\<exists>sp. parse_task_role_spec example_role_row ''T-9'' = Inr sp \<and> rs_role sp \<noteq> Legacy"
proof -
  have "\<not> isl (parse_task_role_spec example_role_row ''T-9'')" by code_simp
  then obtain sp where sp: "parse_task_role_spec example_role_row ''T-9'' = Inr sp"
    by (cases "parse_task_role_spec example_role_row ''T-9''") auto
  moreover have "map_of example_role_row ''role'' \<noteq> None" by code_simp
  moreover have "''role'' \<in> set role_field_aliases" by code_simp
  moreover have "rs_role sp = Legacy \<longleftrightarrow> (\<forall>a \<in> set role_field_aliases. map_of example_role_row a = None)"
    using parsed_spec_wellformed[OF sp] by (rule conjunct1)
  ultimately show ?thesis by metis
qed

text \<open>
  C4. A planned task can always be judged: for a row that parses and a policy read from the
  base, an effective rule is built, unless one of the row's added globs is shaped like a
  removal, which is reported as such. No blank glob, empty allow-only set, wildcard, missing
  rule or emptied deny list can be left for the diff-time check to trip over.
\<close>

theorem planned_rows_are_judgeable:
  assumes "parse_task_role_spec r k = Inr sp"
    and "load_role_policy_from_base text_at yaml_loads base = Inr p"
  shows "(\<exists>rule. effective_rule sp p = Inr rule) \<and> \<not> list_ex negation_shaped (rs_added_immutable_globs sp)
    \<or> (\<exists>e \<in> set (rs_added_immutable_globs sp).
         negation_shaped e \<and> effective_rule sp p = Inl (NegationShaped e))"
proof -
  let ?ro = "rs_role sp" and ?add = "rs_added_immutable_globs sp"
  note ps = parse_task_role_spec_Inr[OF assms(1)]
  note im = read_immutable_Inr[OF ps[THEN conjunct2, THEN conjunct1]]
  note di = read_disputed_Inr[OF ps[THEN conjunct2, THEN conjunct2, THEN conjunct1]]
  obtain adds where adds: "rule_for p ?ro = Inr (with_additions adds (built_in_rule ?ro))"
    "validate_rule (with_additions adds (built_in_rule ?ro)) = None"
    "adds ?ro \<noteq> [] \<Longrightarrow> rr_kind (built_in_rule ?ro) = DenyGlobs"
    by (rule loaded_rule_for[OF assms(2), of ?ro]) blast
  let ?r = "with_additions adds (built_in_rule ?ro)"
  have nonempty: "rr_globs (built_in_rule Seals) \<noteq> []" by code_simp
  have kinds: "rr_kind (built_in_rule ?ro) = AllowOnlyGlobs \<longleftrightarrow> ?ro = Seals \<or> ?ro = Adjudicate"
    by (cases ?ro) simp_all
  from override_entries_result[OF im[THEN conjunct1]] consider
      (ok) "override_entries ?add = None" "\<not> list_ex negation_shaped ?add"
    | (neg) e where "e \<in> set ?add" "negation_shaped e" "override_entries ?add = Some (NegationShaped e)"
    by metis
  then show ?thesis
  proof cases
    case ok
    have vo: "validate_override sp p = None"
      using im ok(1) adds(1) by (auto simp: validate_override_def Let_def filter_empty_conv)
    show ?thesis
    proof (cases "rr_kind (built_in_rule ?ro)")
      case DenyGlobs
      have "validate_rule (?r\<lparr>rr_globs := dedup (rr_globs ?r @ ?add)\<rparr>) = None"
        using adds(2) im DenyGlobs by (auto simp: validate_rule_deny)
      with DenyGlobs vo adds(1) ok(2) show ?thesis by (auto simp: effective_rule_def)
    next
      case AllowOnlyGlobs
      have same: "?r = built_in_rule ?ro"
        using adds(3) AllowOnlyGlobs by (auto simp: with_additions_def)
      have "validate_rule (?r\<lparr>rr_globs := rs_disputed_paths sp\<rparr>) = None" if "?ro = Adjudicate"
        using di that AllowOnlyGlobs by (auto simp: validate_rule_allow)
      with same AllowOnlyGlobs vo adds(1,2) ok(2) di kinds nonempty show ?thesis
        by (cases "?ro = Adjudicate") (auto simp: effective_rule_def)
    next
      case Unrestricted
      with vo adds ok(2) show ?thesis by (auto simp: effective_rule_def)
    qed
  next
    case neg
    then have "?add \<noteq> []" by auto
    with neg im adds(1) have "validate_override sp p = Some (NegationShaped e)"
      by (simp add: validate_override_def)
    with neg show ?thesis by (auto simp: effective_rule_def)
  qed
qed

lemma planned_rows_are_judgeable_witness:
  "\<exists>sp rule. parse_task_role_spec example_role_row ''T-9'' = Inr sp
    \<and> effective_rule sp example_policy = Inr rule"
proof -
  have "\<not> isl (parse_task_role_spec example_role_row ''T-9'')" by code_simp
  then obtain sp where sp: "parse_task_role_spec example_role_row ''T-9'' = Inr sp"
    by (cases "parse_task_role_spec example_role_row ''T-9''") auto
  have "map_sum id rs_added_immutable_globs (parse_task_role_spec example_role_row ''T-9'') = Inr []"
    by code_simp
  with sp have none: "rs_added_immutable_globs sp = []" by simp
  have "load_role_policy_from_base (\<lambda>_. Inr None) (\<lambda>_. Inl ()) ''main'' = Inr example_policy"
    by (simp add: load_role_policy_from_base_def built_in_policy_ok example_policy_def)
  with none planned_rows_are_judgeable[OF sp this] sp show ?thesis by simp
qed

text \<open>
  Two spellings of one role in the repository's section are not merged: the later entry
  replaces the earlier one's paths, so a protection the repository declared is dropped
  without an error.
\<close>

theorem repeated_role_key_drops_protection:
  "\<exists>p r. role_policy_from_mapping (PDict
       [(''Bodies'', PDict [(''immutable_paths'', PList [PStr ''db/**''])]),
        (''bodies'', PDict [(''immutable_paths'', PList [PStr ''api/**''])])]) = Inr p
     \<and> rule_for p Bodies = Inr r \<and> ''db/**'' \<notin> set (rr_globs r) \<and> ''api/**'' \<in> set (rr_globs r)"
proof -
  let ?p = "role_policy_from_mapping (PDict
       [(''Bodies'', PDict [(''immutable_paths'', PList [PStr ''db/**''])]),
        (''bodies'', PDict [(''immutable_paths'', PList [PStr ''api/**''])])])"
  have "case ?p of Inl _ \<Rightarrow> False | Inr p \<Rightarrow> (case rule_for p Bodies of Inl _ \<Rightarrow> False
     | Inr r \<Rightarrow> ''db/**'' \<notin> set (rr_globs r) \<and> ''api/**'' \<in> set (rr_globs r))"
    by code_simp
  then show ?thesis by (cases ?p) (auto split: sum.splits)
qed

end
