(* ===== verification/CallGraph.thy ===== *)
theory CallGraph
  imports Prelude "HOL-Library.Product_Lexorder"
begin

text \<open>
  The call graph of the reachability gate and its traversal
  (\<^verbatim>\<open>call_site_contract.py\<close>, \<^verbatim>\<open>call_site_reachability.py\<close>): symbols, edges, roots, the edge chains
  \<^verbatim>\<open>reachable_from\<close> reports, the import components that scope an unresolved call, and the
  union of the analyzers' graphs. The analyzers themselves are parameters. A Python set is a
  list whose order no result depends on.
\<close>

section \<open>Graphs\<close>

record symbol =
  sy_key :: string
  sy_path :: string
  sy_line :: int

datatype edge_kind = Direct | MethodCall | InterfaceCall | Reference

fun edge_kind_value :: "edge_kind \<Rightarrow> string" where
  "edge_kind_value Direct = ''direct''"
| "edge_kind_value MethodCall = ''method''"
| "edge_kind_value InterfaceCall = ''interface''"
| "edge_kind_value Reference = ''reference''"

record edge =
  ed_caller :: symbol
  ed_callee :: symbol
  ed_kind :: edge_kind
  ed_site :: string

datatype root_kind = ProductionRoot | TestRoot

datatype entrypoint_kind =
    GoMain | GoInit | GoPackageVar | PyConsoleScript | PyModuleMain | PyScriptMain
  | PyImportTime | TestFunction

fun root_kind_by_entrypoint :: "entrypoint_kind \<Rightarrow> root_kind" where
  "root_kind_by_entrypoint TestFunction = TestRoot"
| "root_kind_by_entrypoint _ = ProductionRoot"

record entry_root =
  er_symbol :: symbol
  er_kind :: entrypoint_kind
  er_root_kind :: root_kind
  er_evidence :: string

record package_imports =
  pk_package :: string
  pk_symbols :: "string list"
  pk_imports :: "string list"
  pk_unplaced :: "string list"
  pk_external :: int

datatype import_evidence =
    ImportsUnavailable string
  | ImportRelation "(string \<times> package_imports) list"

type_synonym hole = "symbol \<times> string \<times> string"

record call_graph =
  cg_symbols :: "(string \<times> symbol) list"
  cg_edges :: "edge list"
  cg_unresolved :: "hole list"
  cg_unreadable :: "string list"
  cg_imports :: import_evidence

section \<open>Traversal\<close>

fun edge_is_resolved :: "edge_kind \<Rightarrow> bool" where
  "edge_is_resolved Direct = True"
| "edge_is_resolved MethodCall = True"
| "edge_is_resolved InterfaceCall = False"
| "edge_is_resolved Reference = False"

definition edge_order :: "edge \<Rightarrow> string \<times> string \<times> string \<times> string" where
  "edge_order e = (sy_key (ed_caller e), sy_key (ed_callee e), edge_kind_value (ed_kind e), ed_site e)"

definition out_edges :: "edge list \<Rightarrow> string \<Rightarrow> edge list" where
  "out_edges es k = sort_key edge_order (filter (\<lambda>e. sy_key (ed_caller e) = k) es)"

type_synonym chain_map = "string \<Rightarrow> edge list option"

fun extend_chains ::
  "bool \<Rightarrow> edge list \<Rightarrow> edge list \<Rightarrow> chain_map \<times> string list \<Rightarrow> chain_map \<times> string list" where
  \<comment> \<open>the inner loop of \<^verbatim>\<open>_sweep_chains\<close>: the out-edges of one key whose chain is given\<close>
  "extend_chains resolved_only chain [] st = st"
| "extend_chains resolved_only chain (e # es) (ch, following) =
     (if resolved_only \<and> \<not> edge_is_resolved (ed_kind e)
      then extend_chains resolved_only chain es (ch, following)
      else let target = sy_key (ed_callee e) in
        if ch target \<noteq> None then extend_chains resolved_only chain es (ch, following)
        else extend_chains resolved_only chain es
               (ch(target \<mapsto> chain @ [e]), following @ [target]))"

fun expand_frontier ::
  "bool \<Rightarrow> edge list \<Rightarrow> string list \<Rightarrow> chain_map \<times> string list \<Rightarrow> chain_map \<times> string list" where
  "expand_frontier resolved_only es [] st = st"
| "expand_frontier resolved_only es (k # ks) (ch, following) =
     (case ch k of
        None \<Rightarrow> expand_frontier resolved_only es ks (ch, following)
      | Some chain \<Rightarrow> expand_frontier resolved_only es ks
          (extend_chains resolved_only chain (out_edges es k) (ch, following)))"

definition allowed :: "bool \<Rightarrow> edge \<Rightarrow> bool" where
  "allowed resolved_only e \<longleftrightarrow> \<not> (resolved_only \<and> \<not> edge_is_resolved (ed_kind e))"

definition callees :: "edge list \<Rightarrow> string set" where
  "callees es = (\<lambda>e. sy_key (ed_callee e)) ` set es"

lemma set_out_edges [simp]: "set (out_edges es k) = {e \<in> set es. sy_key (ed_caller e) = k}"
  by (auto simp: out_edges_def)

definition targets :: "bool \<Rightarrow> edge list \<Rightarrow> string set" where
  "targets ro es = {sy_key (ed_callee e) | e. e \<in> set es \<and> allowed ro e}"

lemma targets_simps [simp]:
  "targets ro [] = {}"
  "targets ro (e # es) = (if allowed ro e then {sy_key (ed_callee e)} else {}) \<union> targets ro es"
  by (auto simp: targets_def)

lemma extend_chains_dom:
  "extend_chains ro chain es (ch, fl) = (ch', fl') \<Longrightarrow> dom ch' = dom ch \<union> targets ro es"
  by (induction es arbitrary: ch fl) (auto simp: allowed_def Let_def split: if_splits)

lemma extend_chains_keep:
  "extend_chains ro chain es (ch, fl) = (ch', fl') \<Longrightarrow> ch k = Some c \<Longrightarrow> ch' k = Some c"
  by (induction es arbitrary: ch fl) (fastforce simp: Let_def split: if_splits)+

lemma extend_chains_new:
  "extend_chains ro chain es (ch, fl) = (ch', fl') \<Longrightarrow> ch' k = Some c \<Longrightarrow>
   ch k = Some c \<or> (\<exists>e \<in> set es. allowed ro e \<and> sy_key (ed_callee e) = k \<and> c = chain @ [e])"
  by (induction es arbitrary: ch fl) (fastforce simp: Let_def allowed_def split: if_splits)+

lemma extend_chains_following:
  "extend_chains ro chain es (ch, fl) = (ch', fl') \<Longrightarrow> set fl' = set fl \<union> (dom ch' - dom ch)"
proof (induction es arbitrary: ch fl)
  case (Cons e es)
  let ?t = "sy_key (ed_callee e)"
  show ?case
  proof (cases "allowed ro e \<and> ch ?t = None")
    case True
    with Cons.prems have step: "extend_chains ro chain es (ch(?t \<mapsto> chain @ [e]), fl @ [?t]) = (ch', fl')"
      by (auto simp: allowed_def Let_def)
    from extend_chains_dom[OF step] have "?t \<in> dom ch'" by auto
    with Cons.IH[OF step] True show ?thesis by auto
  next
    case False
    with Cons show ?thesis by (auto simp: allowed_def Let_def split: if_splits)
  qed
qed simp

lemma expand_frontier_step:
  assumes "expand_frontier ro es (k # ks) (ch, fl) = r" and "ch k = Some chain"
  obtains ch1 fl1 where
    "extend_chains ro chain (out_edges es k) (ch, fl) = (ch1, fl1)"
    "expand_frontier ro es ks (ch1, fl1) = r"
  using assms by (cases "extend_chains ro chain (out_edges es k) (ch, fl)") auto

lemma expand_frontier_keep:
  "expand_frontier ro es ks (ch, fl) = (ch', fl') \<Longrightarrow> ch k = Some c \<Longrightarrow> ch' k = Some c"
proof (induction ks arbitrary: ch fl)
  case (Cons x ks)
  show ?case
  proof (cases "ch x")
    case (Some chain)
    show ?thesis
      by (rule expand_frontier_step[OF Cons.prems(1) Some])
        (use Cons.IH Cons.prems(2) extend_chains_keep in blast)
  qed (use Cons in simp)
qed simp

lemma growth_trans:
  "A \<subseteq> B \<Longrightarrow> B \<subseteq> A \<union> C \<Longrightarrow> B \<subseteq> D \<Longrightarrow> D \<subseteq> B \<union> C \<Longrightarrow> F1 = F \<union> (B - A) \<Longrightarrow> F2 = F1 \<union> (D - B)
   \<Longrightarrow> A \<subseteq> D \<and> D \<subseteq> A \<union> C \<and> F2 = F \<union> (D - A)"
  by blast

lemma growth_strict: "A \<subseteq> B \<Longrightarrow> B \<subseteq> A \<union> C \<Longrightarrow> B - A \<noteq> {} \<Longrightarrow> C - B \<subset> C - A"
  by blast

lemma expand_frontier_following:
  "expand_frontier ro es ks (ch, fl) = (ch', fl') \<Longrightarrow>
   dom ch \<subseteq> dom ch' \<and> dom ch' \<subseteq> dom ch \<union> callees es \<and> set fl' = set fl \<union> (dom ch' - dom ch)"
proof (induction ks arbitrary: ch fl)
  case (Cons x ks)
  show ?case
  proof (cases "ch x")
    case (Some chain)
    obtain ch1 fl1 where e: "extend_chains ro chain (out_edges es x) (ch, fl) = (ch1, fl1)"
      "expand_frontier ro es ks (ch1, fl1) = (ch', fl')"
      by (rule expand_frontier_step[OF Cons.prems Some])
    have "targets ro (out_edges es x) \<subseteq> callees es" by (auto simp: targets_def callees_def)
    then have "dom ch \<subseteq> dom ch1" "dom ch1 \<subseteq> dom ch \<union> callees es"
      unfolding extend_chains_dom[OF e(1)] by blast+
    with Cons.IH[OF e(2)] extend_chains_following[OF e(1)] show ?thesis
      by (intro growth_trans[of "dom ch" "dom ch1"]) auto
  qed (use Cons in simp)
qed simp

lemma expand_frontier_closed:
  assumes "expand_frontier ro es ks (ch, fl) = (ch', fl')"
    and "k \<in> set ks" "ch k = Some c" "e \<in> set es" "allowed ro e" "sy_key (ed_caller e) = k"
  shows "sy_key (ed_callee e) \<in> dom ch'"
  using assms(1-3)
proof (induction ks arbitrary: ch fl c)
  case (Cons x ks)
  show ?case
  proof (cases "ch x")
    case None
    with Cons show ?thesis by auto
  next
    case (Some chain)
    obtain ch1 fl1 where s: "extend_chains ro chain (out_edges es x) (ch, fl) = (ch1, fl1)"
      "expand_frontier ro es ks (ch1, fl1) = (ch', fl')"
      by (rule expand_frontier_step[OF Cons.prems(1) Some])
    show ?thesis
    proof (cases "x = k")
      case True
      with assms(4-6) have "sy_key (ed_callee e) \<in> targets ro (out_edges es x)"
        by (auto simp: targets_def)
      with extend_chains_dom[OF s(1)] expand_frontier_following[OF s(2)] show ?thesis by blast
    next
      case False
      with Cons.prems(2) have "k \<in> set ks" by simp
      from Cons.IH[OF s(2) this extend_chains_keep[OF s(1) Cons.prems(3)]] show ?thesis .
    qed
  qed
qed simp

lemma expand_frontier_new:
  "expand_frontier ro es ks (ch, fl) = (ch', fl') \<Longrightarrow>
   (\<And>k c. ch k = Some c \<Longrightarrow> P k c) \<Longrightarrow>
   (\<And>k c e. P k c \<Longrightarrow> e \<in> set es \<Longrightarrow> allowed ro e \<Longrightarrow> sy_key (ed_caller e) = k
      \<Longrightarrow> P (sy_key (ed_callee e)) (c @ [e])) \<Longrightarrow>
   ch' k = Some c \<Longrightarrow> P k c"
proof (induction ks arbitrary: ch fl)
  case (Cons x ks)
  show ?case
  proof (cases "ch x")
    case (Some chain)
    obtain ch1 fl1 where s: "extend_chains ro chain (out_edges es x) (ch, fl) = (ch1, fl1)"
      "expand_frontier ro es ks (ch1, fl1) = (ch', fl')"
      by (rule expand_frontier_step[OF Cons.prems(1) Some])
    have "P k' c'" if "ch1 k' = Some c'" for k' c'
      using extend_chains_new[OF s(1) that]
    proof
      assume "\<exists>e \<in> set (out_edges es x). allowed ro e \<and> sy_key (ed_callee e) = k' \<and> c' = chain @ [e]"
      then show ?thesis using Cons.prems(3)[OF Cons.prems(2)[OF Some]] by auto
    qed (rule Cons.prems(2))
    from Cons.IH[OF s(2) this Cons.prems(3,4)] show ?thesis .
  qed (use Cons in simp)
qed simp

function sweep_from :: "bool \<Rightarrow> edge list \<Rightarrow> chain_map \<Rightarrow> string list \<Rightarrow> chain_map" where
  "sweep_from resolved_only es ch frontier =
     (if frontier = [] then ch
      else case expand_frontier resolved_only es frontier (ch, []) of
        (ch', following) \<Rightarrow> sweep_from resolved_only es ch' following)"
  by pat_completeness auto

termination
proof (relation "measure (\<lambda>(ro, es, ch, fr). 2 * card (callees es - dom ch) + (if fr = [] then 0 else 1))")
  fix ro es ch and frontier :: "string list" and ch' following
  assume ne: "frontier \<noteq> []" and "(ch', following) = expand_frontier ro es frontier (ch, [])"
  then have e: "expand_frontier ro es frontier (ch, []) = (ch', following)" by simp
  have g: "dom ch \<subseteq> dom ch'" "dom ch' \<subseteq> dom ch \<union> callees es" "set following = dom ch' - dom ch"
    using expand_frontier_following[OF e] by (elim conjE, simp only: list.set Un_empty_left)+
  have fin: "finite (callees es - dom ch)" by (simp add: callees_def)
  have "2 * card (callees es - dom ch') + (if following = [] then 0 else 1)
        < 2 * card (callees es - dom ch) + (1::nat)"
  proof (cases "following = []")
    case True
    with g have "dom ch' = dom ch" by auto
    with True show ?thesis by simp
  next
    case False
    with g(3) have "dom ch' - dom ch \<noteq> {}" by (metis set_empty)
    with g(1,2) have "callees es - dom ch' \<subset> callees es - dom ch" by (intro growth_strict)
    with fin have "card (callees es - dom ch') < card (callees es - dom ch)"
      by (rule psubset_card_mono)
    then show ?thesis by simp
  qed
  with ne show "((ro, es, ch', following), ro, es, ch, frontier)
      \<in> measure (\<lambda>(ro, es, ch, fr). 2 * card (callees es - dom ch) + (if fr = [] then 0 else 1))"
    by simp
qed simp

declare sweep_from.simps [simp del]

definition start_chains :: "string list \<Rightarrow> chain_map" where
  "start_chains ks k = (if k \<in> set ks then Some [] else None)"

definition sweep_chains :: "edge list \<Rightarrow> string list \<Rightarrow> bool \<Rightarrow> chain_map" where
  "sweep_chains es ks resolved_only = sweep_from resolved_only es (start_chains ks) ks"

definition root_keys :: "entry_root list \<Rightarrow> string list" where
  "root_keys roots = sort (remdups (map (\<lambda>r. sy_key (er_symbol r)) roots))"

definition reachable_from :: "call_graph \<Rightarrow> entry_root list \<Rightarrow> chain_map" where
  \<comment> \<open>\<^verbatim>\<open>reach = dict(everything); reach.update(resolved)\<close>\<close>
  "reachable_from g roots k =
     (case sweep_chains (cg_edges g) (root_keys roots) True k of
        Some c \<Rightarrow> Some c
      | None \<Rightarrow> sweep_chains (cg_edges g) (root_keys roots) False k)"

section \<open>What the traversal finds\<close>

definition edge_rel :: "bool \<Rightarrow> edge list \<Rightarrow> (string \<times> string) set" where
  "edge_rel ro es = {(sy_key (ed_caller e), sy_key (ed_callee e)) | e. e \<in> set es \<and> allowed ro e}"

fun chain_from :: "string \<Rightarrow> edge list \<Rightarrow> string \<Rightarrow> bool" where
  \<comment> \<open>the edges lead from the first key to the second\<close>
  "chain_from a [] b = (a = b)"
| "chain_from a (e # es) b = (sy_key (ed_caller e) = a \<and> chain_from (sy_key (ed_callee e)) es b)"

lemma chain_from_snoc:
  "chain_from a (c @ [e]) b \<longleftrightarrow> chain_from a c (sy_key (ed_caller e)) \<and> sy_key (ed_callee e) = b"
  by (induction c arbitrary: a) auto

definition root_chain :: "bool \<Rightarrow> edge list \<Rightarrow> string set \<Rightarrow> string \<Rightarrow> edge list \<Rightarrow> bool" where
  "root_chain ro es R k c \<longleftrightarrow>
     (\<exists>r \<in> R. chain_from r c k) \<and> set c \<subseteq> set es \<and> (\<forall>e \<in> set c. allowed ro e)"

lemma root_chain_snoc:
  "root_chain ro es R k c \<Longrightarrow> e \<in> set es \<Longrightarrow> allowed ro e \<Longrightarrow> sy_key (ed_caller e) = k
   \<Longrightarrow> root_chain ro es R (sy_key (ed_callee e)) (c @ [e])"
  by (auto simp: root_chain_def chain_from_snoc)

lemma sweep_from_inv:
  assumes "\<And>k c. ch k = Some c \<Longrightarrow> root_chain ro es R k c"
    and "\<And>k e. k \<in> dom ch \<Longrightarrow> k \<notin> set fr \<Longrightarrow> e \<in> set es \<Longrightarrow> allowed ro e
           \<Longrightarrow> sy_key (ed_caller e) = k \<Longrightarrow> sy_key (ed_callee e) \<in> dom ch"
  shows "(\<forall>k c. sweep_from ro es ch fr k = Some c \<longrightarrow> root_chain ro es R k c)
    \<and> dom ch \<subseteq> dom (sweep_from ro es ch fr)
    \<and> (\<forall>e \<in> set es. allowed ro e \<longrightarrow> sy_key (ed_caller e) \<in> dom (sweep_from ro es ch fr)
          \<longrightarrow> sy_key (ed_callee e) \<in> dom (sweep_from ro es ch fr))"
  using assms
proof (induction ro es ch fr rule: sweep_from.induct)
  case (1 ro es ch fr)
  show ?case
  proof (cases "fr = []")
    case True
    then have "sweep_from ro es ch fr = ch" by (simp add: sweep_from.simps)
    with 1 True show ?thesis by auto
  next
    case False
    obtain ch' fl where e: "expand_frontier ro es fr (ch, []) = (ch', fl)" by force
    with False have unf: "sweep_from ro es ch fr = sweep_from ro es ch' fl"
      by (simp add: sweep_from.simps[of ro es ch fr])
    have grow: "dom ch \<subseteq> dom ch'" "set fl = dom ch' - dom ch"
      using expand_frontier_following[OF e] by (elim conjE, simp only: list.set Un_empty_left)+
    have inv: "root_chain ro es R k c" if "ch' k = Some c" for k c
      by (rule expand_frontier_new[where P = "root_chain ro es R", OF e "1.prems"(1) root_chain_snoc that])
    have cl: "sy_key (ed_callee x) \<in> dom ch'"
      if k: "k \<in> dom ch'" "k \<notin> set fl" and x: "x \<in> set es" "allowed ro x" "sy_key (ed_caller x) = k"
      for k x
    proof -
      from k grow have kd: "k \<in> dom ch" by blast
      then obtain c where c: "ch k = Some c" by blast
      show ?thesis
      proof (cases "k \<in> set fr")
        case True
        show ?thesis by (rule expand_frontier_closed[OF e True c x])
      next
        case False
        from "1.prems"(2)[OF kd False x] grow(1) show ?thesis by blast
      qed
    qed
    have IH: "(\<forall>k c. sweep_from ro es ch' fl k = Some c \<longrightarrow> root_chain ro es R k c)
      \<and> dom ch' \<subseteq> dom (sweep_from ro es ch' fl)
      \<and> (\<forall>e \<in> set es. allowed ro e \<longrightarrow> sy_key (ed_caller e) \<in> dom (sweep_from ro es ch' fl)
          \<longrightarrow> sy_key (ed_callee e) \<in> dom (sweep_from ro es ch' fl))"
      by (rule "1.IH"[OF False e[symmetric] inv cl])
    then show ?thesis unfolding unf using grow(1) by blast
  qed
qed

lemma dom_start_chains [simp]: "dom (start_chains ks) = set ks"
  by (auto simp: start_chains_def dom_def split: if_splits)

lemma sweep_chains_facts:
  shows sweep_chain: "sweep_chains es ks ro k = Some c \<Longrightarrow> root_chain ro es (set ks) k c"
    and sweep_dom: "dom (sweep_chains es ks ro) = (edge_rel ro es)\<^sup>* `` set ks"
proof -
  let ?s = "sweep_chains es ks ro"
  have I: "(\<forall>k c. ?s k = Some c \<longrightarrow> root_chain ro es (set ks) k c) \<and> dom (start_chains ks) \<subseteq> dom ?s
    \<and> (\<forall>e \<in> set es. allowed ro e \<longrightarrow> sy_key (ed_caller e) \<in> dom ?s \<longrightarrow> sy_key (ed_callee e) \<in> dom ?s)"
    unfolding sweep_chains_def
    by (rule sweep_from_inv) (auto simp: start_chains_def root_chain_def split: if_splits)
  then show sc: "root_chain ro es (set ks) k c" if "?s k = Some c" for k c using that by blast
  have chain_rel: "(a, b) \<in> (edge_rel ro es)\<^sup>*"
    if "chain_from a c b" "set c \<subseteq> set es" "\<forall>e \<in> set c. allowed ro e" for a b c
    using that
  proof (induction c arbitrary: a)
    case (Cons e c)
    then have "(a, sy_key (ed_callee e)) \<in> edge_rel ro es" by (auto simp: edge_rel_def)
    with Cons show ?case by (auto intro: converse_rtrancl_into_rtrancl)
  qed simp
  show "dom ?s = (edge_rel ro es)\<^sup>* `` set ks"
  proof (intro equalityI subsetI)
    fix k assume "k \<in> dom ?s"
    then obtain c where "?s k = Some c" by blast
    from sc[OF this] chain_rel show "k \<in> (edge_rel ro es)\<^sup>* `` set ks"
      by (auto simp: root_chain_def)
  next
    fix k assume "k \<in> (edge_rel ro es)\<^sup>* `` set ks"
    then obtain r where "r \<in> set ks" and rk: "(r, k) \<in> (edge_rel ro es)\<^sup>*" by blast
    with I have "r \<in> dom ?s" by auto
    from rk this show "k \<in> dom ?s"
    proof (induction rule: rtrancl_induct)
      case (step y z)
      then obtain e where "e \<in> set es" "allowed ro e" "sy_key (ed_caller e) = y" "sy_key (ed_callee e) = z"
        by (auto simp: edge_rel_def)
      with I step show ?case by blast
    qed
  qed
qed

lemma set_root_keys [simp]: "set (root_keys roots) = (\<lambda>r. sy_key (er_symbol r)) ` set roots"
  by (simp add: root_keys_def)

datatype path_quality = Resolved | OverApproximated | NotApplicable

definition chain_quality :: "edge list \<Rightarrow> path_quality" where
  "chain_quality c = (if list_all (\<lambda>e. edge_is_resolved (ed_kind e)) c then Resolved else OverApproximated)"

lemma root_chain_weaken: "root_chain ro es R k c \<Longrightarrow> root_chain False es R k c"
  by (auto simp: root_chain_def allowed_def)

lemma root_chain_resolved: "root_chain True es R k c \<Longrightarrow> chain_quality c = Resolved"
  by (auto simp: root_chain_def allowed_def chain_quality_def list_all_iff)

lemma root_chain_edge_rel:
  "root_chain ro es R k c \<Longrightarrow> chain_quality c = Resolved \<Longrightarrow> k \<in> (edge_rel True es)\<^sup>* `` R"
proof -
  assume rc: "root_chain ro es R k c" and q: "chain_quality c = Resolved"
  have "(a, b) \<in> (edge_rel True es)\<^sup>*"
    if "chain_from a c b" "set c \<subseteq> set es" "list_all (\<lambda>e. edge_is_resolved (ed_kind e)) c" for a b
    using that
  proof (induction c arbitrary: a)
    case (Cons e c)
    then have "(a, sy_key (ed_callee e)) \<in> edge_rel True es" by (auto simp: edge_rel_def allowed_def)
    with Cons show ?case by (auto intro: converse_rtrancl_into_rtrancl)
  qed simp
  with rc q show ?thesis by (auto simp: root_chain_def chain_quality_def split: if_splits)
qed

lemma reachable_from_spec:
  "case reachable_from g roots k of
       None \<Rightarrow> k \<notin> (edge_rel False (cg_edges g))\<^sup>* `` ((\<lambda>r. sy_key (er_symbol r)) ` set roots)
     | Some c \<Rightarrow> root_chain False (cg_edges g) ((\<lambda>r. sy_key (er_symbol r)) ` set roots) k c
         \<and> (chain_quality c = Resolved
            \<longleftrightarrow> k \<in> (edge_rel True (cg_edges g))\<^sup>* `` ((\<lambda>r. sy_key (er_symbol r)) ` set roots))"
proof -
  let ?es = "cg_edges g" and ?R = "(\<lambda>r. sy_key (er_symbol r)) ` set roots"
  let ?s = "\<lambda>ro. sweep_chains ?es (root_keys roots) ro"
  have d: "dom (?s ro) = (edge_rel ro ?es)\<^sup>* `` ?R" for ro by (simp add: sweep_dom)
  show "case reachable_from g roots k of None \<Rightarrow> k \<notin> (edge_rel False ?es)\<^sup>* `` ?R
     | Some c \<Rightarrow> root_chain False ?es ?R k c
         \<and> (chain_quality c = Resolved \<longleftrightarrow> k \<in> (edge_rel True ?es)\<^sup>* `` ?R)"
  proof (cases "?s True k")
    case (Some c)
    then have "reachable_from g roots k = Some c" by (simp add: reachable_from_def)
    moreover have rc: "root_chain True ?es ?R k c" using sweep_chain[OF Some] by simp
    moreover have "k \<in> (edge_rel True ?es)\<^sup>* `` ?R" using d[of True] Some by blast
    ultimately show ?thesis using root_chain_weaken root_chain_resolved by simp
  next
    case None
    then have r: "reachable_from g roots k = ?s False k" by (simp add: reachable_from_def)
    have nt: "k \<notin> (edge_rel True ?es)\<^sup>* `` ?R" using d[of True] None by blast
    show ?thesis
    proof (cases "?s False k")
      case None
      with r d[of False] show ?thesis by auto
    next
      case (Some c)
      have rc: "root_chain False ?es ?R k c" using sweep_chain[OF Some] by simp
      with root_chain_edge_rel nt r Some show ?thesis by auto
    qed
  qed
qed

section \<open>Properties\<close>

text \<open>
  C8. The traversal is exact and its witnesses are real: a symbol is in the reach map exactly when
  edges of the graph lead to it from a root, its chain is such a sequence of edges (so a
  root's own chain is empty), and the chain is spelled resolved exactly when a path of
  resolved edges alone exists, whatever shorter over-approximated path there is.
\<close>

theorem reachable_from_exact:
  "\<forall>k. case reachable_from g roots k of
       None \<Rightarrow> k \<notin> (edge_rel False (cg_edges g))\<^sup>* `` ((\<lambda>r. sy_key (er_symbol r)) ` set roots)
     | Some c \<Rightarrow> root_chain False (cg_edges g) ((\<lambda>r. sy_key (er_symbol r)) ` set roots) k c
         \<and> (chain_quality c = Resolved
            \<longleftrightarrow> k \<in> (edge_rel True (cg_edges g))\<^sup>* `` ((\<lambda>r. sy_key (er_symbol r)) ` set roots))"
  by (intro allI reachable_from_spec)

end
