(* ===== verification/Imports.thy ===== *)
theory Imports
  imports CallGraph
begin

text \<open>
  The import components of \<^verbatim>\<open>call_site_reachability.import_components\<close>, a union-find over the
  packages with path compression, and what is scoped by them: \<^verbatim>\<open>holes_in_scope\<close>,
  \<^verbatim>\<open>validate_import_relation\<close>, \<^verbatim>\<open>_union_import_evidence\<close> and \<^verbatim>\<open>build_call_graph\<close>. The
  \<^verbatim>\<open>parent\<close> dictionary is a function that is the identity where the dictionary has no key; its
  while loops are partial functions, and that they return is part of the component theorem.
\<close>

section \<open>Union-find\<close>

partial_function (option) find_root :: "(string \<Rightarrow> string) \<Rightarrow> string \<Rightarrow> string option" where
  [code]: "find_root p x = (if p x = x then Some x else find_root p (p x))"

partial_function (option) compress ::
  "(string \<Rightarrow> string) \<Rightarrow> string \<Rightarrow> string \<Rightarrow> (string \<Rightarrow> string) option" where
  [code]: "compress p root x =
     (if p x = root then Some p else compress (p(x := root)) root (p x))"

definition uf_find :: "(string \<Rightarrow> string) \<Rightarrow> string \<Rightarrow> (string \<times> (string \<Rightarrow> string)) option" where
  "uf_find p x = (case find_root p x of None \<Rightarrow> None
     | Some r \<Rightarrow> map_option (\<lambda>p'. (r, p')) (compress p r x))"

fun rep_in :: "(string \<Rightarrow> string) \<Rightarrow> nat \<Rightarrow> string \<Rightarrow> string \<Rightarrow> bool" where
  \<comment> \<open>\<open>r\<close> is the root of \<open>x\<close>, in exactly the given number of steps\<close>
  "rep_in p 0 x r \<longleftrightarrow> p x = x \<and> r = x"
| "rep_in p (Suc n) x r \<longleftrightarrow> p x \<noteq> x \<and> rep_in p n (p x) r"

definition forest :: "(string \<Rightarrow> string) \<Rightarrow> bool" where
  "forest p \<longleftrightarrow> (\<forall>x. \<exists>n r. rep_in p n x r)"

lemma rep_in_root: "rep_in p n x r \<Longrightarrow> p r = r"
  by (induction n arbitrary: x) auto

lemma rep_in_unique: "rep_in p n x r \<Longrightarrow> rep_in p m x r' \<Longrightarrow> r' = r \<and> m = n"
proof (induction n arbitrary: x m)
  case 0
  then show ?case by (cases m) auto
next
  case (Suc n)
  then show ?case by (cases m) auto
qed

lemma find_root_rep: "rep_in p n x r \<Longrightarrow> find_root p x = Some r"
  by (induction n arbitrary: x) (auto simp: find_root.simps)

lemma rep_in_compressed:
  assumes "rep_in p n y r'" and "rep_in p k x r"
  shows "\<exists>m \<le> n. rep_in (p(x := r)) m y r'"
proof -
  define q where "q = p(x := r)"
  have qx: "q x = r" and qz: "\<And>z. z \<noteq> x \<Longrightarrow> q z = p z" by (auto simp: q_def)
  have "\<exists>m \<le> n. rep_in q m y r'"
  using assms(1)
proof (induction n arbitrary: y)
  case 0
  show ?case
  proof (cases "y = x")
    case True
    with 0 assms(2) rep_in_unique[of p 0 y r' k r] have "r = x" "r' = x" by auto
    with 0 True qx show ?thesis by (intro exI[of _ 0]) auto
  next
    case False
    with 0 qz show ?thesis by (intro exI[of _ 0]) auto
  qed
next
  case (Suc n)
  show ?case
  proof (cases "y = x")
    case True
    with Suc.prems assms(2) have r: "r = r'" "k = Suc n"
      using rep_in_unique[of p "Suc n" y r' k r] by auto
    have root: "p r' = r'" by (rule rep_in_root[OF Suc.prems])
    have "r' \<noteq> x" using root Suc.prems True by auto
    with r root True qx qz[of r'] have "rep_in q 1 y r'" by simp
    then show ?thesis by (intro exI[of _ 1]) auto
  next
    case False
    from Suc.prems have "rep_in p n (p y) r'" "p y \<noteq> y" by auto
    with Suc.IH obtain m where "m \<le> n" "rep_in q m (p y) r'" by blast
    with False \<open>p y \<noteq> y\<close> qz show ?thesis by (intro exI[of _ "Suc m"]) auto
  qed
qed
  then show ?thesis by (simp only: q_def)
qed

lemma compress_spec:
  assumes "rep_in p n x r"
  shows "\<exists>p'. compress p r x = Some p' \<and> (\<forall>y r' m. rep_in p m y r' \<longrightarrow> (\<exists>m'. rep_in p' m' y r'))"
  using assms
proof (induction n arbitrary: p x rule: less_induct)
  case (less n)
  show ?case
  proof (cases "p x = r")
    case True
    then show ?thesis by (subst compress.simps) auto
  next
    case False
    then obtain k where n: "n = Suc k" using less.prems by (cases n) auto
    with less.prems have "rep_in p k (p x) r" by simp
    from rep_in_compressed[OF this less.prems] obtain m where m: "m \<le> k"
      "rep_in (p(x := r)) m (p x) r" by blast
    have "m < n" using m(1) n by simp
    from less.IH[OF this m(2)] obtain p' where
      p': "compress (p(x := r)) r (p x) = Some p'"
      "\<And>y r' m. rep_in (p(x := r)) m y r' \<Longrightarrow> \<exists>m'. rep_in p' m' y r'" by blast
    have "\<exists>m'. rep_in p' m' y r'" if "rep_in p m y r'" for y r' m
      using rep_in_compressed[OF that less.prems] p'(2) by blast
    with p'(1) False show ?thesis by (subst compress.simps) auto
  qed
qed

definition root_of :: "(string \<Rightarrow> string) \<Rightarrow> string \<Rightarrow> string" where
  "root_of p x = the (find_root p x)"

lemma root_of_eq: "rep_in p n x r \<Longrightarrow> root_of p x = r"
  by (simp add: root_of_def find_root_rep)

lemma uf_find_spec:
  assumes "forest p"
  shows "\<exists>p'. uf_find p x = Some (root_of p x, p') \<and> forest p' \<and> root_of p' = root_of p"
proof -
  from assms obtain n r where x: "rep_in p n x r" unfolding forest_def by blast
  from compress_spec[OF x] obtain p' where p': "compress p r x = Some p'"
    "\<And>y r' m. rep_in p m y r' \<Longrightarrow> \<exists>m'. rep_in p' m' y r'" by blast
  have "forest p'" using assms p'(2) unfolding forest_def by blast
  moreover have "root_of p' y = root_of p y" for y
    using assms p'(2) root_of_eq unfolding forest_def by metis
  ultimately show ?thesis
    using p'(1) find_root_rep[OF x] root_of_eq[OF x] by (auto simp: uf_find_def)
qed

lemma union_spec:
  assumes "forest p" and "root_of p a = a" "root_of p b = b" "a \<noteq> b"
  shows "forest (p(a := b)) \<and> root_of (p(a := b)) y = (if root_of p y = a then b else root_of p y)"
proof -
  define q where "q = p(a := b)"
  have qa: "q a = b" and qz: "\<And>z. z \<noteq> a \<Longrightarrow> q z = p z" by (auto simp: q_def)
  have own: "p r = r" if "root_of p r = r" for r
    using assms(1) that rep_in_root root_of_eq unfolding forest_def by metis
  have step: "\<exists>m. rep_in q m y (if r = a then b else r)" if "rep_in p n y r" for n y r
    using that
  proof (induction n arbitrary: y)
    case 0
    show ?case
    proof (cases "y = a")
      case True
      with 0 assms(4) own[OF assms(3)] qa qz[of b] show ?thesis by (intro exI[of _ 1]) auto
    next
      case False
      with 0 qz[of y] show ?thesis by (intro exI[of _ 0]) auto
    qed
  next
    case (Suc n)
    then have ny: "p y \<noteq> y" and "rep_in p n (p y) r" by auto
    with Suc.IH obtain m where "rep_in q m (p y) (if r = a then b else r)" by blast
    moreover have "y \<noteq> a" using ny own[OF assms(2)] by auto
    ultimately show ?case using ny qz[of y] by (intro exI[of _ "Suc m"]) auto
  qed
  have "forest q" using assms(1) step unfolding forest_def by blast
  moreover have "root_of q y = (if root_of p y = a then b else root_of p y)"
  proof -
    from assms(1) obtain n r where "rep_in p n y r" unfolding forest_def by blast
    with step[OF this] root_of_eq show ?thesis by metis
  qed
  ultimately show ?thesis unfolding q_def by blast
qed

lemma forest_id: "forest (\<lambda>x. x)"
  unfolding forest_def by (metis rep_in.simps(1))

lemma root_of_id: "root_of (\<lambda>x. x) x = x"
  by (rule root_of_eq[of _ 0]) simp

lemma root_of_idem: "forest p \<Longrightarrow> root_of p (root_of p x) = root_of p x"
  unfolding forest_def by (metis rep_in_root rep_in.simps(1) root_of_eq)

section \<open>Components\<close>

type_synonym parents = "string \<Rightarrow> string"

datatype graph_error =
    NoComponents
  | DuplicatePackage string
  | EmptyRelation
  | MisfiledPackage string
  | NegativeExternal string
  | UnknownSymbol string string
  | SymbolInTwoPackages string
  | UnknownImport string string
  | UnplacedSymbols "string list"
  | AnalyzerFailed

fun union_imports :: "string list \<Rightarrow> string \<Rightarrow> string list \<Rightarrow> parents \<Rightarrow> parents option option" where
  \<comment> \<open>the imports of one package: \<open>Some None\<close> is \<^verbatim>\<open>return whole_tree\<close>\<close>
  "union_imports nodes i [] p = Some (Some p)"
| "union_imports nodes i (j # js) p =
     (if j \<notin> set nodes then Some None
      else case uf_find p i of None \<Rightarrow> None | Some (left, p1) \<Rightarrow>
        (case uf_find p1 j of None \<Rightarrow> None | Some (right, p2) \<Rightarrow>
          union_imports nodes i js (if left \<noteq> right then p2(left := right) else p2)))"

fun union_packages ::
  "string list \<Rightarrow> (string \<times> package_imports) list \<Rightarrow> parents \<Rightarrow> parents option option" where
  "union_packages nodes [] p = Some (Some p)"
| "union_packages nodes ((i, pk) # pks) p =
     (case union_imports nodes i (pk_imports pk) p of
        None \<Rightarrow> None
      | Some None \<Rightarrow> Some None
      | Some (Some p') \<Rightarrow> union_packages nodes pks p')"

fun collect_members ::
  "string list \<Rightarrow> parents \<Rightarrow> (string \<Rightarrow> string list) \<Rightarrow> ((string \<Rightarrow> string list) \<times> parents) option" where
  "collect_members [] p acc = Some (acc, p)"
| "collect_members (i # is) p acc =
     (case uf_find p i of None \<Rightarrow> None
      | Some (r, p') \<Rightarrow> collect_members is p' (acc(r := acc r @ [i])))"

fun read_components ::
  "(string \<Rightarrow> string list) \<Rightarrow> string list \<Rightarrow> parents \<Rightarrow> (string \<times> string list) list option" where
  "read_components members [] p = Some []"
| "read_components members (i # is) p =
     (case uf_find p i of None \<Rightarrow> None
      | Some (r, p') \<Rightarrow> map_option ((#) (i, members r)) (read_components members is p'))"

definition whole_tree :: "string list \<Rightarrow> (string \<times> string list) list" where
  "whole_tree nodes = map (\<lambda>i. (i, nodes)) nodes"

definition import_components ::
  "import_evidence \<Rightarrow> (graph_error + (string \<times> string list) list) option" where
  "import_components ev = (case ev of
       ImportsUnavailable _ \<Rightarrow> Some (Inl NoComponents)
     | ImportRelation ps \<Rightarrow>
        (let nodes = map fst ps in
         if list_ex (\<lambda>ip. pk_unplaced (snd ip) \<noteq> []) ps then Some (Inr (whole_tree nodes))
         else case union_packages nodes ps (\<lambda>x. x) of
           None \<Rightarrow> None
         | Some None \<Rightarrow> Some (Inr (whole_tree nodes))
         | Some (Some p) \<Rightarrow> (case collect_members nodes p (\<lambda>_. []) of
             None \<Rightarrow> None
           | Some (members, p') \<Rightarrow> map_option Inr (read_components members nodes p'))))"

section \<open>What the components are\<close>

definition linked :: "(string \<times> string) set \<Rightarrow> (string \<times> string) set" where
  "linked R = (R \<union> R\<inverse>)\<^sup>*"

lemma linked_refl [simp]: "(a, a) \<in> linked R"
  by (simp add: linked_def)

lemma linked_sym: "(a, b) \<in> linked R \<Longrightarrow> (b, a) \<in> linked R"
proof -
  have "sym ((R \<union> R\<inverse>)\<^sup>*)" by (intro sym_rtrancl) (auto simp: sym_def)
  then show "(a, b) \<in> linked R \<Longrightarrow> (b, a) \<in> linked R" by (auto simp: linked_def dest: symD)
qed

lemma linked_trans: "(a, b) \<in> linked R \<Longrightarrow> (b, c) \<in> linked R \<Longrightarrow> (a, c) \<in> linked R"
  by (auto simp: linked_def)

lemma linked_insert:
  "(a, b) \<in> linked (insert (i, j) R) \<longleftrightarrow>
     (a, b) \<in> linked R \<or> ((a, i) \<in> linked R \<and> (j, b) \<in> linked R)
     \<or> ((a, j) \<in> linked R \<and> (i, b) \<in> linked R)"
proof
  assume "(a, b) \<in> linked (insert (i, j) R)"
  then show "(a, b) \<in> linked R \<or> ((a, i) \<in> linked R \<and> (j, b) \<in> linked R)
     \<or> ((a, j) \<in> linked R \<and> (i, b) \<in> linked R)"
    unfolding linked_def[of "insert (i, j) R"]
  proof (induction rule: rtrancl_induct)
    case (step y z)
    have "(y, z) \<in> linked R \<or> (y = i \<and> z = j) \<or> (y = j \<and> z = i)"
      using step.hyps(2) by (auto simp: linked_def)
    with step.IH show ?case using linked_trans linked_sym linked_refl by metis
  qed simp
next
  have sub: "linked R \<subseteq> linked (insert (i, j) R)"
    unfolding linked_def by (intro rtrancl_mono) auto
  have ij: "(i, j) \<in> linked (insert (i, j) R)" by (auto simp: linked_def)
  assume "(a, b) \<in> linked R \<or> ((a, i) \<in> linked R \<and> (j, b) \<in> linked R)
     \<or> ((a, j) \<in> linked R \<and> (i, b) \<in> linked R)"
  then consider "(a, b) \<in> linked R" | "(a, i) \<in> linked R" "(j, b) \<in> linked R"
    | "(a, j) \<in> linked R" "(i, b) \<in> linked R" by blast
  then show "(a, b) \<in> linked (insert (i, j) R)"
  proof cases
    case 1
    with sub show ?thesis by blast
  next
    case 2
    with sub have "(a, i) \<in> linked (insert (i, j) R)" "(j, b) \<in> linked (insert (i, j) R)" by blast+
    with ij show ?thesis by (blast intro: linked_trans)
  next
    case 3
    with sub have "(a, j) \<in> linked (insert (i, j) R)" "(i, b) \<in> linked (insert (i, j) R)" by blast+
    with linked_sym[OF ij] show ?thesis by (blast intro: linked_trans)
  qed
qed

definition represents :: "parents \<Rightarrow> (string \<times> string) set \<Rightarrow> bool" where
  "represents p R \<longleftrightarrow> forest p \<and> (\<forall>a b. root_of p a = root_of p b \<longleftrightarrow> (a, b) \<in> linked R)"

lemma represents_id: "represents (\<lambda>x. x) {}"
  by (simp add: represents_def forest_id root_of_id linked_def)

lemma represents_union:
  assumes "represents p R"
  shows "represents (if root_of p i \<noteq> root_of p j then p(root_of p i := root_of p j) else p)
           (insert (i, j) R)"
proof -
  have f: "forest p" and r: "\<And>a b. root_of p a = root_of p b \<longleftrightarrow> (a, b) \<in> linked R"
    using assms by (auto simp: represents_def)
  show ?thesis
  proof (cases "root_of p i = root_of p j")
    case True
    then have "(a, b) \<in> linked (insert (i, j) R) \<longleftrightarrow> (a, b) \<in> linked R" for a b
      unfolding linked_insert r[symmetric] by metis
    with True f r show ?thesis by (simp add: represents_def)
  next
    case False
    note u = union_spec[OF f root_of_idem[OF f] root_of_idem[OF f] False]
    let ?q = "p(root_of p i := root_of p j)"
    have "root_of ?q a = root_of ?q b \<longleftrightarrow> (a, b) \<in> linked (insert (i, j) R)" for a b
      unfolding linked_insert r[symmetric] u[THEN conjunct2] by (auto split: if_splits)
    with u False show ?thesis by (auto simp: represents_def)
  qed
qed

lemma represents_find:
  assumes "represents p R"
  obtains p' where "uf_find p x = Some (root_of p x, p')" "represents p' R" "root_of p' = root_of p"
  using uf_find_spec[of p x] assms by (auto simp: represents_def)

lemma union_imports_spec:
  assumes "represents p R"
  shows "if set js \<subseteq> set nodes
    then \<exists>p'. union_imports nodes i js p = Some (Some p') \<and> represents p' (R \<union> {i} \<times> set js)
    else union_imports nodes i js p = Some None"
  using assms
proof (induction js arbitrary: p R)
  case (Cons j js)
  show ?case
  proof (cases "j \<in> set nodes")
    case True
    obtain p1 where p1: "uf_find p i = Some (root_of p i, p1)" "represents p1 R" "root_of p1 = root_of p"
      by (rule represents_find[OF Cons.prems])
    obtain p2 where p2: "uf_find p1 j = Some (root_of p1 j, p2)" "represents p2 R" "root_of p2 = root_of p1"
      by (rule represents_find[OF p1(2)])
    have "R \<union> {i} \<times> set (j # js) = insert (i, j) R \<union> {i} \<times> set js" by auto
    with Cons.IH[OF represents_union[OF p2(2), of i j]] True p1 p2 show ?thesis
      by (auto split: if_splits)
  qed auto
qed auto

definition import_links :: "(string \<times> package_imports) list \<Rightarrow> (string \<times> string) set" where
  "import_links ps = {(i, j). \<exists>pk. (i, pk) \<in> set ps \<and> j \<in> set (pk_imports pk)}"

lemma import_links_Cons [simp]:
  "import_links ((i, pk) # ps) = {i} \<times> set (pk_imports pk) \<union> import_links ps"
  by (auto simp: import_links_def)

lemma union_packages_spec:
  assumes "represents p R"
  shows "if list_all (\<lambda>ip. set (pk_imports (snd ip)) \<subseteq> set nodes) ps
    then \<exists>p'. union_packages nodes ps p = Some (Some p') \<and> represents p' (R \<union> import_links ps)
    else union_packages nodes ps p = Some None"
  using assms
proof (induction ps arbitrary: p R)
  case Nil
  then show ?case by (simp add: import_links_def)
next
  case (Cons ip ps)
  obtain i pk where ip: "ip = (i, pk)" by force
  show ?case
  proof (cases "set (pk_imports pk) \<subseteq> set nodes")
    case True
    with union_imports_spec[OF Cons.prems, of "pk_imports pk" nodes i] obtain p' where
      p': "union_imports nodes i (pk_imports pk) p = Some (Some p')"
      "represents p' (R \<union> {i} \<times> set (pk_imports pk))" by auto
    from Cons.IH[OF p'(2)] True p'(1) ip show ?thesis by (auto simp: Un_assoc split: if_splits)
  next
    case False
    with union_imports_spec[OF Cons.prems, of "pk_imports pk" nodes i] ip show ?thesis by auto
  qed
qed

lemma collect_members_spec:
  "represents p R \<Longrightarrow> \<exists>acc' p'. collect_members is p acc = Some (acc', p')
     \<and> represents p' R \<and> root_of p' = root_of p
     \<and> (\<forall>r. set (acc' r) = set (acc r) \<union> {i \<in> set is. root_of p i = r})"
proof (induction "is" arbitrary: p acc)
  case (Cons i "is")
  obtain p1 where p1: "uf_find p i = Some (root_of p i, p1)" "represents p1 R" "root_of p1 = root_of p"
    by (rule represents_find[OF Cons.prems])
  from Cons.IH[OF p1(2), of "acc(root_of p i := acc (root_of p i) @ [i])"] obtain acc' p' where
    IH: "collect_members is p1 (acc(root_of p i := acc (root_of p i) @ [i])) = Some (acc', p')"
      "represents p' R" "root_of p' = root_of p1"
      "\<And>r. set (acc' r) = set ((acc(root_of p i := acc (root_of p i) @ [i])) r)
         \<union> {i \<in> set is. root_of p1 i = r}" by blast
  have "set (acc' r) = set (acc r) \<union> {x \<in> set (i # is). root_of p x = r}" for r
    unfolding IH(4) p1(3) by auto
  with IH(1-3) p1 show ?case by simp
qed auto

lemma read_components_spec:
  "represents p R \<Longrightarrow>
   read_components members is p = Some (map (\<lambda>i. (i, members (root_of p i))) is)"
proof (induction "is" arbitrary: p)
  case (Cons i "is")
  obtain p1 where p1: "uf_find p i = Some (root_of p i, p1)" "represents p1 R" "root_of p1 = root_of p"
    by (rule represents_find[OF Cons.prems])
  with Cons.IH[OF p1(2)] show ?case by simp
qed auto

definition trusted_relation :: "(string \<times> package_imports) list \<Rightarrow> bool" where
  \<comment> \<open>every import was placed, and on a package the relation carries\<close>
  "trusted_relation ps \<longleftrightarrow>
     list_all (\<lambda>ip. pk_unplaced (snd ip) = [] \<and> set (pk_imports (snd ip)) \<subseteq> set (map fst ps)) ps"

lemma map_of_map_pair: "map_of (map (\<lambda>i. (i, f i)) is) i = (if i \<in> set is then Some (f i) else None)"
  by (induction "is") auto

section \<open>Scoping an unresolved call\<close>

definition package_of :: "(string \<times> package_imports) list \<Rightarrow> string \<Rightarrow> string option" where
  "package_of ps key = map_option (\<lambda>ip. pk_package (snd ip))
     (find (\<lambda>ip. key \<in> set (pk_symbols (snd ip))) ps)"

definition holes_in_scope ::
  "symbol \<Rightarrow> hole list \<Rightarrow> import_evidence \<Rightarrow> (graph_error + hole list) option" where
  "holes_in_scope subject holes ev = (case ev of
       ImportsUnavailable _ \<Rightarrow> Some (Inr holes)
     | ImportRelation ps \<Rightarrow> (case import_components ev of
         None \<Rightarrow> None
       | Some (Inl e) \<Rightarrow> Some (Inl e)
       | Some (Inr comps) \<Rightarrow> Some (Inr
           (case Option.bind (package_of ps (sy_key subject)) (map_of comps) of
              None \<Rightarrow> holes
            | Some reachable \<Rightarrow> filter (\<lambda>h. case package_of ps (sy_key (fst h)) of
                  None \<Rightarrow> True
                | Some pk \<Rightarrow> map_of comps pk = None \<or> pk \<in> set reachable) holes))))"

section \<open>One relation for one tree\<close>

fun claim_symbols ::
  "string list \<Rightarrow> string \<Rightarrow> string list \<Rightarrow> string list \<Rightarrow> graph_error + string list" where
  "claim_symbols declared i [] owned = Inr owned"
| "claim_symbols declared i (k # ks) owned =
     (if k \<notin> set declared then Inl (UnknownSymbol i k)
      else if k \<in> set owned then Inl (SymbolInTwoPackages k)
      else claim_symbols declared i ks (k # owned))"

fun claim_packages ::
  "string list \<Rightarrow> (string \<times> package_imports) list \<Rightarrow> string list \<Rightarrow> graph_error + string list" where
  "claim_packages declared [] owned = Inr owned"
| "claim_packages declared ((i, pk) # ps) owned =
     (if pk_package pk \<noteq> i then Inl (MisfiledPackage i)
      else if pk_external pk < 0 then Inl (NegativeExternal i)
      else case claim_symbols declared i (pk_symbols pk) owned of
        Inl e \<Rightarrow> Inl e | Inr owned' \<Rightarrow> claim_packages declared ps owned')"

definition foreign_import :: "string list \<Rightarrow> string \<times> package_imports \<Rightarrow> graph_error option" where
  "foreign_import nodes ip =
     map_option (UnknownImport (fst ip)) (find (\<lambda>j. j \<notin> set nodes) (pk_imports (snd ip)))"

fun first_error :: "graph_error option list \<Rightarrow> graph_error option" where
  "first_error [] = None"
| "first_error (x # xs) = (case x of Some e \<Rightarrow> Some e | None \<Rightarrow> first_error xs)"

definition validate_import_relation :: "import_evidence \<Rightarrow> string list \<Rightarrow> graph_error option" where
  "validate_import_relation ev declared = (case ev of
       ImportsUnavailable _ \<Rightarrow> None
     | ImportRelation ps \<Rightarrow>
        if declared \<noteq> [] \<and> ps = [] then Some EmptyRelation
        else (case claim_packages declared ps [] of
          Inl e \<Rightarrow> Some e
        | Inr owned \<Rightarrow> (case first_error (map (foreign_import (map fst ps)) ps) of
            Some e \<Rightarrow> Some e
          | None \<Rightarrow> (let unplaced = filter (\<lambda>k. k \<notin> set owned) (sort declared) in
              if unplaced \<noteq> [] then Some (UnplacedSymbols unplaced) else None))))"

definition imports_not_supplied :: import_evidence where
  "imports_not_supplied = ImportsUnavailable ''no analyzer supplied an import relation''"

fun merge_packages ::
  "(string \<times> package_imports) list \<Rightarrow> (string \<times> package_imports) list
   \<Rightarrow> graph_error + (string \<times> package_imports) list" where
  "merge_packages merged [] = Inr merged"
| "merge_packages merged ((i, pk) # ps) =
     (if i \<in> set (map fst merged) then Inl (DuplicatePackage i)
      else merge_packages (merged @ [(i, pk)]) ps)"

fun merge_parts ::
  "(string \<times> package_imports) list \<Rightarrow> import_evidence list
   \<Rightarrow> graph_error + (string \<times> package_imports) list" where
  "merge_parts merged [] = Inr merged"
| "merge_parts merged (ImportRelation ps # evs) =
     (case merge_packages merged ps of Inl e \<Rightarrow> Inl e | Inr m \<Rightarrow> merge_parts m evs)"
| "merge_parts merged (ImportsUnavailable _ # evs) = merge_parts merged evs"

definition is_unavailable :: "import_evidence \<Rightarrow> bool" where
  "is_unavailable ev = (case ev of ImportsUnavailable _ \<Rightarrow> True | _ \<Rightarrow> False)"

definition union_import_evidence ::
  "import_evidence list \<Rightarrow> string list \<Rightarrow> graph_error + import_evidence" where
  "union_import_evidence parts declared =
     (if parts = [] then Inr imports_not_supplied
      else case find is_unavailable parts of
        Some ev \<Rightarrow> Inr ev
      | None \<Rightarrow> (case merge_parts [] parts of
          Inl e \<Rightarrow> Inl e
        | Inr m \<Rightarrow> (let rel = ImportRelation (sort_key fst m) in
            case validate_import_relation rel declared of Some e \<Rightarrow> Inl e | None \<Rightarrow> Inr rel)))"

datatype analyzer_run = Produced call_graph | SourceUnreadable string | AnalyzerError

fun gather_runs :: "analyzer_run list \<Rightarrow> call_graph \<times> import_evidence list
    \<Rightarrow> graph_error + call_graph \<times> import_evidence list" where
  \<comment> \<open>the loop of \<^verbatim>\<open>build_call_graph\<close>; of an unreadable file's reason only its path is kept\<close>
  "gather_runs [] acc = Inr acc"
| "gather_runs (SourceUnreadable path # rs) (g, ev) =
     gather_runs rs (g\<lparr>cg_unreadable := cg_unreadable g @ [path]\<rparr>, ev @ [ImportsUnavailable path])"
| "gather_runs (AnalyzerError # rs) acc = Inl AnalyzerFailed"
| "gather_runs (Produced h # rs) (g, ev) =
     gather_runs rs (g\<lparr>cg_symbols := cg_symbols g @ cg_symbols h, cg_edges := cg_edges g @ cg_edges h,
        cg_unresolved := cg_unresolved g @ cg_unresolved h,
        cg_unreadable := cg_unreadable g @ cg_unreadable h\<rparr>, ev @ [cg_imports h])"

definition empty_graph :: call_graph where
  "empty_graph = \<lparr>cg_symbols = [], cg_edges = [], cg_unresolved = [], cg_unreadable = [],
     cg_imports = imports_not_supplied\<rparr>"

definition ordered_symbols :: "(string \<times> symbol) list \<Rightarrow> (string \<times> symbol) list" where
  \<comment> \<open>the updated dictionary, in the order of its sorted keys: a later symbol replaces an earlier one\<close>
  "ordered_symbols kvs = List.map_filter (\<lambda>k. map_option (Pair k) (map_of (rev kvs) k))
     (sort (remdups (map fst kvs)))"

definition build_call_graph :: "analyzer_run list \<Rightarrow> graph_error + call_graph" where
  "build_call_graph runs = (case gather_runs runs (empty_graph, []) of
       Inl e \<Rightarrow> Inl e
     | Inr (g, ev) \<Rightarrow>
        (let ordered = ordered_symbols (cg_symbols g) in
         case union_import_evidence ev (map fst ordered) of
           Inl e \<Rightarrow> Inl e
         | Inr rel \<Rightarrow> Inr \<lparr>cg_symbols = ordered, cg_edges = sort_key edge_order (cg_edges g),
             cg_unresolved = sort_key (\<lambda>h. (sy_key (fst h), fst (snd h), snd (snd h))) (cg_unresolved g),
             cg_unreadable = sort (remdups (cg_unreadable g)), cg_imports = rel\<rparr>))"

section \<open>Facts about scoping\<close>

lemma claim_symbols_Inr:
  "claim_symbols declared i ks owned = Inr owned' \<Longrightarrow> distinct owned \<Longrightarrow>
   set owned' = set owned \<union> set ks \<and> set ks \<inter> set owned = {} \<and> set ks \<subseteq> set declared \<and> distinct owned'"
proof (induction ks arbitrary: owned)
  case (Cons k ks)
  then have k: "k \<in> set declared" "k \<notin> set owned"
    and r: "claim_symbols declared i ks (k # owned) = Inr owned'" by (auto split: if_splits)
  from Cons.IH[OF r] Cons.prems(2) k show ?case by auto
qed simp

lemma claim_packages_Inr:
  "claim_packages declared ps owned = Inr owned' \<Longrightarrow> distinct owned \<Longrightarrow>
   set owned' = set owned \<union> (\<Union>ip \<in> set ps. set (pk_symbols (snd ip)))
   \<and> (\<forall>ip \<in> set ps. pk_package (snd ip) = fst ip \<and> 0 \<le> pk_external (snd ip)
        \<and> set (pk_symbols (snd ip)) \<subseteq> set declared \<and> set (pk_symbols (snd ip)) \<inter> set owned = {})
   \<and> (\<forall>a b. a < b \<and> b < length ps \<longrightarrow>
        set (pk_symbols (snd (ps ! a))) \<inter> set (pk_symbols (snd (ps ! b))) = {})"
proof (induction ps arbitrary: owned)
  case (Cons ip ps)
  obtain i pk where ip: "ip = (i, pk)" by force
  from Cons.prems ip obtain o1 where o1: "claim_symbols declared i (pk_symbols pk) owned = Inr o1"
    and rest: "claim_packages declared ps o1 = Inr owned'"
    and h: "pk_package pk = i" "0 \<le> pk_external pk"
    by (auto split: if_splits sum.splits)
  note cs = claim_symbols_Inr[OF o1 Cons.prems(2)]
  note IH = Cons.IH[OF rest cs[THEN conjunct2, THEN conjunct2, THEN conjunct2]]
  have "set (pk_symbols (snd ((ip # ps) ! a))) \<inter> set (pk_symbols (snd ((ip # ps) ! b))) = {}"
    if "a < b" "b < length (ip # ps)" for a b
  proof (cases a)
    case 0
    with that obtain b' where "b = Suc b'" "b' < length ps" by (cases b) auto
    then have "ps ! b' \<in> set ps" by simp
    with IH cs 0 \<open>b = Suc b'\<close> ip show ?thesis by fastforce
  next
    case (Suc a')
    with that obtain b' where "b = Suc b'" "b' < length ps" "a' < b'" by (cases b) auto
    with IH Suc show ?thesis by simp
  qed
  moreover have "set owned' = set owned \<union> (\<Union>ip \<in> set (ip # ps). set (pk_symbols (snd ip)))"
    using IH cs ip by auto
  moreover have "\<forall>x \<in> set (ip # ps). pk_package (snd x) = fst x \<and> 0 \<le> pk_external (snd x)
        \<and> set (pk_symbols (snd x)) \<subseteq> set declared \<and> set (pk_symbols (snd x)) \<inter> set owned = {}"
  proof
    fix x assume "x \<in> set (ip # ps)"
    then consider "x = ip" | "x \<in> set ps" by auto
    then show "pk_package (snd x) = fst x \<and> 0 \<le> pk_external (snd x)
        \<and> set (pk_symbols (snd x)) \<subseteq> set declared \<and> set (pk_symbols (snd x)) \<inter> set owned = {}"
    proof cases
      case 1
      with cs ip h show ?thesis by simp
    next
      case 2
      with IH have "pk_package (snd x) = fst x \<and> 0 \<le> pk_external (snd x)
        \<and> set (pk_symbols (snd x)) \<subseteq> set declared \<and> set (pk_symbols (snd x)) \<inter> set o1 = {}" by blast
      moreover have "set owned \<subseteq> set o1" using cs by simp
      ultimately show ?thesis by blast
    qed
  qed
  ultimately show ?case by blast
qed simp

lemma import_components_spec:
  "\<exists>comps. import_components (ImportRelation ps) = Some (Inr comps)
     \<and> (\<forall>i. map_option set (map_of comps i) =
          (if i \<in> fst ` set ps
           then Some (if trusted_relation ps
                      then {j \<in> fst ` set ps. (i, j) \<in> linked (import_links ps)}
                      else fst ` set ps)
           else None))"
proof -
  let ?nodes = "map fst ps"
  have whole: "map_option set (map_of (whole_tree ?nodes) i)
      = (if i \<in> fst ` set ps then Some (fst ` set ps) else None)" for i
    by (simp add: whole_tree_def map_of_map_pair del: map_map)
  consider (unplaced) "list_ex (\<lambda>ip. pk_unplaced (snd ip) \<noteq> []) ps"
    | (outside) "\<not> list_ex (\<lambda>ip. pk_unplaced (snd ip) \<noteq> []) ps" "\<not> trusted_relation ps"
    | (ok) "trusted_relation ps" by blast
  then show ?thesis
  proof cases
    case unplaced
    then have "\<not> trusted_relation ps" by (auto simp: trusted_relation_def list_ex_iff list_all_iff)
    with unplaced whole show ?thesis by (simp add: import_components_def)
  next
    case outside
    then have "\<not> list_all (\<lambda>ip. set (pk_imports (snd ip)) \<subseteq> set ?nodes) ps"
      by (auto simp: trusted_relation_def list_ex_iff list_all_iff)
    with union_packages_spec[OF represents_id, of ?nodes ps]
    have "union_packages ?nodes ps (\<lambda>x. x) = Some None" by (simp split: if_splits)
    with outside whole show ?thesis by (simp add: import_components_def)
  next
    case ok
    then have p: "\<not> list_ex (\<lambda>ip. pk_unplaced (snd ip) \<noteq> []) ps"
      "list_all (\<lambda>ip. set (pk_imports (snd ip)) \<subseteq> set ?nodes) ps"
      by (auto simp: trusted_relation_def list_ex_iff list_all_iff)
    from union_packages_spec[OF represents_id, of ?nodes ps] p(2) obtain q where
      q: "union_packages ?nodes ps (\<lambda>x. x) = Some (Some q)" "represents q (import_links ps)" by auto
    from collect_members_spec[OF q(2), of ?nodes "\<lambda>_. []"] obtain mem q' where
      m: "collect_members ?nodes q (\<lambda>_. []) = Some (mem, q')" "represents q' (import_links ps)"
        "root_of q' = root_of q" "\<And>r. set (mem r) = {i \<in> set ?nodes. root_of q i = r}" by auto
    let ?c = "map (\<lambda>i. (i, mem (root_of q' i))) ?nodes"
    have "import_components (ImportRelation ps) = Some (Inr ?c)"
      using p(1) q(1) m(1) read_components_spec[OF m(2), of mem ?nodes]
      by (simp add: import_components_def del: map_map)
    moreover have "set (mem (root_of q' i)) = {j \<in> fst ` set ps. (i, j) \<in> linked (import_links ps)}" for i
    proof -
      have "root_of q j = root_of q i \<longleftrightarrow> (i, j) \<in> linked (import_links ps)" for j
        using q(2) by (auto simp: represents_def linked_sym)
      then show ?thesis by (simp add: m)
    qed
    ultimately show ?thesis using ok by (simp add: map_of_map_pair del: map_map)
  qed
qed

definition provably_unlinked :: "import_evidence \<Rightarrow> string \<Rightarrow> string \<Rightarrow> bool" where
  "provably_unlinked ev a b \<longleftrightarrow> (\<exists>ps pa pb. ev = ImportRelation ps \<and> trusted_relation ps
     \<and> package_of ps a = Some pa \<and> package_of ps b = Some pb
     \<and> pa \<in> fst ` set ps \<and> pb \<in> fst ` set ps \<and> (pa, pb) \<notin> linked (import_links ps))"

lemma holes_in_scope_spec:
  "holes_in_scope subject holes ev =
     Some (Inr (filter (\<lambda>h. \<not> provably_unlinked ev (sy_key subject) (sy_key (fst h))) holes))"
proof (cases ev)
  case (ImportsUnavailable r)
  then show ?thesis by (simp add: holes_in_scope_def provably_unlinked_def)
next
  case (ImportRelation ps)
  from import_components_spec[of ps] obtain comps where
    c: "import_components (ImportRelation ps) = Some (Inr comps)" and
    m: "\<And>i. map_option set (map_of comps i) =
          (if i \<in> fst ` set ps
           then Some (if trusted_relation ps
                      then {j \<in> fst ` set ps. (i, j) \<in> linked (import_links ps)}
                      else fst ` set ps)
           else None)" by blast
  have none: "map_of comps i = None \<longleftrightarrow> i \<notin> fst ` set ps" for i
    using m[of i] by (auto split: if_splits simp: map_option_case split: option.splits)
  have some: "set r = (if trusted_relation ps
       then {j \<in> fst ` set ps. (i, j) \<in> linked (import_links ps)} else fst ` set ps)"
    if "map_of comps i = Some r" for i r
    using m[of i] that none[of i] by auto
  show ?thesis
  proof (cases "Option.bind (package_of ps (sy_key subject)) (map_of comps)")
    case None
    then have "\<not> provably_unlinked ev (sy_key subject) k" for k
      using none ImportRelation by (auto simp: provably_unlinked_def split: Option.bind_splits)
    with None c ImportRelation show ?thesis by (simp add: holes_in_scope_def)
  next
    case (Some reach)
    then obtain pa where pa: "package_of ps (sy_key subject) = Some pa" "map_of comps pa = Some reach"
      by (auto split: Option.bind_splits)
    have ina: "pa \<in> fst ` set ps" using none[of pa] pa(2) by simp
    have "(case package_of ps k of None \<Rightarrow> True | Some pk \<Rightarrow> map_of comps pk = None \<or> pk \<in> set reach)
        \<longleftrightarrow> \<not> provably_unlinked ev (sy_key subject) k" for k
      using pa some[OF pa(2)] none ina ImportRelation
      by (auto simp: provably_unlinked_def split: option.splits if_splits)
    with Some c ImportRelation show ?thesis by (simp add: holes_in_scope_def)
  qed
qed

lemma merge_packages_keys:
  "merge_packages m ps = Inr m' \<Longrightarrow> distinct (map fst m) \<Longrightarrow> distinct (map fst m')"
  by (induction ps arbitrary: m) (auto split: if_splits)

lemma foreign_import_None:
  "foreign_import nodes ip = None \<longleftrightarrow> set (pk_imports (snd ip)) \<subseteq> set nodes"
  by (auto simp: foreign_import_def find_None_iff)

lemma first_error_None: "first_error xs = None \<longleftrightarrow> (\<forall>x \<in> set xs. x = None)"
  by (induction xs) (auto split: option.splits)

lemma validate_relation_None:
  assumes "validate_import_relation (ImportRelation ps) declared = None"
  shows "(\<forall>ip \<in> set ps. pk_package (snd ip) = fst ip \<and> set (pk_symbols (snd ip)) \<subseteq> set declared
            \<and> set (pk_imports (snd ip)) \<subseteq> fst ` set ps)
    \<and> (\<forall>a b. a < b \<and> b < length ps \<longrightarrow>
        set (pk_symbols (snd (ps ! a))) \<inter> set (pk_symbols (snd (ps ! b))) = {})
    \<and> (\<forall>k \<in> set declared. package_of ps k \<noteq> None)"
proof -
  from assms obtain owned where o: "claim_packages declared ps [] = Inr owned"
    and f: "first_error (map (foreign_import (map fst ps)) ps) = None"
    and u: "filter (\<lambda>k. k \<notin> set owned) (sort declared) = []"
    by (auto simp: validate_import_relation_def Let_def split: if_splits sum.splits option.splits)
  note cp = claim_packages_Inr[OF o distinct.simps(1)[THEN iffD2, OF TrueI]]
  have "package_of ps k \<noteq> None" if "k \<in> set declared" for k
  proof -
    from u that have "k \<in> set owned" by (auto simp: filter_empty_conv)
    with cp obtain ip where "ip \<in> set ps" "k \<in> set (pk_symbols (snd ip))" by auto
    then have "find (\<lambda>ip. k \<in> set (pk_symbols (snd ip))) ps \<noteq> None" unfolding find_None_iff by blast
    then show ?thesis by (simp add: package_of_def)
  qed
  with cp f show ?thesis by (auto simp: first_error_None foreign_import_None)
qed

lemma gather_runs_Inr:
  assumes "gather_runs rs (g, ev) = Inr (g', ev')"
  shows "AnalyzerError \<notin> set rs
    \<and> set (cg_edges g') = set (cg_edges g) \<union> (\<Union>h \<in> {h. Produced h \<in> set rs}. set (cg_edges h))
    \<and> set (cg_unresolved g') = set (cg_unresolved g) \<union> (\<Union>h \<in> {h. Produced h \<in> set rs}. set (cg_unresolved h))
    \<and> set (cg_unreadable g') = set (cg_unreadable g) \<union> (\<Union>h \<in> {h. Produced h \<in> set rs}. set (cg_unreadable h))
        \<union> {p. SourceUnreadable p \<in> set rs}
    \<and> (\<forall>p. SourceUnreadable p \<in> set rs \<longrightarrow> list_ex is_unavailable ev')
    \<and> (list_ex is_unavailable ev \<longrightarrow> list_ex is_unavailable ev')"
  using assms
proof (induction rs arbitrary: g ev)
  case (Cons r rs)
  show ?case
  proof (cases r)
    case (Produced h)
    with Cons.prems Cons.IH[OF _] show ?thesis by fastforce
  next
    case (SourceUnreadable p)
    with Cons.prems have "gather_runs rs (g\<lparr>cg_unreadable := cg_unreadable g @ [p]\<rparr>,
        ev @ [ImportsUnavailable p]) = Inr (g', ev')" by simp
    from Cons.IH[OF this] SourceUnreadable show ?thesis by (auto simp: is_unavailable_def)
  next
    case AnalyzerError
    with Cons.prems show ?thesis by (cases "(g, ev)") simp
  qed
qed auto

lemma union_import_evidence_relation:
  assumes "union_import_evidence parts declared = Inr (ImportRelation ps)"
  shows "validate_import_relation (ImportRelation ps) declared = None \<and> \<not> list_ex is_unavailable parts"
proof (cases "find is_unavailable parts")
  case None
  then have "\<not> list_ex is_unavailable parts" by (auto simp: find_None_iff list_ex_iff)
  moreover have "validate_import_relation (ImportRelation ps) declared = None"
    using None assms
    by (auto simp: union_import_evidence_def imports_not_supplied_def Let_def
        split: if_splits sum.splits option.splits)
  ultimately show ?thesis by blast
next
  case (Some x)
  then have "is_unavailable x" by (induction parts) (auto split: if_splits)
  with Some assms show ?thesis
    by (auto simp: union_import_evidence_def imports_not_supplied_def is_unavailable_def split: if_splits)
qed

section \<open>Properties\<close>

text \<open>
  C9. The union-find returns and is exact: for a relation whose imports are all placed, the component of
  a package is the set of packages connected to it by imports in either direction; when
  one import is unplaced or leads outside the relation, every component is the whole
  tree, so nothing is narrowed on evidence nobody has.
\<close>

theorem import_components_exact:
  "\<exists>comps. import_components (ImportRelation ps) = Some (Inr comps)
     \<and> (\<forall>i. map_option set (map_of comps i) =
          (if i \<in> fst ` set ps
           then Some (if trusted_relation ps
                      then {j \<in> fst ` set ps. (i, j) \<in> linked (import_links ps)}
                      else fst ` set ps)
           else None))"
  by (rule import_components_spec)

text \<open>
  Scoping loses no hole it cannot rule out: the calls kept for a subject are exactly the unresolved
  calls except those whose package is provably unconnected to the subject's, in a relation
  whose imports are all placed. Without a relation, or with a symbol of unknown package,
  nothing is dropped.
\<close>

theorem holes_in_scope_conservative:
  "holes_in_scope subject holes ev =
     Some (Inr (filter (\<lambda>h. \<not> provably_unlinked ev (sy_key subject) (sy_key (fst h))) holes))"
  by (rule holes_in_scope_spec)

text \<open>
  A built graph has lost nothing and its import relation can be trusted with its symbols: no
  analyzer failed, the edges and the unresolved calls are exactly those the analyzers
  produced, an unreadable file is on record, and when the graph carries a relation at all, every
  file was readable, every declared symbol has a package, no symbol has two, and every import
  leads to a package of the relation.
\<close>

theorem build_call_graph_lossless:
  assumes "build_call_graph runs = Inr g"
  shows "AnalyzerError \<notin> set runs
    \<and> set (cg_edges g) = (\<Union>h \<in> {h. Produced h \<in> set runs}. set (cg_edges h))
    \<and> set (cg_unresolved g) = (\<Union>h \<in> {h. Produced h \<in> set runs}. set (cg_unresolved h))
    \<and> {p. SourceUnreadable p \<in> set runs} \<subseteq> set (cg_unreadable g)
    \<and> (\<forall>ps. cg_imports g = ImportRelation ps \<longrightarrow>
         (\<forall>p. SourceUnreadable p \<notin> set runs)
         \<and> (\<forall>k \<in> fst ` set (cg_symbols g). package_of ps k \<noteq> None)
         \<and> (\<forall>a b. a < b \<and> b < length ps \<longrightarrow>
              set (pk_symbols (snd (ps ! a))) \<inter> set (pk_symbols (snd (ps ! b))) = {})
         \<and> (\<forall>ip \<in> set ps. set (pk_imports (snd ip)) \<subseteq> fst ` set ps))"
proof -
  from assms obtain h ev rel where gr: "gather_runs runs (empty_graph, []) = Inr (h, ev)"
    and u: "union_import_evidence ev (map fst (ordered_symbols (cg_symbols h))) = Inr rel"
    and g: "g = \<lparr>cg_symbols = ordered_symbols (cg_symbols h), cg_edges = sort_key edge_order (cg_edges h),
             cg_unresolved = sort_key (\<lambda>h. (sy_key (fst h), fst (snd h), snd (snd h))) (cg_unresolved h),
             cg_unreadable = sort (remdups (cg_unreadable h)), cg_imports = rel\<rparr>"
    by (auto simp: build_call_graph_def Let_def split: sum.splits)
  note G = gather_runs_Inr[OF gr]
  have e: "cg_edges empty_graph = []" "cg_unresolved empty_graph = []" "cg_unreadable empty_graph = []"
    by (simp_all add: empty_graph_def)
  have rel: "(\<forall>p. SourceUnreadable p \<notin> set runs)
         \<and> (\<forall>k \<in> fst ` set (cg_symbols g). package_of ps k \<noteq> None)
         \<and> (\<forall>a b. a < b \<and> b < length ps \<longrightarrow>
              set (pk_symbols (snd (ps ! a))) \<inter> set (pk_symbols (snd (ps ! b))) = {})
         \<and> (\<forall>ip \<in> set ps. set (pk_imports (snd ip)) \<subseteq> fst ` set ps)"
    if "cg_imports g = ImportRelation ps" for ps
  proof -
    from that g u have "union_import_evidence ev (map fst (cg_symbols g)) = Inr (ImportRelation ps)"
      by simp
    from union_import_evidence_relation[OF this]
    have v: "validate_import_relation (ImportRelation ps) (map fst (cg_symbols g)) = None"
      and n: "\<not> list_ex is_unavailable ev" by auto
    from n G have "\<forall>p. SourceUnreadable p \<notin> set runs" by blast
    with validate_relation_None[OF v] show ?thesis by simp
  qed
  from G e rel show ?thesis by (auto simp: g)
qed

definition example_graph :: call_graph where
  "example_graph = \<lparr>cg_symbols = [(''app.main'', \<lparr>sy_key = ''app.main'', sy_path = ''app/main.go'', sy_line = 3\<rparr>)],
     cg_edges = [], cg_unresolved = [], cg_unreadable = [],
     cg_imports = ImportRelation [(''app'', \<lparr>pk_package = ''app'', pk_symbols = [''app.main''],
        pk_imports = [], pk_unplaced = [], pk_external = 2\<rparr>)]\<rparr>"

lemma build_call_graph_lossless_witness:
  "\<exists>g. build_call_graph [Produced example_graph] = Inr g \<and> set (cg_edges g) = {}"
proof -
  have "\<not> isl (build_call_graph [Produced example_graph])" by code_simp
  then obtain g where g: "build_call_graph [Produced example_graph] = Inr g"
    by (cases "build_call_graph [Produced example_graph]") auto
  from build_call_graph_lossless[OF g] have "set (cg_edges g) = set (cg_edges example_graph)"
    by (elim conjE) simp
  then have "set (cg_edges g) = {}" by (simp add: example_graph_def)
  with g show ?thesis by blast
qed

end
