(* ===== verification/Findings.thy ===== *)
theory Findings
  imports Imports Roles
begin

text \<open>
  What the reachability gate says of one tree (\<^verbatim>\<open>call_site_reachability.py\<close>): the seals and their
  subjects, \<^verbatim>\<open>check_subject\<close>, the ruling grid \<^verbatim>\<open>adjudicate\<close> and \<^verbatim>\<open>check_tree\<close>. Message texts
  are left out. The only enrolled analyzer is the Go one, whose negative is conclusive; its
  roots and its graph are inputs.
\<close>

section \<open>Languages\<close>

datatype language = Python | Go | TypeScript

definition comparators :: "(language \<times> string list) list" where
  "comparators = [(Python, [''.py'']), (Go, [''.go'']), (TypeScript, [''.ts'', ''.tsx''])]"

definition language_for_path :: "string \<Rightarrow> language option" where
  \<comment> \<open>\<^verbatim>\<open>role_protocol.support_for_path\<close>\<close>
  "language_for_path path = map_option fst (find (\<lambda>row. list_ex (ends_with path) (snd row)) comparators)"

definition analyzer_for_path :: "string \<Rightarrow> bool option" where
  \<comment> \<open>the row's \<^verbatim>\<open>negative_is_conclusive\<close>; Go is the only row of \<^verbatim>\<open>ANALYZERS\<close>\<close>
  "analyzer_for_path path = (if language_for_path path = Some Go then Some True else None)"

section \<open>Seals and subjects\<close>

record seal =
  sl_symbol :: symbol
  sl_test_id :: string

datatype subject_gap = NoCalls | AllTargetsInTests | Unnameable

record subject =
  sj_seal :: seal
  sj_symbols :: "symbol list"
  sj_gap :: "subject_gap option"

datatype csr_error =
    GraphErr graph_error
  | SealNotDeclared string
  | BadSubject string
  | WitnessWithoutRoot string
  | BadFinding string
  | ReachedFromNoRoot string
  | UnnameableWithoutSite string
  | NotInRulingGrid
  | BadRoot string

definition validate_root :: "entry_root \<Rightarrow> csr_error option" where
  "validate_root r =
     (let in_test = is_test_path (sy_path (er_symbol r)) in
      if er_kind r = TestFunction \<and> \<not> in_test then Some (BadRoot (sy_key (er_symbol r)))
      else if er_root_kind r \<noteq> (if in_test then TestRoot else root_kind_by_entrypoint (er_kind r))
      then Some (BadRoot (sy_key (er_symbol r))) else None)"

fun validated_roots :: "entry_root list \<Rightarrow> csr_error + entry_root list" where
  "validated_roots [] = Inr []"
| "validated_roots (r # rs) = (case validate_root r of
     Some e \<Rightarrow> Inl e | None \<Rightarrow> map_sum id ((#) r) (validated_roots rs))"

definition before_last :: "char \<Rightarrow> string \<Rightarrow> string" where
  \<comment> \<open>\<^verbatim>\<open>s.rpartition(c)[0]\<close>\<close>
  "before_last c s = rev (drop 1 (dropWhile (\<lambda>x. x \<noteq> c) (rev s)))"

definition after_last :: "char \<Rightarrow> string \<Rightarrow> string" where
  \<comment> \<open>\<^verbatim>\<open>s.rpartition(c)[2]\<close>\<close>
  "after_last c s = rev (takeWhile (\<lambda>x. x \<noteq> c) (rev s))"

definition test_id_of :: "symbol \<Rightarrow> string" where
  "test_id_of sy =
     (let directory = before_last (CHR ''/'') (sy_path sy); name = after_last (CHR ''.'') (sy_key sy)
      in if directory \<noteq> [] then directory @ ''.'' @ name else name)"

fun discover_seals :: "call_graph \<Rightarrow> entry_root list \<Rightarrow> csr_error + seal list" where
  "discover_seals g [] = Inr []"
| "discover_seals g (r # rs) =
     (if er_kind r \<noteq> TestFunction then discover_seals g rs
      else if sy_key (er_symbol r) \<notin> set (map fst (cg_symbols g))
      then Inl (SealNotDeclared (sy_key (er_symbol r)))
      else map_sum id ((#) \<lparr>sl_symbol = er_symbol r, sl_test_id = test_id_of (er_symbol r)\<rparr>)
             (discover_seals g rs))"

fun called_by :: "string \<Rightarrow> edge list \<Rightarrow> (string \<times> symbol) list \<Rightarrow> (string \<times> symbol) list" where
  \<comment> \<open>the \<^verbatim>\<open>called\<close> dictionary: the first symbol seen under each callee key\<close>
  "called_by k [] acc = acc"
| "called_by k (e # es) acc =
     (if sy_key (ed_caller e) = k \<and> sy_key (ed_callee e) \<notin> set (map fst acc)
      then called_by k es (acc @ [(sy_key (ed_callee e), ed_callee e)])
      else called_by k es acc)"

definition subjects_of_seal :: "seal \<Rightarrow> call_graph \<Rightarrow> subject" where
  "subjects_of_seal s g =
     (let called = called_by (sy_key (sl_symbol s)) (cg_edges g) [];
          in_production = filter (\<lambda>ks. \<not> is_test_path (sy_path (snd ks))) called;
          unnameable = filter (\<lambda>h. sy_key (fst h) = sy_key (sl_symbol s)) (cg_unresolved g)
      in if in_production \<noteq> []
         then \<lparr>sj_seal = s, sj_symbols = map snd (sort_key fst in_production), sj_gap = None\<rparr>
         else \<lparr>sj_seal = s, sj_symbols = [],
                sj_gap = Some (if unnameable \<noteq> [] then Unnameable
                               else if called \<noteq> [] then AllTargetsInTests else NoCalls)\<rparr>)"

definition validate_subject :: "subject \<Rightarrow> csr_error option" where
  "validate_subject s =
     (if (sj_symbols s \<noteq> []) = (sj_gap s \<noteq> None) then Some (BadSubject (sl_test_id (sj_seal s))) else None)"

section \<open>One finding\<close>

datatype reach = FromProduction | FromTestsOnly | FromNeither | Undecided

datatype undecided_reason =
  UnsupportedLanguage | ParseFailed | NoEntrypoint | SubjectUnidentified | DynamicEdge

record call_path =
  cp_root :: entry_root
  cp_edges :: "edge list"
  cp_quality :: path_quality

record finding =
  fi_seal :: seal
  fi_subject :: symbol
  fi_reach :: reach
  fi_quality :: path_quality
  fi_path :: "call_path option"
  fi_test_path :: "call_path option"
  fi_reason :: "undecided_reason option"

definition validate_finding :: "finding \<Rightarrow> csr_error option" where
  "validate_finding f =
     (if (fi_reason f \<noteq> None) \<noteq> (fi_reach f = Undecided)
         \<or> (fi_path f \<noteq> None) \<noteq> (fi_reach f = FromProduction)
      then Some (BadFinding (sy_key (fi_subject f))) else None)"

definition abstention :: "seal \<Rightarrow> symbol \<Rightarrow> call_path option \<Rightarrow> undecided_reason \<Rightarrow> finding" where
  "abstention s sy tp why = \<lparr>fi_seal = s, fi_subject = sy, fi_reach = Undecided,
     fi_quality = NotApplicable, fi_path = None, fi_test_path = tp, fi_reason = Some why\<rparr>"

definition witness_path ::
  "symbol \<Rightarrow> chain_map \<Rightarrow> root_kind \<Rightarrow> entry_root list \<Rightarrow> csr_error + call_path option" where
  "witness_path sy rm kind roots =
     (case rm (sy_key sy) of
        None \<Rightarrow> Inr None
      | Some chain \<Rightarrow>
         (let origin = (case chain of [] \<Rightarrow> sy_key sy | e # _ \<Rightarrow> sy_key (ed_caller e)) in
          case find (\<lambda>r. sy_key (er_symbol r) = origin \<and> er_root_kind r = kind) (rev roots) of
            None \<Rightarrow> Inl (WitnessWithoutRoot (sy_key sy))
          | Some r \<Rightarrow> Inr (Some \<lparr>cp_root = r, cp_edges = chain, cp_quality = chain_quality chain\<rparr>)))"

definition has_no_production_root :: "entry_root list \<Rightarrow> bool" where
  "has_no_production_root roots \<longleftrightarrow> \<not> list_ex (\<lambda>r. er_root_kind r = ProductionRoot) roots"

definition checked :: "finding \<Rightarrow> csr_error + finding" where
  "checked f = (case validate_finding f of Some e \<Rightarrow> Inl e | None \<Rightarrow> Inr f)"

definition check_subject ::
  "seal \<Rightarrow> symbol \<Rightarrow> call_graph \<Rightarrow> chain_map \<Rightarrow> chain_map \<Rightarrow> bool \<Rightarrow> entry_root list
   \<Rightarrow> (csr_error + finding) option" where
  \<comment> \<open>None: the union-find below it did not return\<close>
  "check_subject s sy g production_reach test_reach conclusive roots =
     (case witness_path sy test_reach TestRoot roots of
        Inl e \<Rightarrow> Some (Inl e)
      | Inr tp \<Rightarrow>
       (case witness_path sy production_reach ProductionRoot roots of
          Inl e \<Rightarrow> Some (Inl e)
        | Inr (Some path) \<Rightarrow> Some (checked \<lparr>fi_seal = s, fi_subject = sy, fi_reach = FromProduction,
            fi_quality = cp_quality path, fi_path = Some path, fi_test_path = tp, fi_reason = None\<rparr>)
        | Inr None \<Rightarrow>
          if cg_unreadable g \<noteq> [] then Some (checked (abstention s sy tp ParseFailed))
          else if has_no_production_root roots then Some (checked (abstention s sy tp NoEntrypoint))
          else if \<not> conclusive then Some (checked (abstention s sy tp DynamicEdge))
          else (case holes_in_scope sy
                  (filter (\<lambda>h. production_reach (sy_key (fst h)) \<noteq> None) (cg_unresolved g))
                  (cg_imports g) of
              None \<Rightarrow> None
            | Some (Inl e) \<Rightarrow> Some (Inl (GraphErr e))
            | Some (Inr holes) \<Rightarrow>
                if holes \<noteq> [] then Some (checked (abstention s sy tp DynamicEdge))
                else if test_reach (sy_key sy) \<noteq> None
                then Some (checked \<lparr>fi_seal = s, fi_subject = sy, fi_reach = FromTestsOnly,
                  fi_quality = NotApplicable, fi_path = None, fi_test_path = tp, fi_reason = None\<rparr>)
                else Some (Inl (ReachedFromNoRoot (sy_key sy))))))"

section \<open>The ruling grid\<close>

record staged_declaration =
  sd_test_id :: string
  sd_subject_key :: string
  sd_wiring :: string
  sd_reason :: string

datatype disposition = Ok | Breach | Report | Accepted | Abstain

fun rulings :: "reach \<Rightarrow> path_quality \<Rightarrow> (disposition \<times> disposition) option" where
  "rulings FromProduction Resolved = Some (Ok, Ok)"
| "rulings FromProduction OverApproximated = Some (Report, Report)"
| "rulings FromTestsOnly NotApplicable = Some (Breach, Accepted)"
| "rulings Undecided NotApplicable = Some (Abstain, Abstain)"
| "rulings _ _ = None"

definition declaration_answers :: "finding \<Rightarrow> staged_declaration \<Rightarrow> bool" where
  "declaration_answers f d \<longleftrightarrow> sd_test_id d = sl_test_id (fi_seal f)
     \<and> sd_subject_key d = sy_key (fi_subject f) \<and> py_strip (sd_wiring d) \<noteq> []"

definition adjudicate :: "finding \<Rightarrow> staged_declaration option \<Rightarrow> csr_error + disposition" where
  "adjudicate f d = (case rulings (fi_reach f) (fi_quality f) of
       None \<Rightarrow> Inl NotInRulingGrid
     | Some (undeclared, declared) \<Rightarrow>
         Inr (if (case d of None \<Rightarrow> False | Some x \<Rightarrow> declaration_answers f x) then declared else undeclared))"

section \<open>One tree\<close>

record report =
  hr_findings :: "finding list"
  hr_dispositions :: "disposition \<Rightarrow> nat"
  hr_roots :: "entry_root list"
  hr_seals_examined :: nat
  hr_gaps :: "subject_gap \<Rightarrow> nat"
  hr_unresolved :: nat
  hr_stale :: "staged_declaration list"

definition line_of :: "string \<Rightarrow> int \<Rightarrow> int" where
  "line_of site fallback = (case int_of_text (after_last (CHR '':'') site) of None \<Rightarrow> fallback | Some n \<Rightarrow> n)"

definition unnameable_finding :: "seal \<Rightarrow> call_graph \<Rightarrow> csr_error + finding" where
  "unnameable_finding s g =
     (case sort_key snd (filter (\<lambda>h. sy_key (fst h) = sy_key (sl_symbol s)) (cg_unresolved g)) of
        [] \<Rightarrow> Inl (UnnameableWithoutSite (sl_test_id s))
      | h # _ \<Rightarrow> Inr (abstention s \<lparr>sy_key = sy_key (sl_symbol s) @ ''.<unnameable>'',
            sy_path = sy_path (sl_symbol s), sy_line = line_of (fst (snd h)) (sy_line (sl_symbol s))\<rparr>
          None SubjectUnidentified))"

fun symbol_findings ::
  "seal \<Rightarrow> symbol list \<Rightarrow> call_graph \<Rightarrow> chain_map \<Rightarrow> chain_map \<Rightarrow> entry_root list
   \<Rightarrow> (csr_error + finding list) option" where
  "symbol_findings s [] g pr tr roots = Some (Inr [])"
| "symbol_findings s (sy # sys) g pr tr roots =
     (case (case analyzer_for_path (sy_path sy) of
              None \<Rightarrow> Some (map_sum id (\<lambda>tp. abstention s sy tp UnsupportedLanguage)
                            (witness_path sy tr TestRoot roots))
            | Some conclusive \<Rightarrow> check_subject s sy g pr tr conclusive roots) of
        None \<Rightarrow> None
      | Some (Inl e) \<Rightarrow> Some (Inl e)
      | Some (Inr f) \<Rightarrow> map_option (map_sum id ((#) f)) (symbol_findings s sys g pr tr roots))"

fun seal_findings ::
  "seal list \<Rightarrow> call_graph \<Rightarrow> chain_map \<Rightarrow> chain_map \<Rightarrow> entry_root list \<Rightarrow> finding list \<Rightarrow> (subject_gap \<Rightarrow> nat)
   \<Rightarrow> (csr_error + finding list \<times> (subject_gap \<Rightarrow> nat)) option" where
  "seal_findings [] g pr tr roots fs gaps = Some (Inr (fs, gaps))"
| "seal_findings (s # ss) g pr tr roots fs gaps =
     (let sj = subjects_of_seal s g in
      case validate_subject sj of Some e \<Rightarrow> Some (Inl e) | None \<Rightarrow>
      (case sj_gap sj of
         Some Unnameable \<Rightarrow> (case unnameable_finding s g of
             Inl e \<Rightarrow> Some (Inl e)
           | Inr f \<Rightarrow> seal_findings ss g pr tr roots (fs @ [f]) (gaps(Unnameable := Suc (gaps Unnameable))))
       | Some gp \<Rightarrow> seal_findings ss g pr tr roots fs (gaps(gp := Suc (gaps gp)))
       | None \<Rightarrow> (case symbol_findings s (sj_symbols sj) g pr tr roots of
             None \<Rightarrow> None
           | Some (Inl e) \<Rightarrow> Some (Inl e)
           | Some (Inr new) \<Rightarrow> seal_findings ss g pr tr roots (fs @ new) gaps)))"

fun count_dispositions ::
  "finding list \<Rightarrow> staged_declaration list \<Rightarrow> (disposition \<Rightarrow> nat) \<Rightarrow> csr_error + (disposition \<Rightarrow> nat)" where
  "count_dispositions [] ds acc = Inr acc"
| "count_dispositions (f # fs) ds acc =
     (case validate_finding f of Some e \<Rightarrow> Inl e | None \<Rightarrow>
      (case adjudicate f (find (declaration_answers f) ds) of
         Inl e \<Rightarrow> Inl e
       | Inr d \<Rightarrow> count_dispositions fs ds (acc(d := Suc (acc d)))))"

fun gather_roots :: "(unit + entry_root list) list \<Rightarrow> csr_error + entry_root list" where
  \<comment> \<open>\<^verbatim>\<open>discover_roots\<close>; \<open>Inl\<close> is an analyzer that failed\<close>
  "gather_roots [] = Inr []"
| "gather_roots (Inl _ # rs) = Inl (GraphErr AnalyzerFailed)"
| "gather_roots (Inr produced # rs) = (case validated_roots produced of
     Inl e \<Rightarrow> Inl e | Inr ok \<Rightarrow> map_sum id ((@) ok) (gather_roots rs))"

definition of_kind :: "root_kind \<Rightarrow> entry_root list \<Rightarrow> entry_root list" where
  "of_kind k roots = filter (\<lambda>r. er_root_kind r = k) roots"

definition check_tree ::
  "(unit + entry_root list) list \<Rightarrow> analyzer_run list \<Rightarrow> staged_declaration list
   \<Rightarrow> (csr_error + report) option" where
  "check_tree root_runs graph_runs ds =
     (case gather_roots root_runs of Inl e \<Rightarrow> Some (Inl e) | Inr roots \<Rightarrow>
      (case build_call_graph graph_runs of Inl e \<Rightarrow> Some (Inl (GraphErr e)) | Inr g \<Rightarrow>
       (let pr = reachable_from g (of_kind ProductionRoot roots);
            tr = reachable_from g (of_kind TestRoot roots)
        in case discover_seals g roots of Inl e \<Rightarrow> Some (Inl e) | Inr seals \<Rightarrow>
         (case seal_findings seals g pr tr roots [] (\<lambda>_. 0) of
            None \<Rightarrow> None
          | Some (Inl e) \<Rightarrow> Some (Inl e)
          | Some (Inr (fs, gaps)) \<Rightarrow>
             (let fs = sort_key (\<lambda>f. (sl_test_id (fi_seal f), sy_key (fi_subject f))) fs in
              Some (case count_dispositions fs ds (\<lambda>_. 0) of
                 Inl e \<Rightarrow> Inl e
               | Inr counts \<Rightarrow> Inr \<lparr>hr_findings = fs, hr_dispositions = counts, hr_roots = roots,
                   hr_seals_examined = length seals, hr_gaps = gaps,
                   hr_unresolved = length (filter (\<lambda>h. pr (sy_key (fst h)) \<noteq> None) (cg_unresolved g)),
                   hr_stale = filter (\<lambda>d. \<not> list_ex (\<lambda>f. declaration_answers f d) fs) ds\<rparr>))))))"

section \<open>Facts about the traversal's witnesses\<close>

abbreviation keys_of_kind :: "root_kind \<Rightarrow> entry_root list \<Rightarrow> string set" where
  "keys_of_kind k roots \<equiv> (\<lambda>r. sy_key (er_symbol r)) ` set (of_kind k roots)"

lemma reach_facts:
  "reachable_from g roots k = None \<longleftrightarrow>
     k \<notin> (edge_rel False (cg_edges g))\<^sup>* `` ((\<lambda>r. sy_key (er_symbol r)) ` set roots)"
  "reachable_from g roots k = Some c \<Longrightarrow>
     root_chain False (cg_edges g) ((\<lambda>r. sy_key (er_symbol r)) ` set roots) k c
     \<and> (chain_quality c = Resolved \<longleftrightarrow>
        k \<in> (edge_rel True (cg_edges g))\<^sup>* `` ((\<lambda>r. sy_key (er_symbol r)) ` set roots))"
proof -
  have k: "case reachable_from g roots k of
       None \<Rightarrow> k \<notin> (edge_rel False (cg_edges g))\<^sup>* `` ((\<lambda>r. sy_key (er_symbol r)) ` set roots)
     | Some c \<Rightarrow> root_chain False (cg_edges g) ((\<lambda>r. sy_key (er_symbol r)) ` set roots) k c
         \<and> (chain_quality c = Resolved
            \<longleftrightarrow> k \<in> (edge_rel True (cg_edges g))\<^sup>* `` ((\<lambda>r. sy_key (er_symbol r)) ` set roots))"
    by (rule reachable_from_spec)
  show "reachable_from g roots k = Some c \<Longrightarrow>
     root_chain False (cg_edges g) ((\<lambda>r. sy_key (er_symbol r)) ` set roots) k c
     \<and> (chain_quality c = Resolved \<longleftrightarrow>
        k \<in> (edge_rel True (cg_edges g))\<^sup>* `` ((\<lambda>r. sy_key (er_symbol r)) ` set roots))"
    using k by simp
  show "reachable_from g roots k = None \<longleftrightarrow>
     k \<notin> (edge_rel False (cg_edges g))\<^sup>* `` ((\<lambda>r. sy_key (er_symbol r)) ` set roots)"
  proof (cases "reachable_from g roots k")
    case None
    with k show ?thesis by simp
  next
    case (Some c)
    with k obtain r where r: "r \<in> (\<lambda>r. sy_key (er_symbol r)) ` set roots" "chain_from r c k"
      "set c \<subseteq> set (cg_edges g)" by (auto simp: root_chain_def)
    have "(a, b) \<in> (edge_rel False (cg_edges g))\<^sup>*" if "chain_from a c b" "set c \<subseteq> set (cg_edges g)" for a b
      using that
    proof (induction c arbitrary: a)
      case (Cons e c)
      then have "(a, sy_key (ed_callee e)) \<in> edge_rel False (cg_edges g)"
        by (auto simp: edge_rel_def allowed_def)
      with Cons show ?case by (auto intro: converse_rtrancl_into_rtrancl)
    qed simp
    from this[OF r(2,3)] r(1) have "k \<in> (edge_rel False (cg_edges g))\<^sup>* `` ((\<lambda>r. sy_key (er_symbol r)) ` set roots)"
      by (rule ImageI)
    with Some show ?thesis by simp
  qed
qed

lemma witness_path_total:
  assumes "rm = reachable_from g (of_kind kind roots)"
  shows "case rm (sy_key sy) of
       None \<Rightarrow> witness_path sy rm kind roots = Inr None
     | Some c \<Rightarrow> (\<exists>r \<in> set roots. er_root_kind r = kind \<and> witness_path sy rm kind roots =
         Inr (Some \<lparr>cp_root = r, cp_edges = c, cp_quality = chain_quality c\<rparr>))"
proof (cases "rm (sy_key sy)")
  case None
  then show ?thesis by (simp add: witness_path_def)
next
  case (Some c)
  let ?origin = "case c of [] \<Rightarrow> sy_key sy | e # _ \<Rightarrow> sy_key (ed_caller e)"
  let ?P = "\<lambda>r. sy_key (er_symbol r) = ?origin \<and> er_root_kind r = kind"
  from reach_facts(2)[of g "of_kind kind roots" "sy_key sy" c] Some assms obtain r0 where
    "r0 \<in> set (of_kind kind roots)" "chain_from (sy_key (er_symbol r0)) c (sy_key sy)"
    by (auto simp: root_chain_def)
  then have "r0 \<in> set roots \<and> ?P r0" by (cases c) (auto simp: of_kind_def)
  then have "find ?P (rev roots) \<noteq> None" by (auto simp: find_None_iff)
  then obtain r where r: "find ?P (rev roots) = Some r" by blast
  from find_SomeD[OF r] have "r \<in> set roots" "er_root_kind r = kind" by simp_all
  with r Some show ?thesis by (auto simp: witness_path_def)
qed

section \<open>Properties\<close>

definition open_hole :: "call_graph \<Rightarrow> entry_root list \<Rightarrow> symbol \<Rightarrow> bool" where
  \<comment> \<open>an unresolved call that production reaches and that no import evidence separates from the symbol\<close>
  "open_hole g roots sy \<longleftrightarrow> (\<exists>h \<in> set (cg_unresolved g).
     sy_key (fst h) \<in> (edge_rel False (cg_edges g))\<^sup>* `` keys_of_kind ProductionRoot roots
     \<and> \<not> provably_unlinked (cg_imports g) (sy_key sy) (sy_key (fst h)))"

lemma check_subject_cases:
  assumes "pr = reachable_from g (of_kind ProductionRoot roots)"
    and "tr = reachable_from g (of_kind TestRoot roots)"
    and "tr (sy_key sy) \<noteq> None"
  shows "\<exists>f. check_subject s sy g pr tr conclusive roots = Some (Inr f)
    \<and> fi_seal f = s \<and> fi_subject f = sy \<and> validate_finding f = None
    \<and> (case pr (sy_key sy) of
         Some c \<Rightarrow> fi_reach f = FromProduction \<and> fi_quality f = chain_quality c
       | None \<Rightarrow> fi_quality f = NotApplicable \<and>
           fi_reach f = (if cg_unreadable g = [] \<and> of_kind ProductionRoot roots \<noteq> [] \<and> conclusive
                         \<and> \<not> open_hole g roots sy then FromTestsOnly else Undecided))"
proof -
  obtain tp where tp: "witness_path sy tr TestRoot roots = Inr tp"
    using witness_path_total[OF assms(2), of sy] assms(3) by (auto split: option.splits)
  note wp = witness_path_total[OF assms(1), of sy]
  have hp: "has_no_production_root roots \<longleftrightarrow> of_kind ProductionRoot roots = []"
    by (auto simp: has_no_production_root_def of_kind_def list_ex_iff filter_empty_conv)
  have holes: "filter (\<lambda>h. \<not> provably_unlinked (cg_imports g) (sy_key sy) (sy_key (fst h)))
      (filter (\<lambda>h. pr (sy_key (fst h)) \<noteq> None) (cg_unresolved g)) = [] \<longleftrightarrow> \<not> open_hole g roots sy"
    using reach_facts(1)[of g "of_kind ProductionRoot roots"]
    by (auto simp: open_hole_def filter_empty_conv assms(1))
  show ?thesis
  proof (cases "pr (sy_key sy)")
    case (Some c)
    with wp obtain r where
      "witness_path sy pr ProductionRoot roots
        = Inr (Some \<lparr>cp_root = r, cp_edges = c, cp_quality = chain_quality c\<rparr>)" by auto
    with tp Some show ?thesis by (simp add: check_subject_def checked_def validate_finding_def)
  next
    case None
    with wp have "witness_path sy pr ProductionRoot roots = Inr None" by simp
    with tp None assms(3) holes hp show ?thesis
      by (simp add: check_subject_def checked_def validate_finding_def abstention_def
          holes_in_scope_spec)
  qed
qed

text \<open>
  C7. The finding for a subject says exactly what the graph shows. A seal's subject always gets a well
  formed finding. It is \<^verbatim>\<open>from_production\<close> iff a production root reaches it, with quality resolved iff
  resolved edges alone do; \<^verbatim>\<open>from_tests_only\<close> iff no production root reaches it, every file was
  read, there is a production root, the analyzer's negative is conclusive and no open hole could hide the
  missing call; otherwise it abstains. It is a breach exactly in the second case, unless a
  declaration with a wiring answers it.
\<close>

theorem check_subject_exact:
  assumes "pr = reachable_from g (of_kind ProductionRoot roots)"
    and "tr = reachable_from g (of_kind TestRoot roots)"
    and "e \<in> set (cg_edges g)" "ed_callee e = sy"
    and "r \<in> set roots" "er_root_kind r = TestRoot" "sy_key (ed_caller e) = sy_key (er_symbol r)"
  shows "\<exists>f. check_subject s sy g pr tr conclusive roots = Some (Inr f) \<and> validate_finding f = None
    \<and> (fi_reach f = FromProduction \<longleftrightarrow>
         sy_key sy \<in> (edge_rel False (cg_edges g))\<^sup>* `` keys_of_kind ProductionRoot roots)
    \<and> (fi_reach f = FromProduction \<longrightarrow> (fi_quality f = Resolved \<longleftrightarrow>
         sy_key sy \<in> (edge_rel True (cg_edges g))\<^sup>* `` keys_of_kind ProductionRoot roots))
    \<and> (fi_reach f = FromTestsOnly \<longleftrightarrow>
         sy_key sy \<notin> (edge_rel False (cg_edges g))\<^sup>* `` keys_of_kind ProductionRoot roots
         \<and> cg_unreadable g = [] \<and> of_kind ProductionRoot roots \<noteq> [] \<and> conclusive
         \<and> \<not> open_hole g roots sy)
    \<and> fi_reach f \<noteq> FromNeither
    \<and> (\<exists>v. adjudicate f d = Inr v \<and> (v = Breach \<longleftrightarrow>
         fi_reach f = FromTestsOnly \<and> \<not> (\<exists>x. d = Some x \<and> declaration_answers f x)))"
proof -
  have "(sy_key (er_symbol r), sy_key sy) \<in> edge_rel False (cg_edges g)"
    unfolding edge_rel_def using assms(3,4,7)
    by (auto simp: allowed_def intro!: exI[of _ e])
  moreover have "sy_key (er_symbol r) \<in> keys_of_kind TestRoot roots"
    using assms(5,6) by (auto simp: of_kind_def)
  ultimately have "sy_key sy \<in> (edge_rel False (cg_edges g))\<^sup>* `` keys_of_kind TestRoot roots" by blast
  then have t: "tr (sy_key sy) \<noteq> None"
    using reach_facts(1)[of g "of_kind TestRoot roots" "sy_key sy"] assms(2) by simp
  from check_subject_cases[OF assms(1,2) t, of s conclusive] obtain f where
    f: "check_subject s sy g pr tr conclusive roots = Some (Inr f)" "validate_finding f = None"
      "case pr (sy_key sy) of
         Some c \<Rightarrow> fi_reach f = FromProduction \<and> fi_quality f = chain_quality c
       | None \<Rightarrow> fi_quality f = NotApplicable \<and>
           fi_reach f = (if cg_unreadable g = [] \<and> of_kind ProductionRoot roots \<noteq> [] \<and> conclusive
                         \<and> \<not> open_hole g roots sy then FromTestsOnly else Undecided)"
    by blast
  have adj: "\<exists>v. adjudicate f d = Inr v \<and> (v = Breach \<longleftrightarrow>
         fi_reach f = FromTestsOnly \<and> \<not> (\<exists>x. d = Some x \<and> declaration_answers f x))"
    using f(3) by (cases d) (auto simp: adjudicate_def chain_quality_def split: option.splits if_splits)
  show ?thesis
  proof (cases "pr (sy_key sy)")
    case None
    with reach_facts(1)[of g "of_kind ProductionRoot roots" "sy_key sy"] assms(1)
    have "sy_key sy \<notin> (edge_rel False (cg_edges g))\<^sup>* `` keys_of_kind ProductionRoot roots" by simp
    with None f adj show ?thesis by (intro exI[of _ f]) simp
  next
    case (Some c)
    with reach_facts(1)[of g "of_kind ProductionRoot roots" "sy_key sy"] assms(1)
    have "sy_key sy \<in> (edge_rel False (cg_edges g))\<^sup>* `` keys_of_kind ProductionRoot roots" by simp
    moreover have "chain_quality c = Resolved \<longleftrightarrow>
        sy_key sy \<in> (edge_rel True (cg_edges g))\<^sup>* `` keys_of_kind ProductionRoot roots"
      using reach_facts(2)[of g "of_kind ProductionRoot roots" "sy_key sy" c] Some assms(1) by simp
    ultimately show ?thesis using Some f adj by (intro exI[of _ f]) simp
  qed
qed

definition sym :: "string \<Rightarrow> string \<Rightarrow> symbol" where
  "sym k p = \<lparr>sy_key = k, sy_path = p, sy_line = 1\<rparr>"

definition tested_graph :: call_graph where
  \<comment> \<open>a test calls \<^verbatim>\<open>Post\<close>; \<^verbatim>\<open>main\<close> calls nothing\<close>
  "tested_graph = \<lparr>cg_symbols = [(''app.TestPost'', sym ''app.TestPost'' ''app/a_test.go''),
       (''app.Post'', sym ''app.Post'' ''app/a.go''), (''app.main'', sym ''app.main'' ''app/main.go'')],
     cg_edges = [\<lparr>ed_caller = sym ''app.TestPost'' ''app/a_test.go'', ed_callee = sym ''app.Post'' ''app/a.go'',
       ed_kind = Direct, ed_site = ''app/a_test.go:9''\<rparr>],
     cg_unresolved = [], cg_unreadable = [], cg_imports = imports_not_supplied\<rparr>"

definition tested_roots :: "entry_root list" where
  "tested_roots = [\<lparr>er_symbol = sym ''app.main'' ''app/main.go'', er_kind = GoMain,
       er_root_kind = ProductionRoot, er_evidence = []\<rparr>,
     \<lparr>er_symbol = sym ''app.TestPost'' ''app/a_test.go'', er_kind = TestFunction,
       er_root_kind = TestRoot, er_evidence = []\<rparr>]"

definition tested_seal :: seal where
  "tested_seal = \<lparr>sl_symbol = sym ''app.TestPost'' ''app/a_test.go'', sl_test_id = ''app.TestPost''\<rparr>"

lemma check_subject_exact_witness:
  "\<exists>f. check_subject tested_seal (sym ''app.Post'' ''app/a.go'') tested_graph
      (reachable_from tested_graph (of_kind ProductionRoot tested_roots))
      (reachable_from tested_graph (of_kind TestRoot tested_roots)) True tested_roots = Some (Inr f)
    \<and> fi_reach f \<noteq> FromNeither"
proof -
  let ?e = "\<lparr>ed_caller = sym ''app.TestPost'' ''app/a_test.go'', ed_callee = sym ''app.Post'' ''app/a.go'',
       ed_kind = Direct, ed_site = ''app/a_test.go:9''\<rparr>"
  let ?r = "\<lparr>er_symbol = sym ''app.TestPost'' ''app/a_test.go'', er_kind = TestFunction,
       er_root_kind = TestRoot, er_evidence = []\<rparr>"
  have "?e \<in> set (cg_edges tested_graph)" "ed_callee ?e = sym ''app.Post'' ''app/a.go''"
    "?r \<in> set tested_roots" "er_root_kind ?r = TestRoot"
    "sy_key (ed_caller ?e) = sy_key (er_symbol ?r)"
    by (simp_all add: tested_graph_def tested_roots_def)
  from check_subject_exact[OF refl refl this, of tested_seal True None] show ?thesis
    by (elim exE conjE) (intro exI conjI, assumption+)
qed

end
