(* ===== verification/BranchReach.thy ===== *)
theory BranchReach
  imports Findings
begin

text \<open>
  The branch-level reachability gate (\<^verbatim>\<open>branch_reachability.py\<close>): which role it blocks, the appeal
  file, the delta between the base tree's findings and the head tree's, the vacuous-sweep check, and the
  verdict. The trees and the git reads are inputs; a step of the sweep that raises is a value.
\<close>

section \<open>Obligations, statuses and verdicts\<close>

datatype diff_verdict = Clean | Violation | Undetermined

datatype obligation = Blocking | Advisory | NotRun

fun obligation_for_role :: "role \<Rightarrow> obligation" where
  "obligation_for_role Bodies = Blocking"
| "obligation_for_role Adjudicate = Advisory"
| "obligation_for_role Scaffold = NotRun"
| "obligation_for_role Seals = NotRun"
| "obligation_for_role Legacy = NotRun"

datatype sweep_status =
    Checked | NotThisRolesGate | NoAnalyzableFile | NotReachedAlreadyViolation | NoSealInTree
  | HeadNotCheckedOut | BaseUnavailable | AnalyzerFault | SweepVacuous | AppealUnreadable | GateDefect

definition blocking_sweep_statuses :: "sweep_status list" where
  "blocking_sweep_statuses =
     [HeadNotCheckedOut, BaseUnavailable, AnalyzerFault, SweepVacuous, AppealUnreadable, GateDefect]"

fun verdict_for_disposition :: "disposition \<Rightarrow> diff_verdict" where
  "verdict_for_disposition Ok = Clean"
| "verdict_for_disposition Report = Clean"
| "verdict_for_disposition Accepted = Clean"
| "verdict_for_disposition Breach = Violation"
| "verdict_for_disposition Abstain = Undetermined"

definition blocking_undecided_reasons :: "undecided_reason list" where
  "blocking_undecided_reasons = [ParseFailed, NoEntrypoint]"

definition verdict_for_abstention :: "undecided_reason option \<Rightarrow> unit + diff_verdict" where
  "verdict_for_abstention why = (case why of
       None \<Rightarrow> Inl ()
     | Some x \<Rightarrow> Inr (if x \<in> set blocking_undecided_reasons then Undetermined else Clean))"

definition verdict_for_status :: "sweep_status \<Rightarrow> diff_verdict" where
  "verdict_for_status st = (if st \<in> set blocking_sweep_statuses then Undetermined else Clean)"

definition worst_verdict :: "diff_verdict list \<Rightarrow> diff_verdict" where
  "worst_verdict vs =
     (if Violation \<in> set vs then Violation else if Undetermined \<in> set vs then Undetermined else Clean)"

section \<open>The appeal file\<close>

definition declaration_path :: string where
  "declaration_path = ''.dispatcher.staged.yaml''"

definition declaration_fields :: "string list" where
  "declaration_fields = [''test_id'', ''subject_key'', ''wiring'', ''reason'']"

datatype appeal_error =
    AppealUnread | AppealNotYaml | AppealNotList | AppealRowNotMapping nat
  | AppealMissing nat "string list" | AppealUnknown nat "string list" | AppealNotString nat string

definition read_declaration :: "nat \<Rightarrow> pyval \<Rightarrow> appeal_error + staged_declaration" where
  "read_declaration i v = (case v of
       PDict r \<Rightarrow>
        (let missing = filter (\<lambda>f. map_of r f = None) declaration_fields;
             unknown = filter (\<lambda>k. k \<notin> set declaration_fields) (map fst r)
         in if missing \<noteq> [] then Inl (AppealMissing i missing)
            else if unknown \<noteq> [] then Inl (AppealUnknown i unknown)
            else case find (\<lambda>f. case row_get r f of PStr _ \<Rightarrow> False | _ \<Rightarrow> True) declaration_fields of
              Some f \<Rightarrow> Inl (AppealNotString i f)
            | None \<Rightarrow> Inr \<lparr>sd_test_id = py_str (row_get r ''test_id''),
                sd_subject_key = py_str (row_get r ''subject_key''),
                sd_wiring = py_str (row_get r ''wiring''), sd_reason = py_str (row_get r ''reason'')\<rparr>)
     | _ \<Rightarrow> Inl (AppealRowNotMapping i))"

fun read_declarations :: "nat \<Rightarrow> pyval list \<Rightarrow> appeal_error + staged_declaration list" where
  "read_declarations i [] = Inr []"
| "read_declarations i (v # vs) = (case read_declaration i v of
     Inl e \<Rightarrow> Inl e | Inr d \<Rightarrow> map_sum id ((#) d) (read_declarations (Suc i) vs))"

definition declarations_at ::
  "unit + string option \<Rightarrow> (string \<Rightarrow> unit + pyval) \<Rightarrow> appeal_error + staged_declaration list" where
  \<comment> \<open>the argument is the read of the file at the ref: raised, absent, or its text\<close>
  "declarations_at text_read yaml_loads = (case text_read of
       Inl _ \<Rightarrow> Inl AppealUnread
     | Inr None \<Rightarrow> Inr []
     | Inr (Some t) \<Rightarrow> (case yaml_loads t of
         Inl _ \<Rightarrow> Inl AppealNotYaml
       | Inr PNone \<Rightarrow> Inr []
       | Inr (PList rows) \<Rightarrow> read_declarations 0 rows
       | Inr _ \<Rightarrow> Inl AppealNotList))"

section \<open>The delta\<close>

type_synonym finding_key = "string \<times> string"

definition key_of :: "finding \<Rightarrow> finding_key" where
  "key_of f = (sl_test_id (fi_seal f), sy_key (fi_subject f))"

fun adjudicate_all ::
  "finding list \<Rightarrow> staged_declaration list \<Rightarrow> csr_error + (finding_key \<times> disposition) list" where
  "adjudicate_all [] ds = Inr []"
| "adjudicate_all (f # fs) ds = (case adjudicate f (find (declaration_answers f) ds) of
     Inl e \<Rightarrow> Inl e | Inr d \<Rightarrow> map_sum id ((#) (key_of f, d)) (adjudicate_all fs ds))"

definition dispositions_by_key ::
  "finding list \<Rightarrow> staged_declaration list \<Rightarrow> csr_error + (finding_key \<Rightarrow> disposition option)" where
  \<comment> \<open>a dictionary: the last finding under a key decides\<close>
  "dispositions_by_key fs ds = map_sum id (\<lambda>kds. map_of (rev kds)) (adjudicate_all fs ds)"

record introduced_finding =
  if_key :: finding_key
  if_symbol :: symbol
  if_disposition :: disposition
  if_was :: "disposition option"
  if_reason :: "undecided_reason option"

definition introduced_at ::
  "(finding_key \<Rightarrow> disposition option) \<Rightarrow> (finding_key \<Rightarrow> disposition option) \<Rightarrow> finding list
   \<Rightarrow> finding_key \<Rightarrow> introduced_finding option" where
  "introduced_at at_base at_head fs k =
     (case (at_head k, find (\<lambda>f. key_of f = k) (rev fs)) of
        (Some d, Some f) \<Rightarrow>
          if verdict_for_disposition d = Clean then None
          else (case at_base k of
              Some w \<Rightarrow> if verdict_for_disposition w \<noteq> Clean then None
                        else Some \<lparr>if_key = k, if_symbol = fi_subject f, if_disposition = d,
                               if_was = Some w, if_reason = fi_reason f\<rparr>
            | None \<Rightarrow> Some \<lparr>if_key = k, if_symbol = fi_subject f, if_disposition = d,
                               if_was = None, if_reason = fi_reason f\<rparr>)
      | _ \<Rightarrow> None)"

definition introduced_findings ::
  "finding list \<Rightarrow> finding list \<Rightarrow> staged_declaration list \<Rightarrow> staged_declaration list
   \<Rightarrow> csr_error + introduced_finding list" where
  "introduced_findings base head base_ds head_ds =
     (case dispositions_by_key base base_ds of Inl e \<Rightarrow> Inl e | Inr at_base \<Rightarrow>
      (case dispositions_by_key head head_ds of Inl e \<Rightarrow> Inl e | Inr at_head \<Rightarrow>
        Inr (List.map_filter (introduced_at at_base at_head head) (sort (remdups (map key_of head))))))"

definition production_roots :: "report \<Rightarrow> nat" where
  "production_roots r = length (of_kind ProductionRoot (hr_roots r))"

definition sweep_is_vacuous :: "report \<Rightarrow> report \<Rightarrow> bool" where
  "sweep_is_vacuous base head \<longleftrightarrow>
     hr_seals_examined head < hr_seals_examined base
     \<or> hr_seals_examined head > 0 \<and> production_roots head = 0
     \<or> hr_seals_examined head = hr_seals_examined base
       \<and> length (hr_findings head) < length (hr_findings base)"

definition abstention_reasons :: "report \<Rightarrow> csr_error + undecided_reason option list" where
  "abstention_reasons r =
     (if list_ex (\<lambda>f. isl (adjudicate f None)) (hr_findings r) then Inl NotInRulingGrid
      else Inr (map fi_reason (filter (\<lambda>f. adjudicate f None = Inr Abstain) (hr_findings r))))"

section \<open>The sweep\<close>

record branch_reachability =
  br_status :: sweep_status
  br_obligation :: obligation
  br_introduced :: "introduced_finding list"
  br_abstentions :: "undecided_reason option list"

record sweep_env =
  sw_head_sha :: "string option"
  sw_branch_sha :: "string option"
  sw_tempdir :: bool                                   \<comment> \<open>False: creating it raised\<close>
  sw_base_tree :: bool                                 \<comment> \<open>False: materialising it was refused\<close>
  sw_base_decls :: "appeal_error + staged_declaration list"
  sw_head_decls :: "appeal_error + staged_declaration list"
  sw_base_report :: "staged_declaration list \<Rightarrow> csr_error + report"
  sw_head_report :: "staged_declaration list \<Rightarrow> csr_error + report"

definition bare_result :: "sweep_status \<Rightarrow> obligation \<Rightarrow> branch_reachability" where
  "bare_result st ob = \<lparr>br_status = st, br_obligation = ob, br_introduced = [], br_abstentions = []\<rparr>"

datatype sweep_exn = BranchReachabilityError | OtherException

definition swept_branch_reachability ::
  "sweep_env \<Rightarrow> obligation \<Rightarrow> sweep_exn + branch_reachability" where
  "swept_branch_reachability env ob =
     (if sw_head_sha env = None \<or> sw_branch_sha env = None \<or> sw_head_sha env \<noteq> sw_branch_sha env
      then Inr (bare_result HeadNotCheckedOut ob)
      else if \<not> sw_tempdir env then Inl OtherException
      else if \<not> sw_base_tree env then Inr (bare_result BaseUnavailable ob)
      else case (sw_base_decls env, sw_head_decls env) of
        (Inl _, _) \<Rightarrow> Inl BranchReachabilityError
      | (_, Inl _) \<Rightarrow> Inl BranchReachabilityError
      | (Inr base_ds, Inr head_ds) \<Rightarrow>
         (case (sw_base_report env base_ds, sw_head_report env head_ds) of
            (Inl _, _) \<Rightarrow> Inr (bare_result AnalyzerFault ob)
          | (_, Inl _) \<Rightarrow> Inr (bare_result AnalyzerFault ob)
          | (Inr base, Inr head) \<Rightarrow>
             (if sweep_is_vacuous base head then Inr (bare_result SweepVacuous ob)
              else if hr_seals_examined head = 0 \<and> hr_seals_examined base = 0
              then Inr (bare_result NoSealInTree ob)
              else case introduced_findings (hr_findings base) (hr_findings head) base_ds head_ds of
                Inl _ \<Rightarrow> Inl OtherException
              | Inr introduced \<Rightarrow> (case abstention_reasons head of
                  Inl _ \<Rightarrow> Inl OtherException
                | Inr whys \<Rightarrow> Inr \<lparr>br_status = Checked, br_obligation = ob,
                    br_introduced = introduced, br_abstentions = whys\<rparr>))))"

definition check_branch_reachability ::
  "role \<Rightarrow> string list \<Rightarrow> bool \<Rightarrow> sweep_env \<Rightarrow> branch_reachability" where
  "check_branch_reachability ro changed already_violation env =
     (let ob = obligation_for_role ro in
      if ob = NotRun then bare_result NotThisRolesGate ob
      else if already_violation then bare_result NotReachedAlreadyViolation ob
      else if \<not> list_ex (\<lambda>p. analyzer_for_path p \<noteq> None) changed \<and> declaration_path \<notin> set changed
      then bare_result NoAnalyzableFile ob
      else case swept_branch_reachability env ob of
        Inr r \<Rightarrow> r
      | Inl BranchReachabilityError \<Rightarrow> bare_result AppealUnreadable ob
      | Inl OtherException \<Rightarrow> bare_result GateDefect ob)"

fun abstention_verdicts :: "undecided_reason option list \<Rightarrow> unit + diff_verdict list" where
  "abstention_verdicts [] = Inr []"
| "abstention_verdicts (w # ws) = (case verdict_for_abstention w of
     Inl e \<Rightarrow> Inl e | Inr v \<Rightarrow> map_sum id ((#) v) (abstention_verdicts ws))"

definition verdict_of :: "branch_reachability \<Rightarrow> unit + diff_verdict" where
  "verdict_of r = (case br_obligation r of
       NotRun \<Rightarrow> Inr Clean
     | Advisory \<Rightarrow> Inr Clean
     | Blocking \<Rightarrow> map_sum id
         (\<lambda>ab. worst_verdict (verdict_for_status (br_status r)
                # map (\<lambda>f. verdict_for_disposition (if_disposition f)) (br_introduced r) @ ab))
         (abstention_verdicts (br_abstentions r)))"

section \<open>Facts\<close>

lemma adjudicate_all_keys: "adjudicate_all fs ds = Inr kds \<Longrightarrow> map fst kds = map key_of fs"
  by (induction fs arbitrary: kds) (auto split: sum.splits)

lemma dispositions_dom:
  "dispositions_by_key fs ds = Inr m \<Longrightarrow> (m k \<noteq> None) \<longleftrightarrow> k \<in> key_of ` set fs"
proof -
  assume "dispositions_by_key fs ds = Inr m"
  then obtain kds where k: "adjudicate_all fs ds = Inr kds" "m = map_of (rev kds)"
    by (auto simp: dispositions_by_key_def)
  then have "fst ` set kds = key_of ` set fs" using adjudicate_all_keys[OF k(1)] by (metis set_map)
  with k(2) show ?thesis by (simp add: map_of_eq_None_iff)
qed

lemma map_filter_Some_set: "set (List.map_filter f xs) = {y. \<exists>x \<in> set xs. f x = Some y}"
  by (induction xs) (auto simp: List.map_filter_simps split: option.splits)

lemma introduced_at_Some:
  "introduced_at B H fs k = Some i \<Longrightarrow> if_key i = k \<and> H k = Some (if_disposition i)
   \<and> verdict_for_disposition (if_disposition i) \<noteq> Clean
   \<and> (\<forall>w. B k = Some w \<longrightarrow> verdict_for_disposition w = Clean)"
  by (auto simp: introduced_at_def split: option.splits if_splits)

lemma introduced_at_None:
  "introduced_at B H fs k = None \<Longrightarrow> k \<in> key_of ` set fs \<Longrightarrow> H k = Some d \<Longrightarrow>
   verdict_for_disposition d = Clean \<or> (\<exists>w. B k = Some w \<and> verdict_for_disposition w \<noteq> Clean)"
proof -
  assume a: "introduced_at B H fs k = None" "k \<in> key_of ` set fs" "H k = Some d"
  then have "find (\<lambda>f. key_of f = k) (rev fs) \<noteq> None" by (auto simp: find_None_iff)
  with a show ?thesis by (auto simp: introduced_at_def split: option.splits if_splits)
qed

lemma distinct_map_filter_keys:
  "(\<And>k i. f k = Some i \<Longrightarrow> if_key i = k) \<Longrightarrow> distinct ks \<Longrightarrow> distinct (map if_key (List.map_filter f ks))"
proof (induction ks)
  case (Cons k ks)
  have "if_key i \<in> set ks" if "i \<in> set (List.map_filter f ks)" for i
    using that Cons.prems(1) by (auto simp: map_filter_Some_set)
  with Cons show ?case by (fastforce simp: List.map_filter_simps split: option.splits)
qed (simp add: List.map_filter_simps)

lemma worst_verdict_Clean: "worst_verdict vs = Clean \<longleftrightarrow> (\<forall>v \<in> set vs. v = Clean)"
  unfolding worst_verdict_def by (auto, (metis diff_verdict.exhaust)+)

lemma abstention_verdicts_Inr:
  "abstention_verdicts ws = Inr vs \<Longrightarrow>
   (\<forall>v \<in> set vs. v = Clean) \<longleftrightarrow> (\<forall>w \<in> set ws. \<exists>x. w = Some x \<and> x \<notin> set blocking_undecided_reasons)"
  by (induction ws arbitrary: vs)
    (auto simp: verdict_for_abstention_def split: option.splits sum.splits if_splits)

lemma abstention_verdicts_defined:
  "\<forall>w \<in> set ws. w \<noteq> None \<Longrightarrow> \<exists>vs. abstention_verdicts ws = Inr vs"
  by (induction ws) (auto simp: verdict_for_abstention_def)

lemma verdict_of_Clean:
  "verdict_of r = Inr Clean \<longleftrightarrow> br_obligation r \<noteq> Blocking
     \<or> (br_status r \<notin> set blocking_sweep_statuses
        \<and> (\<forall>i \<in> set (br_introduced r). verdict_for_disposition (if_disposition i) = Clean)
        \<and> (\<forall>w \<in> set (br_abstentions r). \<exists>x. w = Some x \<and> x \<notin> set blocking_undecided_reasons))"
proof (cases "br_obligation r = Blocking")
  case True
  show ?thesis
  proof (cases "abstention_verdicts (br_abstentions r)")
    case (Inl e)
    then have "None \<in> set (br_abstentions r)"
      using abstention_verdicts_defined[of "br_abstentions r"] by (metis sum.distinct(1))
    with Inl True show ?thesis by (auto simp: verdict_of_def)
  next
    case (Inr vs)
    with True abstention_verdicts_Inr[OF Inr] show ?thesis
      by (auto simp: verdict_of_def worst_verdict_Clean verdict_for_status_def)
  qed
next
  case False
  then show ?thesis by (cases "br_obligation r") (auto simp: verdict_of_def)
qed

lemma swept_obligation: "swept_branch_reachability env ob = Inr r \<Longrightarrow> br_obligation r = ob"
  unfolding swept_branch_reachability_def
  by (simp add: bare_result_def split: if_splits sum.splits; force)

lemma check_obligation: "br_obligation (check_branch_reachability ro changed av env) = obligation_for_role ro"
  by (auto simp: check_branch_reachability_def bare_result_def Let_def swept_obligation
      split: sum.splits sweep_exn.splits)

section \<open>Properties\<close>

text \<open>
  C6. The gate reports exactly what the branch introduced: a seal-subject pair is reported iff its
  disposition at head is not clean and at base it was absent or clean, each pair once, with
  the disposition it has at head. A standing breach or abstention never refuses a branch.
\<close>

theorem introduced_findings_exact:
  assumes "dispositions_by_key base base_ds = Inr B" and "dispositions_by_key head head_ds = Inr H"
  shows "\<exists>is. introduced_findings base head base_ds head_ds = Inr is
    \<and> (\<forall>k. k \<in> if_key ` set is \<longleftrightarrow> (\<exists>d. H k = Some d \<and> verdict_for_disposition d \<noteq> Clean
         \<and> \<not> (\<exists>w. B k = Some w \<and> verdict_for_disposition w \<noteq> Clean)))
    \<and> (\<forall>i \<in> set is. H (if_key i) = Some (if_disposition i))
    \<and> distinct (map if_key is)"
proof -
  let ?f = "introduced_at B H head" and ?ks = "sort (remdups (map key_of head))"
  let ?is = "List.map_filter ?f ?ks"
  have r: "introduced_findings base head base_ds head_ds = Inr ?is"
    using assms by (simp add: introduced_findings_def)
  have keys: "k \<in> if_key ` set ?is \<longleftrightarrow> (\<exists>d. H k = Some d \<and> verdict_for_disposition d \<noteq> Clean
         \<and> \<not> (\<exists>w. B k = Some w \<and> verdict_for_disposition w \<noteq> Clean))" (is "?l \<longleftrightarrow> ?r") for k
  proof
    assume ?l
    then obtain i where i: "i \<in> set ?is" "k = if_key i" by blast
    then obtain k' where "?f k' = Some i" unfolding map_filter_Some_set by blast
    with i(2) introduced_at_Some[of B H head k' i] show ?r by auto
  next
    assume R: ?r
    then obtain d where d: "H k = Some d" by blast
    then have kin: "k \<in> key_of ` set head" using dispositions_dom[OF assms(2), of k] by simp
    have "?f k \<noteq> None" using introduced_at_None[of B H head k d] kin R d by auto
    then obtain i where i: "?f k = Some i" by blast
    with kin have "i \<in> set ?is" by (auto simp: map_filter_Some_set)
    moreover have "if_key i = k" using introduced_at_Some[OF i] by simp
    ultimately show ?l by blast
  qed
  have disp: "\<forall>i \<in> set ?is. H (if_key i) = Some (if_disposition i)"
  proof
    fix i assume "i \<in> set ?is"
    then obtain k where "?f k = Some i" unfolding map_filter_Some_set by blast
    from introduced_at_Some[OF this] show "H (if_key i) = Some (if_disposition i)" by simp
  qed
  have dist: "distinct (map if_key ?is)"
    using introduced_at_Some[of B H head] by (intro distinct_map_filter_keys) (blast, simp)
  from r keys disp dist show ?thesis by blast
qed

definition breach_finding :: finding where
  "breach_finding = \<lparr>fi_seal = tested_seal, fi_subject = sym ''app.Post'' ''app/a.go'',
     fi_reach = FromTestsOnly, fi_quality = NotApplicable, fi_path = None, fi_test_path = None,
     fi_reason = None\<rparr>"

lemma introduced_findings_exact_witness:
  "\<exists>is. introduced_findings [] [breach_finding] [] [] = Inr is
     \<and> key_of breach_finding \<in> if_key ` set is"
proof -
  have b: "dispositions_by_key [] [] = Inr Map.empty" by (simp add: dispositions_by_key_def)
  have h: "dispositions_by_key [breach_finding] [] = Inr [key_of breach_finding \<mapsto> Breach]"
    by (simp add: dispositions_by_key_def adjudicate_def breach_finding_def)
  from introduced_findings_exact[OF b h] obtain "is" where
    i: "introduced_findings [] [breach_finding] [] [] = Inr is" and
    k: "\<forall>k. k \<in> if_key ` set is \<longleftrightarrow> (\<exists>d. [key_of breach_finding \<mapsto> Breach] k = Some d
         \<and> verdict_for_disposition d \<noteq> Clean
         \<and> \<not> (\<exists>w. (Map.empty :: finding_key \<Rightarrow> disposition option) k = Some w
               \<and> verdict_for_disposition w \<noteq> Clean))" by blast
  have "key_of breach_finding \<in> if_key ` set is" unfolding k[rule_format] by simp
  with i show ?thesis by blast
qed


definition empty_sweep :: sweep_env where
  "empty_sweep = \<lparr>sw_head_sha = None, sw_branch_sha = None, sw_tempdir = True, sw_base_tree = True,
     sw_base_decls = Inr [], sw_head_decls = Inr [], sw_base_report = (\<lambda>_. Inl NotInRulingGrid),
     sw_head_report = (\<lambda>_. Inl NotInRulingGrid)\<rparr>"


end
