(* ===== verification/RoleGate.thy ===== *)
theory RoleGate
  imports BranchReach GitPath
begin

text \<open>
  The diff-time gate of the build protocol: the scaffolded-signature comparison of a bodies branch and
  \<^verbatim>\<open>role_protocol.check_branch\<close>. The git reads, the fingerprinting parsers and the TypeScript
  surface fold are inputs, each of which may fail; the messages are left out.
\<close>

section \<open>Signatures of one file\<close>

datatype sig_status =
    SigChecked | SigUnsupportedLanguage | SigUnparseable | SigUnavailable | SigNoSupportedFile
  | SigNotApplicable

record sig_change =
  sc_path :: string
  sc_symbol :: string
  sc_before :: string
  sc_after :: "string option"

record sig_comparison =
  sg_status :: sig_status
  sg_changes :: "sig_change list"
  sg_unsupported :: "string list"

datatype fp_outcome = Fingerprints "(string \<times> string) list" | SourceUnparseable | ComparatorUnavailable

definition language_refusal :: "string \<Rightarrow> sig_comparison option" where
  "language_refusal path = (if language_for_path path \<noteq> None then None
     else Some \<lparr>sg_status = SigUnsupportedLanguage, sg_changes = [], sg_unsupported = [path]\<rparr>)"

definition plain_comparison :: "sig_status \<Rightarrow> sig_comparison" where
  "plain_comparison st = \<lparr>sg_status = st, sg_changes = [], sg_unsupported = []\<rparr>"

definition changed_symbols ::
  "string \<Rightarrow> (string \<times> string) list \<Rightarrow> (string \<times> string) list \<Rightarrow> sig_change list" where
  "changed_symbols path base head =
     map (\<lambda>(s, b). \<lparr>sc_path = path, sc_symbol = s, sc_before = b, sc_after = map_of head s\<rparr>)
       (filter (\<lambda>(s, b). map_of head s \<noteq> Some b) base)"

definition compare_signatures ::
  "(string \<Rightarrow> string \<Rightarrow> fp_outcome) \<Rightarrow> string \<Rightarrow> string option \<Rightarrow> string option \<Rightarrow> unit + sig_comparison" where
  "compare_signatures fp path base head =
     (case language_refusal path of Some r \<Rightarrow> Inr r | None \<Rightarrow>
      (case base of
         None \<Rightarrow> if head = None then Inl () else Inr (plain_comparison SigChecked)
       | Some b \<Rightarrow> (case fp path b of
            SourceUnparseable \<Rightarrow> Inr (plain_comparison SigUnparseable)
          | ComparatorUnavailable \<Rightarrow> Inr (plain_comparison SigUnavailable)
          | Fingerprints bs \<Rightarrow> (case head of
               None \<Rightarrow> Inr ((plain_comparison SigChecked)\<lparr>sg_changes := changed_symbols path bs []\<rparr>)
             | Some h \<Rightarrow> (case fp path h of
                  SourceUnparseable \<Rightarrow> Inr (plain_comparison SigUnparseable)
                | ComparatorUnavailable \<Rightarrow> Inr (plain_comparison SigUnavailable)
                | Fingerprints hs \<Rightarrow>
                    Inr ((plain_comparison SigChecked)\<lparr>sg_changes := changed_symbols path bs hs\<rparr>))))))"

section \<open>Moved Go declarations\<close>

record git_env =
  ge_text :: "string \<Rightarrow> string \<Rightarrow> unit + string option"
  ge_fingerprints :: "string \<Rightarrow> string \<Rightarrow> fp_outcome"
  ge_merge_base :: "unit + int \<times> string"
  ge_ls_tree :: "string \<Rightarrow> unit + int \<times> string"
  ge_fold :: "string \<Rightarrow> string list \<Rightarrow> unit + sig_status \<times> sig_change list"

fun words_from :: "string \<Rightarrow> string \<Rightarrow> string list" where
  \<comment> \<open>\<^verbatim>\<open>s.split()\<close>; the accumulator is the current word, in reverse\<close>
  "words_from acc [] = (if acc = [] then [] else [rev acc])"
| "words_from acc (c # cs) =
     (if py_space c then (if acc = [] then words_from [] cs else rev acc # words_from [] cs)
      else words_from (c # acc) cs)"

definition dirname :: "string \<Rightarrow> string" where
  "dirname path =
     (let head = take (length path - length (last_segment path)) path
      in if list_all (\<lambda>c. c = CHR ''/'') head then head else rstrip_slash head)"

fun sibling_fingerprints ::
  "git_env \<Rightarrow> string \<Rightarrow> string list \<Rightarrow> string list \<Rightarrow> unit + (string \<times> (string \<times> string) list) list" where
  "sibling_fingerprints env branch paths [] = Inr []"
| "sibling_fingerprints env branch paths (s # ss) =
     (if \<not> ends_with s ''.go'' \<or> ends_with s ''_test.go'' \<or> s \<in> set paths
      then sibling_fingerprints env branch paths ss
      else case ge_text env branch s of
        Inl e \<Rightarrow> Inl e
      | Inr None \<Rightarrow> sibling_fingerprints env branch paths ss
      | Inr (Some t) \<Rightarrow> (case ge_fingerprints env s t of
          Fingerprints fps \<Rightarrow> map_sum id ((#) (s, fps)) (sibling_fingerprints env branch paths ss)
        | _ \<Rightarrow> sibling_fingerprints env branch paths ss))"

fun package_fingerprints ::
  "git_env \<Rightarrow> string \<Rightarrow> string list \<Rightarrow> string list \<Rightarrow> string list
   \<Rightarrow> unit + (string \<times> (string \<times> string) list) list" where
  \<comment> \<open>\<^verbatim>\<open>_go_package_fingerprints\<close>: all paths, the directories seen, the paths left\<close>
  "package_fingerprints env branch paths seen [] = Inr []"
| "package_fingerprints env branch paths seen (p # ps) =
     (let d = dirname p in
      if d \<in> set seen then package_fingerprints env branch paths seen ps
      else case ge_ls_tree env d of
        Inl _ \<Rightarrow> package_fingerprints env branch paths (d # seen) ps
      | Inr (rc, listing) \<Rightarrow>
         (if rc \<noteq> 0 then package_fingerprints env branch paths (d # seen) ps
          else case sibling_fingerprints env branch paths (words_from [] listing) of
            Inl e \<Rightarrow> Inl e
          | Inr new \<Rightarrow> map_sum id ((@) new) (package_fingerprints env branch paths (d # seen) ps)))"

definition drop_moved_go_symbols ::
  "sig_change list \<Rightarrow> (string \<times> (string \<times> string) list) list \<Rightarrow> sig_change list" where
  "drop_moved_go_symbols changes now =
     filter (\<lambda>c. \<not> (sc_after c = None
        \<and> (sc_symbol c, sc_before c) \<in> set (concat (map snd now)))) changes"

section \<open>Signatures of a branch\<close>

definition sig_precedence :: "sig_status list" where
  "sig_precedence = [SigUnavailable, SigUnparseable, SigUnsupportedLanguage, SigChecked]"

definition bodies_blocking_statuses :: "sig_status list" where
  "bodies_blocking_statuses = [SigUnparseable, SigUnavailable]"

definition worst_signature_status :: "sig_status \<Rightarrow> sig_status \<Rightarrow> unit + sig_status" where
  "worst_signature_status a b =
     (if a \<notin> set sig_precedence \<or> b \<notin> set sig_precedence then Inl ()
      else case find (\<lambda>s. a = s \<or> b = s) sig_precedence of Some s \<Rightarrow> Inr s | None \<Rightarrow> Inl ())"

fun split_lines_lf :: "string \<Rightarrow> string list" where
  "split_lines_lf s = split_all (CHR 10) s"

definition merge_base_of :: "unit + int \<times> string \<Rightarrow> unit + string" where
  "merge_base_of out = (case out of
       Inl e \<Rightarrow> Inl e
     | Inr (rc, text) \<Rightarrow>
        (if rc \<noteq> 0 then Inl ()
         else case filter (\<lambda>l. py_strip l \<noteq> []) (split_lines_lf text) of
           [c] \<Rightarrow> Inr (py_strip c) | _ \<Rightarrow> Inl ()))"

record sig_progress =
  sp_status :: sig_status
  sp_changes :: "sig_change list"
  sp_unsupported :: "string list"
  sp_base :: "string option"
  sp_examined :: nat

definition known_base :: "git_env \<Rightarrow> string option \<Rightarrow> unit + string" where
  "known_base env b = (case b of Some x \<Rightarrow> Inr x | None \<Rightarrow> merge_base_of (ge_merge_base env))"

definition sig_step :: "git_env \<Rightarrow> string \<Rightarrow> sig_progress \<Rightarrow> string \<Rightarrow> unit + sig_progress" where
  "sig_step env branch pr path =
     (case language_refusal path of
        Some r \<Rightarrow> map_sum id (\<lambda>st. pr\<lparr>sp_status := st,
            sp_unsupported := sp_unsupported pr @ sg_unsupported r\<rparr>)
          (worst_signature_status (sp_status pr) (sg_status r))
      | None \<Rightarrow> (case known_base env (sp_base pr) of Inl e \<Rightarrow> Inl e | Inr mb \<Rightarrow>
         (let pr1 = pr\<lparr>sp_base := Some mb, sp_examined := Suc (sp_examined pr)\<rparr> in
          case ge_text env mb path of
            Inl e \<Rightarrow> Inl e
          | Inr None \<Rightarrow> Inr pr1
          | Inr (Some bt) \<Rightarrow> (case ge_text env branch path of Inl e \<Rightarrow> Inl e | Inr ht \<Rightarrow>
             (case compare_signatures (ge_fingerprints env) path (Some bt) ht of Inl e \<Rightarrow> Inl e | Inr c \<Rightarrow>
               map_sum id (\<lambda>st. pr1\<lparr>sp_status := st, sp_changes := sp_changes pr1 @ sg_changes c\<rparr>)
                 (worst_signature_status (sp_status pr1) (sg_status c)))))))"

fun sig_steps :: "git_env \<Rightarrow> string \<Rightarrow> sig_progress \<Rightarrow> string list \<Rightarrow> unit + sig_progress" where
  "sig_steps env branch pr [] = Inr pr"
| "sig_steps env branch pr (p # ps) =
     (case sig_step env branch pr p of Inl e \<Rightarrow> Inl e | Inr pr' \<Rightarrow> sig_steps env branch pr' ps)"

definition fold_branch_signatures ::
  "git_env \<Rightarrow> string \<Rightarrow> string list \<Rightarrow> unit + sig_status \<times> sig_change list" where
  \<comment> \<open>only TypeScript merges declarations across files; nothing is read when none changed\<close>
  "fold_branch_signatures env mb changed =
     (let paths = dedup (filter (\<lambda>p. language_for_path p = Some TypeScript) changed)
      in if paths = [] then Inr (SigChecked, []) else ge_fold env mb paths)"

definition compare_branch_signatures ::
  "git_env \<Rightarrow> string \<Rightarrow> string list \<Rightarrow> unit + sig_comparison" where
  "compare_branch_signatures env branch changed =
     (if changed = [] then Inl ()
      else case sig_steps env branch \<lparr>sp_status = SigChecked, sp_changes = [], sp_unsupported = [],
                  sp_base = None, sp_examined = 0\<rparr> changed of
        Inl e \<Rightarrow> Inl e
      | Inr pr \<Rightarrow>
       (case package_fingerprints env branch
               (map sc_path (filter (\<lambda>c. sc_after c = None) (sp_changes pr))) []
               (map sc_path (filter (\<lambda>c. sc_after c = None) (sp_changes pr))) of
          Inl e \<Rightarrow> Inl e
        | Inr now \<Rightarrow>
         (case known_base env (sp_base pr) of Inl e \<Rightarrow> Inl e | Inr mb \<Rightarrow>
          (case fold_branch_signatures env mb changed of Inl e \<Rightarrow> Inl e | Inr (fst_, fch) \<Rightarrow>
           (case worst_signature_status (sp_status pr) fst_ of Inl e \<Rightarrow> Inl e | Inr st \<Rightarrow>
             Inr \<lparr>sg_status = (if sp_examined pr = 0 \<and> sp_unsupported pr \<noteq> []
                                then SigNoSupportedFile else st),
                  sg_changes = drop_moved_go_symbols (sp_changes pr) now @ fch,
                  sg_unsupported = sp_unsupported pr\<rparr>)))))"

section \<open>The gate\<close>

record branch_inputs =
  bi_policy :: "role_policy option"
  bi_text_at :: "string \<Rightarrow> unit + string option"
  bi_yaml :: "string \<Rightarrow> unit + pyval"
  bi_base :: string
  bi_branch :: string
  bi_role :: role
  bi_spec :: "role_spec option"
  bi_diff :: "unit + int \<times> string"
  bi_recheck :: "unit + int \<times> string"
  bi_git :: git_env
  bi_sweep :: sweep_env

record role_diff_result =
  rd_verdict :: diff_verdict
  rd_violations :: "path_violation list"
  rd_signature :: "sig_comparison option"
  rd_checked :: "string list"
  rd_source :: "policy_source option"
  rd_reachability :: "branch_reachability option"

definition undetermined ::
  "policy_source option \<Rightarrow> string list \<Rightarrow> sig_comparison option \<Rightarrow> role_diff_result" where
  "undetermined src checked_paths sig = \<lparr>rd_verdict = Undetermined, rd_violations = [],
     rd_signature = sig, rd_checked = checked_paths, rd_source = src, rd_reachability = None\<rparr>"

definition read_diff :: "unit + int \<times> string \<Rightarrow> unit + string list" where
  "read_diff out = (case out of Inl e \<Rightarrow> Inl e | Inr o' \<Rightarrow> map_sum (\<lambda>_. ()) id (changed_paths_between o'))"

definition gate_policy :: "branch_inputs \<Rightarrow> policy_error + role_policy" where
  "gate_policy i = (case bi_policy i of Some p \<Rightarrow> Inr p
     | None \<Rightarrow> load_role_policy_from_base (bi_text_at i) (bi_yaml i) (bi_base i))"

definition gate_rule :: "branch_inputs \<Rightarrow> role_policy \<Rightarrow> role_error + role_rule" where
  "gate_rule i p = (case bi_spec i of Some sp \<Rightarrow> effective_rule sp p | None \<Rightarrow> rule_for p (bi_role i))"

definition gate_signature :: "branch_inputs \<Rightarrow> string list \<Rightarrow> policy_source \<Rightarrow> role_diff_result + sig_comparison" where
  \<comment> \<open>the signature obligation of the role, or the refusal that ends the check\<close>
  "gate_signature i changed src =
     (if bi_role i = Bodies then
        (case compare_branch_signatures (bi_git i) (bi_branch i) changed of
           Inl _ \<Rightarrow> Inl (undetermined (Some src) changed None)
         | Inr sig \<Rightarrow> (case read_diff (bi_recheck i) of
             Inl _ \<Rightarrow> Inl (undetermined (Some src) changed None)
           | Inr again \<Rightarrow> if again \<noteq> changed then Inl (undetermined (Some src) changed (Some sig))
                          else Inr sig))
      else Inr (plain_comparison SigNotApplicable))"

definition gate_violations :: "role_rule \<Rightarrow> string list \<Rightarrow> path_violation list" where
  "gate_violations rule changed =
     (let fl = floor_violations changed
      in drop_commons (union_with_floor (evaluate_changed_paths rule changed) fl changed) fl)"

definition judge ::
  "branch_inputs \<Rightarrow> policy_source \<Rightarrow> string list \<Rightarrow> path_violation list \<Rightarrow> sig_comparison \<Rightarrow> role_diff_result" where
  \<comment> \<open>the composition of the three arms\<close>
  "judge i src changed vs sig =
     (let reach = check_branch_reachability (bi_role i) changed (vs \<noteq> [] \<or> sg_changes sig \<noteq> []) (bi_sweep i);
          verdict = (if vs \<noteq> [] \<or> sg_changes sig \<noteq> [] then Violation
                     else if bi_role i = Bodies \<and> sg_status sig \<in> set bodies_blocking_statuses then Undetermined
                     else Clean)
      in case verdict_of reach of
           Inl _ \<Rightarrow> undetermined (Some src) changed (Some sig)
         | Inr rv \<Rightarrow> \<lparr>rd_verdict = worst_verdict [verdict, rv], rd_violations = vs, rd_signature = Some sig,
             rd_checked = changed, rd_source = Some src, rd_reachability = Some reach\<rparr>)"

definition check_branch :: "branch_inputs \<Rightarrow> role_diff_result" where
  "check_branch i =
     (case gate_policy i of Inl _ \<Rightarrow> undetermined None [] None | Inr p \<Rightarrow>
      (let src = rp_source p in
       if (case bi_spec i of None \<Rightarrow> False | Some sp \<Rightarrow> rs_role sp \<noteq> bi_role i)
       then undetermined (Some src) [] None
       else if bi_role i = Adjudicate
          \<and> (case bi_spec i of None \<Rightarrow> True | Some sp \<Rightarrow> rs_disputed_paths sp = [])
       then undetermined (Some src) [] None
       else case gate_rule i p of Inl _ \<Rightarrow> undetermined (Some src) [] None | Inr rule \<Rightarrow>
        (case read_diff (bi_diff i) of Inl _ \<Rightarrow> undetermined (Some src) [] None | Inr changed \<Rightarrow>
          (if changed = [] then undetermined (Some src) [] None
           else if bi_role i = Legacy then
             (let fl = floor_violations changed in
              \<lparr>rd_verdict = (if fl \<noteq> [] then Violation else Clean), rd_violations = fl,
               rd_signature = Some (plain_comparison SigNotApplicable), rd_checked = changed,
               rd_source = Some src, rd_reachability = None\<rparr>)
           else (case gate_signature i changed src of
              Inl refusal \<Rightarrow> refusal
            | Inr sig \<Rightarrow> judge i src changed (gate_violations rule changed) sig)))))"

section \<open>Facts about the path gate\<close>

definition on_floor :: "string \<Rightarrow> bool" where
  "on_floor p \<longleftrightarrow> (\<exists>g \<in> set floor_globs. glob_matches p g)"

lemma on_floor_first: "on_floor p \<longleftrightarrow> first_matching_glob p floor_globs \<noteq> None"
  unfolding on_floor_def first_matching_glob_None_iff by blast

lemma floor_paths: "map pv_path (floor_violations ps) = filter on_floor ps"
  unfolding floor_violations_def
  by (subst map_filter_paths) (auto simp: on_floor_first intro!: filter_cong)

lemma find_by_path: "find (\<lambda>v. pv_path v = p) vs \<noteq> None \<longleftrightarrow> p \<in> pv_path ` set vs"
  by (auto simp: find_None_iff)

lemma union_from_paths:
  "pv_path ` set (union_from rules fls rep ps)
     = {p \<in> set ps. p \<notin> set rep \<and> p \<in> pv_path ` set fls \<union> pv_path ` set rules}"
proof (induction ps arbitrary: rep)
  case (Cons p ps)
  consider (rep) "p \<in> set rep"
    | (fl) v where "p \<notin> set rep" "find (\<lambda>v. pv_path v = p) (rev fls) = Some v"
    | (ru) v where "p \<notin> set rep" "find (\<lambda>v. pv_path v = p) (rev fls) = None"
        "find (\<lambda>v. pv_path v = p) rules = Some v"
    | (no) "p \<notin> set rep" "find (\<lambda>v. pv_path v = p) (rev fls) = None"
        "find (\<lambda>v. pv_path v = p) rules = None"
    by blast
  then show ?case
  proof cases
    case rep
    with Cons show ?thesis by auto
  next
    case fl
    with find_SomeD[OF fl(2)] have "pv_path v = p" "p \<in> pv_path ` set fls" by auto
    with Cons fl show ?thesis by auto
  next
    case ru
    with find_SomeD[OF ru(3)] have "pv_path v = p" "p \<in> pv_path ` set rules" by auto
    with Cons ru show ?thesis by auto
  next
    case no
    then have "p \<notin> pv_path ` set fls" "p \<notin> pv_path ` set rules"
      using find_by_path[of p "rev fls"] find_by_path[of p rules] by auto
    with Cons no show ?thesis by auto
  qed
qed simp

lemma rulings_glob_nonempty: "rulings_glob \<noteq> []"
  by (simp add: rulings_glob_def)

lemma drop_commons_paths:
  "pv_path ` set (drop_commons vs fls)
     = {p \<in> pv_path ` set vs. p \<in> pv_path ` set fls \<or> \<not> glob_matches p rulings_glob}"
  by (auto simp: drop_commons_def Let_def rulings_glob_nonempty split: if_splits)

lemma gate_violations_paths:
  "pv_path ` set (gate_violations rule ps)
     = {p \<in> set ps. on_floor p \<or> path_refused rule p \<and> \<not> glob_matches p rulings_glob}"
proof -
  have fl: "pv_path ` set (floor_violations ps) = {p \<in> set ps. on_floor p}"
    using floor_paths[of ps] by (metis set_filter set_map)
  have ev: "pv_path ` set (evaluate_changed_paths rule ps) = {p \<in> set ps. path_refused rule p}"
    using evaluate_paths[of rule ps] by (metis set_filter set_map)
  show ?thesis
    unfolding gate_violations_def Let_def drop_commons_paths union_with_floor_def union_from_paths fl ev
    by auto
qed

lemma gate_signature_Inr:
  assumes "gate_signature i changed src = Inr sig"
  shows "if bi_role i = Bodies
    then compare_branch_signatures (bi_git i) (bi_branch i) changed = Inr sig
       \<and> read_diff (bi_recheck i) = Inr changed
    else sg_changes sig = []"
  using assms by (auto simp: gate_signature_def plain_comparison_def split: if_splits sum.splits)

lemma check_branch_decided:
  assumes "check_branch i = r" and "rd_verdict r \<noteq> Undetermined"
  obtains (legacy) p rule changed where
      "gate_policy i = Inr p" "gate_rule i p = Inr rule" "read_diff (bi_diff i) = Inr changed" "changed \<noteq> []"
      "bi_role i = Legacy" "rd_verdict r = (if floor_violations changed \<noteq> [] then Violation else Clean)"
      "rd_violations r = floor_violations changed"
    | (judged) p rule changed sig where
      "gate_policy i = Inr p" "gate_rule i p = Inr rule" "read_diff (bi_diff i) = Inr changed" "changed \<noteq> []"
      "bi_role i \<noteq> Legacy" "gate_signature i changed (rp_source p) = Inr sig"
      "r = judge i (rp_source p) changed (gate_violations rule changed) sig"
proof -
  have u: "rd_verdict (undetermined a b c) = Undetermined" for a b c by (simp add: undetermined_def)
  have g: "rd_verdict x = Undetermined" if "gate_signature i ch src = Inl x" for x ch src
    using that u by (auto simp: gate_signature_def split: if_splits sum.splits)
  show thesis
  proof (cases "gate_policy i")
    case (Inl e)
    with assms u show ?thesis by (auto simp: check_branch_def)
  next
    case (Inr p)
    note P = Inr
    show ?thesis
    proof (cases "gate_rule i p")
      case (Inl e)
      with assms u P show ?thesis by (auto simp: check_branch_def Let_def split: if_splits)
    next
      case (Inr rule)
      note R = Inr
      show ?thesis
      proof (cases "read_diff (bi_diff i)")
        case (Inl e)
        with assms u P R show ?thesis by (auto simp: check_branch_def Let_def split: if_splits)
      next
        case (Inr changed)
        show ?thesis
        proof (cases "changed = [] \<or> bi_role i = Legacy")
          case True
          with assms u P R Inr show ?thesis
            by (intro legacy[OF P R Inr]) (auto simp: check_branch_def Let_def split: if_splits)
        next
          case False
          then obtain sig where "gate_signature i changed (rp_source p) = Inr sig"
            "r = judge i (rp_source p) changed (gate_violations rule changed) sig"
            using assms u g P R Inr by (auto simp: check_branch_def Let_def split: if_splits sum.splits)
          with False P R Inr show ?thesis by (intro judged) auto
        qed
      qed
    qed
  qed
qed

lemma judge_verdict:
  assumes "rd_verdict (judge i src changed vs sig) = Clean"
  shows "vs = [] \<and> sg_changes sig = []
    \<and> (bi_role i = Bodies \<longrightarrow> sg_status sig \<notin> set bodies_blocking_statuses)
    \<and> verdict_of (check_branch_reachability (bi_role i) changed False (bi_sweep i)) = Inr Clean"
proof (cases "verdict_of (check_branch_reachability (bi_role i) changed (vs \<noteq> [] \<or> sg_changes sig \<noteq> []) (bi_sweep i))")
  case (Inl e)
  with assms show ?thesis by (simp add: judge_def undetermined_def)
next
  case (Inr rv)
  with assms have w: "worst_verdict [if vs \<noteq> [] \<or> sg_changes sig \<noteq> [] then Violation
       else if bi_role i = Bodies \<and> sg_status sig \<in> set bodies_blocking_statuses then Undetermined
       else Clean, rv] = Clean" by (simp add: judge_def)
  then have "rv = Clean" and "vs = []" "sg_changes sig = []"
    "bi_role i = Bodies \<longrightarrow> sg_status sig \<notin> set bodies_blocking_statuses"
    unfolding worst_verdict_Clean by (auto split: if_splits)
  with Inr show ?thesis by simp
qed

section \<open>Facts about the signature arm\<close>

abbreviation sig_blocking :: "sig_status \<Rightarrow> bool" where
  "sig_blocking st \<equiv> st \<in> set bodies_blocking_statuses"

lemma worst_status_blocking:
  "worst_signature_status a b = Inr st \<Longrightarrow> sig_blocking st \<longleftrightarrow> sig_blocking a \<or> sig_blocking b"
  by (cases a; cases b)
    (auto simp: worst_signature_status_def sig_precedence_def bodies_blocking_statuses_def)

definition file_compared :: "git_env \<Rightarrow> string \<Rightarrow> string \<Rightarrow> sig_change list \<Rightarrow> string \<Rightarrow> bool" where
  \<comment> \<open>the file was read at both revisions and each of its base signatures is kept or listed as changed\<close>
  "file_compared env branch mb changes path \<longleftrightarrow>
     ge_text env mb path = Inr None
     \<or> (\<exists>b ht bs hs. ge_text env mb path = Inr (Some b) \<and> ge_text env branch path = Inr ht
          \<and> ge_fingerprints env path b = Fingerprints bs
          \<and> (case ht of None \<Rightarrow> hs = [] | Some h \<Rightarrow> ge_fingerprints env path h = Fingerprints hs)
          \<and> (\<forall>x f. (x, f) \<in> set bs \<longrightarrow> map_of hs x = Some f
               \<or> \<lparr>sc_path = path, sc_symbol = x, sc_before = f, sc_after = map_of hs x\<rparr> \<in> set changes))"

lemma file_compared_mono:
  "file_compared env br mb ch p \<Longrightarrow> set ch \<subseteq> set ch' \<Longrightarrow> file_compared env br mb ch' p"
  unfolding file_compared_def by (elim disjE exE conjE) (blast, (intro disjI2 exI conjI, assumption+, blast))

lemma changed_symbols_complete:
  "(x, f) \<in> set bs \<Longrightarrow> map_of hs x = Some f
   \<or> \<lparr>sc_path = path, sc_symbol = x, sc_before = f, sc_after = map_of hs x\<rparr> \<in> set (changed_symbols path bs hs)"
  by (force simp: changed_symbols_def)

lemma compare_signatures_compared:
  assumes "language_for_path path \<noteq> None"
    and "compare_signatures (ge_fingerprints env) path (Some b) ht = Inr c" "\<not> sig_blocking (sg_status c)"
    and "ge_text env mb path = Inr (Some b)" "ge_text env br path = Inr ht"
  shows "file_compared env br mb (sg_changes c) path"
proof -
  from assms(1-3) obtain bs where bs: "ge_fingerprints env path b = Fingerprints bs"
    by (auto simp: compare_signatures_def language_refusal_def plain_comparison_def
        bodies_blocking_statuses_def split: fp_outcome.splits)
  show ?thesis
  proof (cases ht)
    case None
    with assms(1,2) bs have "sg_changes c = changed_symbols path bs []"
      by (auto simp: compare_signatures_def language_refusal_def plain_comparison_def)
    with bs None assms(4,5) changed_symbols_complete[of _ _ bs "[]" path] show ?thesis
      unfolding file_compared_def by (intro disjI2 exI[of _ b] exI[of _ ht] exI[of _ bs] exI[of _ "[]"]) simp
  next
    case (Some h)
    with assms(1-3) bs obtain hs where "ge_fingerprints env path h = Fingerprints hs"
      "sg_changes c = changed_symbols path bs hs"
      by (auto simp: compare_signatures_def language_refusal_def plain_comparison_def
          bodies_blocking_statuses_def split: fp_outcome.splits)
    with bs Some assms(4,5) changed_symbols_complete[of _ _ bs hs path] show ?thesis
      unfolding file_compared_def by (intro disjI2 exI[of _ b] exI[of _ ht] exI[of _ bs] exI[of _ hs]) simp
  qed
qed

definition base_ok :: "git_env \<Rightarrow> sig_progress \<Rightarrow> bool" where
  "base_ok env pr \<longleftrightarrow> (case sp_base pr of None \<Rightarrow> True | Some mb \<Rightarrow> merge_base_of (ge_merge_base env) = Inr mb)"

lemma sig_step_facts:
  assumes "sig_step env br pr p = Inr pr'" and "base_ok env pr"
  shows "base_ok env pr' \<and> set (sp_changes pr) \<subseteq> set (sp_changes pr')
    \<and> (sig_blocking (sp_status pr) \<longrightarrow> sig_blocking (sp_status pr'))
    \<and> sp_examined pr \<le> sp_examined pr'
    \<and> (language_for_path p \<noteq> None \<and> \<not> sig_blocking (sp_status pr') \<longrightarrow>
        sp_examined pr' > 0 \<and> (\<exists>mb. merge_base_of (ge_merge_base env) = Inr mb
          \<and> file_compared env br mb (sp_changes pr') p))"
proof (cases "language_for_path p")
  case None
  with assms worst_status_blocking[of "sp_status pr"] show ?thesis
    by (auto simp: sig_step_def language_refusal_def base_ok_def)
next
  case (Some l)
  then have nr: "language_refusal p = None" by (simp add: language_refusal_def)
  with assms obtain mb where mb: "known_base env (sp_base pr) = Inr mb"
    by (auto simp: sig_step_def split: sum.splits)
  then have mbo: "merge_base_of (ge_merge_base env) = Inr mb"
    using assms(2) by (auto simp: known_base_def base_ok_def split: option.splits)
  let ?pr1 = "pr\<lparr>sp_base := Some mb, sp_examined := Suc (sp_examined pr)\<rparr>"
  from assms(1) nr mb obtain bt where bt: "ge_text env mb p = Inr bt"
    by (auto simp: sig_step_def Let_def split: sum.splits)
  show ?thesis
  proof (cases bt)
    case None
    with assms(1) nr mb bt have "pr' = ?pr1" by (simp add: sig_step_def)
    with None bt mbo show ?thesis by (auto simp: base_ok_def file_compared_def)
  next
    case (Some b)
    with assms(1) nr mb bt obtain ht c st where
      h: "ge_text env br p = Inr ht" "compare_signatures (ge_fingerprints env) p (Some b) ht = Inr c"
        "worst_signature_status (sp_status pr) (sg_status c) = Inr st"
        "pr' = ?pr1\<lparr>sp_status := st, sp_changes := sp_changes ?pr1 @ sg_changes c\<rparr>"
      by (auto simp: sig_step_def Let_def split: sum.splits)
    have "file_compared env br mb (sp_changes pr') p" if "\<not> sig_blocking st"
    proof -
      have "file_compared env br mb (sg_changes c) p"
        using compare_signatures_compared[OF _ h(2) _ _ h(1)] \<open>language_for_path p = Some l\<close> bt Some
          worst_status_blocking[OF h(3)] that by simp
      then show ?thesis by (rule file_compared_mono) (simp add: h(4))
    qed
    with h worst_status_blocking[OF h(3)] mbo show ?thesis by (auto simp: base_ok_def)
  qed
qed

lemma sig_steps_facts:
  assumes "sig_steps env br pr ps = Inr pr'" and "base_ok env pr"
  shows "set (sp_changes pr) \<subseteq> set (sp_changes pr')
    \<and> (sig_blocking (sp_status pr) \<longrightarrow> sig_blocking (sp_status pr'))
    \<and> sp_examined pr \<le> sp_examined pr'
    \<and> (\<forall>p \<in> set ps. language_for_path p \<noteq> None \<and> \<not> sig_blocking (sp_status pr') \<longrightarrow>
        sp_examined pr' > 0 \<and> (\<exists>mb. merge_base_of (ge_merge_base env) = Inr mb
          \<and> file_compared env br mb (sp_changes pr') p))"
  using assms
proof (induction ps arbitrary: pr)
  case (Cons p ps)
  then obtain pr1 where s: "sig_step env br pr p = Inr pr1" "sig_steps env br pr1 ps = Inr pr'"
    by (auto split: sum.splits)
  note f = sig_step_facts[OF s(1) Cons.prems(2)]
  note IH = Cons.IH[OF s(2) f[THEN conjunct1]]
  have "sp_examined pr' > 0 \<and> (\<exists>mb. merge_base_of (ge_merge_base env) = Inr mb
          \<and> file_compared env br mb (sp_changes pr') p)"
    if "language_for_path p \<noteq> None" "\<not> sig_blocking (sp_status pr')"
  proof -
    have "\<not> sig_blocking (sp_status pr1)" using IH that(2) by blast
    with f that(1) obtain mb where m: "merge_base_of (ge_merge_base env) = Inr mb"
      "file_compared env br mb (sp_changes pr1) p" "sp_examined pr1 > 0" by blast
    from file_compared_mono[OF m(2)] IH m(1,3) show ?thesis by fastforce
  qed
  with f IH show ?case by fastforce
qed simp

lemma sig_steps_examined: "sig_steps env br pr ps = Inr pr' \<Longrightarrow> sp_examined pr \<le> sp_examined pr'"
proof (induction ps arbitrary: pr)
  case (Cons p ps)
  then obtain pr1 where s: "sig_step env br pr p = Inr pr1" "sig_steps env br pr1 ps = Inr pr'"
    by (auto split: sum.splits)
  then have "sp_examined pr \<le> sp_examined pr1"
    by (auto simp: sig_step_def Let_def split: sum.splits option.splits)
  with Cons.IH[OF s(2)] show ?case by simp
qed simp

lemma sig_steps_unexamined:
  "sig_steps env br pr ps = Inr pr' \<Longrightarrow> sp_examined pr' = 0 \<Longrightarrow>
   sig_blocking (sp_status pr') \<longleftrightarrow> sig_blocking (sp_status pr)"
proof (induction ps arbitrary: pr)
  case (Cons p ps)
  then obtain pr1 where s: "sig_step env br pr p = Inr pr1" "sig_steps env br pr1 ps = Inr pr'"
    by (auto split: sum.splits)
  show ?case
  proof (cases "language_refusal p")
    case None
    with s(1) have "sp_examined pr1 > 0"
      by (auto simp: sig_step_def Let_def split: sum.splits option.splits)
    moreover have "sp_examined pr1 \<le> sp_examined pr'" by (rule sig_steps_examined[OF s(2)])
    ultimately show ?thesis using Cons.prems(2) by simp
  next
    case (Some r)
    then have "sg_status r = SigUnsupportedLanguage" by (auto simp: language_refusal_def split: if_splits)
    with s(1) Some have "sig_blocking (sp_status pr1) \<longleftrightarrow> sig_blocking (sp_status pr)"
      using worst_status_blocking[of "sp_status pr" SigUnsupportedLanguage "sp_status pr1"]
      by (auto simp: sig_step_def bodies_blocking_statuses_def)
    with Cons.IH[OF s(2) Cons.prems(2)] show ?thesis by simp
  qed
qed simp

section \<open>Properties\<close>

text \<open>
  C2. The path gate refuses exactly this: a changed path is among the violations iff it is on the floor,
  or the role's effective rule refuses it and it is not a ruling under \<^verbatim>\<open>docs/rulings\<close>. The
  commons exemption never lifts the floor.
\<close>

theorem gate_violations_exact:
  "pv_path ` set (gate_violations rule ps)
     = {p \<in> set ps. on_floor p \<or> path_refused rule p \<and> \<not> glob_matches p rulings_glob}"
  by (rule gate_violations_paths)

text \<open>
  C1. A clean verdict means everything was checked and passed. The policy was read (from the base unless
  given), the effective rule was built, git's diff was read, decoded completely and is not empty; no changed
  path is on the floor, for any role, row or policy; unless the role is legacy, no changed
  path is refused by the rule outside the rulings tree; and on bodies the signatures were compared
  and are unchanged, the diff read the same again afterwards, and the reachability arm cleared the branch.
\<close>

theorem clean_branch_was_checked:
  assumes "rd_verdict (check_branch i) = Clean"
  shows "\<exists>p rule changed. gate_policy i = Inr p \<and> gate_rule i p = Inr rule
    \<and> read_diff (bi_diff i) = Inr changed \<and> changed \<noteq> []
    \<and> (\<forall>x \<in> set changed. \<not> on_floor x)
    \<and> (bi_role i \<noteq> Legacy \<longrightarrow>
         (\<forall>x \<in> set changed. \<not> path_refused rule x \<or> glob_matches x rulings_glob))
    \<and> (bi_role i = Bodies \<longrightarrow> (\<exists>sig. compare_branch_signatures (bi_git i) (bi_branch i) changed = Inr sig
          \<and> sg_changes sig = [] \<and> sg_status sig \<notin> set bodies_blocking_statuses)
        \<and> read_diff (bi_recheck i) = Inr changed
        \<and> verdict_of (check_branch_reachability Bodies changed False (bi_sweep i)) = Inr Clean)"
proof -
  have nu: "rd_verdict (check_branch i) \<noteq> Undetermined" using assms by simp
  show ?thesis
  proof (rule check_branch_decided[OF refl nu])
    fix p rule changed
    assume a: "gate_policy i = Inr p" "gate_rule i p = Inr rule" "read_diff (bi_diff i) = Inr changed" "changed \<noteq> []"
      "bi_role i = Legacy"
      "rd_verdict (check_branch i) = (if floor_violations changed \<noteq> [] then Violation else Clean)"
    with assms have "floor_violations changed = []" by (auto split: if_splits)
    then have "\<forall>x \<in> set changed. \<not> on_floor x"
      using floor_paths[of changed] by (auto simp: filter_empty_conv dest: sym)
    with a show ?thesis by auto
  next
    fix p rule changed sig
    assume a: "gate_policy i = Inr p" "gate_rule i p = Inr rule" "read_diff (bi_diff i) = Inr changed" "changed \<noteq> []"
      "bi_role i \<noteq> Legacy" "gate_signature i changed (rp_source p) = Inr sig"
      "check_branch i = judge i (rp_source p) changed (gate_violations rule changed) sig"
    from assms a(7) have j: "gate_violations rule changed = []" "sg_changes sig = []"
      "bi_role i = Bodies \<longrightarrow> sg_status sig \<notin> set bodies_blocking_statuses"
      "verdict_of (check_branch_reachability (bi_role i) changed False (bi_sweep i)) = Inr Clean"
      using judge_verdict by metis+
    have "\<forall>x \<in> set changed. \<not> on_floor x \<and> (\<not> path_refused rule x \<or> glob_matches x rulings_glob)"
      using gate_violations_paths[of rule changed] j(1) by auto
    moreover note gate_signature_Inr[OF a(6)]
    ultimately show ?thesis using a(1-5) j(2-4) by (intro exI[of _ p] exI[of _ rule] exI[of _ changed]) auto
  qed
qed

definition python_git :: git_env where
  \<comment> \<open>one function, unchanged between the merge base and the branch\<close>
  "python_git = \<lparr>ge_text = (\<lambda>_ _. Inr (Some ''def f(): ...'')), ge_fingerprints = (\<lambda>_ _. Fingerprints [(''f'', ''def f()'')]),
     ge_merge_base = Inr (0, ''abc''), ge_ls_tree = (\<lambda>_. Inr (0, [])), ge_fold = (\<lambda>_ _. Inr (SigChecked, []))\<rparr>"

definition bodies_inputs :: branch_inputs where
  "bodies_inputs = \<lparr>bi_policy = Some example_policy, bi_text_at = (\<lambda>_. Inl ()), bi_yaml = (\<lambda>_. Inl ()),
     bi_base = ''main'', bi_branch = ''task/T-3'', bi_role = Bodies, bi_spec = Some example_spec,
     bi_diff = Inr (0, ''src/app/ledger.py''), bi_recheck = Inr (0, ''src/app/ledger.py''),
     bi_git = python_git, bi_sweep = empty_sweep\<rparr>"

lemma clean_branch_was_checked_witness:
  "rd_verdict (check_branch bodies_inputs) = Clean
   \<and> (\<exists>changed. read_diff (bi_diff bodies_inputs) = Inr changed \<and> changed \<noteq> []
        \<and> (\<forall>x \<in> set changed. \<not> on_floor x))"
proof -
  have c: "rd_verdict (check_branch bodies_inputs) = Clean" by code_simp
  from clean_branch_was_checked[OF this] show ?thesis using c by blast
qed



end
