(* ===== verification/RolePhases.thy ===== *)
theory RolePhases
  imports Roles Tasks "HOL-Library.Product_Lexorder"
begin

text \<open>
  The plan-time half of the build protocol (\<^verbatim>\<open>role_protocol.validate\<close> and its helpers) and the batch check
  \<^verbatim>\<open>batch_coherence.batch_errors\<close>: the unit each task belongs to, the phase-order
  defects, the warnings, and the statuses that satisfy a dependency. A defect is the task key and
  the rule id its message is filed under.
\<close>

section \<open>Roles and units of a worklist\<close>

definition role_of_task :: "task \<Rightarrow> role_error + role" where
  "role_of_task t = parse_role_field (t_raw t)"

definition roles_of :: "task list \<Rightarrow> string \<Rightarrow> role option" where
  \<comment> \<open>a dictionary: a later task of the same key decides\<close>
  "roles_of ts = map_of (rev (List.map_filter
     (\<lambda>t. case role_of_task t of Inl _ \<Rightarrow> None | Inr r \<Rightarrow> Some (t_key t, r)) ts))"

definition role_errors :: "task list \<Rightarrow> string list" where
  "role_errors ts = map t_key (filter (\<lambda>t. isl (role_of_task t)) ts)"

definition by_key :: "task list \<Rightarrow> string \<Rightarrow> task option" where
  "by_key ts = map_of (rev (map (\<lambda>t. (t_key t, t)) ts))"

definition role_in_opt :: "role option \<Rightarrow> role list \<Rightarrow> bool" where
  "role_in_opt r wanted = (case r of None \<Rightarrow> False | Some x \<Rightarrow> x \<in> set wanted)"

definition deps_with_role :: "task list \<Rightarrow> (string \<Rightarrow> role option) \<Rightarrow> string \<Rightarrow> role list \<Rightarrow> string list" where
  "deps_with_role ts roles k wanted = (case by_key ts k of None \<Rightarrow> []
     | Some t \<Rightarrow> filter (\<lambda>d. role_in_opt (roles d) wanted) (t_blocked_by t))"

type_synonym unit_map = "string \<Rightarrow> string option"
type_synonym candidate_map = "string \<Rightarrow> string list option"

fun scaffold_units ::
  "task list \<Rightarrow> (string \<Rightarrow> role option) \<Rightarrow> unit_map \<times> candidate_map \<Rightarrow> unit_map \<times> candidate_map" where
  "scaffold_units [] roles st = st"
| "scaffold_units (t # ts) roles (un, ca) =
     (if roles (t_key t) = Some Scaffold
      then scaffold_units ts roles (un(t_key t \<mapsto> t_key t), ca(t_key t \<mapsto> [t_key t]))
      else scaffold_units ts roles (un, ca))"

fun role_units ::
  "task list \<Rightarrow> task list \<Rightarrow> (string \<Rightarrow> role option) \<Rightarrow> role \<Rightarrow> role list
   \<Rightarrow> unit_map \<times> candidate_map \<Rightarrow> unit_map \<times> candidate_map" where
  \<comment> \<open>one pass: all the tasks, the tasks left, the role of the pass and the roles of its predecessors\<close>
  "role_units all [] roles ro wanted st = st"
| "role_units all (t # ts) roles ro wanted (un, ca) =
     (if roles (t_key t) \<noteq> Some ro then role_units all ts roles ro wanted (un, ca)
      else let roots = dedup (List.map_filter un (deps_with_role all roles (t_key t) wanted)) in
        role_units all ts roles ro wanted
          ((case roots of [r] \<Rightarrow> un(t_key t \<mapsto> r) | _ \<Rightarrow> un), ca(t_key t \<mapsto> roots)))"

definition unit_roots :: "task list \<Rightarrow> (string \<Rightarrow> role option) \<Rightarrow> unit_map \<times> candidate_map" where
  "unit_roots ts roles =
     (let st0 = scaffold_units ts roles (Map.empty, Map.empty);
          st1 = role_units ts ts roles Seals [Scaffold] st0;
          st2 = role_units ts ts roles Bodies [Seals] st1
      in role_units ts ts roles Adjudicate mandatory_phase_order st2)"

record unit_view =
  uv_id :: string
  uv_seals :: "string list"
  uv_bodies :: "string list"
  uv_adjudicate :: "string list"

definition members_of :: "task list \<Rightarrow> (string \<Rightarrow> role option) \<Rightarrow> unit_map \<Rightarrow> role \<Rightarrow> string \<Rightarrow> string list" where
  "members_of ts roles un ro root =
     map t_key (filter (\<lambda>t. roles (t_key t) = Some ro \<and> un (t_key t) = Some root) ts)"

definition unit_ids :: "task list \<Rightarrow> (string \<Rightarrow> role option) \<Rightarrow> unit_map \<Rightarrow> string list" where
  "unit_ids ts roles un = sort (remdups (List.map_filter
     (\<lambda>t. if roles (t_key t) = None \<or> roles (t_key t) = Some Legacy then None else un (t_key t)) ts))"

definition units_of :: "task list \<Rightarrow> unit_view list" where
  "units_of ts =
     (let roles = roles_of ts; un = fst (unit_roots ts roles)
      in map (\<lambda>r. \<lparr>uv_id = r, uv_seals = sort (members_of ts roles un Seals r),
                    uv_bodies = sort (members_of ts roles un Bodies r),
                    uv_adjudicate = sort (members_of ts roles un Adjudicate r)\<rparr>)
           (filter (\<lambda>r. r \<in> set (members_of ts roles un Scaffold r)) (unit_ids ts roles un)))"

section \<open>Validation\<close>

type_synonym defect = "string \<times> string"

definition row_defects :: "task list \<Rightarrow> defect list" where
  "row_defects ts = List.map_filter
     (\<lambda>t. if t_key t \<in> set (role_errors ts) then Some (t_key t, ''ROLE'')
          else if isl (parse_task_role_spec (t_raw t) (t_key t)) then Some (t_key t, ''ROW'') else None) ts"

definition specs_of :: "task list \<Rightarrow> role_spec list" where
  "specs_of ts = List.map_filter
     (\<lambda>t. if t_key t \<in> set (role_errors ts) then None
          else case parse_task_role_spec (t_raw t) (t_key t) of Inl _ \<Rightarrow> None | Inr sp \<Rightarrow> Some sp) ts"

fun phase_index :: "role \<Rightarrow> nat option" where
  "phase_index Scaffold = Some 0"
| "phase_index Seals = Some 1"
| "phase_index Bodies = Some 2"
| "phase_index _ = None"

definition inversions ::
  "(string \<Rightarrow> role option) \<Rightarrow> unit_map \<Rightarrow> task \<Rightarrow> role \<Rightarrow> string list" where
  \<comment> \<open>the dependencies of a later phase of the task's own unit\<close>
  "inversions roles un t ro = filter
     (\<lambda>d. role_in_opt (roles d) mandatory_phase_order
        \<and> un (t_key t) \<noteq> None \<and> un d = un (t_key t)
        \<and> (case (Option.bind (roles d) phase_index, phase_index ro) of
             (Some x, Some y) \<Rightarrow> x > y | _ \<Rightarrow> False)) (t_blocked_by t)"

definition phase_defects ::
  "task list \<Rightarrow> (string \<Rightarrow> role option) \<Rightarrow> unit_map \<Rightarrow> candidate_map \<Rightarrow> task \<Rightarrow> defect list" where
  "phase_defects ts roles un ca t =
     (case roles (t_key t) of
        None \<Rightarrow> []
      | Some Legacy \<Rightarrow> []
      | Some ro \<Rightarrow>
         (let k = t_key t; direct = deps_with_role ts roles k in
          (if ro = Seals \<and> direct [Scaffold] = [] then [(k, ''PO-1'')] else [])
          @ (if ro = Bodies \<and> direct [Seals] = [] then [(k, ''PO-2'')] else [])
          @ (if ro = Adjudicate \<and> direct mandatory_phase_order = [] then [(k, ''PO-3'')] else [])
          @ (if length (case ca k of None \<Rightarrow> [] | Some rs \<Rightarrow> rs) > 1 then [(k, ''PO-4'')] else [])
          @ (if ro = Seals \<or> ro = Bodies then map (\<lambda>_. (k, ''PO-5'')) (inversions roles un t ro) else [])))"

definition override_defects :: "role_policy \<Rightarrow> role_spec list \<Rightarrow> defect list" where
  "override_defects p sps = List.map_filter
     (\<lambda>sp. if validate_override sp p = None then None else Some (rs_task_key sp, ''OVERRIDE'')) sps"

definition redundant_warnings :: "role_policy \<Rightarrow> role_spec list \<Rightarrow> defect list" where
  "redundant_warnings p sps = concat (map (\<lambda>sp. case rule_for p (rs_role sp) of Inl _ \<Rightarrow> []
      | Inr r \<Rightarrow> map (\<lambda>_. (rs_task_key sp, ''W-REDUNDANT''))
          (filter (\<lambda>g. g \<in> set (rr_globs r)) (rs_added_immutable_globs sp))) sps)"

definition unit_warnings :: "task list \<Rightarrow> unit_view \<Rightarrow> defect list" where
  "unit_warnings ts u =
     (if uv_seals u = [] then [(uv_id u, ''W-NO-SEALS'')] else [])
     @ map (\<lambda>s. (s, ''W-NO-BODIES''))
         (filter (\<lambda>s. \<not> list_ex (\<lambda>b. case by_key ts b of None \<Rightarrow> False | Some t \<Rightarrow> s \<in> set (t_blocked_by t))
                        (uv_bodies u)) (uv_seals u))"

definition mixed_warning :: "task list \<Rightarrow> defect list" where
  "mixed_warning ts =
     (let rs = List.map_filter (\<lambda>t. roles_of ts (t_key t)) ts
      in if Legacy \<in> set rs \<and> list_ex (\<lambda>r. r \<noteq> Legacy) rs then [([], ''W-MIXED'')] else [])"

record role_validation =
  rv_errors :: "defect list"
  rv_warnings :: "defect list"
  rv_specs :: "role_spec list"
  rv_units :: "unit_view list"

definition validate_roles :: "task list \<Rightarrow> role_error + role_validation" where
  "validate_roles ts = (case built_in_policy of Inl e \<Rightarrow> Inl e | Inr defaults \<Rightarrow>
     (let roles = roles_of ts; ur = unit_roots ts roles; sps = specs_of ts; units = units_of ts
      in Inr \<lparr>rv_errors = sort (row_defects ts
                  @ concat (map (phase_defects ts roles (fst ur) (snd ur)) ts)
                  @ override_defects defaults sps),
              rv_warnings = sort (redundant_warnings defaults sps
                  @ concat (map (unit_warnings ts) units) @ mixed_warning ts),
              rv_specs = sort_key rs_task_key sps, rv_units = units\<rparr>))"

section \<open>Statuses that satisfy a dependency\<close>

datatype integration = Branch | Pr

definition integration_of :: "string \<Rightarrow> role_error + integration" where
  "integration_of s = (if s = ''branch'' then Inr Branch else if s = ''pr'' then Inr Pr else Inl (RoleUnknown s))"

definition dispatch_satisfied_statuses :: "role \<Rightarrow> role \<Rightarrow> string \<Rightarrow> role_error + string list" where
  "dispatch_satisfied_statuses dependent dependency mode =
     (case integration_of mode of
        Inl e \<Rightarrow> Inl e
      | Inr m \<Rightarrow> Inr
          (if dependency = Seals then (if m = Pr then [MERGED] else [DONE])
           else if m = Pr then [DONE, AWAITING_REVIEW, MERGED] else [DONE]))"

section \<open>Agents\<close>

definition agent_correlations ::
  "role_validation \<Rightarrow> string \<Rightarrow> role_error + (string \<times> string) list" where
  \<comment> \<open>unit and shared family of each warning of \<^verbatim>\<open>agent_correlation_warnings\<close>\<close>
  "agent_correlations v default_agent =
     (if py_strip default_agent = [] then Inl RoleBlank
      else let fam = (\<lambda>a. py_lower (py_strip a));
               declared = map_of (rev (map (\<lambda>sp. (rs_task_key sp, rs_declared_agent sp)) (rv_specs v)));
               families = map (\<lambda>k. case declared k of Some (Some a) \<Rightarrow> (if a = [] then fam default_agent else fam a)
                                                   | _ \<Rightarrow> fam default_agent)
           in Inr (concat (map (\<lambda>u. map (Pair (uv_id u))
                (sort (remdups (filter (\<lambda>f. f \<in> set (families (uv_bodies u))) (families (uv_seals u))))))
              (sort_key uv_id (rv_units v)))))"

section \<open>Batches\<close>

record batch_defect =
  bd_task_key :: string
  bd_rule_id :: string
  bd_batch_id :: string

definition batch_ids :: "task list \<Rightarrow> string list" where
  "batch_ids ts = rev (remdups (rev (List.map_filter
     (\<lambda>t. case t_batch_id t of Some b \<Rightarrow> if b = [] then None else Some b | None \<Rightarrow> None) ts)))"

definition spec_by_key :: "role_spec list \<Rightarrow> string \<Rightarrow> role_spec option" where
  "spec_by_key sps = map_of (rev (map (\<lambda>sp. (rs_task_key sp, sp)) sps))"

definition batch_members :: "task list \<Rightarrow> role_spec list \<Rightarrow> string \<Rightarrow> role_spec list" where
  "batch_members ts sps b = List.map_filter (spec_by_key sps)
     (sort (map t_key (filter (\<lambda>t. t_batch_id t = Some b) ts)))"

definition batch_verdict :: "task list \<Rightarrow> role_spec list \<Rightarrow> string \<Rightarrow> batch_defect option" where
  "batch_verdict ts sps b =
     (case batch_members ts sps b of
        [] \<Rightarrow> None
      | m # ms \<Rightarrow>
         if list_ex (\<lambda>x. rs_role x \<noteq> rs_role m) ms
         then Some \<lparr>bd_task_key = rs_task_key m, bd_rule_id = ''BATCH-ROLE'', bd_batch_id = b\<rparr>
         else if list_ex (\<lambda>x. (rs_added_immutable_globs x, rs_disputed_paths x)
                              \<noteq> (rs_added_immutable_globs m, rs_disputed_paths m)) ms
         then Some \<lparr>bd_task_key = rs_task_key m, bd_rule_id = ''BATCH-RULE'', bd_batch_id = b\<rparr>
         else None)"

definition batch_errors :: "task list \<Rightarrow> role_spec list \<Rightarrow> batch_defect list" where
  "batch_errors ts sps = sort_key (\<lambda>d. (bd_task_key d, bd_rule_id d, bd_batch_id d))
     (List.map_filter (batch_verdict ts sps) (batch_ids ts))"


section \<open>Units, declaratively\<close>

fun predecessor_roles :: "role \<Rightarrow> role list" where
  "predecessor_roles Seals = [Scaffold]"
| "predecessor_roles Bodies = [Seals]"
| "predecessor_roles Adjudicate = mandatory_phase_order"
| "predecessor_roles _ = []"

text \<open>
  A scaffold task is the root of its own unit; a later task belongs to every unit of a direct
  predecessor that carries the role it must follow.
\<close>

inductive in_unit :: "task list \<Rightarrow> (string \<Rightarrow> role option) \<Rightarrow> string \<Rightarrow> string \<Rightarrow> bool"
  for ts roles where
  in_unit_root: "roles k = Some Scaffold \<Longrightarrow> in_unit ts roles k k"
| in_unit_dep: "roles k = Some r \<Longrightarrow> d \<in> set (deps_with_role ts roles k (predecessor_roles r)) \<Longrightarrow>
    in_unit ts roles d u \<Longrightarrow> in_unit ts roles k u"

inductive_cases in_unitE: "in_unit ts roles k u"

lemma deps_with_role_iff:
  "d \<in> set (deps_with_role ts roles k wanted) \<longleftrightarrow>
     (\<exists>t x. by_key ts k = Some t \<and> d \<in> set (t_blocked_by t) \<and> roles d = Some x \<and> x \<in> set wanted)"
  by (cases "by_key ts k") (auto simp: deps_with_role_def role_in_opt_def split: option.splits)

lemma map_filter_cong: "(\<And>x. x \<in> set xs \<Longrightarrow> f x = g x) \<Longrightarrow> List.map_filter f xs = List.map_filter g xs"
  by (induction xs) (auto simp: List.map_filter_simps split: option.splits)

lemma set_map_filter_iff: "y \<in> set (List.map_filter f xs) \<longleftrightarrow> (\<exists>x \<in> set xs. f x = Some y)"
  by (induction xs) (auto simp: List.map_filter_simps split: option.splits)

lemma distinct_dedup: "distinct (dedup gs)"
  by (simp add: dedup_def distinct_dedup_from)

definition unit_candidates ::
  "task list \<Rightarrow> (string \<Rightarrow> role option) \<Rightarrow> unit_map \<Rightarrow> string \<Rightarrow> role list \<Rightarrow> string list" where
  "unit_candidates ts roles un k wanted = dedup (List.map_filter un (deps_with_role ts roles k wanted))"

lemma unit_candidates_cong:
  assumes "\<And>d x. roles d = Some x \<Longrightarrow> x \<in> set wanted \<Longrightarrow> un' d = un d"
  shows "unit_candidates ts roles un' k wanted = unit_candidates ts roles un k wanted"
  unfolding unit_candidates_def
  by (rule arg_cong [OF map_filter_cong]) (use assms in \<open>auto simp: deps_with_role_iff\<close>)

definition singleton_or :: "'a list \<Rightarrow> 'a option \<Rightarrow> 'a option" where
  "singleton_or xs old = (case xs of [x] \<Rightarrow> Some x | _ \<Rightarrow> old)"

lemma role_units_exact:
  assumes "ro \<notin> set wanted"
  shows "role_units all ts roles ro wanted (un, ca) =
    ((\<lambda>k. if k \<in> t_key ` set ts \<and> roles k = Some ro
          then singleton_or (unit_candidates all roles un k wanted) (un k) else un k),
     (\<lambda>k. if k \<in> t_key ` set ts \<and> roles k = Some ro
          then Some (unit_candidates all roles un k wanted) else ca k))"
  using assms
proof (induction ts arbitrary: un ca)
  case (Cons t ts)
  show ?case
  proof (cases "roles (t_key t) = Some ro")
    case False
    with Cons show ?thesis by (auto simp: fun_eq_iff)
  next
    case True
    let ?c = "unit_candidates all roles un (t_key t) wanted"
    define un1 where "un1 = (case ?c of [r] \<Rightarrow> un(t_key t \<mapsto> r) | _ \<Rightarrow> un)"
    have un1: "un1 k = (if k = t_key t then singleton_or ?c (un k) else un k)" for k
      by (auto simp: un1_def singleton_or_def split: list.splits)
    have same: "unit_candidates all roles un1 k wanted = unit_candidates all roles un k wanted" for k
      by (rule unit_candidates_cong) (use True Cons.prems un1 in auto)
    have step: "role_units all (t # ts) roles ro wanted (un, ca)
        = role_units all ts roles ro wanted (un1, ca(t_key t \<mapsto> ?c))"
      using True by (simp add: Let_def un1_def unit_candidates_def)
    show ?thesis
      unfolding step Cons.IH [OF Cons.prems]
      using True by (auto simp: fun_eq_iff same un1 singleton_or_def split: list.splits)
  qed
qed simp


lemma scaffold_units_exact:
  "scaffold_units ts roles (un, ca) =
     ((\<lambda>k. if k \<in> t_key ` set ts \<and> roles k = Some Scaffold then Some k else un k),
      (\<lambda>k. if k \<in> t_key ` set ts \<and> roles k = Some Scaffold then Some [k] else ca k))"
  by (induction ts arbitrary: un ca) (auto simp: fun_eq_iff)

definition keyed :: "task list \<Rightarrow> (string \<Rightarrow> role option) \<Rightarrow> bool" where
  "keyed ts roles = (\<forall>k r. roles k = Some r \<longrightarrow> k \<in> t_key ` set ts)"

lemma roles_of_Some:
  assumes "roles_of ts k = Some r"
  shows "\<exists>t \<in> set ts. t_key t = k \<and> role_of_task t = Inr r"
proof -
  from map_of_SomeD [OF assms [unfolded roles_of_def]]
  obtain t where t: "t \<in> set ts"
    "(case role_of_task t of Inl _ \<Rightarrow> None | Inr x \<Rightarrow> Some (t_key t, x)) = Some (k, r)"
    by (auto simp: set_map_filter_iff)
  then show ?thesis by (intro bexI [of _ t]) (auto split: sum.split_asm)
qed

lemma keyed_roles_of: "keyed ts (roles_of ts)"
  using roles_of_Some by (fastforce simp: keyed_def)

text \<open>What \<^verbatim>\<open>_unit_roots\<close> computes, per role.\<close>

lemma unit_roots_equations:
  assumes keys: "keyed ts roles"
    and ur: "unit_roots ts roles = (un, ca)"
  shows "roles k = Some Scaffold \<Longrightarrow> un k = Some k \<and> ca k = Some [k]"
    and "roles k = Some r \<Longrightarrow> r \<in> {Seals, Bodies, Adjudicate} \<Longrightarrow>
      ca k = Some (unit_candidates ts roles un k (predecessor_roles r))
      \<and> un k = singleton_or (unit_candidates ts roles un k (predecessor_roles r)) None"
    and "roles k = None \<or> roles k = Some Legacy \<Longrightarrow> un k = None \<and> ca k = None"
proof -
  define un0 where "un0 = (\<lambda>k. if roles k = Some Scaffold then Some k else None)"
  define un1 where "un1 = (\<lambda>k. if roles k = Some Seals
      then singleton_or (unit_candidates ts roles un0 k [Scaffold]) (un0 k) else un0 k)"
  define un2 where "un2 = (\<lambda>k. if roles k = Some Bodies
      then singleton_or (unit_candidates ts roles un1 k [Seals]) (un1 k) else un1 k)"
  define un3 where "un3 = (\<lambda>k. if roles k = Some Adjudicate
      then singleton_or (unit_candidates ts roles un2 k mandatory_phase_order) (un2 k) else un2 k)"
  have in_keys: "k \<in> t_key ` set ts \<and> roles k = Some r \<longleftrightarrow> roles k = Some r" for k r
    using keys by (auto simp: keyed_def)
  define c1 where "c1 = (\<lambda>k. if roles k = Some Seals
      then Some (unit_candidates ts roles un0 k [Scaffold])
      else if roles k = Some Scaffold then Some [k] else None)"
  define c2 where "c2 = (\<lambda>k. if roles k = Some Bodies
      then Some (unit_candidates ts roles un1 k [Seals]) else c1 k)"
  define c3 where "c3 = (\<lambda>k. if roles k = Some Adjudicate
      then Some (unit_candidates ts roles un2 k mandatory_phase_order) else c2 k)"
  have s: "scaffold_units ts roles (Map.empty, Map.empty)
      = (un0, \<lambda>k. if roles k = Some Scaffold then Some [k] else None)"
    by (simp add: scaffold_units_exact in_keys un0_def)
  have p1: "role_units ts ts roles Seals [Scaffold]
      (un0, \<lambda>k. if roles k = Some Scaffold then Some [k] else None) = (un1, c1)"
    by (simp add: role_units_exact in_keys un1_def c1_def)
  have p2: "role_units ts ts roles Bodies [Seals] (un1, c1) = (un2, c2)"
    by (simp add: role_units_exact in_keys un2_def c2_def)
  have p3: "role_units ts ts roles Adjudicate mandatory_phase_order (un2, c2) = (un3, c3)"
    using role_units_exact [of Adjudicate mandatory_phase_order ts ts roles un2 c2]
    by (simp add: mandatory_phase_order_def [THEN arg_cong [of _ _ set]] in_keys un3_def c3_def)
  have eq: "un = un3" "ca = c3"
    using ur by (simp_all add: unit_roots_def Let_def s p1 p2 p3)
  have e0: "unit_candidates ts roles un3 k [Scaffold] = unit_candidates ts roles un0 k [Scaffold]" for k
    by (rule unit_candidates_cong) (auto simp: un3_def un2_def un1_def)
  have e1: "unit_candidates ts roles un3 k [Seals] = unit_candidates ts roles un1 k [Seals]" for k
    by (rule unit_candidates_cong) (auto simp: un3_def un2_def)
  have e2: "unit_candidates ts roles un3 k mandatory_phase_order
      = unit_candidates ts roles un2 k mandatory_phase_order" for k
    by (rule unit_candidates_cong) (auto simp: un3_def mandatory_phase_order_def)
  show "roles k = Some Scaffold \<Longrightarrow> un k = Some k \<and> ca k = Some [k]"
    by (simp add: eq un3_def un2_def un1_def un0_def c1_def c2_def c3_def)
  show "roles k = None \<or> roles k = Some Legacy \<Longrightarrow> un k = None \<and> ca k = None"
    by (auto simp: eq un3_def un2_def un1_def un0_def c1_def c2_def c3_def)
  show "roles k = Some r \<Longrightarrow> r \<in> {Seals, Bodies, Adjudicate} \<Longrightarrow>
      ca k = Some (unit_candidates ts roles un k (predecessor_roles r))
      \<and> un k = singleton_or (unit_candidates ts roles un k (predecessor_roles r)) None"
    unfolding eq
    by (cases r) (simp_all add: e0 e1 e2, simp_all add: un3_def un2_def un1_def un0_def c1_def c2_def c3_def)
qed


fun role_rank :: "role \<Rightarrow> nat" where
  "role_rank Scaffold = 0"
| "role_rank Seals = 1"
| "role_rank Bodies = 2"
| "role_rank _ = 3"

lemma predecessor_rank: "x \<in> set (predecessor_roles r) \<Longrightarrow> role_rank x < role_rank r"
  by (cases r) (auto simp: mandatory_phase_order_def)

lemma singleton_or_Some: "singleton_or xs None = Some x \<longleftrightarrow> xs = [x]"
  by (auto simp: singleton_or_def split: list.splits)

lemma set_unit_candidates:
  "u \<in> set (unit_candidates ts roles un k wanted) \<longleftrightarrow>
     (\<exists>d \<in> set (deps_with_role ts roles k wanted). un d = Some u)"
  by (simp add: unit_candidates_def set_map_filter_iff)

lemma unit_sound:
  assumes keys: "keyed ts roles"
    and ur: "unit_roots ts roles = (un, ca)"
  shows "roles k = Some r \<Longrightarrow> un k = Some u \<Longrightarrow> in_unit ts roles k u"
proof (induction "role_rank r" arbitrary: k r u rule: less_induct)
  case less
  note eqs = unit_roots_equations [OF keys ur]
  show ?case
  proof (cases "r = Scaffold \<or> r = Legacy")
    case True
    with eqs(1,3) [of k] less.prems show ?thesis by (auto intro: in_unit_root)
  next
    case False
    then have "r \<in> {Seals, Bodies, Adjudicate}" by (cases r) auto
    from eqs(2) [OF less.prems(1) this] less.prems(2)
    have "unit_candidates ts roles un k (predecessor_roles r) = [u]"
      by (metis singleton_or_Some)
    then have "u \<in> set (unit_candidates ts roles un k (predecessor_roles r))" by simp
    then obtain d where d: "d \<in> set (deps_with_role ts roles k (predecessor_roles r))" "un d = Some u"
      by (auto simp: set_unit_candidates)
    from d(1) obtain x where x: "roles d = Some x" "x \<in> set (predecessor_roles r)"
      by (auto simp: deps_with_role_iff)
    from less.hyps [OF predecessor_rank [OF x(2)] x(1) d(2)]
    show ?thesis by (rule in_unit_dep [of roles, OF less.prems(1) d(1)])
  qed
qed

lemma un_has_role:
  assumes keys: "keyed ts roles"
    and ur: "unit_roots ts roles = (un, ca)" and u: "un k = Some u"
  shows "\<exists>r. roles k = Some r"
proof (cases "roles k")
  case None
  note eq3 = unit_roots_equations(3) [OF keys ur, of k]
  have "un k = None" by (rule eq3 [THEN conjunct1]) (rule disjI1, rule None)
  with u show ?thesis by simp
qed blast

lemma length_le_1_if_all_eq:
  assumes "\<And>x y. x \<in> set c \<Longrightarrow> y \<in> set c \<Longrightarrow> x = y" and "distinct c"
  shows "length c \<le> 1"
proof (rule ccontr)
  assume "\<not> length c \<le> 1"
  then obtain x y zs where "c = x # y # zs" by (cases c; cases "tl c") auto
  with assms(1) [of x y] assms(2) show False by simp
qed

text \<open>No task has two candidate roots exactly when unit membership is a function.\<close>

lemma units_unambiguous_iff:
  assumes keys: "keyed ts roles"
    and ur: "unit_roots ts roles = (un, ca)"
  shows "(\<forall>k c. ca k = Some c \<longrightarrow> length c \<le> 1)
      \<longleftrightarrow> (\<forall>k u v. in_unit ts roles k u \<longrightarrow> in_unit ts roles k v \<longrightarrow> u = v)" (is "?L \<longleftrightarrow> ?R")
    and "\<forall>k c. ca k = Some c \<longrightarrow> length c \<le> 1 \<Longrightarrow> un k = Some u \<longleftrightarrow> in_unit ts roles k u"
proof -
  note eqs = unit_roots_equations [OF keys ur]
  note sound = unit_sound [OF keys ur]
  have complete: "un k = Some u" if "in_unit ts roles k u" and ?L for k u
    using that(1)
  proof (induction rule: in_unit.induct)
    case (in_unit_root k)
    with eqs(1) show ?case by blast
  next
    case (in_unit_dep k r d u)
    let ?c = "unit_candidates ts roles un k (predecessor_roles r)"
    have r: "r \<in> {Seals, Bodies, Adjudicate}"
      using in_unit_dep(2) by (cases r) (auto simp: deps_with_role_iff)
    have u: "u \<in> set ?c" using in_unit_dep by (auto simp: set_unit_candidates)
    from eqs(2) [OF in_unit_dep(1) r] \<open>?L\<close> have "length ?c \<le> 1" by blast
    with u have "?c = [u]" by (cases ?c) auto
    with eqs(2) [OF in_unit_dep(1) r] show ?case by (simp add: singleton_or_def)
  qed
  show "un k = Some u \<longleftrightarrow> in_unit ts roles k u" if ?L for k u
    using complete [OF _ that] sound un_has_role [OF keys ur] by blast
  show "?L \<longleftrightarrow> ?R"
  proof
    assume ?L
    show ?R
    proof (intro allI impI)
      fix k u v assume "in_unit ts roles k u" "in_unit ts roles k v"
      with complete [OF _ \<open>?L\<close>] have "un k = Some u" "un k = Some v" by blast+
      then show "u = v" by simp
    qed
  next
    assume R: ?R
    show ?L
    proof (intro allI impI)
      fix k c assume c: "ca k = Some c"
      then obtain r where r: "roles k = Some r" "r \<noteq> Legacy"
        using eqs(3) [of k] by (cases "roles k") auto
      show "length c \<le> 1"
      proof (cases "r = Scaffold")
        case True
        with eqs(1) [of k] r c show ?thesis by simp
      next
        case False
        with r have "r \<in> {Seals, Bodies, Adjudicate}" by (cases r) auto
        from eqs(2) [OF r(1) this] c have cd: "c = unit_candidates ts roles un k (predecessor_roles r)"
          by simp
        have "x = y" if "x \<in> set c" "y \<in> set c" for x y
        proof -
          have "in_unit ts roles k z" if z: "z \<in> set c" for z
          proof -
            from z obtain d where d: "d \<in> set (deps_with_role ts roles k (predecessor_roles r))" "un d = Some z"
              by (auto simp: cd set_unit_candidates)
            from un_has_role [OF keys ur d(2)] obtain x where "roles d = Some x" by blast
            from in_unit_dep [OF r(1) d(1) sound [OF this d(2)]] show ?thesis .
          qed
          with that R show ?thesis by blast
        qed
        moreover have "distinct c" by (simp add: cd unit_candidates_def distinct_dedup)
        ultimately show ?thesis by (rule length_le_1_if_all_eq)
      qed
    qed
  qed
qed


section \<open>What an accepted plan satisfies\<close>

lemma sort_Nil_iff: "sort xs = [] \<longleftrightarrow> xs = []"
  by (metis set_empty set_sort)

lemma sort_key_Nil_iff: "sort_key f xs = [] \<longleftrightarrow> xs = []"
  by (metis set_empty set_sort)

lemma concat_map_Nil_iff: "concat (map f xs) = [] \<longleftrightarrow> (\<forall>x \<in> set xs. f x = [])"
  by auto

lemma map_filter_Nil_iff: "List.map_filter f xs = [] \<longleftrightarrow> (\<forall>x \<in> set xs. f x = None)"
  by (induction xs) (auto simp: List.map_filter_simps split: option.splits)

lemma by_key_distinct:
  assumes "distinct (map t_key ts)" "t \<in> set ts"
  shows "by_key ts (t_key t) = Some t"
  unfolding by_key_def
  by (rule map_of_is_SomeI) (use assms in \<open>auto simp: comp_def simp flip: rev_map\<close>)

lemma roles_of_distinct:
  assumes "distinct (map t_key ts)" "t \<in> set ts"
  shows "roles_of ts (t_key t) = Some r \<longleftrightarrow> role_of_task t = Inr r"
proof
  assume "roles_of ts (t_key t) = Some r"
  from roles_of_Some [OF this] obtain t' where t': "t' \<in> set ts" "t_key t' = t_key t" "role_of_task t' = Inr r"
    by blast
  with assms have "t' = t" by (metis distinct_map inj_on_def)
  with t' show "role_of_task t = Inr r" by simp
next
  let ?f = "\<lambda>t. case role_of_task t of Inl _ \<Rightarrow> None | Inr r \<Rightarrow> Some (t_key t, r)"
  have keys: "map fst (List.map_filter ?f xs) = map t_key (filter (\<lambda>t. \<not> isl (role_of_task t)) xs)" for xs
    by (induction xs) (auto simp: List.map_filter_simps split: sum.splits)
  assume "role_of_task t = Inr r"
  then have "(t_key t, r) \<in> set (List.map_filter ?f ts)"
    using assms(2) by (force simp: set_map_filter_iff)
  moreover have "distinct (map fst (List.map_filter ?f ts))"
    using assms(1) by (simp add: keys distinct_map_filter)
  ultimately show "roles_of ts (t_key t) = Some r"
    unfolding roles_of_def by (intro map_of_is_SomeI) (auto simp flip: rev_map)
qed

lemma row_defects_Nil_iff:
  "row_defects ts = [] \<longleftrightarrow> (\<forall>t \<in> set ts. \<not> isl (role_of_task t) \<and> \<not> isl (parse_task_role_spec (t_raw t) (t_key t)))"
  by (auto simp: row_defects_def map_filter_Nil_iff role_errors_def)

lemma override_defects_Nil_iff:
  assumes "row_defects ts = []"
  shows "override_defects p (specs_of ts) = [] \<longleftrightarrow>
    (\<forall>t \<in> set ts. \<forall>sp. parse_task_role_spec (t_raw t) (t_key t) = Inr sp \<longrightarrow> validate_override sp p = None)"
proof -
  have none: "role_errors ts = []"
    using assms by (simp add: row_defects_Nil_iff role_errors_def filter_empty_conv)
  have "set (specs_of ts) = {sp. \<exists>t \<in> set ts. parse_task_role_spec (t_raw t) (t_key t) = Inr sp}"
  proof -
    have "(case parse_task_role_spec (t_raw t) (t_key t) of Inl _ \<Rightarrow> None | Inr sp \<Rightarrow> Some sp) = Some sp
        \<longleftrightarrow> parse_task_role_spec (t_raw t) (t_key t) = Inr sp"
      for t :: task and sp
      by (cases "parse_task_role_spec (t_raw t) (t_key t)") auto
    then show ?thesis by (auto simp: specs_of_def none set_map_filter_iff)
  qed
  then show ?thesis by (auto simp: override_defects_def map_filter_Nil_iff)
qed

lemma inversions_Nil_iff:
  assumes "ro \<in> {Seals, Bodies}"
  shows "inversions roles un t ro = [] \<longleftrightarrow>
    (\<forall>d \<in> set (t_blocked_by t). \<forall>x u. roles d = Some x \<and> x \<in> set mandatory_phase_order
        \<and> un (t_key t) = Some u \<and> un d = Some u \<longrightarrow> role_rank x \<le> role_rank ro)"
proof -
  have rank: "phase_index x = Some (role_rank x)" if "x \<in> set mandatory_phase_order" for x
    using that by (cases x) (auto simp: mandatory_phase_order_def)
  have ro: "phase_index ro = Some (role_rank ro)" using assms by auto
  have "(role_in_opt (roles d) mandatory_phase_order \<and> un (t_key t) \<noteq> None \<and> un d = un (t_key t)
        \<and> (case (Option.bind (roles d) phase_index, phase_index ro) of
             (Some x, Some y) \<Rightarrow> x > y | _ \<Rightarrow> False))
     \<longleftrightarrow> (\<exists>x u. roles d = Some x \<and> x \<in> set mandatory_phase_order
        \<and> un (t_key t) = Some u \<and> un d = Some u \<and> role_rank x > role_rank ro)" for d
    by (cases "roles d") (auto simp: role_in_opt_def ro rank)
  then show ?thesis
    by (simp only: inversions_def filter_empty_conv) (metis not_le)
qed


definition dep_of_role :: "task list \<Rightarrow> task \<Rightarrow> role list \<Rightarrow> bool" where
  "dep_of_role ts t wanted =
     (\<exists>d \<in> set (t_blocked_by t). \<exists>x \<in> set wanted. roles_of ts d = Some x)"

lemma deps_with_role_Nil:
  assumes "distinct (map t_key ts)" "t \<in> set ts"
  shows "deps_with_role ts (roles_of ts) (t_key t) wanted = [] \<longleftrightarrow> \<not> dep_of_role ts t wanted"
  using by_key_distinct [OF assms]
  by (auto simp: deps_with_role_def dep_of_role_def filter_empty_conv role_in_opt_def split: option.splits)

lemma phase_defects_Nil_iff:
  assumes d: "distinct (map t_key ts)" "t \<in> set ts"
    and ur: "unit_roots ts (roles_of ts) = (un, ca)"
  shows "phase_defects ts (roles_of ts) un ca t = [] \<longleftrightarrow>
     (\<forall>r. roles_of ts (t_key t) = Some r \<longrightarrow>
        (r \<in> {Seals, Bodies, Adjudicate} \<longrightarrow> dep_of_role ts t (predecessor_roles r))
        \<and> (r \<in> {Seals, Bodies} \<longrightarrow> inversions (roles_of ts) un t r = []))
     \<and> (\<forall>c. ca (t_key t) = Some c \<longrightarrow> length c \<le> 1)"
proof (cases "roles_of ts (t_key t)")
  case None
  with unit_roots_equations(3) [OF keyed_roles_of ur, of "t_key t"]
  show ?thesis by (simp add: phase_defects_def)
next
  case (Some r)
  have un_ca: "ca (t_key t) = None" if "r = Legacy"
    using unit_roots_equations(3) [OF keyed_roles_of ur, of "t_key t"] that Some by simp
  show ?thesis
    using Some un_ca
    by (cases r; cases "ca (t_key t)")
       (auto simp: phase_defects_def Let_def deps_with_role_Nil [OF d] split: if_splits)
qed

text \<open>
  C33. The plan-time role check accepts a worklist exactly when every row has a readable role, a
  readable specification and a legal override, every seals, bodies and adjudicate task is
  blocked by a task of a role it must follow, no task belongs to two units, and no seals or
  bodies task is blocked by a later phase of its own unit.
\<close>

theorem role_plan_accepted_exactly:
  assumes v: "validate_roles ts = Inr v" and p: "built_in_policy = Inr p"
    and distinct_keys: "distinct (map t_key ts)"
  shows "rv_errors v = [] \<longleftrightarrow>
    (\<forall>t \<in> set ts. \<exists>r sp. role_of_task t = Inr r
        \<and> parse_task_role_spec (t_raw t) (t_key t) = Inr sp \<and> validate_override sp p = None
        \<and> (r \<in> {Seals, Bodies, Adjudicate} \<longrightarrow> dep_of_role ts t (predecessor_roles r)))
    \<and> (\<forall>k u w. in_unit ts (roles_of ts) k u \<longrightarrow> in_unit ts (roles_of ts) k w \<longrightarrow> u = w)
    \<and> (\<forall>t \<in> set ts. \<forall>d \<in> set (t_blocked_by t). \<forall>r x u.
         roles_of ts (t_key t) = Some r \<and> r \<in> {Seals, Bodies} \<and> roles_of ts d = Some x
         \<and> x \<in> set mandatory_phase_order
         \<and> in_unit ts (roles_of ts) (t_key t) u \<and> in_unit ts (roles_of ts) d u
         \<longrightarrow> role_rank x \<le> role_rank r)"
proof -
  obtain un ca where ur: "unit_roots ts (roles_of ts) = (un, ca)" by fastforce
  note amb = units_unambiguous_iff [OF keyed_roles_of ur]
  have errs: "rv_errors v = [] \<longleftrightarrow> row_defects ts = []
      \<and> (\<forall>t \<in> set ts. phase_defects ts (roles_of ts) un ca t = []) \<and> override_defects p (specs_of ts) = []"
    using v by (simp add: validate_roles_def p Let_def ur) (auto simp: sort_Nil_iff)
  have len: "(\<forall>t \<in> set ts. \<forall>c. ca (t_key t) = Some c \<longrightarrow> length c \<le> 1)
      \<longleftrightarrow> (\<forall>k c. ca k = Some c \<longrightarrow> length c \<le> 1)" (is "_ \<longleftrightarrow> ?L")
  proof
    assume h: "\<forall>t \<in> set ts. \<forall>c. ca (t_key t) = Some c \<longrightarrow> length c \<le> 1"
    show ?L
    proof (intro allI impI)
      fix k c assume c: "ca k = Some c"
      then have "roles_of ts k \<noteq> None"
        using unit_roots_equations(3) [OF keyed_roles_of ur, of k] by (metis option.distinct(1))
      then have "k \<in> t_key ` set ts" using keyed_roles_of by (auto simp: keyed_def)
      with h c show "length c \<le> 1" by blast
    qed
  qed blast
  have roles: "roles_of ts (t_key t) = Some r \<longleftrightarrow> role_of_task t = Inr r" if "t \<in> set ts" for t r
    by (rule roles_of_distinct [OF distinct_keys that])
  have phases: "(\<forall>t \<in> set ts. phase_defects ts (roles_of ts) un ca t = []) \<longleftrightarrow>
      (\<forall>t \<in> set ts. \<forall>r. role_of_task t = Inr r \<longrightarrow>
        (r \<in> {Seals, Bodies, Adjudicate} \<longrightarrow> dep_of_role ts t (predecessor_roles r))
        \<and> (r \<in> {Seals, Bodies} \<longrightarrow> inversions (roles_of ts) un t r = [])) \<and> ?L"
    by (simp only: phase_defects_Nil_iff [OF distinct_keys _ ur] roles len [symmetric] cong: ball_cong) blast
  have inv: "inversions (roles_of ts) un t r = [] \<longleftrightarrow>
      (\<forall>d \<in> set (t_blocked_by t). \<forall>x u. roles_of ts d = Some x \<and> x \<in> set mandatory_phase_order
        \<and> in_unit ts (roles_of ts) (t_key t) u \<and> in_unit ts (roles_of ts) d u
        \<longrightarrow> role_rank x \<le> role_rank r)" if "r \<in> {Seals, Bodies}" ?L for t r
    unfolding inversions_Nil_iff [OF that(1)] amb(2) [OF that(2)] ..
  have rows: "row_defects ts = [] \<and> override_defects p (specs_of ts) = [] \<longleftrightarrow>
      (\<forall>t \<in> set ts. \<exists>r sp. role_of_task t = Inr r
        \<and> parse_task_role_spec (t_raw t) (t_key t) = Inr sp \<and> validate_override sp p = None)"
  proof -
    have "\<not> isl x \<longleftrightarrow> (\<exists>y. x = Inr y)" for x :: "role_error + role"
      by (cases x) auto
    moreover have "\<not> isl x \<longleftrightarrow> (\<exists>y. x = Inr y)" for x :: "role_error + role_spec"
      by (cases x) auto
    ultimately have rd: "row_defects ts = [] \<longleftrightarrow> (\<forall>t \<in> set ts. (\<exists>r. role_of_task t = Inr r)
        \<and> (\<exists>sp. parse_task_role_spec (t_raw t) (t_key t) = Inr sp))"
      by (simp only: row_defects_Nil_iff)
    show ?thesis
      by (cases "row_defects ts = []", simp only: override_defects_Nil_iff simp_thms)
         (use rd in fastforce, use rd in metis)
  qed
  have order: "(\<forall>t \<in> set ts. \<forall>d \<in> set (t_blocked_by t). \<forall>r x u.
         roles_of ts (t_key t) = Some r \<and> r \<in> {Seals, Bodies} \<and> roles_of ts d = Some x
         \<and> x \<in> set mandatory_phase_order
         \<and> in_unit ts (roles_of ts) (t_key t) u \<and> in_unit ts (roles_of ts) d u
         \<longrightarrow> role_rank x \<le> role_rank r)
      \<longleftrightarrow> (\<forall>t \<in> set ts. \<forall>r. role_of_task t = Inr r \<longrightarrow> r \<in> {Seals, Bodies} \<longrightarrow> inversions (roles_of ts) un t r = [])"
    if ?L
    by (simp only: inv [OF _ that] roles cong: ball_cong imp_cong) blast
  show ?thesis
  proof (cases ?L)
    case True
    let ?A = "\<lambda>t r. r \<in> {Seals, Bodies, Adjudicate} \<longrightarrow> dep_of_role ts t (predecessor_roles r)"
    let ?R = "\<lambda>t r sp. role_of_task t = Inr r \<and> parse_task_role_spec (t_raw t) (t_key t) = Inr sp
        \<and> validate_override sp p = None"
    let ?I = "\<lambda>t r. r \<in> {Seals, Bodies} \<longrightarrow> inversions (roles_of ts) un t r = []"
    have split: "(\<forall>t \<in> set ts. \<forall>r. role_of_task t = Inr r \<longrightarrow> ?A t r \<and> ?I t r)
      \<longleftrightarrow> (\<forall>t \<in> set ts. \<forall>r. role_of_task t = Inr r \<longrightarrow> ?A t r)
        \<and> (\<forall>t \<in> set ts. \<forall>r. role_of_task t = Inr r \<longrightarrow> ?I t r)" by blast
    have "(\<forall>t \<in> set ts. \<exists>r sp. ?R t r sp) \<and> (\<forall>t \<in> set ts. \<forall>r. role_of_task t = Inr r \<longrightarrow> ?A t r)
      \<longleftrightarrow> (\<forall>t \<in> set ts. \<exists>r sp. role_of_task t = Inr r \<and> parse_task_role_spec (t_raw t) (t_key t) = Inr sp
        \<and> validate_override sp p = None \<and> ?A t r)"
      unfolding ball_conj_distrib [symmetric]
      by (rule ball_cong [OF refl]) (case_tac "role_of_task t", auto)
    then show ?thesis unfolding errs phases order [OF True] split using rows amb(1) True by argo
  next
    case False
    with amb(1) show ?thesis unfolding errs phases by blast
  qed
qed


definition example_plan :: "task list" where
  "example_plan =
     [(example_task ''A'' [] TODO)\<lparr>t_raw := [(''role'', PStr ''scaffold'')]\<rparr>,
      (example_task ''B'' [''A''] TODO)\<lparr>t_raw := [(''role'', PStr ''seals'')]\<rparr>,
      (example_task ''C'' [''B'', ''A''] TODO)\<lparr>t_raw := [(''role'', PStr ''bodies'')]\<rparr>]"

theorem role_plan_accepted_exactly_witness:
  "\<not> (\<exists>u w. in_unit example_plan (roles_of example_plan) ''C'' u
      \<and> in_unit example_plan (roles_of example_plan) ''C'' w \<and> u \<noteq> w)"
proof -
  have "map_sum id rv_errors (validate_roles example_plan) = Inr []" by code_simp
  then obtain v where v: "validate_roles example_plan = Inr v" "rv_errors v = []" by auto
  have d: "distinct (map t_key example_plan)" by (simp add: example_plan_def example_task_def)
  from role_plan_accepted_exactly [OF v(1) built_in_policy_ok d] v(2) show ?thesis by blast
qed

section \<open>Batches agree\<close>

lemma batch_ids_iff: "b \<in> set (batch_ids ts) \<longleftrightarrow> b \<noteq> [] \<and> (\<exists>t \<in> set ts. t_batch_id t = Some b)"
  by (auto simp: batch_ids_def set_map_filter_iff split: option.splits if_splits)

definition in_batch :: "task list \<Rightarrow> role_spec list \<Rightarrow> string \<Rightarrow> role_spec \<Rightarrow> bool" where
  "in_batch ts sps b sp = (\<exists>t \<in> set ts. t_batch_id t = Some b \<and> spec_by_key sps (t_key t) = Some sp)"

lemma set_batch_members: "sp \<in> set (batch_members ts sps b) \<longleftrightarrow> in_batch ts sps b sp"
  by (auto simp: batch_members_def set_map_filter_iff in_batch_def)

lemma batch_verdict_None_iff:
  "batch_verdict ts sps b = None \<longleftrightarrow>
     (\<forall>x y. in_batch ts sps b x \<longrightarrow> in_batch ts sps b y \<longrightarrow>
        rs_role x = rs_role y \<and> rs_added_immutable_globs x = rs_added_immutable_globs y
        \<and> rs_disputed_paths x = rs_disputed_paths y)"
proof (cases "batch_members ts sps b")
  case Nil
  then have "\<not> in_batch ts sps b x" for x by (simp flip: set_batch_members)
  with Nil show ?thesis by (simp add: batch_verdict_def)
next
  case (Cons m ms)
  have m: "in_batch ts sps b x \<longleftrightarrow> x = m \<or> x \<in> set ms" for x
    by (simp add: Cons flip: set_batch_members)
  have "batch_verdict ts sps b = None \<longleftrightarrow> (\<forall>x \<in> set ms. rs_role x = rs_role m
      \<and> rs_added_immutable_globs x = rs_added_immutable_globs m
      \<and> rs_disputed_paths x = rs_disputed_paths m)"
    by (auto simp: batch_verdict_def Cons list_ex_iff)
  also have "\<dots> \<longleftrightarrow> (\<forall>x. x = m \<or> x \<in> set ms \<longrightarrow> rs_role x = rs_role m
      \<and> rs_added_immutable_globs x = rs_added_immutable_globs m
      \<and> rs_disputed_paths x = rs_disputed_paths m)" by blast
  finally show ?thesis unfolding m by metis
qed

text \<open>
  The batch check is silent exactly when any two tasks of one batch that have a
  specification agree in role, added immutable paths and disputed paths; and a defect it
  reports names a batch and a task of it.
\<close>

theorem batch_errors_exact:
  "(batch_errors ts sps = [] \<longleftrightarrow>
      (\<forall>b x y. b \<noteq> [] \<longrightarrow> in_batch ts sps b x \<longrightarrow> in_batch ts sps b y \<longrightarrow>
         rs_role x = rs_role y \<and> rs_added_immutable_globs x = rs_added_immutable_globs y
         \<and> rs_disputed_paths x = rs_disputed_paths y))
   \<and> (\<forall>d \<in> set (batch_errors ts sps).
        (\<exists>sp. in_batch ts sps (bd_batch_id d) sp \<and> bd_task_key d = rs_task_key sp)
        \<and> (bd_rule_id d = ''BATCH-ROLE'' \<longleftrightarrow>
            (\<exists>x y. in_batch ts sps (bd_batch_id d) x \<and> in_batch ts sps (bd_batch_id d) y
                  \<and> rs_role x \<noteq> rs_role y)))"
proof (rule conjI)
  have "batch_errors ts sps = [] \<longleftrightarrow> (\<forall>b \<in> set (batch_ids ts). batch_verdict ts sps b = None)"
    by (simp add: batch_errors_def sort_key_Nil_iff map_filter_Nil_iff)
  also have "\<dots> \<longleftrightarrow> (\<forall>b. b \<noteq> [] \<longrightarrow> batch_verdict ts sps b = None)"
  proof -
    have "batch_verdict ts sps b = None" if "b \<noteq> []" "b \<notin> set (batch_ids ts)" for b
      using that by (auto simp: batch_verdict_None_iff in_batch_def batch_ids_iff)
    moreover have "b \<noteq> []" if "b \<in> set (batch_ids ts)" for b
      using that by (simp add: batch_ids_iff)
    ultimately show ?thesis by blast
  qed
  finally show "batch_errors ts sps = [] \<longleftrightarrow>
      (\<forall>b x y. b \<noteq> [] \<longrightarrow> in_batch ts sps b x \<longrightarrow> in_batch ts sps b y \<longrightarrow>
         rs_role x = rs_role y \<and> rs_added_immutable_globs x = rs_added_immutable_globs y
         \<and> rs_disputed_paths x = rs_disputed_paths y)"
    unfolding batch_verdict_None_iff by blast
next
  show "\<forall>d \<in> set (batch_errors ts sps).
        (\<exists>sp. in_batch ts sps (bd_batch_id d) sp \<and> bd_task_key d = rs_task_key sp)
        \<and> (bd_rule_id d = ''BATCH-ROLE'' \<longleftrightarrow>
            (\<exists>x y. in_batch ts sps (bd_batch_id d) x \<and> in_batch ts sps (bd_batch_id d) y
                  \<and> rs_role x \<noteq> rs_role y))"
  proof
    fix d assume "d \<in> set (batch_errors ts sps)"
    then obtain b where b: "batch_verdict ts sps b = Some d"
      by (auto simp: batch_errors_def set_map_filter_iff)
    then obtain m ms where c: "batch_members ts sps b = m # ms"
      by (auto simp: batch_verdict_def split: list.splits)
    have m: "in_batch ts sps b x \<longleftrightarrow> x = m \<or> x \<in> set ms" for x
      by (simp add: c flip: set_batch_members)
    have d: "bd_batch_id d = b" "bd_task_key d = rs_task_key m"
      "bd_rule_id d = ''BATCH-ROLE'' \<longleftrightarrow> (\<exists>x \<in> set ms. rs_role x \<noteq> rs_role m)"
      using b by (auto simp: batch_verdict_def c list_ex_iff split: if_splits)
    show "(\<exists>sp. in_batch ts sps (bd_batch_id d) sp \<and> bd_task_key d = rs_task_key sp)
        \<and> (bd_rule_id d = ''BATCH-ROLE'' \<longleftrightarrow>
            (\<exists>x y. in_batch ts sps (bd_batch_id d) x \<and> in_batch ts sps (bd_batch_id d) y
                  \<and> rs_role x \<noteq> rs_role y))"
      unfolding d m by metis
  qed
qed

theorem batch_errors_exact_witness:
  "batch_errors [(example_task ''A'' [] TODO)\<lparr>t_batch_id := Some ''b''\<rparr>,
      (example_task ''B'' [] TODO)\<lparr>t_batch_id := Some ''b''\<rparr>]
     [example_spec\<lparr>rs_task_key := ''A''\<rparr>, example_spec\<lparr>rs_task_key := ''B'', rs_role := Seals\<rparr>] \<noteq> []"
proof -
  let ?ts = "[(example_task ''A'' [] TODO)\<lparr>t_batch_id := Some ''b''\<rparr>,
      (example_task ''B'' [] TODO)\<lparr>t_batch_id := Some ''b''\<rparr>]"
  let ?a = "example_spec\<lparr>rs_task_key := ''A''\<rparr>" and ?b = "example_spec\<lparr>rs_task_key := ''B'', rs_role := Seals\<rparr>"
  have "in_batch ?ts [?a, ?b] ''b'' ?a" "in_batch ?ts [?a, ?b] ''b'' ?b"
    by (simp_all add: in_batch_def spec_by_key_def example_task_def example_spec_def)
  moreover have "rs_role ?a \<noteq> rs_role ?b" by (simp add: example_spec_def)
  ultimately show ?thesis using batch_errors_exact [of ?ts "[?a, ?b]"] by blast
qed

end
