(* ===== verification/Plan.thy ===== *)
theory Plan
  imports RolePhases
begin

text \<open>
  The rest of \<^verbatim>\<open>plan.py\<close>: the loader \<^verbatim>\<open>load_tasks\<close> with the checks it runs over the whole file, the
  model floor, the filters, the dispatch and merge orderings \<^verbatim>\<open>runnable_now\<close> and \<^verbatim>\<open>mergeable_now\<close>,
  and the simulated waves of the dry run.
\<close>

section \<open>Models and floors\<close>

definition model_family_prefixes :: "(string \<times> string) list" where
  "model_family_prefixes =
     [(''claude-'', ''claude''), (''gpt-'', ''codex''), (''o3'', ''codex''), (''o4'', ''codex''),
      (''grok-'', ''grok''), (''gemini-'', ''gemini''), (''kimi-'', ''kimi''), (''glm-'', ''glm''),
      (''deepseek-'', ''deepseek'')]"

definition model_family :: "string option \<Rightarrow> string option" where
  "model_family model =
     (case model of
        None \<Rightarrow> None
      | Some m \<Rightarrow> if m = [] then None
          else map_option snd (find (\<lambda>(p, f). starts_with (py_lower (py_strip m)) p) model_family_prefixes))"

definition agent_model_mismatches :: "task list \<Rightarrow> string list" where
  \<comment> \<open>the keys of the rows \<^verbatim>\<open>_agent_model_mismatches\<close> complains about\<close>
  "agent_model_mismatches ts = map t_key (filter (\<lambda>t.
     \<not> (model_family (t_model t) = None \<or> t_agent t = None \<or> model_family (t_model t) = t_agent t)) ts)"

definition model_floor :: "pyval \<Rightarrow> load_error + (string list \<times> string) option" where
  "model_floor doc =
     (case doc of
        PDict d \<Rightarrow>
          (case map_of d ''model_floor'' of
             None \<Rightarrow> Inr None
           | Some PNone \<Rightarrow> Inr None
           | Some (PDict v) \<Rightarrow>
               (case as_str_list (row_get v ''allow'') of
                  Inl e \<Rightarrow> Inl e
                | Inr allow \<Rightarrow>
                    if allow = [] then Inl ModelFloorEmpty
                    else Inr (Some (allow,
                      if truthy (row_get v ''reason'') then py_strip (py_str (row_get v ''reason'')) else [])))
           | Some _ \<Rightarrow> Inl ModelFloorNotMapping)
      | _ \<Rightarrow> Inr None)"

definition cascade_family_model :: "(string \<times> string) list" where
  "cascade_family_model =
     [(''claude'', ''claude-fable-5-1''), (''codex'', ''gpt-5.6-sol''), (''grok'', ''grok-4.6'')]"

datatype floor_defect =
    FloorUnpinned string
  | FloorOutside string string
  | FloorCascade "(string \<times> string) list"

definition model_floor_errors :: "string list \<Rightarrow> task list \<Rightarrow> floor_defect list" where
  "model_floor_errors allow ts =
     List.map_filter (\<lambda>t. case t_model t of
          None \<Rightarrow> Some (FloorUnpinned (t_key t))
        | Some m \<Rightarrow> if m \<in> set allow then None else Some (FloorOutside (t_key t) m)) ts
     @ (let outside = filter (\<lambda>(f, m). m \<notin> set allow) cascade_family_model
        in if outside = [] then [] else [FloorCascade outside])"

definition feature_prd :: "pyval \<Rightarrow> pyval + string option" where
  \<comment> \<open>the error is the offending value\<close>
  "feature_prd doc =
     (case doc of
        PDict d \<Rightarrow>
          (case map_of d ''prd'' of
             None \<Rightarrow> Inr None
           | Some PNone \<Rightarrow> Inr None
           | Some (PStr s) \<Rightarrow> Inr (if py_strip s = [] then None else Some (py_strip s))
           | Some v \<Rightarrow> Inl v)
      | _ \<Rightarrow> Inr None)"

section \<open>Loading a worklist\<close>

datatype plan_error =
    PlanLoad load_error
  | PlanRole role_error
  | PlanKeyError string

definition load_tasks :: "pyval \<Rightarrow> plan_error + task list" where
  "load_tasks doc =
     (case doc of
        PDict d \<Rightarrow>
          (case map_of d ''tasks'' of
             None \<Rightarrow> Inl (PlanLoad RootNotMapping)
           | Some PNone \<Rightarrow> Inr []
           | Some (PList rows) \<Rightarrow>
               (case parse_rows 0 [] rows of
                  Inl e \<Rightarrow> Inl (PlanLoad e)
                | Inr ts \<Rightarrow>
                   (case validate_blocked_by ts of
                      Some e \<Rightarrow> Inl (PlanLoad e)
                    | None \<Rightarrow>
                       (case validate_roles ts of
                          Inl e \<Rightarrow> Inl (PlanRole e)
                        | Inr v \<Rightarrow>
                           (case model_floor doc of
                              Inl e \<Rightarrow> Inl (PlanLoad e)
                            | Inr fl \<Rightarrow>
                               (let fd = (case fl of None \<Rightarrow> [] | Some f \<Rightarrow> model_floor_errors (fst f) ts);
                                    n = length (rv_errors v) + length (batch_errors ts (rv_specs v))
                                        + length fd + length (agent_model_mismatches ts)
                                in if n > 0 then Inl (PlanLoad (WorklistRefused n)) else Inr ts)))))
           | Some _ \<Rightarrow> Inl (PlanLoad TasksNotSequence))
      | _ \<Rightarrow> Inl (PlanLoad RootNotMapping))"

section \<open>Filters\<close>

definition size_label :: "task \<Rightarrow> string option" where
  "size_label t = map_option (\<lambda>l. snd (split_once CHR '':'' l))
     (find (\<lambda>l. starts_with l ''size:'') (t_labels t))"

fun label_clauses :: "string list \<Rightarrow> string + (string \<times> string) list" where
  "label_clauses [] = Inr []"
| "label_clauses (r # rs) =
     (let c = py_strip r in
      if c = [] then label_clauses rs
      else if CHR '':'' \<notin> set c then Inl c
      else map_sum id ((#) (map_prod py_strip py_strip (split_once CHR '':'' c))) (label_clauses rs))"

definition parse_label_filter :: "string option \<Rightarrow> string + (string \<times> string) list" where
  "parse_label_filter spec =
     (case spec of None \<Rightarrow> Inr [] | Some s \<Rightarrow> if s = [] then Inr [] else label_clauses (split_all CHR '','' s))"

definition filter_tasks ::
  "task list \<Rightarrow> (string \<times> string) list option \<Rightarrow> string list option \<Rightarrow> task list" where
  \<comment> \<open>an empty filter or an empty key list counts as none\<close>
  "filter_tasks ts label_filter only_keys =
     (let out1 = (case label_filter of
            None \<Rightarrow> ts
          | Some lf \<Rightarrow> if lf = [] then ts
              else filter (\<lambda>t. set (map (\<lambda>(p, v). p @ '':'' @ v) lf) \<subseteq> set (t_labels t)) ts)
      in (case only_keys of
            None \<Rightarrow> out1
          | Some ks \<Rightarrow> if ks = [] then out1 else filter (\<lambda>t. t_key t \<in> set ks) out1))"

section \<open>Dispatch and merge orderings\<close>

fun all_deps :: "(string \<Rightarrow> 'e + bool) \<Rightarrow> string list \<Rightarrow> 'e + bool" where
  \<comment> \<open>\<^verbatim>\<open>all(...)\<close> over the dependencies: it stops at the first false one or the first error\<close>
  "all_deps p [] = Inr True"
| "all_deps p (d # ds) = (case p d of Inl e \<Rightarrow> Inl e | Inr b \<Rightarrow> if b then all_deps p ds else Inr False)"

fun select_tasks :: "(task \<Rightarrow> 'e + bool) \<Rightarrow> task list \<Rightarrow> 'e + task list" where
  "select_tasks p [] = Inr []"
| "select_tasks p (t # ts) =
     (case p t of Inl e \<Rightarrow> Inl e
      | Inr b \<Rightarrow> map_sum id (\<lambda>ts'. if b then t # ts' else ts') (select_tasks p ts))"

definition dep_satisfied ::
  "task list \<Rightarrow> (string \<Rightarrow> role option) \<Rightarrow> string \<Rightarrow> task \<Rightarrow> string \<Rightarrow> plan_error + bool" where
  "dep_satisfied ts roles mode t d =
     (case by_key ts d of
        None \<Rightarrow> Inl (PlanKeyError d)
      | Some dt \<Rightarrow>
          (case (roles (t_key t), roles d) of
             (Some r, Some x) \<Rightarrow>
               (case dispatch_satisfied_statuses r x mode of
                  Inl e \<Rightarrow> Inl (PlanRole e)
                | Inr sts \<Rightarrow> Inr (t_status dt \<in> set sts))
           | (None, _) \<Rightarrow> Inl (PlanKeyError (t_key t))
           | (_, None) \<Rightarrow> Inl (PlanKeyError d)))"

fun first_role_error :: "task list \<Rightarrow> role_error option" where
  "first_role_error [] = None"
| "first_role_error (t # ts) =
     (case role_of_task t of Inl e \<Rightarrow> Some e | Inr _ \<Rightarrow> first_role_error ts)"

definition runnable_now :: "task list \<Rightarrow> string \<Rightarrow> plan_error + task list" where
  "runnable_now ts mode =
     (case first_role_error ts of
        Some e \<Rightarrow> Inl (PlanRole e)
      | None \<Rightarrow> select_tasks (\<lambda>t. if \<not> is_runnable_status t then Inr False
          else all_deps (dep_satisfied ts (roles_of ts) mode t) (t_blocked_by t)) ts)"

definition dep_merged :: "task list \<Rightarrow> string \<Rightarrow> plan_error + bool" where
  "dep_merged ts d = (case by_key ts d of None \<Rightarrow> Inl (PlanKeyError d) | Some dt \<Rightarrow> Inr (is_merged dt))"

definition mergeable_now :: "task list \<Rightarrow> plan_error + task list" where
  "mergeable_now ts = select_tasks (\<lambda>t. if t_status t \<noteq> AWAITING_REVIEW then Inr False
     else all_deps (dep_merged ts) (t_blocked_by t)) ts"

section \<open>Waves\<close>

type_synonym sim_status = "string \<Rightarrow> string option"

definition sim_start :: "task list \<Rightarrow> sim_status" where
  "sim_start ts = map_of (rev (map (\<lambda>t. (t_key t, t_status t)) ts))"

definition sim_done :: "sim_status \<Rightarrow> string \<Rightarrow> plan_error + bool" where
  "sim_done sim d = (case sim d of None \<Rightarrow> Inl (PlanKeyError d) | Some s \<Rightarrow> Inr (s = DONE))"

definition wave_of :: "task list \<Rightarrow> sim_status \<Rightarrow> plan_error + task list" where
  "wave_of ts sim = select_tasks (\<lambda>t. if sim (t_key t) \<noteq> Some TODO then Inr False
     else all_deps (sim_done sim) (t_blocked_by t)) ts"

fun mark_done :: "task list \<Rightarrow> sim_status \<Rightarrow> sim_status" where
  "mark_done [] sim = sim"
| "mark_done (t # ts) sim = mark_done ts (sim(t_key t \<mapsto> DONE))"

lemma mark_done_apply: "mark_done w sim k = (if k \<in> t_key ` set w then Some DONE else sim k)"
  by (induction w arbitrary: sim) auto

lemma select_tasks_subset:
  "select_tasks p ts = Inr w \<Longrightarrow> set w = {t \<in> set ts. p t = Inr True}"
proof (induction ts arbitrary: w)
  case (Cons t ts)
  then obtain b w' where b: "p t = Inr b" "select_tasks p ts = Inr w'" "w = (if b then t # w' else w')"
    by (auto split: sum.splits if_splits)
  note ih = Cons.IH [OF b(2)]
  show ?case
  proof (cases b)
    case True
    with b(1) have "p t = Inr True" by simp
    then show ?thesis by (simp add: b(3) True ih) blast
  next
    case False
    with b(1) have "p t \<noteq> Inr True" by simp
    then show ?thesis by (simp add: b(3) False ih) blast
  qed
qed simp

lemma wave_of_todo:
  assumes "wave_of ts sim = Inr w" "t \<in> set w"
  shows "t \<in> set ts" "sim (t_key t) = Some TODO"
  using select_tasks_subset [OF assms(1) [unfolded wave_of_def]] assms(2) by (auto split: if_splits)

record wave =
  wv_index :: nat
  wv_tasks :: "task list"

function plan_waves_from :: "task list \<Rightarrow> nat \<Rightarrow> sim_status \<Rightarrow> plan_error + wave list" where
  "plan_waves_from ts n sim =
     (case wave_of ts sim of
        Inl e \<Rightarrow> Inl e
      | Inr w \<Rightarrow> if w = [] then Inr []
          else map_sum id ((#) \<lparr>wv_index = Suc n, wv_tasks = w\<rparr>) (plan_waves_from ts (Suc n) (mark_done w sim)))"
  by pat_completeness auto

termination plan_waves_from
proof (relation "measure (\<lambda>(ts, n, sim). card {k \<in> t_key ` set ts. sim k = Some TODO})", goal_cases)
  case (2 ts n sim w)
  let ?S = "\<lambda>sim. {k \<in> t_key ` set ts. sim k = Some TODO}"
  from 2 obtain t where t: "t \<in> set w" by (cases w) auto
  with wave_of_todo [OF 2(1) t] have "t_key t \<in> ?S sim - ?S (mark_done w sim)"
    by (auto simp: mark_done_apply)
  moreover have "?S (mark_done w sim) \<subseteq> ?S sim" by (auto simp: mark_done_apply split: if_splits)
  ultimately have "?S (mark_done w sim) \<subset> ?S sim" by blast
  then have "card (?S (mark_done w sim)) < card (?S sim)" by (intro psubset_card_mono) auto
  then show ?case by simp
qed simp

declare plan_waves_from.simps [simp del]

definition plan_waves :: "task list \<Rightarrow> plan_error + wave list" where
  "plan_waves ts = plan_waves_from ts 0 (sim_start ts)"

definition parallelism_estimate :: "wave list \<Rightarrow> nat" where
  "parallelism_estimate ws = foldr max (map (length \<circ> wv_tasks) ws) 0"

definition unreachable :: "task list \<Rightarrow> wave list \<Rightarrow> task list" where
  "unreachable ts ws =
     (let reached = concat (map (map t_key \<circ> wv_tasks) ws)
      in filter (\<lambda>t. is_runnable_status t \<and> t_key t \<notin> set reached) ts)"


section \<open>Gates over the dependencies\<close>

text \<open>
  \<^verbatim>\<open>runnable_now\<close>, \<^verbatim>\<open>mergeable_now\<close> and one round of \<^verbatim>\<open>plan_waves\<close> share one shape: pick the
  eligible tasks all of whose dependencies pass a test that may raise. The contract: on a worklist
  that fits the context the test never raises.
\<close>

lemma all_deps_Inr: "(\<And>d. d \<in> set ds \<Longrightarrow> p d = Inr (q d)) \<Longrightarrow> all_deps p ds = Inr (\<forall>d \<in> set ds. q d)"
  by (induction ds) auto

lemma select_tasks_Inr: "(\<And>t. t \<in> set ts \<Longrightarrow> p t = Inr (q t)) \<Longrightarrow> select_tasks p ts = Inr (filter q ts)"
  by (induction ts) auto

locale dependency_gate =
  fixes fits :: "'c \<Rightarrow> task list \<Rightarrow> bool"
    and eligible :: "'c \<Rightarrow> task \<Rightarrow> bool"
    and test :: "'c \<Rightarrow> task list \<Rightarrow> task \<Rightarrow> string \<Rightarrow> 'e + bool"
    and passes :: "'c \<Rightarrow> task list \<Rightarrow> task \<Rightarrow> string \<Rightarrow> bool"
  assumes test_total: "fits c ts \<Longrightarrow> t \<in> set ts \<Longrightarrow> d \<in> set (t_blocked_by t) \<Longrightarrow>
    test c ts t d = Inr (passes c ts t d)"
begin

lemma selected:
  assumes "fits c ts"
  shows "select_tasks (\<lambda>t. if \<not> eligible c t then Inr False else all_deps (test c ts t) (t_blocked_by t)) ts
    = Inr (filter (\<lambda>t. eligible c t \<and> (\<forall>d \<in> set (t_blocked_by t). passes c ts t d)) ts)"
  by (rule select_tasks_Inr) (auto simp: all_deps_Inr [OF test_total [OF assms]])

end

definition closed_worklist :: "task list \<Rightarrow> bool" where
  "closed_worklist ts = (\<forall>t \<in> set ts. set (t_blocked_by t) \<subseteq> t_key ` set ts)"

lemma by_key_keys: "(\<exists>t. by_key ts k = Some t) \<longleftrightarrow> k \<in> t_key ` set ts"
proof -
  have "dom (by_key ts) = t_key ` set ts"
    by (simp add: by_key_def dom_map_of_conv_image_fst image_image)
  then show ?thesis by (auto simp: dom_def)
qed

lemma by_key_SomeD: "by_key ts k = Some t \<Longrightarrow> t \<in> set ts \<and> t_key t = k"
  by (auto simp: by_key_def dest!: map_of_SomeD)

lemma closed_by_key:
  assumes "closed_worklist ts" "t \<in> set ts" "d \<in> set (t_blocked_by t)"
  obtains dt where "by_key ts d = Some dt"
  using assms by_key_keys [of ts d] by (auto simp: closed_worklist_def)

definition roles_parse :: "task list \<Rightarrow> bool" where
  "roles_parse ts = (\<forall>t \<in> set ts. \<not> isl (role_of_task t))"

lemma first_role_error_None: "first_role_error ts = None \<longleftrightarrow> roles_parse ts"
  by (induction ts) (auto simp: roles_parse_def split: sum.splits)

lemma roles_of_total:
  assumes "roles_parse ts" "k \<in> t_key ` set ts"
  shows "\<exists>r. roles_of ts k = Some r"
proof -
  let ?xs = "rev (List.map_filter
     (\<lambda>t. case role_of_task t of Inl _ \<Rightarrow> None | Inr r \<Rightarrow> Some (t_key t, r)) ts)"
  from assms(2) obtain t where t: "t \<in> set ts" "t_key t = k" by blast
  moreover from assms(1) t(1) obtain r where "role_of_task t = Inr r"
    by (cases "role_of_task t") (auto simp: roles_parse_def)
  ultimately have "(k, r) \<in> set ?xs" by (force simp: set_map_filter_iff)
  then show ?thesis
    unfolding roles_of_def by (rule weak_map_of_SomeI)
qed

definition dispatch_passes :: "string \<Rightarrow> task list \<Rightarrow> task \<Rightarrow> string \<Rightarrow> bool" where
  "dispatch_passes mode ts t d = (\<exists>dt r x sts. by_key ts d = Some dt \<and> roles_of ts (t_key t) = Some r
     \<and> roles_of ts d = Some x \<and> dispatch_satisfied_statuses r x mode = Inr sts \<and> t_status dt \<in> set sts)"

definition dispatch_fits :: "string \<Rightarrow> task list \<Rightarrow> bool" where
  "dispatch_fits mode ts = (closed_worklist ts \<and> roles_parse ts \<and> \<not> isl (integration_of mode))"

interpretation dispatch: dependency_gate dispatch_fits "\<lambda>_. is_runnable_status"
    "\<lambda>mode ts. dep_satisfied ts (roles_of ts) mode" dispatch_passes
proof
  fix mode ts t d
  assume fits: "dispatch_fits mode ts" and t: "t \<in> set ts" "d \<in> set (t_blocked_by t)"
  then obtain dt where dt: "by_key ts d = Some dt" by (auto simp: dispatch_fits_def elim: closed_by_key)
  then have "d \<in> t_key ` set ts" by (blast dest: by_key_SomeD)
  then obtain r x where "roles_of ts (t_key t) = Some r" "roles_of ts d = Some x"
    using fits t(1) roles_of_total [of ts] unfolding dispatch_fits_def by blast
  moreover from fits obtain m where "integration_of mode = Inr m"
    by (cases "integration_of mode") (auto simp: dispatch_fits_def)
  ultimately show "dep_satisfied ts (roles_of ts) mode t d = Inr (dispatch_passes mode ts t d)"
    using dt by (auto simp: dep_satisfied_def dispatch_passes_def dispatch_satisfied_statuses_def)
qed

definition merge_passes :: "unit \<Rightarrow> task list \<Rightarrow> task \<Rightarrow> string \<Rightarrow> bool" where
  "merge_passes u ts t d = (\<exists>dt. by_key ts d = Some dt \<and> is_merged dt)"

interpretation merge: dependency_gate "\<lambda>_. closed_worklist" "\<lambda>_ t. t_status t = AWAITING_REVIEW"
    "\<lambda>_ ts _. dep_merged ts" merge_passes
  by standard (auto simp: dep_merged_def merge_passes_def elim: closed_by_key)

definition wave_fits :: "sim_status \<Rightarrow> task list \<Rightarrow> bool" where
  "wave_fits sim ts = (closed_worklist ts \<and> t_key ` set ts \<subseteq> dom sim)"

interpretation round: dependency_gate wave_fits "\<lambda>sim t. sim (t_key t) = Some TODO"
    "\<lambda>sim _ _. sim_done sim" "\<lambda>sim _ _ d. sim d = Some DONE"
proof
  fix sim ts t d
  assume "wave_fits sim ts" "t \<in> set ts" "d \<in> set (t_blocked_by t)"
  then have "d \<in> dom sim" unfolding wave_fits_def closed_worklist_def by (meson subsetD)
  then show "sim_done sim d = Inr (sim d = Some DONE)" by (auto simp: sim_done_def)
qed


section \<open>What the waves are\<close>

definition ready :: "task list \<Rightarrow> sim_status \<Rightarrow> task list" where
  "ready ts sim = filter (\<lambda>t. sim (t_key t) = Some TODO \<and> (\<forall>d \<in> set (t_blocked_by t). sim d = Some DONE)) ts"

lemma wave_of_ready: "wave_fits sim ts \<Longrightarrow> wave_of ts sim = Inr (ready ts sim)"
  unfolding wave_of_def ready_def by (rule round.selected)

lemma wave_fits_mark_done: "wave_fits sim ts \<Longrightarrow> wave_fits (mark_done w sim) ts"
  by (auto simp: wave_fits_def mark_done_apply dom_def subset_iff)

inductive rounds :: "task list \<Rightarrow> sim_status \<Rightarrow> task list list \<Rightarrow> bool" for ts where
  stop: "ready ts sim = [] \<Longrightarrow> rounds ts sim []"
| again: "ready ts sim = w \<Longrightarrow> w \<noteq> [] \<Longrightarrow> rounds ts (mark_done w sim) ws \<Longrightarrow> rounds ts sim (w # ws)"

lemma plan_waves_from_rounds:
  "wave_fits sim ts \<Longrightarrow> \<exists>ws. plan_waves_from ts n sim = Inr ws \<and> rounds ts sim (map wv_tasks ws)
     \<and> map wv_index ws = [Suc n..<Suc (n + length ws)]"
proof (induction ts n sim rule: plan_waves_from.induct)
  case (1 ts n sim)
  note w = wave_of_ready [OF "1.prems"]
  show ?case
  proof (cases "ready ts sim = []")
    case True
    then show ?thesis by (simp add: plan_waves_from.simps w rounds.stop)
  next
    case False
    from "1.IH" [OF w False wave_fits_mark_done [OF "1.prems"]]
    obtain ws where ws: "plan_waves_from ts (Suc n) (mark_done (ready ts sim) sim) = Inr ws"
      "rounds ts (mark_done (ready ts sim) sim) (map wv_tasks ws)"
      "map wv_index ws = [Suc (Suc n)..<Suc (Suc n + length ws)]" by blast
    let ?ws = "\<lparr>wv_index = Suc n, wv_tasks = ready ts sim\<rparr> # ws"
    have "plan_waves_from ts n sim = Inr ?ws"
      by (simp add: plan_waves_from.simps [of ts n] w False ws(1))
    moreover have "rounds ts sim (map wv_tasks ?ws)"
      using rounds.again [OF refl False ws(2)] by simp
    moreover have "map wv_index ?ws = [Suc n..<Suc (n + length ?ws)]"
      using ws(3) by (simp add: upt_conv_Cons del: upt_Suc)
    ultimately show ?thesis by blast
  qed
qed

definition wave_keys :: "task list list \<Rightarrow> string set" where
  "wave_keys ws = t_key ` \<Union> (set ` set ws)"

lemma wave_keys_simps [simp]:
  "wave_keys [] = {}" "wave_keys (w # ws) = t_key ` set w \<union> wave_keys ws"
  by (auto simp: wave_keys_def)

lemma set_ready:
  "t \<in> set (ready ts sim) \<longleftrightarrow> t \<in> set ts \<and> sim (t_key t) = Some TODO \<and> (\<forall>d \<in> set (t_blocked_by t). sim d = Some DONE)"
  by (auto simp: ready_def)

lemma rounds_todo: "rounds ts sim ws \<Longrightarrow> w \<in> set ws \<Longrightarrow> t \<in> set w \<Longrightarrow> t \<in> set ts \<and> sim (t_key t) = Some TODO"
  by (induction rule: rounds.induct) (auto simp: set_ready mark_done_apply split: if_splits)

lemma wave_keys_todo: "rounds ts sim ws \<Longrightarrow> k \<in> wave_keys ws \<Longrightarrow> sim k = Some TODO"
  by (auto simp: wave_keys_def dest: rounds_todo)

text \<open>Dependencies come earlier; and no wave is later than its dependencies force it to be.\<close>

lemma rounds_deps:
  "rounds ts sim ws \<Longrightarrow> i < length ws \<Longrightarrow> t \<in> set (ws ! i) \<Longrightarrow>
     (\<forall>d \<in> set (t_blocked_by t). sim d = Some DONE \<or> d \<in> wave_keys (take i ws))
     \<and> (0 < i \<longrightarrow> (\<exists>d \<in> set (t_blocked_by t). d \<in> t_key ` set (ws ! (i - 1))))"
proof (induction arbitrary: i rule: rounds.induct)
  case (again sim w ws)
  show ?case
  proof (cases i)
    case 0
    with again.prems again.hyps(1) show ?thesis by (auto simp: set_ready)
  next
    case (Suc j)
    with again.prems have t: "t \<in> set (ws ! j)" "j < length ws" by auto
    note ih = again.IH [OF t(2,1)]
    have early: "\<exists>d \<in> set (t_blocked_by t). d \<in> t_key ` set w" if "j = 0"
    proof -
      from rounds_todo [OF again.hyps(3) nth_mem [OF t(2)] t(1)]
      have "t \<in> set ts" "t_key t \<notin> t_key ` set w" "sim (t_key t) = Some TODO"
        by (auto simp: mark_done_apply split: if_splits)
      moreover from this(2) have "t \<notin> set (ready ts sim)" using again.hyps(1) by blast
      ultimately obtain d where d: "d \<in> set (t_blocked_by t)" "sim d \<noteq> Some DONE"
        unfolding set_ready by blast
      with ih that have "mark_done w sim d = Some DONE" by auto
      with d show ?thesis by (auto simp: mark_done_apply split: if_splits)
    qed
    show ?thesis
      using ih early by (cases j) (auto simp: Suc mark_done_apply split: if_splits)
  qed
qed simp

lemma rounds_distinct:
  assumes "distinct (map t_key ts)"
  shows "rounds ts sim ws \<Longrightarrow> distinct (concat (map (map t_key) ws))"
proof (induction rule: rounds.induct)
  case (again sim w ws)
  have "distinct (map t_key w)"
    using assms again.hyps(1) by (auto simp: ready_def distinct_map_filter)
  moreover have "set (map t_key w) \<inter> set (concat (map (map t_key) ws)) = {}"
  proof -
    have "set (concat (map (map t_key) ws)) = wave_keys ws" by (auto simp: wave_keys_def)
    moreover have "k \<notin> t_key ` set w" if "k \<in> wave_keys ws" for k
      using wave_keys_todo [OF again.hyps(3) that] by (auto simp: mark_done_apply)
    ultimately show ?thesis by auto
  qed
  ultimately show ?case using again.IH by simp
qed simp

lemma rounds_fixpoint:
  "rounds ts sim ws \<Longrightarrow> t \<in> set ts \<Longrightarrow> sim (t_key t) = Some TODO \<Longrightarrow>
     \<forall>d \<in> set (t_blocked_by t). sim d = Some DONE \<or> d \<in> wave_keys ws \<Longrightarrow> t_key t \<in> wave_keys ws"
proof (induction rule: rounds.induct)
  case (stop sim)
  then have "t \<in> set (ready ts sim)" unfolding set_ready by simp
  with stop show ?case by simp
next
  case (again sim w ws)
  show ?case
  proof (cases "t_key t \<in> t_key ` set w")
    case False
    then have "mark_done w sim (t_key t) = Some TODO" using again.prems by (simp add: mark_done_apply)
    moreover have "\<forall>d \<in> set (t_blocked_by t). mark_done w sim d = Some DONE \<or> d \<in> wave_keys ws"
      using again.prems(3) by (auto simp: mark_done_apply)
    ultimately show ?thesis using again.IH again.prems(1) by simp
  qed simp
qed


inductive will_complete :: "task list \<Rightarrow> string \<Rightarrow> bool" for ts where
  already: "by_key ts k = Some t \<Longrightarrow> t_status t = DONE \<Longrightarrow> will_complete ts k"
| in_turn: "by_key ts k = Some t \<Longrightarrow> t_status t = TODO \<Longrightarrow>
    \<forall>d \<in> set (t_blocked_by t). will_complete ts d \<Longrightarrow> will_complete ts k"

lemma sim_start_by_key: "sim_start ts k = map_option t_status (by_key ts k)"
proof -
  have "map_of (map (\<lambda>t. (t_key t, t_status t)) xs) k = map_option t_status (map_of (map (\<lambda>t. (t_key t, t)) xs) k)"
    for xs :: "task list"
    by (induction xs) auto
  then show ?thesis by (simp add: sim_start_def by_key_def rev_map)
qed

lemma wave_fits_start: "closed_worklist ts \<Longrightarrow> wave_fits (sim_start ts) ts"
  using by_key_keys [of ts] by (auto simp: wave_fits_def sim_start_by_key dom_def)

lemma rounds_sound:
  assumes d: "distinct (map t_key ts)"
  shows "rounds ts sim ws \<Longrightarrow> \<forall>k. sim k = Some DONE \<longrightarrow> will_complete ts k \<Longrightarrow>
    \<forall>t \<in> set ts. sim (t_key t) = Some TODO \<longrightarrow> t_status t = TODO \<Longrightarrow> k \<in> wave_keys ws \<Longrightarrow> will_complete ts k"
proof (induction rule: rounds.induct)
  case (again sim w ws)
  have w: "will_complete ts (t_key t)" if "t \<in> set w" for t
  proof -
    have "t \<in> set (ready ts sim)" using that again.hyps(1) by simp
    then have t: "t \<in> set ts" "sim (t_key t) = Some TODO" "\<forall>d \<in> set (t_blocked_by t). sim d = Some DONE"
      unfolding set_ready by blast+
    with again.prems(1,2) show ?thesis by (intro in_turn [OF by_key_distinct [OF d t(1)]]) auto
  qed
  show ?case
  proof (cases "k \<in> t_key ` set w")
    case True
    with w show ?thesis by blast
  next
    case False
    with again.prems(3) have "k \<in> wave_keys ws" by simp
    moreover have "\<forall>k. mark_done w sim k = Some DONE \<longrightarrow> will_complete ts k"
      using w again.prems(1) by (auto simp: mark_done_apply)
    moreover have "\<forall>t \<in> set ts. mark_done w sim (t_key t) = Some TODO \<longrightarrow> t_status t = TODO"
      using again.prems(2) by (auto simp: mark_done_apply)
    ultimately show ?thesis using again.IH by blast
  qed
qed simp

lemma rounds_complete:
  assumes "rounds ts (sim_start ts) ws"
  shows "will_complete ts k \<Longrightarrow> sim_start ts k = Some DONE \<or> k \<in> wave_keys ws"
proof (induction rule: will_complete.induct)
  case (in_turn k t)
  from by_key_SomeD [OF in_turn.hyps(1)] have t: "t \<in> set ts" "t_key t = k" by auto
  have "sim_start ts (t_key t) = Some TODO" using in_turn.hyps t by (simp add: sim_start_by_key)
  from rounds_fixpoint [OF assms t(1) this] in_turn.IH t(2) show ?case by blast
qed (simp add: sim_start_by_key)

lemma wave_keys_iff_complete:
  assumes r: "rounds ts (sim_start ts) ws" and d: "distinct (map t_key ts)" and t: "t \<in> set ts"
  shows "t_key t \<in> wave_keys ws \<longleftrightarrow> t_status t = TODO \<and> will_complete ts (t_key t)"
proof -
  have start: "sim_start ts (t_key x) = Some (t_status x)" if "x \<in> set ts" for x
    by (simp add: sim_start_by_key by_key_distinct [OF d that])
  have "\<forall>k. sim_start ts k = Some DONE \<longrightarrow> will_complete ts k"
    by (auto simp: sim_start_by_key intro: already)
  with rounds_sound [OF d r, of "t_key t"] start wave_keys_todo [OF r, of "t_key t"]
    rounds_complete [OF r, of "t_key t"] t
  show ?thesis by fastforce
qed

lemma plan_waves_rounds:
  assumes "closed_worklist ts"
  obtains ws where "plan_waves ts = Inr ws" "rounds ts (sim_start ts) (map wv_tasks ws)"
    "map wv_index ws = [1..<Suc (length ws)]"
  using plan_waves_from_rounds [OF wave_fits_start [OF assms], of 0] by (auto simp: plan_waves_def)

lemma wave_keys_take:
  "d \<in> wave_keys (take i ws) \<longleftrightarrow> (\<exists>j < i. j < length ws \<and> d \<in> t_key ` set (ws ! j))"
proof -
  have "set (take i ws) = (\<lambda>j. ws ! j) ` {j. j < i \<and> j < length ws}"
    by (force simp: in_set_conv_nth image_iff)
  then show ?thesis by (auto simp: wave_keys_def)
qed

text \<open>
  C32. On a closed worklist with distinct keys the wave simulation returns: the waves are
  numbered from one, no task is in two of them, every dependency of a task is Done or in an
  earlier wave, a task of a later wave has a dependency in the wave just before (so no wave is
  later than it must be), and the tasks in waves are exactly the To Do tasks all of whose
  dependencies can complete.
\<close>

theorem plan_waves_exact:
  assumes closed: "closed_worklist ts" and d: "distinct (map t_key ts)"
  shows "\<exists>ws. plan_waves ts = Inr ws \<and> map wv_index ws = [1..<Suc (length ws)]
    \<and> distinct (concat (map (map t_key \<circ> wv_tasks) ws))
    \<and> (\<forall>i < length ws. \<forall>t \<in> set (wv_tasks (ws ! i)). t \<in> set ts \<and> t_status t = TODO
        \<and> (\<forall>x \<in> set (t_blocked_by t). (\<exists>dt. by_key ts x = Some dt \<and> is_done dt)
              \<or> (\<exists>j < i. x \<in> t_key ` set (wv_tasks (ws ! j))))
        \<and> (0 < i \<longrightarrow> (\<exists>x \<in> set (t_blocked_by t). x \<in> t_key ` set (wv_tasks (ws ! (i - 1))))))
    \<and> (\<forall>t \<in> set ts. t_key t \<in> wave_keys (map wv_tasks ws) \<longleftrightarrow> t_status t = TODO \<and> will_complete ts (t_key t))"
proof -
  obtain ws where ws: "plan_waves ts = Inr ws" "rounds ts (sim_start ts) (map wv_tasks ws)"
    "map wv_index ws = [1..<Suc (length ws)]" by (rule plan_waves_rounds [OF closed])
  have each: "t \<in> set ts \<and> t_status t = TODO
        \<and> (\<forall>x \<in> set (t_blocked_by t). (\<exists>dt. by_key ts x = Some dt \<and> is_done dt)
              \<or> (\<exists>j < i. x \<in> t_key ` set (wv_tasks (ws ! j))))
        \<and> (0 < i \<longrightarrow> (\<exists>x \<in> set (t_blocked_by t). x \<in> t_key ` set (wv_tasks (ws ! (i - 1)))))"
    if i: "i < length ws" and t: "t \<in> set (wv_tasks (ws ! i))" for i t
  proof -
    have i': "i < length (map wv_tasks ws)" "t \<in> set (map wv_tasks ws ! i)" using i t by auto
    from rounds_todo [OF ws(2) nth_mem [OF i'(1)] i'(2)]
    have ts: "t \<in> set ts" "t_status t = TODO" by (auto simp: sim_start_by_key by_key_distinct [OF d])
    have fin: "sim_start ts x = Some DONE \<longleftrightarrow> (\<exists>dt. by_key ts x = Some dt \<and> is_done dt)" for x
      by (auto simp: sim_start_by_key is_done_def)
    have prev: "map wv_tasks ws ! (i - 1) = wv_tasks (ws ! (i - 1))"
      "j < i \<Longrightarrow> map wv_tasks ws ! j = wv_tasks (ws ! j)" for j using i by auto
    from rounds_deps [OF ws(2) i'] ts show ?thesis
      unfolding fin wave_keys_take prev(1) using prev(2) by fastforce
  qed
  have "distinct (concat (map (map t_key \<circ> wv_tasks) ws))"
    using rounds_distinct [OF d ws(2)] by (simp add: comp_def)
  moreover have "\<forall>t \<in> set ts. t_key t \<in> wave_keys (map wv_tasks ws)
      \<longleftrightarrow> t_status t = TODO \<and> will_complete ts (t_key t)"
    using wave_keys_iff_complete [OF ws(2) d] by blast
  ultimately show ?thesis using ws(1,3) each by blast
qed


lemma closed_trivial: "closed_worklist [example_task ''A'' [] TODO, example_task ''B'' [''A''] TODO]"
  by (simp add: closed_worklist_def example_task_def)

theorem plan_waves_exact_witness:
  "\<exists>ws. plan_waves [example_task ''A'' [] TODO, example_task ''B'' [''A''] TODO] = Inr ws"
  using plan_waves_exact [OF closed_trivial] by (auto simp: example_task_def)

section \<open>Dead ends\<close>

definition waits_on :: "task list \<Rightarrow> (string \<times> string) set" where
  "waits_on ts = {(k, d). \<exists>t. by_key ts k = Some t \<and> t_status t = TODO \<and> d \<in> set (t_blocked_by t)}"

lemma map_of_graph_of: "map_of (graph_of ts) k = map_option t_blocked_by (by_key ts k)"
proof -
  have "map_of (map (\<lambda>t. (t_key t, t_blocked_by t)) xs) k
      = map_option t_blocked_by (map_of (map (\<lambda>t. (t_key t, t)) xs) k)" for xs :: "task list"
    by (induction xs) auto
  then show ?thesis by (simp add: graph_of_def by_key_def rev_map)
qed

lemma edges_by_key: "(k, d) \<in> edges (graph_of ts) \<longleftrightarrow> (\<exists>t. by_key ts k = Some t \<and> d \<in> set (t_blocked_by t))"
  by (auto simp: edges_def map_of_graph_of)

lemma wf_dependencies:
  assumes "acyclic (edges (graph_of ts))"
  shows "wf ((edges (graph_of ts))\<inverse>)"
proof (rule finite_acyclic_wf_converse [OF _ assms])
  have "edges (graph_of ts) \<subseteq> (\<Union>t \<in> set ts. {t_key t} \<times> set (t_blocked_by t))"
    using by_key_SomeD by (fastforce simp: edges_by_key)
  then show "finite (edges (graph_of ts))" by (rule finite_subset) simp
qed

lemma not_complete_back:
  "(k, d) \<in> waits_on ts \<Longrightarrow> \<not> will_complete ts d \<Longrightarrow> \<not> will_complete ts k"
  by (auto simp: waits_on_def elim!: will_complete.cases)

lemma not_complete_chain:
  "(k, d) \<in> (waits_on ts)\<^sup>* \<Longrightarrow> \<not> will_complete ts d \<Longrightarrow> \<not> will_complete ts k"
  by (induction rule: converse_rtrancl_induct) (auto dest: not_complete_back)

definition roadblock :: "task list \<Rightarrow> string \<Rightarrow> bool" where
  "roadblock ts d = (\<exists>t. by_key ts d = Some t \<and> t_status t \<noteq> TODO \<and> t_status t \<noteq> DONE)"

lemma roadblock_not_complete: "roadblock ts d \<Longrightarrow> \<not> will_complete ts d"
  by (auto simp: roadblock_def elim: will_complete.cases)

lemma not_complete_roadblock:
  assumes closed: "closed_worklist ts" and ac: "acyclic (edges (graph_of ts))"
  shows "by_key ts k = Some t \<Longrightarrow> \<not> will_complete ts k \<Longrightarrow> \<exists>d. (k, d) \<in> (waits_on ts)\<^sup>* \<and> roadblock ts d"
proof (induction k arbitrary: t rule: wf_induct_rule [OF wf_dependencies [OF ac]])
  case (1 k)
  show ?case
  proof (cases "t_status t = TODO")
    case True
    then obtain d where d: "d \<in> set (t_blocked_by t)" "\<not> will_complete ts d"
      using "1.prems" in_turn by blast
    have t: "t \<in> set ts" using by_key_SomeD [OF "1.prems"(1)] by simp
    obtain dt where dt: "by_key ts d = Some dt" by (rule closed_by_key [OF closed t d(1)])
    have "(d, k) \<in> (edges (graph_of ts))\<inverse>" using "1.prems"(1) d(1) by (auto simp: edges_by_key)
    from "1.IH" [OF this dt d(2)] obtain e where "(d, e) \<in> (waits_on ts)\<^sup>*" "roadblock ts e" by blast
    moreover have "(k, d) \<in> waits_on ts" using "1.prems"(1) True d(1) by (auto simp: waits_on_def)
    ultimately show ?thesis by (meson converse_rtrancl_into_rtrancl)
  next
    case False
    moreover have "t_status t \<noteq> DONE" using "1.prems" already by blast
    ultimately have "roadblock ts k" using "1.prems"(1) by (auto simp: roadblock_def)
    then show ?thesis by blast
  qed
qed

lemma set_unreachable:
  "t \<in> set (unreachable ts ws) \<longleftrightarrow> t \<in> set ts \<and> t_status t = TODO \<and> t_key t \<notin> wave_keys (map wv_tasks ws)"
  by (auto simp: unreachable_def Let_def is_runnable_status_def wave_keys_def)

text \<open>
  The report of dead ends is exact: on a closed acyclic worklist a To Do task is listed as
  unreachable exactly when a chain of To Do tasks leads from it to a task whose status is
  neither To Do nor Done.
\<close>

theorem unreachable_exact:
  assumes closed: "closed_worklist ts" and d: "distinct (map t_key ts)"
    and ac: "acyclic (edges (graph_of ts))" and ws: "plan_waves ts = Inr ws"
  shows "t \<in> set (unreachable ts ws) \<longleftrightarrow>
    t \<in> set ts \<and> t_status t = TODO \<and> (\<exists>k. (t_key t, k) \<in> (waits_on ts)\<^sup>+ \<and> roadblock ts k)"
proof -
  have r: "rounds ts (sim_start ts) (map wv_tasks ws)"
    using plan_waves_rounds [OF closed] ws by (metis Inr_inject)
  have "\<not> will_complete ts (t_key t) \<longleftrightarrow> (\<exists>k. (t_key t, k) \<in> (waits_on ts)\<^sup>+ \<and> roadblock ts k)"
    if t: "t \<in> set ts" "t_status t = TODO"
  proof
    note bk = by_key_distinct [OF d t(1)]
    assume "\<not> will_complete ts (t_key t)"
    from not_complete_roadblock [OF closed ac bk this] obtain k where
      k: "(t_key t, k) \<in> (waits_on ts)\<^sup>*" "roadblock ts k" by blast
    moreover from k(2) bk t(2) have "k \<noteq> t_key t" by (auto simp: roadblock_def)
    ultimately show "\<exists>k. (t_key t, k) \<in> (waits_on ts)\<^sup>+ \<and> roadblock ts k"
      by (auto simp: rtrancl_eq_or_trancl)
  next
    assume "\<exists>k. (t_key t, k) \<in> (waits_on ts)\<^sup>+ \<and> roadblock ts k"
    then show "\<not> will_complete ts (t_key t)"
      using not_complete_chain roadblock_not_complete trancl_into_rtrancl by metis
  qed
  then show ?thesis
    using wave_keys_iff_complete [OF r d] by (auto simp: set_unreachable)
qed

theorem unreachable_exact_witness:
  "\<exists>k. (''B'', k) \<in> (waits_on [example_task ''A'' [] ESCALATED, example_task ''B'' [''A''] TODO])\<^sup>+
      \<and> roadblock [example_task ''A'' [] ESCALATED, example_task ''B'' [''A''] TODO] k"
proof -
  let ?b = "example_task ''B'' [''A''] TODO"
  let ?ts = "[example_task ''A'' [] ESCALATED, ?b]"
  have c: "closed_worklist ?ts" "distinct (map t_key ?ts)"
    by (simp_all add: closed_worklist_def example_task_def)
  have "check_for_cycles ?ts = None" by code_simp
  note ac = check_for_cycles_None [OF this]
  have w: "plan_waves ?ts = Inr []" by code_simp
  have "?b \<in> set (unreachable ?ts [])"
    by (simp add: unreachable_def is_runnable_status_def example_task_def)
  with unreachable_exact [OF c ac w, of ?b] show ?thesis by (simp add: example_task_def)
qed


section \<open>Loaded worklists\<close>

lemma load_tasks_spec:
  assumes "load_tasks doc = Inr ts"
  shows "distinct (map t_key ts) \<and> closed_worklist ts \<and> acyclic (edges (graph_of ts))
    \<and> (\<forall>t \<in> set ts. wf_task t) \<and> roles_parse ts
    \<and> (\<exists>v. validate_roles ts = Inr v \<and> rv_errors v = [] \<and> batch_errors ts (rv_specs v) = [])
    \<and> agent_model_mismatches ts = []
    \<and> (\<forall>allow reason. model_floor doc = Inr (Some (allow, reason)) \<longrightarrow> ts \<noteq> [] \<longrightarrow> model_floor_errors allow ts = [])"
proof (cases "ts = []")
  case True
  have "\<exists>v. validate_roles [] = Inr v \<and> rv_errors v = [] \<and> batch_errors [] (rv_specs v) = []"
    by (simp add: validate_roles_def built_in_policy_ok Let_def row_defects_def specs_of_def
        override_defects_def List.map_filter_simps batch_errors_def batch_ids_def)
  with True show ?thesis
    by (simp add: closed_worklist_def roles_parse_def agent_model_mismatches_def graph_of_def
        edges_def acyclic_def)
next
  case False
  then obtain d rows v fl where l: "doc = PDict d" "parse_rows 0 [] rows = Inr ts"
    "validate_blocked_by ts = None" "validate_roles ts = Inr v" "model_floor doc = Inr fl"
    "rv_errors v = []" "batch_errors ts (rv_specs v) = []" "agent_model_mismatches ts = []"
    "(case fl of None \<Rightarrow> [] | Some f \<Rightarrow> model_floor_errors (fst f) ts) = []"
    using assms by (auto simp: load_tasks_def Let_def split: pyval.splits option.splits sum.splits if_splits)
  from parse_rows_wf [OF l(2)] have wf: "distinct (map t_key ts)" "\<forall>t \<in> set ts. wf_task t" by auto
  from l(3) have unk: "first_unknown_dep (map t_key ts) ts = None" and cyc: "check_for_cycles ts = None"
    by (auto simp: validate_blocked_by_def split: option.splits)
  from unk have closed: "closed_worklist ts" by (simp add: first_unknown_dep_None closed_worklist_def)
  obtain p where p: "built_in_policy = Inr p" using built_in_policy_ok by blast
  have "row_defects ts = []"
    using l(4,6) by (auto simp: validate_roles_def p Let_def sort_Nil_iff)
  then have "roles_parse ts" by (simp add: row_defects_Nil_iff roles_parse_def)
  with wf closed check_for_cycles_None [OF cyc] l show ?thesis by auto
qed

text \<open>
  C29. A worklist that loads is sound as a whole: keys are distinct, every dependency names a row,
  the graph is acyclic, every row is well formed, every role parses and the role check and the
  batch check are silent, and no row pairs an agent with a model of another family.
\<close>

theorem loaded_worklist_sound:
  assumes "load_tasks doc = Inr ts"
  shows "distinct (map t_key ts) \<and> closed_worklist ts \<and> acyclic (edges (graph_of ts))
    \<and> (\<forall>t \<in> set ts. wf_task t) \<and> roles_parse ts
    \<and> (\<exists>v. validate_roles ts = Inr v \<and> rv_errors v = [] \<and> batch_errors ts (rv_specs v) = [])
    \<and> agent_model_mismatches ts = []
    \<and> (\<forall>allow reason. model_floor doc = Inr (Some (allow, reason)) \<longrightarrow> ts \<noteq> [] \<longrightarrow> model_floor_errors allow ts = [])"
  by (rule load_tasks_spec [OF assms])

definition doc_row :: "string \<Rightarrow> string \<Rightarrow> string list \<Rightarrow> string \<Rightarrow> pyval" where
  "doc_row k r deps st = PDict [(''key'', PStr k), (''summary'', PStr ''s''), (''description'', PStr ''d''),
     (''type'', PStr ''task''), (''labels'', PList [PStr ''size:S'']), (''status'', PStr st),
     (''role'', PStr r), (''blockedBy'', PList (map PStr deps))]"

definition example_doc :: "string \<Rightarrow> pyval" where
  "example_doc st = PDict [(''tasks'', PList
     [doc_row ''A'' ''scaffold'' [] MERGED, doc_row ''B'' ''seals'' [''A''] st, doc_row ''C'' ''bodies'' [''B''] TODO])]"

lemma example_doc_loads:
  assumes "st = MERGED"
  obtains ts where "load_tasks (example_doc st) = Inr ts"
    "map_sum id (map t_key) (runnable_now ts ''pr'') = Inr [''C'']"
    "map_sum id (map (map t_key \<circ> wv_tasks)) (plan_waves ts) = Inr []"
    "map t_key (unreachable ts []) = [''C'']"
proof -
  have "case load_tasks (example_doc MERGED) of Inl _ \<Rightarrow> False
      | Inr ts \<Rightarrow> map_sum id (map t_key) (runnable_now ts ''pr'') = Inr [''C'']
          \<and> map_sum id (map (map t_key \<circ> wv_tasks)) (plan_waves ts) = Inr []
          \<and> map t_key (unreachable ts []) = [''C'']"
    by code_simp
  then show ?thesis using assms that by (cases "load_tasks (example_doc st)") auto
qed


theorem loaded_worklist_sound_witness:
  "\<exists>ts. load_tasks (example_doc MERGED) = Inr ts \<and> acyclic (edges (graph_of ts))"
proof -
  obtain ts where "load_tasks (example_doc MERGED) = Inr ts" by (rule example_doc_loads [OF refl])
  with loaded_worklist_sound [OF this] show ?thesis by blast
qed

lemma loaded_fits:
  assumes "load_tasks doc = Inr ts" "mode \<in> {''branch'', ''pr''}"
  shows "dispatch_fits mode ts"
  using load_tasks_spec [OF assms(1)] assms(2) by (auto simp: dispatch_fits_def integration_of_def)

lemma runnable_now_selected:
  assumes "dispatch_fits mode ts"
  shows "runnable_now ts mode = Inr (filter (\<lambda>t. t_status t = TODO
    \<and> (\<forall>d \<in> set (t_blocked_by t). dispatch_passes mode ts t d)) ts)"
proof -
  have "first_role_error ts = None"
    using assms by (simp add: dispatch_fits_def first_role_error_None)
  then show ?thesis
    unfolding runnable_now_def using dispatch.selected [OF assms] by (simp add: is_runnable_status_def)
qed

lemma mergeable_now_selected:
  assumes "closed_worklist ts"
  shows "mergeable_now ts = Inr (filter (\<lambda>t. t_status t = AWAITING_REVIEW
    \<and> (\<forall>d \<in> set (t_blocked_by t). merge_passes () ts t d)) ts)"
  using merge.selected [OF assms] by (simp add: mergeable_now_def)

lemma dispatch_passes_iff:
  assumes "by_key ts d = Some dt" "roles_of ts (t_key t) = Some r" "roles_of ts d = Some x"
  shows "dispatch_passes ''pr'' ts t d \<longleftrightarrow>
      (if x = Seals then t_status dt = MERGED else t_status dt \<in> {DONE, AWAITING_REVIEW, MERGED})"
    and "dispatch_passes ''branch'' ts t d \<longleftrightarrow> t_status dt = DONE"
  using assms by (auto simp: dispatch_passes_def dispatch_satisfied_statuses_def integration_of_def)

lemma fits_lookup:
  assumes "dispatch_fits mode ts" "t \<in> set ts" "d \<in> set (t_blocked_by t)"
  obtains dt r x where "by_key ts d = Some dt" "roles_of ts (t_key t) = Some r" "roles_of ts d = Some x"
proof -
  have c: "closed_worklist ts" "roles_parse ts" using assms(1) by (simp_all add: dispatch_fits_def)
  obtain dt where dt: "by_key ts d = Some dt" by (rule closed_by_key [OF c(1) assms(2,3)])
  then have "d \<in> t_key ` set ts" by (blast dest: by_key_SomeD)
  with roles_of_total [OF c(2)] assms(2) dt that show ?thesis by (metis image_eqI)
qed

text \<open>
  C30. On a loaded worklist the two orderings return, and are these: in branch mode a To Do task
  is runnable exactly when its dependencies are all Done; in pr mode when every dependency is
  Merged, or is Done or Awaiting Review and not a seals task; a task is mergeable exactly when it
  awaits review and its dependencies are all Merged.
\<close>

theorem orderings_exact:
  assumes l: "load_tasks doc = Inr ts"
  shows "\<exists>rb rp m. runnable_now ts ''branch'' = Inr rb \<and> runnable_now ts ''pr'' = Inr rp
    \<and> mergeable_now ts = Inr m
    \<and> (\<forall>t. t \<in> set rb \<longleftrightarrow> t \<in> set ts \<and> t_status t = TODO
        \<and> (\<forall>d \<in> set (t_blocked_by t). \<exists>dt. by_key ts d = Some dt \<and> t_status dt = DONE))
    \<and> (\<forall>t. t \<in> set rp \<longleftrightarrow> t \<in> set ts \<and> t_status t = TODO
        \<and> (\<forall>d \<in> set (t_blocked_by t). \<exists>dt. by_key ts d = Some dt
            \<and> (t_status dt = MERGED \<or> t_status dt \<in> {DONE, AWAITING_REVIEW} \<and> roles_of ts d \<noteq> Some Seals)))
    \<and> (\<forall>t. t \<in> set m \<longleftrightarrow> t \<in> set ts \<and> t_status t = AWAITING_REVIEW
        \<and> (\<forall>d \<in> set (t_blocked_by t). \<exists>dt. by_key ts d = Some dt \<and> t_status dt = MERGED))"
proof -
  have fb: "dispatch_fits ''branch'' ts" and fp: "dispatch_fits ''pr'' ts"
    using loaded_fits [OF l] by simp_all
  have closed: "closed_worklist ts" using load_tasks_spec [OF l] by simp
  have b: "dispatch_passes ''branch'' ts t d \<longleftrightarrow> (\<exists>dt. by_key ts d = Some dt \<and> t_status dt = DONE)"
    if "t \<in> set ts" "d \<in> set (t_blocked_by t)" for t d
    by (rule fits_lookup [OF fb that]) (simp add: dispatch_passes_iff)
  have p: "dispatch_passes ''pr'' ts t d \<longleftrightarrow> (\<exists>dt. by_key ts d = Some dt
      \<and> (t_status dt = MERGED \<or> t_status dt \<in> {DONE, AWAITING_REVIEW} \<and> roles_of ts d \<noteq> Some Seals))"
    if "t \<in> set ts" "d \<in> set (t_blocked_by t)" for t d
    by (rule fits_lookup [OF fp that]) (auto simp: dispatch_passes_iff)
  show ?thesis
    unfolding runnable_now_selected [OF fb] runnable_now_selected [OF fp] mergeable_now_selected [OF closed]
    by (intro exI conjI refl allI) (auto simp: b p merge_passes_def is_merged_def)
qed

theorem orderings_exact_witness:
  "\<exists>ts m. load_tasks (example_doc MERGED) = Inr ts \<and> mergeable_now ts = Inr m"
proof -
  obtain ts where "load_tasks (example_doc MERGED) = Inr ts" by (rule example_doc_loads [OF refl])
  with orderings_exact [OF this] show ?thesis by blast
qed

section \<open>Progress\<close>

lemma minimal_unfinished:
  assumes l: "load_tasks doc = Inr ts" and t: "t \<in> set ts" "\<not> P (t_status t)"
  obtains s where "s \<in> set ts" "\<not> P (t_status s)"
    "\<forall>d \<in> set (t_blocked_by s). \<exists>dt. by_key ts d = Some dt \<and> P (t_status dt)"
proof -
  let ?Q = "{k. \<exists>s. by_key ts k = Some s \<and> \<not> P (t_status s)}"
  from load_tasks_spec [OF l] have c: "distinct (map t_key ts)" "closed_worklist ts"
    and ac: "acyclic (edges (graph_of ts))" by auto
  have "t_key t \<in> ?Q" using by_key_distinct [OF c(1) t(1)] t(2) by simp
  from wfE_min [OF wf_dependencies [OF ac] this]
  obtain k s where k: "by_key ts k = Some s" "\<not> P (t_status s)"
    and least: "\<And>d. (d, k) \<in> (edges (graph_of ts))\<inverse> \<Longrightarrow> d \<notin> ?Q" by blast
  have s: "s \<in> set ts" using by_key_SomeD [OF k(1)] by simp
  have "\<exists>dt. by_key ts d = Some dt \<and> P (t_status dt)" if d: "d \<in> set (t_blocked_by s)" for d
  proof -
    obtain dt where dt: "by_key ts d = Some dt" by (rule closed_by_key [OF c(2) s d])
    have "d \<notin> ?Q" by (rule least) (use k(1) d in \<open>auto simp: edges_by_key\<close>)
    with dt show ?thesis by auto
  qed
  with that [OF s k(2)] show ?thesis by blast
qed

text \<open>
  C31. A loaded worklist never deadlocks. In branch mode, when every task is To Do or Done and
  some is To Do, a task is runnable. In pr mode, when every task is To Do, Awaiting Review or
  Merged and some is not Merged, a task is runnable or a task is mergeable.
\<close>

theorem worklist_never_deadlocks:
  assumes l: "load_tasks doc = Inr ts"
  shows "((\<forall>t \<in> set ts. t_status t \<in> {TODO, DONE}) \<and> (\<exists>t \<in> set ts. t_status t = TODO) \<longrightarrow>
      (\<exists>r. runnable_now ts ''branch'' = Inr r \<and> r \<noteq> []))
    \<and> ((\<forall>t \<in> set ts. t_status t \<in> {TODO, AWAITING_REVIEW, MERGED}) \<and> (\<exists>t \<in> set ts. t_status t \<noteq> MERGED) \<longrightarrow>
      (\<exists>r m. runnable_now ts ''pr'' = Inr r \<and> mergeable_now ts = Inr m \<and> (r \<noteq> [] \<or> m \<noteq> [])))"
proof (intro conjI impI; elim conjE bexE)
  have fb: "dispatch_fits ''branch'' ts" and fp: "dispatch_fits ''pr'' ts"
    using loaded_fits [OF l] by simp_all
  have closed: "closed_worklist ts" using load_tasks_spec [OF l] by simp
  {
    fix t assume st: "\<forall>t \<in> set ts. t_status t \<in> {TODO, DONE}" and t: "t \<in> set ts" "t_status t = TODO"
    from t(2) have "\<not> t_status t = DONE" by simp
    then obtain s where s: "s \<in> set ts" "t_status s \<noteq> DONE"
        "\<forall>d \<in> set (t_blocked_by s). \<exists>dt. by_key ts d = Some dt \<and> t_status dt = DONE"
      by (rule minimal_unfinished [where P = "\<lambda>x. x = DONE", OF l t(1)])
    have "dispatch_passes ''branch'' ts s d" if d: "d \<in> set (t_blocked_by s)" for d
      by (rule fits_lookup [OF fb s(1) d]) (use s(3) d in \<open>auto simp: dispatch_passes_iff\<close>)
    moreover have "t_status s = TODO" using st s(1,2) by blast
    ultimately show "\<exists>r. runnable_now ts ''branch'' = Inr r \<and> r \<noteq> []"
      unfolding runnable_now_selected [OF fb] using s(1) by (auto simp: filter_empty_conv)
  next
    fix t assume st: "\<forall>t \<in> set ts. t_status t \<in> {TODO, AWAITING_REVIEW, MERGED}"
      and t: "t \<in> set ts" "t_status t \<noteq> MERGED"
    obtain s where s: "s \<in> set ts" "t_status s \<noteq> MERGED"
        "\<forall>d \<in> set (t_blocked_by s). \<exists>dt. by_key ts d = Some dt \<and> t_status dt = MERGED"
      by (rule minimal_unfinished [where P = "\<lambda>x. x = MERGED", OF l t])
    have "dispatch_passes ''pr'' ts s d" if d: "d \<in> set (t_blocked_by s)" for d
      by (rule fits_lookup [OF fp s(1) d]) (use s(3) d in \<open>auto simp: dispatch_passes_iff\<close>)
    moreover have "merge_passes () ts s d" if "d \<in> set (t_blocked_by s)" for d
      using s(3) that by (auto simp: merge_passes_def is_merged_def)
    moreover have "t_status s = TODO \<or> t_status s = AWAITING_REVIEW" using st s(1,2) by blast
    ultimately show "\<exists>r m. runnable_now ts ''pr'' = Inr r \<and> mergeable_now ts = Inr m \<and> (r \<noteq> [] \<or> m \<noteq> [])"
      unfolding runnable_now_selected [OF fp] mergeable_now_selected [OF closed]
      using s(1) by (auto simp: filter_empty_conv)
  }
qed


theorem worklist_never_deadlocks_witness:
  "\<exists>ts r m. load_tasks (example_doc TODO) = Inr ts \<and> runnable_now ts ''pr'' = Inr r
    \<and> mergeable_now ts = Inr m \<and> (r \<noteq> [] \<or> m \<noteq> [])"
proof -
  have "case load_tasks (example_doc TODO) of Inl _ \<Rightarrow> False
      | Inr ts \<Rightarrow> list_all (\<lambda>t. t_status t \<in> {TODO, AWAITING_REVIEW, MERGED}) ts
          \<and> list_ex (\<lambda>t. t_status t \<noteq> MERGED) ts"
    by code_simp
  then obtain ts where ts: "load_tasks (example_doc TODO) = Inr ts"
    "\<forall>t \<in> set ts. t_status t \<in> {TODO, AWAITING_REVIEW, MERGED}" "\<exists>t \<in> set ts. t_status t \<noteq> MERGED"
    by (cases "load_tasks (example_doc TODO)") (auto simp: list_all_iff list_ex_iff)
  with worklist_never_deadlocks [OF ts(1)] show ?thesis by blast
qed

section \<open>The dry run and pr mode\<close>

text \<open>
  The waves of the dry run know only Done: a task that waits on a Merged dependency is listed
  as unreachable, also when pr mode would dispatch it now.
\<close>

theorem merged_dependency_reported_unreachable:
  assumes l: "load_tasks doc = Inr ts" and r: "runnable_now ts ''pr'' = Inr rp"
    and ws: "plan_waves ts = Inr ws" and t: "t \<in> set rp"
    and merged: "d \<in> set (t_blocked_by t)" "by_key ts d = Some dt" "t_status dt = MERGED"
  shows "t \<in> set (unreachable ts ws)"
proof -
  have fp: "dispatch_fits ''pr'' ts" using loaded_fits [OF l] by simp
  from load_tasks_spec [OF l] have c: "distinct (map t_key ts)" "closed_worklist ts" by auto
  have rounds: "rounds ts (sim_start ts) (map wv_tasks ws)"
    using plan_waves_rounds [OF c(2)] ws by (metis Inr_inject)
  have ts: "t \<in> set ts" "t_status t = TODO"
    using r t unfolding runnable_now_selected [OF fp] by auto
  have "roadblock ts d" using merged(2,3) by (simp add: roadblock_def)
  then have nd: "\<not> will_complete ts d" by (rule roadblock_not_complete)
  have "(t_key t, d) \<in> waits_on ts"
    using merged(1) ts by_key_distinct [OF c(1) ts(1)] by (auto simp: waits_on_def)
  then have "\<not> will_complete ts (t_key t)" using nd by (rule not_complete_back)
  then show ?thesis
    using wave_keys_iff_complete [OF rounds c(1) ts(1)] ts by (simp add: set_unreachable)
qed

theorem merged_dependency_reported_unreachable_witness:
  "\<exists>ts rp t. load_tasks (example_doc MERGED) = Inr ts \<and> runnable_now ts ''pr'' = Inr rp
     \<and> t \<in> set rp \<and> t \<in> set (unreachable ts [])"
proof -
  obtain ts where l: "load_tasks (example_doc MERGED) = Inr ts"
    "map_sum id (map t_key) (runnable_now ts ''pr'') = Inr [''C'']"
    "map_sum id (map (map t_key \<circ> wv_tasks)) (plan_waves ts) = Inr []"
    by (rule example_doc_loads [OF refl])
  from l(2) obtain rp where r: "runnable_now ts ''pr'' = Inr rp" "map t_key rp = [''C'']"
    by (cases "runnable_now ts ''pr''") auto
  then obtain t where rp: "runnable_now ts ''pr'' = Inr rp" "t \<in> set rp" "t_key t = ''C''"
    by (cases rp) auto
  have ws: "plan_waves ts = Inr []" using l(3) by (cases "plan_waves ts") auto
  have fp: "dispatch_fits ''pr'' ts" using loaded_fits [OF l(1)] by simp
  have "case load_tasks (example_doc MERGED) of Inl _ \<Rightarrow> False
      | Inr ts \<Rightarrow> list_all (\<lambda>t. t_key t = ''C'' \<longrightarrow> t_blocked_by t = [''B'']) ts
          \<and> map_option t_status (by_key ts ''B'') = Some MERGED"
    by code_simp
  then obtain dt where d: "\<forall>t \<in> set ts. t_key t = ''C'' \<longrightarrow> t_blocked_by t = [''B'']"
    "by_key ts ''B'' = Some dt" "t_status dt = MERGED"
    using l(1) by (auto simp: list_all_iff)
  have "t \<in> set ts" using rp(1,2) unfolding runnable_now_selected [OF fp] by auto
  with d(1) rp(3) have "''B'' \<in> set (t_blocked_by t)" by simp
  from merged_dependency_reported_unreachable [OF l(1) rp(1) ws rp(2) this d(2,3)] l(1) rp(1,2)
  show ?thesis by blast
qed

end
