(* ===== verification/Json.thy ===== *)
theory Json
  imports GitPath
begin

text \<open>
  The JSON texts the journal reads and writes: \<^verbatim>\<open>json.dumps\<close> with sorted keys, compact separators,
  \<^verbatim>\<open>ensure_ascii=False\<close> and \<^verbatim>\<open>allow_nan=False\<close>, and \<^verbatim>\<open>json.loads\<close>. In this theory and in
  \<^verbatim>\<open>Journal\<close> a Python \<^verbatim>\<open>str\<close> is represented by its UTF-8 bytes; a lone surrogate, which only
  an escape can produce, is its three-byte form, which is not UTF-8. A float is its \<^verbatim>\<open>repr\<close> text:
  the conversion of a number token to that text is the parameter \<open>fl\<close>.
\<close>

section \<open>Values\<close>

datatype jval =
    JNull
  | JBool bool
  | JInt int
  | JFloat string
  | JStr string
  | JList "jval list"
  | JObj "(string \<times> jval) list"
  | JOther                     \<comment> \<open>an object \<^verbatim>\<open>json\<close> cannot serialise\<close>

fun obj_set :: "(string \<times> 'v) list \<Rightarrow> string \<Rightarrow> 'v \<Rightarrow> (string \<times> 'v) list" where
  "obj_set [] k v = [(k, v)]"
| "obj_set ((k', v') # r) k v = (if k' = k then (k, v) # r else (k', v') # obj_set r k v)"

section \<open>Writing\<close>

definition json_escapes :: "(char \<times> char) list" where
  \<comment> \<open>the letter after the backslash and the character it stands for\<close>
  "json_escapes = [(dquote, dquote), (bslash, bslash), (CHR ''/'', CHR ''/''), (CHR ''b'', CHR 8),
     (CHR ''f'', CHR 12), (CHR ''n'', CHR 10), (CHR ''r'', CHR 13), (CHR ''t'', CHR 9)]"

definition esc_char :: "char \<Rightarrow> string" where
  "esc_char c =
     (if c = dquote then [bslash, dquote] else if c = bslash then [bslash, bslash]
      else if c = CHR 8 then [bslash, CHR ''b''] else if c = CHR 12 then [bslash, CHR ''f'']
      else if c = CHR 10 then [bslash, CHR ''n''] else if c = CHR 13 then [bslash, CHR ''r'']
      else if c = CHR 9 then [bslash, CHR ''t'']
      else if (of_char c :: nat) < 32
      then [bslash, CHR ''u'', CHR ''0'', CHR ''0'', hex_digit (of_char c div 16), hex_digit (of_char c mod 16)]
      else [c])"

definition quote :: "string \<Rightarrow> string" where
  "quote s = dquote # concat (map esc_char s) @ [dquote]"

fun jtext :: "jval \<Rightarrow> string" where
  "jtext JNull = ''null''"
| "jtext (JBool b) = (if b then ''true'' else ''false'')"
| "jtext (JInt i) = int_text i"
| "jtext (JFloat t) = t"
| "jtext (JStr s) = quote s"
| "jtext (JList vs) = ''['' @ join '','' (map jtext vs) @ '']''"
| "jtext (JObj kvs) = ''{'' @ join '','' (map (\<lambda>kt. quote (fst kt) @ '':'' @ snd kt)
     (sort_key fst (map (\<lambda>kv. (fst kv, jtext (snd kv))) kvs))) @ ''}''"
| "jtext JOther = []"

definition non_finite :: "string list" where
  "non_finite = [''nan'', ''inf'', ''-inf'']"

definition max_int_digits :: nat where
  \<comment> \<open>the interpreter's limit for the conversion between \<^verbatim>\<open>int\<close> and decimal text\<close>
  "max_int_digits = 4300"

definition int_fits :: "int \<Rightarrow> bool" where
  "int_fits i = (length (nat_digits (nat \<bar>i\<bar>)) \<le> max_int_digits)"

fun dump_ok :: "jval \<Rightarrow> bool" where
  "dump_ok (JInt i) = int_fits i"
| "dump_ok (JFloat t) = (t \<notin> set non_finite)"
| "dump_ok (JList vs) = list_all dump_ok vs"
| "dump_ok (JObj kvs) = list_all (\<lambda>kv. dump_ok (snd kv)) kvs"
| "dump_ok JOther = False"
| "dump_ok _ = True"

section \<open>Reading\<close>

datatype json_error = BadJson | IntTooLong

definition skip_ws :: "string \<Rightarrow> string" where
  "skip_ws = dropWhile (\<lambda>c. c = CHR 32 \<or> c = CHR 9 \<or> c = CHR 10 \<or> c = CHR 13)"

definition hex_value :: "char \<Rightarrow> nat option" where
  "hex_value c = (let n = of_char c :: nat in
     if 48 \<le> n \<and> n \<le> 57 then Some (n - 48)
     else if 97 \<le> n \<and> n \<le> 102 then Some (n - 87)
     else if 65 \<le> n \<and> n \<le> 70 then Some (n - 55) else None)"

fun hex4 :: "string \<Rightarrow> (nat \<times> string) option" where
  "hex4 (a # b # c # d # r) =
     (case (hex_value a, hex_value b, hex_value c, hex_value d) of
        (Some w, Some x, Some y, Some z) \<Rightarrow> Some (4096 * w + 256 * x + 16 * y + z, r)
      | _ \<Rightarrow> None)"
| "hex4 _ = None"

definition utf8 :: "nat \<Rightarrow> string" where
  "utf8 n = map char_of
     (if n < 128 then [n]
      else if n < 2048 then [192 + n div 64, 128 + n mod 64]
      else if n < 65536 then [224 + n div 4096, 128 + n div 64 mod 64, 128 + n mod 64]
      else [240 + n div 262144, 128 + n div 4096 mod 64, 128 + n div 64 mod 64, 128 + n mod 64])"

definition high_surrogate :: "nat \<Rightarrow> bool" where "high_surrogate n = (55296 \<le> n \<and> n \<le> 56319)"
definition low_surrogate :: "nat \<Rightarrow> bool" where "low_surrogate n = (56320 \<le> n \<and> n \<le> 57343)"

definition unicode_escape :: "string \<Rightarrow> (string \<times> string) option" where
  \<comment> \<open>after \<^verbatim>\<open>backslash u\<close>: the bytes of the character and the rest\<close>
  "unicode_escape s =
     (case hex4 s of
        None \<Rightarrow> None
      | Some (n, r) \<Rightarrow>
          if high_surrogate n \<and> starts_with r [bslash, CHR ''u''] then
            (case hex4 (drop 2 r) of
               None \<Rightarrow> None
             | Some (m, r') \<Rightarrow>
                 if low_surrogate m then Some (utf8 (65536 + (n - 55296) * 1024 + (m - 56320)), r')
                 else Some (utf8 n, r))
          else Some (utf8 n, r))"

lemma hex4_shorter: "hex4 s = Some (n, r) \<Longrightarrow> length r < length s"
  by (cases s rule: hex4.cases) (auto split: option.splits)

lemma unicode_escape_shorter: "unicode_escape s = Some (u, r) \<Longrightarrow> length r < length s"
  by (auto simp: unicode_escape_def dest!: hex4_shorter split: option.splits prod.splits if_splits)

function str_body :: "string \<Rightarrow> (string \<times> string) option" where
  \<comment> \<open>after the opening quote: the string and what follows the closing quote\<close>
  "str_body [] = None"
| "str_body (c # cs) =
     (if c = dquote then Some ([], cs)
      else if c \<noteq> bslash then
        (if (of_char c :: nat) < 32 then None else map_option (map_prod ((#) c) id) (str_body cs))
      else (case cs of
          [] \<Rightarrow> None
        | e # r \<Rightarrow>
            if e = CHR ''u'' then
              (case unicode_escape r of
                 None \<Rightarrow> None
               | Some (u, r') \<Rightarrow> map_option (map_prod ((@) u) id) (str_body r'))
            else (case map_of json_escapes e of
                 None \<Rightarrow> None
               | Some x \<Rightarrow> map_option (map_prod ((#) x) id) (str_body r))))"
  by pat_completeness auto

termination str_body
  by (relation "measure length") (auto dest: unicode_escape_shorter)

declare str_body.simps(2) [simp del]

definition leading_sign :: "char list \<Rightarrow> string \<Rightarrow> string \<times> string" where
  "leading_sign signs s = (case s of c # r \<Rightarrow> if c \<in> set signs then ([c], r) else ([], s) | [] \<Rightarrow> ([], s))"

definition int_part :: "string \<Rightarrow> (string \<times> string) option" where
  "int_part s = (case s of
       [] \<Rightarrow> None
     | c # r \<Rightarrow> if c = CHR ''0'' then Some ([c], r)
         else if is_digit c then Some (takeWhile is_digit s, dropWhile is_digit s) else None)"

definition frac_part :: "string \<Rightarrow> string \<times> string" where
  "frac_part s = (case s of
       c # d # r \<Rightarrow> if c = CHR ''.'' \<and> is_digit d
         then (c # takeWhile is_digit (d # r), dropWhile is_digit (d # r)) else ([], s)
     | _ \<Rightarrow> ([], s))"

definition exp_part :: "string \<Rightarrow> string \<times> string" where
  "exp_part s = (case s of
       c # r \<Rightarrow>
         (case leading_sign [CHR ''-'', CHR ''+''] r of (sg, r') \<Rightarrow>
           if c \<in> set ''eE'' \<and> takeWhile is_digit r' \<noteq> []
           then (c # sg @ takeWhile is_digit r', dropWhile is_digit r') else ([], s))
     | [] \<Rightarrow> ([], s))"

definition number_span :: "string \<Rightarrow> (string \<times> bool \<times> string) option" where
  \<comment> \<open>the number token at the start, whether it is a float, and the rest\<close>
  "number_span s =
     (case leading_sign [CHR ''-''] s of (sg, s1) \<Rightarrow>
      (case int_part s1 of
         None \<Rightarrow> None
       | Some (ip, s2) \<Rightarrow>
          (case frac_part s2 of (fp, s3) \<Rightarrow>
           (case exp_part s3 of (ep, s4) \<Rightarrow> Some (sg @ ip @ fp @ ep, fp \<noteq> [] \<or> ep \<noteq> [], s4)))))"

definition token_int :: "string \<Rightarrow> int" where
  "token_int t = (let u = (if starts_with t ''-'' then tl t else t);
       n = foldl (\<lambda>acc c. 10 * acc + (of_char c - 48)) 0 u
     in if starts_with t ''-'' then - n else n)"

definition json_number :: "(string \<Rightarrow> string) \<Rightarrow> string \<Rightarrow> json_error + jval \<times> string" where
  "json_number fl s =
     (case number_span s of
        None \<Rightarrow> Inl BadJson
      | Some (t, is_float, r) \<Rightarrow>
          if is_float then Inr (JFloat (fl t), r)
          else if length (if starts_with t ''-'' then tl t else t) > max_int_digits then Inl IntTooLong
          else Inr (JInt (token_int t), r))"

definition json_literals :: "(string \<times> jval) list" where
  "json_literals = [(''null'', JNull), (''true'', JBool True), (''false'', JBool False),
     (''NaN'', JFloat ''nan''), (''Infinity'', JFloat ''inf''), (''-Infinity'', JFloat ''-inf'')]"

definition json_scalar :: "(string \<Rightarrow> string) \<Rightarrow> string \<Rightarrow> json_error + jval \<times> string" where
  "json_scalar fl s =
     (case find (\<lambda>(w, v). starts_with s w) json_literals of
        Some (w, v) \<Rightarrow> Inr (v, drop (length w) s)
      | None \<Rightarrow> json_number fl s)"

fun pval :: "(string \<Rightarrow> string) \<Rightarrow> nat \<Rightarrow> string \<Rightarrow> json_error + jval \<times> string"
and pmembers :: "(string \<Rightarrow> string) \<Rightarrow> nat \<Rightarrow> (string \<times> jval) list \<Rightarrow> string \<Rightarrow> json_error + jval \<times> string"
and pelems :: "(string \<Rightarrow> string) \<Rightarrow> nat \<Rightarrow> jval list \<Rightarrow> string \<Rightarrow> json_error + jval \<times> string" where
  "pval fl 0 s = Inl BadJson"
| "pval fl (Suc n) s =
     (case s of
        [] \<Rightarrow> Inl BadJson
      | c # r \<Rightarrow>
          if c = dquote then
            (case str_body r of None \<Rightarrow> Inl BadJson | Some (t, r') \<Rightarrow> Inr (JStr t, r'))
          else if c = CHR 123 then
            (case skip_ws r of
               [] \<Rightarrow> Inl BadJson
             | d # r' \<Rightarrow> if d = CHR 125 then Inr (JObj [], r') else pmembers fl n [] (d # r'))
          else if c = CHR 91 then
            (case skip_ws r of
               [] \<Rightarrow> Inl BadJson
             | d # r' \<Rightarrow> if d = CHR 93 then Inr (JList [], r') else pelems fl n [] (d # r'))
          else json_scalar fl s)"
| "pmembers fl 0 acc s = Inl BadJson"
| "pmembers fl (Suc n) acc s =
     (case s of
        [] \<Rightarrow> Inl BadJson
      | c # r \<Rightarrow>
          if c \<noteq> dquote then Inl BadJson
          else (case str_body r of
              None \<Rightarrow> Inl BadJson
            | Some (k, r1) \<Rightarrow>
                (case skip_ws r1 of
                   [] \<Rightarrow> Inl BadJson
                 | d # r2 \<Rightarrow>
                     if d \<noteq> CHR 58 then Inl BadJson
                     else (case pval fl n (skip_ws r2) of
                         Inl e \<Rightarrow> Inl e
                       | Inr (v, r3) \<Rightarrow>
                           (case skip_ws r3 of
                              [] \<Rightarrow> Inl BadJson
                            | e # r4 \<Rightarrow>
                                if e = CHR 125 then Inr (JObj (obj_set acc k v), r4)
                                else if e = CHR 44 then pmembers fl n (obj_set acc k v) (skip_ws r4)
                                else Inl BadJson)))))"
| "pelems fl 0 acc s = Inl BadJson"
| "pelems fl (Suc n) acc s =
     (case pval fl n s of
        Inl e \<Rightarrow> Inl e
      | Inr (v, r) \<Rightarrow>
          (case skip_ws r of
             [] \<Rightarrow> Inl BadJson
           | e # r' \<Rightarrow>
               if e = CHR 93 then Inr (JList (acc @ [v]), r')
               else if e = CHR 44 then pelems fl n (acc @ [v]) (skip_ws r')
               else Inl BadJson))"

definition loads :: "(string \<Rightarrow> string) \<Rightarrow> string \<Rightarrow> json_error + jval" where
  "loads fl s =
     (case pval fl (2 * length s + 2) (skip_ws s) of
        Inl e \<Rightarrow> Inl e
      | Inr (v, r) \<Rightarrow> if skip_ws r = [] then Inr v else Inl BadJson)"


section \<open>Strings are read back\<close>

lemma hex_value_digit: "k < 16 \<Longrightarrow> hex_value (hex_digit k) = Some k"
  by (auto simp: hex_value_def hex_digit_def Let_def)

lemma char_cases_less_32: "(of_char c :: nat) < 32 \<Longrightarrow> char_of (of_char c :: nat) = c"
  by simp

lemma unicode_escape_control:
  assumes "(of_char c :: nat) < 32"
  shows "unicode_escape (CHR ''0'' # CHR ''0'' # hex_digit (of_char c div 16) # hex_digit (of_char c mod 16) # r)
    = Some ([c], r)"
proof -
  have "(of_char c :: nat) div 16 < 16" using assms by auto
  moreover have "hex_value CHR ''0'' = Some 0" by (simp add: hex_value_def)
  moreover have "16 * ((of_char c :: nat) div 16) + of_char c mod 16 = of_char c" by simp
  ultimately show ?thesis
    using assms by (simp add: unicode_escape_def hex_value_digit high_surrogate_def utf8_def)
qed

lemma str_body_esc: "str_body (esc_char c @ rest) = map_option (map_prod ((#) c) id) (str_body rest)"
proof (cases "c \<in> {dquote, bslash, CHR 8, CHR 12, CHR 10, CHR 13, CHR 9}")
  case True
  then show ?thesis by (auto simp: esc_char_def str_body.simps(2) json_escapes_def)
next
  case False
  show ?thesis
  proof (cases "(of_char c :: nat) < 32")
    case True
    then have "esc_char c = [bslash, CHR ''u'', CHR ''0'', CHR ''0'', hex_digit (of_char c div 16), hex_digit (of_char c mod 16)]"
      using False by (simp add: esc_char_def)
    moreover have "(@) [c] = (#) c" by (simp add: fun_eq_iff)
    ultimately show ?thesis by (simp add: str_body.simps(2) unicode_escape_control [OF True])
  next
    case l: False
    then have "esc_char c = [c]" using False by (simp add: esc_char_def)
    with False l show ?thesis by (simp add: str_body.simps(2))
  qed
qed

lemma str_body_quoted: "str_body (concat (map esc_char s) @ dquote # r) = Some (s, r)"
  by (induction s) (simp_all add: str_body_esc, simp add: str_body.simps(2))

lemma str_body_quote: "quote s @ r = dquote # t \<Longrightarrow> str_body t = Some (s, r)"
  using str_body_quoted [of s r] by (auto simp: quote_def)

section \<open>Numbers are read back\<close>

definition stops :: "string \<Rightarrow> bool" where
  "stops s = (case s of [] \<Rightarrow> True | c # _ \<Rightarrow> c = CHR 44 \<or> c = CHR 125 \<or> c = CHR 93)"

lemma stops_cases:
  assumes "stops s"
  obtains "s = []" | c r where "s = c # r" "c = CHR 44 \<or> c = CHR 125 \<or> c = CHR 93"
  using assms by (cases s) (auto simp: stops_def)

lemma stops_not_digit: "stops (c # r) \<Longrightarrow> \<not> is_digit c \<and> c \<noteq> CHR ''.'' \<and> c \<noteq> CHR ''-'' \<and> c \<noteq> CHR ''+''
    \<and> c \<noteq> CHR ''e'' \<and> c \<noteq> CHR ''E''"
  by (auto simp: stops_def is_digit_def less_eq_char_def)

lemma digits_span_append:
  assumes "stops r"
  shows "takeWhile is_digit (s @ r) = takeWhile is_digit s"
    and "dropWhile is_digit (s @ r) = dropWhile is_digit s @ r"
  by (induction s) (use assms in \<open>auto elim!: stops_cases simp: is_digit_def less_eq_char_def\<close>)

lemma digits_span_Cons:
  assumes "stops r"
  shows "takeWhile is_digit (c # s @ r) = takeWhile is_digit (c # s)"
    and "dropWhile is_digit (c # s @ r) = dropWhile is_digit (c # s) @ r"
  using digits_span_append [OF assms, of "c # s"] by simp_all

lemma int_part_append:
  "stops r \<Longrightarrow> int_part s = Some (ip, s2) \<Longrightarrow> int_part (s @ r) = Some (ip, s2 @ r)"
  by (cases s) (auto simp: int_part_def digits_span_Cons simp del: takeWhile.simps dropWhile.simps split: if_splits)

lemma frac_part_append:
  assumes r: "stops r" and s: "frac_part s = (fp, s3)"
  shows "frac_part (s @ r) = (fp, s3 @ r)"
proof (cases s)
  case Nil
  with r s stops_not_digit [of "hd r" "tl r"] show ?thesis
    by (cases r) (auto simp: frac_part_def split: list.splits)
next
  case (Cons c s')
  show ?thesis
  proof (cases s')
    case Nil
    with Cons r s stops_not_digit [of "hd r" "tl r"] show ?thesis
      by (cases r) (auto simp: frac_part_def)
  next
    case (Cons d s'')
    with \<open>s = c # s'\<close> s show ?thesis
      by (auto simp: frac_part_def digits_span_Cons [OF r] simp del: takeWhile.simps dropWhile.simps split: if_splits)
  qed
qed

lemma leading_sign_append:
  assumes "leading_sign signs s = (sg, s1)" "s = [] \<Longrightarrow> r = [] \<or> hd r \<notin> set signs"
  shows "leading_sign signs (s @ r) = (sg, s1 @ r)"
  using assms by (cases s; cases r) (auto simp: leading_sign_def split: if_splits)

lemma exp_part_append:
  assumes r: "stops r" and s: "exp_part s = (ep, s4)"
  shows "exp_part (s @ r) = (ep, s4 @ r)"
proof (cases s)
  case Nil
  with r s stops_not_digit [of "hd r" "tl r"] show ?thesis
    by (cases r) (auto simp: exp_part_def split: prod.splits)
next
  case (Cons c s')
  obtain sg r' where l: "leading_sign [CHR ''-'', CHR ''+''] s' = (sg, r')" by fastforce
  have "leading_sign [CHR ''-'', CHR ''+''] (s' @ r) = (sg, r' @ r)"
    by (rule leading_sign_append [OF l]) (use stops_not_digit [of "hd r" "tl r"] r in \<open>cases r; auto\<close>)
  with Cons l s show ?thesis
    by (auto simp: exp_part_def digits_span_append [OF r] split: if_splits)
qed

lemma number_span_append:
  assumes r: "stops r" and s: "number_span s = Some (t, f, s')"
  shows "number_span (s @ r) = Some (t, f, s' @ r)"
proof -
  obtain sg s1 where l: "leading_sign [CHR ''-''] s = (sg, s1)" by fastforce
  with s obtain ip s2 where i: "int_part s1 = Some (ip, s2)"
    by (auto simp: number_span_def split: option.splits)
  obtain fp s3 where f: "frac_part s2 = (fp, s3)" by fastforce
  obtain ep s4 where e: "exp_part s3 = (ep, s4)" by fastforce
  have "s \<noteq> []" using l i by (auto simp: leading_sign_def int_part_def)
  then have "leading_sign [CHR ''-''] (s @ r) = (sg, s1 @ r)" by (intro leading_sign_append [OF l]) simp
  with int_part_append [OF r i] frac_part_append [OF r f] exp_part_append [OF r e] l i f e s
  show ?thesis by (simp add: number_span_def)
qed

lemma number_first:
  assumes "number_span s = Some x"
  shows "(\<exists>c r. s = c # r \<and> is_digit c) \<or> (\<exists>c r. s = CHR ''-'' # c # r \<and> is_digit c)"
proof -
  have "\<exists>c r. s1 = c # r \<and> is_digit c" if "int_part s1 = Some y" for s1 y
    using that by (auto simp: int_part_def is_digit_def split: list.splits if_splits)
  moreover have "is_digit (CHR ''0'')" by (simp add: is_digit_def)
  ultimately show ?thesis
    using assms by (fastforce simp: number_span_def leading_sign_def split: list.splits if_splits option.splits prod.splits)
qed

lemma json_scalar_number:
  assumes "number_span s = Some x"
  shows "json_scalar fl s = json_number fl s"
proof -
  have d: "c \<noteq> CHR ''n'' \<and> c \<noteq> CHR ''t'' \<and> c \<noteq> CHR ''f'' \<and> c \<noteq> CHR ''N'' \<and> c \<noteq> CHR ''I'' \<and> c \<noteq> CHR ''-''"
    if "is_digit c" for c using that by (auto simp: is_digit_def less_eq_char_def)
  have "find (\<lambda>(w, v). starts_with s w) json_literals = None"
    using number_first [OF assms] d by (auto simp: json_literals_def)
  then show ?thesis by (simp add: json_scalar_def)
qed

lemma nat_digits_digits: "\<forall>c \<in> set (nat_digits n). is_digit c"
proof (induction n rule: nat_digits.induct)
  case (1 n)
  have "is_digit (char_of (48 + k))" if "k < 10" for k :: nat
    using that by (auto simp: is_digit_def less_eq_char_def)
  with 1 show ?case by (subst nat_digits.simps) (auto split: if_splits)
qed

lemma char_of_48: "char_of (48 :: nat) = CHR ''0''"
  by code_simp

lemma digit_char_zero: "k < 10 \<Longrightarrow> char_of (48 + k) = CHR ''0'' \<longleftrightarrow> k = (0::nat)"
proof
  assume k: "k < 10" and "char_of (48 + k) = CHR ''0''"
  then have "(of_char (char_of (48 + k) :: char) :: nat) = of_char (CHR ''0'')" by simp
  with k show "k = 0" by simp
qed (simp add: char_of_48)

lemma nat_digits_pos: "0 < n \<Longrightarrow> \<exists>c r. nat_digits n = c # r \<and> c \<noteq> CHR ''0''"
proof (induction n rule: nat_digits.induct)
  case (1 n)
  show ?case
  proof (cases "n < 10")
    case True
    with 1 show ?thesis by (simp add: nat_digits.simps [of n] digit_char_zero)
  next
    case False
    with "1.IH" have "\<exists>c r. nat_digits (n div 10) = c # r \<and> c \<noteq> CHR ''0''" by simp
    with False show ?thesis by (auto simp: nat_digits.simps [of n])
  qed
qed

lemma nat_digits_zero: "nat_digits 0 = ''0''"
  by (simp add: nat_digits.simps char_of_48)

lemma int_part_nat_digits: "int_part (nat_digits n) = Some (nat_digits n, [])"
proof (cases "n = 0")
  case False
  then obtain c r where c: "nat_digits n = c # r" "c \<noteq> CHR ''0''" using nat_digits_pos [of n] by auto
  with nat_digits_digits [of n] show ?thesis by (simp add: int_part_def)
qed (simp add: nat_digits_zero int_part_def)

lemma nat_digits_no_minus: "nat_digits n \<noteq> CHR ''-'' # r" "nat_digits n \<noteq> []"
proof -
  show "nat_digits n \<noteq> CHR ''-'' # r" using nat_digits_digits [of n] by (auto simp: is_digit_def)
  show "nat_digits n \<noteq> []" by (subst nat_digits.simps) simp
qed

lemma number_span_int: "number_span (int_text i) = Some (int_text i, False, [])"
proof -
  have f: "frac_part [] = ([], [])" "exp_part [] = ([], [])" by (simp_all add: frac_part_def exp_part_def)
  have l: "leading_sign [CHR ''-''] (nat_digits n) = ([], nat_digits n)" for n
    using nat_digits_no_minus [of n] by (cases "nat_digits n") (auto simp: leading_sign_def)
  show ?thesis
  proof (cases "i < 0")
    case True
    then show ?thesis by (simp add: int_text_def number_span_def leading_sign_def int_part_nat_digits f)
  next
    case False
    then show ?thesis by (simp add: int_text_def number_span_def l int_part_nat_digits f)
  qed
qed

lemma foldl_digits: "foldl (\<lambda>acc c. 10 * acc + (of_char c - 48)) 0 (nat_digits n) = int n"
proof (induction n rule: nat_digits.induct)
  case (1 n)
  have c: "(of_char (char_of (48 + k) :: char) :: int) - 48 = int k" if "k < 10" for k :: nat
  proof -
    have "(of_char (char_of (48 + k) :: char) :: int) = int (of_char (char_of (48 + k) :: char))"
      by (simp only: of_nat_of_char)
    moreover have "(of_char (char_of (48 + k) :: char) :: nat) = 48 + k" using that by simp
    ultimately show ?thesis by simp
  qed
  show ?case
  proof (cases "n < 10")
    case True
    then show ?thesis by (simp add: nat_digits.simps [of n] c)
  next
    case False
    with "1.IH" show ?thesis by (simp add: nat_digits.simps [of n] c) presburger
  qed
qed

lemma token_int_text: "token_int (int_text i) = i"
proof (cases "i < 0")
  case True
  then show ?thesis by (simp add: token_int_def int_text_def foldl_digits Let_def)
next
  case False
  have "\<not> starts_with (nat_digits n) ''-''" for n
    using nat_digits_no_minus [of n] by (cases "nat_digits n") auto
  with False show ?thesis by (simp add: token_int_def int_text_def foldl_digits Let_def)
qed

lemma json_number_int:
  assumes "int_fits i" "stops r"
  shows "json_number fl (int_text i @ r) = Inr (JInt i, r)"
proof -
  have "length (if starts_with (int_text i) ''-'' then tl (int_text i) else int_text i)
      = length (nat_digits (nat \<bar>i\<bar>))"
    using nat_digits_no_minus [of "nat i"]
    by (cases "nat_digits (nat i)") (auto simp: int_text_def)
  with assms show ?thesis
    using number_span_append [OF assms(2) number_span_int [of i]]
    by (simp add: json_number_def int_fits_def token_int_text)
qed


section \<open>The round trip\<close>

fun jnorm :: "jval \<Rightarrow> jval" where
  \<comment> \<open>every object with its keys in order, as a reader of the written text finds it\<close>
  "jnorm (JList vs) = JList (map jnorm vs)"
| "jnorm (JObj kvs) = JObj (sort_key fst (map (\<lambda>kv. (fst kv, jnorm (snd kv))) kvs))"
| "jnorm v = v"

definition float_token :: "string \<Rightarrow> bool" where
  "float_token t = (number_span t = Some (t, True, []))"

fun jwf :: "(string \<Rightarrow> string) \<Rightarrow> jval \<Rightarrow> bool" where
  "jwf fl (JInt i) = int_fits i"
| "jwf fl (JFloat t) = (float_token t \<and> fl t = t)"
| "jwf fl (JList vs) = list_all (jwf fl) vs"
| "jwf fl (JObj kvs) = (distinct (map fst kvs) \<and> list_all (\<lambda>kv. jwf fl (snd kv)) kvs)"
| "jwf fl JOther = False"
| "jwf fl _ = True"

lemma obj_set_new: "k \<notin> fst ` set acc \<Longrightarrow> obj_set acc k v = acc @ [(k, v)]"
  by (induction acc) auto

lemma insort_key_map_snd:
  "insort_key fst (k, f v) (map (\<lambda>kv. (fst kv, f (snd kv))) ys)
    = map (\<lambda>kv. (fst kv, f (snd kv))) (insort_key fst (k, v) ys)"
  by (induction ys) auto

lemma sort_key_map_snd:
  "sort_key fst (map (\<lambda>kv. (fst kv, f (snd kv))) xs) = map (\<lambda>kv. (fst kv, f (snd kv))) (sort_key fst xs)"
  by (induction xs) (auto simp: insort_key_map_snd)

lemma skip_ws_stop: "stops r \<Longrightarrow> skip_ws r = r"
  by (erule stops_cases) (auto simp: skip_ws_def)

lemma skip_ws_Cons: "c \<notin> {CHR 32, CHR 9, CHR 10, CHR 13} \<Longrightarrow> skip_ws (c # r) = c # r"
  by (auto simp: skip_ws_def)

lemma number_first_char:
  assumes "number_span t = Some x"
  shows "\<exists>c r. t = c # r \<and> c \<notin> {CHR 32, CHR 9, CHR 10, CHR 13, CHR 93, CHR 125, dquote, CHR 123, CHR 91}"
  using number_first [OF assms] by (fastforce simp: is_digit_def less_eq_char_def)

lemma jtext_first:
  assumes "jwf fl v"
  shows "\<exists>c r. jtext v = c # r \<and> c \<notin> {CHR 32, CHR 9, CHR 10, CHR 13, CHR 93, CHR 125}"
  using assms number_first_char [OF number_span_int] number_first_char
  by (cases v) (fastforce simp: quote_def float_token_def)+

lemma json_scalar_literal:
  "json_scalar fl (''null'' @ r) = Inr (JNull, r)"
  "json_scalar fl (''true'' @ r) = Inr (JBool True, r)"
  "json_scalar fl (''false'' @ r) = Inr (JBool False, r)"
  by (simp_all add: json_scalar_def json_literals_def)

lemma pval_scalar:
  assumes "s = c # r" "c \<noteq> dquote" "c \<noteq> CHR 123" "c \<noteq> CHR 91"
  shows "pval fl (Suc n) s = json_scalar fl s"
  using assms by simp

lemma pval_number:
  assumes "number_span t = Some (t, f, [])" "stops r"
  shows "pval fl (Suc n) (t @ r) = json_number fl (t @ r)"
proof -
  obtain c u where c: "t = c # u" "c \<notin> {dquote, CHR 123, CHR 91}"
    using number_first_char [OF assms(1)] by auto
  have "pval fl (Suc n) (t @ r) = json_scalar fl (t @ r)" by (rule pval_scalar [of _ c "u @ r"]) (use c in auto)
  also have "\<dots> = json_number fl (t @ r)"
    by (rule json_scalar_number [OF number_span_append [OF assms(2,1)]])
  finally show ?thesis .
qed

text \<open>The list and the object loop read back a nonempty joined text, given that each element is read back.\<close>

definition reads_back :: "(string \<Rightarrow> string) \<Rightarrow> jval \<Rightarrow> bool" where
  "reads_back fl v = (\<forall>n r. stops r \<longrightarrow> 2 * length (jtext v) \<le> n \<longrightarrow> pval fl n (jtext v @ r) = Inr (jnorm v, r))"

lemma reads_backD:
  "reads_back fl v \<Longrightarrow> stops r \<Longrightarrow> 2 * length (jtext v) \<le> n \<Longrightarrow> pval fl n (jtext v @ r) = Inr (jnorm v, r)"
  by (simp add: reads_back_def)

lemma stops_punct: "stops (CHR 44 # r)" "stops (CHR 93 # r)" "stops (CHR 125 # r)"
  by (simp_all add: stops_def)

lemma pelems_back:
  assumes "vs \<noteq> []" "\<And>v. v \<in> set vs \<Longrightarrow> reads_back fl v \<and> jwf fl v"
    "2 * length (join '','' (map jtext vs)) + 1 \<le> n"
  shows "pelems fl n acc (join '','' (map jtext vs) @ CHR 93 # r) = Inr (JList (acc @ map jnorm vs), r)"
  using assms
proof (induction vs arbitrary: n acc rule: list_nonempty_induct)
  case (single v)
  then obtain m where n: "n = Suc m" "2 * length (jtext v) \<le> m" by (cases n) auto
  with single have "pval fl m (jtext v @ CHR 93 # r) = Inr (jnorm v, CHR 93 # r)"
    by (intro reads_backD stops_punct) auto
  then show ?case by (simp add: n skip_ws_Cons)
next
  case (cons v vs)
  obtain w ws where vs: "vs = w # ws" using cons.hyps by (cases vs) auto
  let ?rest = "join '','' (map jtext vs)"
  have j: "join '','' (map jtext (v # vs)) = jtext v @ CHR 44 # ?rest" by (simp add: vs)
  with cons.prems(2) obtain m where n: "n = Suc m" "2 * length (jtext v) \<le> m" "2 * length ?rest + 1 \<le> m"
    by (cases n) auto
  have v: "pval fl m (jtext v @ CHR 44 # ?rest @ CHR 93 # r) = Inr (jnorm v, CHR 44 # ?rest @ CHR 93 # r)"
    using cons.prems(1) n(2) by (intro reads_backD stops_punct) auto
  obtain c u where "jtext w = c # u" "c \<notin> {CHR 32, CHR 9, CHR 10, CHR 13}"
    using jtext_first [of fl w] cons.prems(1) vs by auto
  then have "skip_ws (?rest @ CHR 93 # r) = ?rest @ CHR 93 # r"
    by (cases ws) (simp_all add: vs skip_ws_Cons)
  moreover have "pelems fl m (acc @ [jnorm v]) (?rest @ CHR 93 # r)
      = Inr (JList ((acc @ [jnorm v]) @ map jnorm vs), r)"
    by (rule cons.IH) (use cons.prems(1) n(3) in auto)
  ultimately show ?case
    unfolding j n(1) using v by (simp add: skip_ws_Cons)
qed

definition member_text :: "string \<times> jval \<Rightarrow> string" where
  "member_text kv = quote (fst kv) @ '':'' @ jtext (snd kv)"

lemma pmembers_back:
  assumes "kvs \<noteq> []" "\<And>kv. kv \<in> set kvs \<Longrightarrow> reads_back fl (snd kv) \<and> jwf fl (snd kv)"
    "2 * length (join '','' (map member_text kvs)) + 1 \<le> n"
    "distinct (map fst kvs)" "fst ` set kvs \<inter> fst ` set acc = {}"
  shows "pmembers fl n acc (join '','' (map member_text kvs) @ CHR 125 # r)
    = Inr (JObj (acc @ map (\<lambda>kv. (fst kv, jnorm (snd kv))) kvs), r)"
  using assms
proof (induction kvs arbitrary: n acc rule: list_nonempty_induct)
  case (single kv)
  obtain k v where kv: "kv = (k, v)" by fastforce
  from single.prems(2) kv obtain m where n: "n = Suc m" "2 * length (jtext v) \<le> m"
    by (cases n) (auto simp: member_text_def)
  from single kv n have v: "pval fl m (jtext v @ CHR 125 # r) = Inr (jnorm v, CHR 125 # r)"
    by (intro reads_backD stops_punct) auto
  obtain c u where c: "jtext v = c # u" "c \<notin> {CHR 32, CHR 9, CHR 10, CHR 13}"
    using jtext_first [of fl v] single.prems(1) kv by auto
  then have ws: "skip_ws (jtext v @ CHR 125 # r) = jtext v @ CHR 125 # r" by (simp add: skip_ws_Cons)
  have "k \<notin> fst ` set acc" using single.prems(4) kv by auto
  then show ?case
    using v ws by (simp add: kv n(1) member_text_def quote_def str_body_quoted skip_ws_Cons obj_set_new)
next
  case (cons kv kvs)
  obtain k v where kv: "kv = (k, v)" by fastforce
  obtain w ws where kvs: "kvs = w # ws" using cons.hyps by (cases kvs) auto
  let ?rest = "join '','' (map member_text kvs)"
  have j: "join '','' (map member_text (kv # kvs)) = member_text kv @ CHR 44 # ?rest" by (simp add: kvs)
  have len: "length (member_text kv) = length (quote k) + 1 + length (jtext v)"
    by (simp add: kv member_text_def)
  from cons.prems(2) [unfolded j] obtain m where n: "n = Suc m" "2 * length (jtext v) \<le> m" "2 * length ?rest + 1 \<le> m"
    by (cases n) (auto simp: len)
  have vb: "reads_back fl v" "jwf fl v" using cons.prems(1) [of kv] kv by simp_all
  have v: "pval fl m (jtext v @ CHR 44 # ?rest @ CHR 125 # r) = Inr (jnorm v, CHR 44 # ?rest @ CHR 125 # r)"
    by (rule reads_backD [OF vb(1) _ n(2)]) (simp add: stops_def)
  obtain c u where c: "jtext v = c # u" "c \<notin> {CHR 32, CHR 9, CHR 10, CHR 13}"
    using jtext_first [OF vb(2)] by auto
  then have ws: "skip_ws (jtext v @ CHR 44 # ?rest @ CHR 125 # r) = jtext v @ CHR 44 # ?rest @ CHR 125 # r"
    by (simp add: skip_ws_Cons)
  obtain u' where "?rest = dquote # u'" by (cases ws) (auto simp: kvs member_text_def quote_def)
  then have ws': "skip_ws (?rest @ CHR 125 # r) = ?rest @ CHR 125 # r" by (simp add: skip_ws_Cons)
  have "k \<notin> fst ` set acc" using cons.prems(4) kv by auto
  then have acc: "obj_set acc k (jnorm v) = acc @ [(k, jnorm v)]" by (rule obj_set_new)
  have ih: "pmembers fl m (acc @ [(k, jnorm v)]) (?rest @ CHR 125 # r)
      = Inr (JObj ((acc @ [(k, jnorm v)]) @ map (\<lambda>kv. (fst kv, jnorm (snd kv))) kvs), r)"
    by (rule cons.IH) (use cons.prems kv n(3) in auto)
  show ?case
    unfolding j n(1) using v ws ws' ih
    by (simp add: kv member_text_def quote_def str_body_quoted skip_ws_Cons acc)
qed


lemma reads_back_all: "jwf fl v \<Longrightarrow> reads_back fl v"
proof (induction v)
  case (JInt i)
  show ?case unfolding reads_back_def
  proof (intro allI impI)
    fix n r assume r: "stops r" and n: "2 * length (jtext (JInt i)) \<le> n"
    from number_first_char [OF number_span_int [of i]] n obtain m where "n = Suc m" by (cases n) auto
    then show "pval fl n (jtext (JInt i) @ r) = Inr (jnorm (JInt i), r)"
      using pval_number [OF number_span_int r] json_number_int [of i r] JInt r by simp
  qed
next
  case (JFloat t)
  then have t: "number_span t = Some (t, True, [])" "fl t = t" by (auto simp: float_token_def)
  show ?case unfolding reads_back_def
  proof (intro allI impI)
    fix n r assume r: "stops r" and n: "2 * length (jtext (JFloat t)) \<le> n"
    from number_first_char [OF t(1)] n obtain m where "n = Suc m" by (cases n) auto
    then show "pval fl n (jtext (JFloat t) @ r) = Inr (jnorm (JFloat t), r)"
      using pval_number [OF t(1) r] number_span_append [OF r t(1)] t(2) by (simp add: json_number_def)
  qed
next
  case (JStr s)
  show ?case unfolding reads_back_def
  proof (intro allI impI)
    fix n r assume n: "2 * length (jtext (JStr s)) \<le> n"
    then obtain m where "n = Suc m" by (cases n) (auto simp: quote_def)
    then show "pval fl n (jtext (JStr s) @ r) = Inr (jnorm (JStr s), r)"
      by (simp add: quote_def str_body_quoted)
  qed
next
  case (JList vs)
  show ?case unfolding reads_back_def
  proof (intro allI impI)
    fix n r assume n: "2 * length (jtext (JList vs)) \<le> n"
    let ?j = "join '','' (map jtext vs)"
    from n obtain m where m: "n = Suc m" "2 * length ?j + 1 \<le> m" by (cases n) auto
    show "pval fl n (jtext (JList vs) @ r) = Inr (jnorm (JList vs), r)"
    proof (cases vs)
      case Nil
      with m show ?thesis by (simp add: skip_ws_Cons)
    next
      case (Cons w ws)
      have each: "reads_back fl v \<and> jwf fl v" if "v \<in> set vs" for v
        using JList that by (auto simp: list_all_iff)
      obtain c u where c: "jtext w = c # u" "c \<notin> {CHR 32, CHR 9, CHR 10, CHR 13, CHR 93, CHR 125}"
        using jtext_first [of fl w] each [of w] Cons by auto
      then obtain u' where j: "?j @ CHR 93 # r = c # u'" by (cases ws) (auto simp: Cons)
      have "pelems fl m [] (?j @ CHR 93 # r) = Inr (JList ([] @ map jnorm vs), r)"
        by (rule pelems_back) (use Cons each m(2) in auto)
      with j c(2) m(1) show ?thesis by (simp add: skip_ws_Cons)
    qed
  qed
next
  case (JObj kvs)
  let ?ks = "sort_key fst kvs"
  let ?j = "join '','' (map member_text ?ks)"
  have t: "jtext (JObj kvs) = CHR 123 # ?j @ [CHR 125]"
    by (simp add: sort_key_map_snd member_text_def [abs_def] comp_def)
  have nrm: "jnorm (JObj kvs) = JObj (map (\<lambda>kv. (fst kv, jnorm (snd kv))) ?ks)"
    by (simp add: sort_key_map_snd)
  have each: "reads_back fl (snd kv) \<and> jwf fl (snd kv)" if "kv \<in> set ?ks" for kv
    using JObj.prems JObj.IH [of kv "snd kv"] that by (cases kv) (auto simp: list_all_iff)
  have d: "distinct (map fst ?ks)"
    using JObj.prems by (simp add: distinct_map)
  show ?case unfolding reads_back_def t nrm
  proof (intro allI impI)
    fix n r assume n: "2 * length (CHR 123 # ?j @ [CHR 125]) \<le> n"
    from n obtain m where m: "n = Suc m" "2 * length ?j + 1 \<le> m" by (cases n) auto
    show "pval fl n ((CHR 123 # ?j @ [CHR 125]) @ r) = Inr (JObj (map (\<lambda>kv. (fst kv, jnorm (snd kv))) ?ks), r)"
    proof (cases ?ks)
      case Nil
      with m show ?thesis by (simp add: skip_ws_Cons)
    next
      case (Cons w ws)
      obtain u' where j: "?j @ CHR 125 # r = dquote # u'"
        by (cases ws) (auto simp: Cons member_text_def quote_def)
      have "pmembers fl m [] (?j @ CHR 125 # r) = Inr (JObj ([] @ map (\<lambda>kv. (fst kv, jnorm (snd kv))) ?ks), r)"
        by (rule pmembers_back) (use Cons each m(2) d in auto)
      with j m(1) show ?thesis by (simp add: skip_ws_Cons)
    qed
  qed
next
  case JNull
  show ?case unfolding reads_back_def
  proof (intro allI impI)
    fix n r assume "2 * length (jtext JNull) \<le> n"
    then obtain m where "n = Suc m" by (cases n) auto
    then show "pval fl n (jtext JNull @ r) = Inr (jnorm JNull, r)"
      using json_scalar_literal(1) [of fl r] by simp
  qed
next
  case (JBool b)
  show ?case unfolding reads_back_def
  proof (intro allI impI)
    fix n r assume "2 * length (jtext (JBool b)) \<le> n"
    then obtain m where "n = Suc m" by (cases n) (auto split: if_splits)
    then show "pval fl n (jtext (JBool b) @ r) = Inr (jnorm (JBool b), r)"
      using json_scalar_literal(2,3) [of fl r] by simp
  qed
qed simp

lemma loads_jtext_spec:
  assumes "jwf fl v"
  shows "loads fl (jtext v) = Inr (jnorm v)"
proof -
  obtain c u where "jtext v = c # u" "c \<notin> {CHR 32, CHR 9, CHR 10, CHR 13}"
    using jtext_first [OF assms] by auto
  then have ws: "skip_ws (jtext v) = jtext v" by (simp add: skip_ws_Cons)
  have "pval fl (2 * length (jtext v) + 2) (jtext v @ []) = Inr (jnorm v, [])"
    by (rule reads_backD [OF reads_back_all [OF assms]]) (simp_all add: stops_def)
  then show ?thesis by (simp add: loads_def ws) (simp add: skip_ws_def)
qed

lemma jtext_injective:
  assumes "jwf fl v" "jwf fl w" "jtext v = jtext w"
  shows "jnorm v = jnorm w"
  using loads_jtext_spec [OF assms(1)] loads_jtext_spec [OF assms(2)] assms(3) by simp


section \<open>The fuel is enough\<close>

lemma skip_ws_length: "length (skip_ws s) \<le> length s"
  by (simp add: skip_ws_def length_dropWhile_le)

lemma skip_ws_Cons_length: "skip_ws s = c # r \<Longrightarrow> length r < length s"
  using skip_ws_length [of s] by simp

lemma str_body_length: "str_body s = Some (t, r) \<Longrightarrow> length r < length s"
proof (induction s arbitrary: t rule: str_body.induct)
  case (2 c cs)
  from "2.prems" consider "r = cs" | t' where "str_body cs = Some (t', r)" "c \<noteq> dquote" "c \<noteq> bslash" "\<not> (of_char c :: nat) < 32"
    | e q u q' t' where "cs = e # q" "e = CHR ''u''" "unicode_escape q = Some (u, q')" "str_body q' = Some (t', r)" "c = bslash"
    | e q x t' where "cs = e # q" "e \<noteq> CHR ''u''" "map_of json_escapes e = Some x" "str_body q = Some (t', r)" "c = bslash"
    by (auto simp: str_body.simps(2) split: if_splits list.splits option.splits prod.splits)
  then show ?case
  proof cases
    case (2 t')
    with "2.IH"(1) show ?thesis by fastforce
  next
    case (3 e q u q' t')
    from "2.IH"(2) [OF _ _ 3(1,2) 3(3) refl 3(4)] 3(5) unicode_escape_shorter [OF 3(3)] 3(1)
    show ?thesis by simp
  next
    case (4 e q x t')
    from "2.IH"(3) [OF _ _ 4(1,2,3,4)] 4(1,5) show ?thesis by simp
  qed simp
qed simp

lemma dropWhile_shorter: "xs = c # ys \<Longrightarrow> P c \<Longrightarrow> length (dropWhile P xs) < length xs"
  using length_dropWhile_le [of P ys] by simp

lemma number_span_length: "number_span s = Some (t, f, r) \<Longrightarrow> length r < length s"
proof -
  have i: "length s2 < length s1" if "int_part s1 = Some (ip, s2)" for s1 ip s2
    using that dropWhile_shorter [of s1 _ _ is_digit] by (auto simp: int_part_def split: list.splits if_splits)
  have f: "length s3 \<le> length s2" if "frac_part s2 = (fp, s3)" for s2 fp s3
    using that length_dropWhile_le [of is_digit] by (auto simp: frac_part_def le_SucI split: list.splits if_splits)
  have l: "length s1 \<le> length s" if "leading_sign sg s = (x, s1)" for sg s x s1
    using that by (auto simp: leading_sign_def split: list.splits if_splits)
  have e: "length s4 \<le> length s3" if "exp_part s3 = (ep, s4)" for s3 ep s4
  proof (cases s3)
    case (Cons c r)
    obtain x r' where "leading_sign [CHR ''-'', CHR ''+''] r = (x, r')" by fastforce
    with that Cons l [OF this] length_dropWhile_le [of is_digit r'] show ?thesis
      by (auto simp: exp_part_def split: if_splits)
  qed (use that in \<open>simp add: exp_part_def\<close>)
  assume "number_span s = Some (t, f, r)"
  then obtain sg s1 ip s2 fp s3 ep where "leading_sign [CHR ''-''] s = (sg, s1)" "int_part s1 = Some (ip, s2)"
    "frac_part s2 = (fp, s3)" "exp_part s3 = (ep, r)"
    by (auto simp: number_span_def split: option.splits prod.splits)
  with i f l e show ?thesis by (meson le_less_trans less_le_trans)
qed

lemma json_scalar_length: "json_scalar fl s = Inr (v, r) \<Longrightarrow> length r < length s"
proof -
  assume a: "json_scalar fl s = Inr (v, r)"
  show ?thesis
  proof (cases "find (\<lambda>(w, v). starts_with s w) json_literals")
    case None
    with a show ?thesis
      by (auto simp: json_scalar_def json_number_def dest: number_span_length split: option.splits if_splits)
  next
    case (Some wv)
    then obtain w x where wv: "wv = (w, x)" "(w, x) \<in> set json_literals" "starts_with s w"
      by (auto simp: find_Some_iff) (metis nth_mem)
    then have "0 < length w" "length w \<le> length s"
      by (auto simp: json_literals_def starts_with_iff_prefix)
    moreover have "r = drop (length w) s" using a Some wv(1) by (simp add: json_scalar_def)
    ultimately show ?thesis by (metis diff_less length_drop less_le_trans)
  qed
qed


lemma parse_length:
  "(\<forall>s v r. pval fl n s = Inr (v, r) \<longrightarrow> length r < length s)
   \<and> (\<forall>acc s v r. pmembers fl n acc s = Inr (v, r) \<longrightarrow> length r < length s)
   \<and> (\<forall>acc s v r. pelems fl n acc s = Inr (v, r) \<longrightarrow> length r < length s)"
proof (induction n)
  case (Suc n)
  then have iv: "\<And>s v r. pval fl n s = Inr (v, r) \<Longrightarrow> length r < length s"
    and im: "\<And>acc s v r. pmembers fl n acc s = Inr (v, r) \<Longrightarrow> length r < length s"
    and ie: "\<And>acc s v r. pelems fl n acc s = Inr (v, r) \<Longrightarrow> length r < length s" by blast+
  have "length r < length s" if p: "pval fl (Suc n) s = Inr (v, r)" for s v r
  proof -
    obtain c q where s: "s = c # q" using p by (cases s) auto
    from p s consider "c = dquote" "\<exists>t. str_body q = Some (t, r)"
      | d q' where "skip_ws q = d # q'" "r = q'"
      | d q' where "skip_ws q = d # q'" "pmembers fl n [] (d # q') = Inr (v, r)"
      | d q' where "skip_ws q = d # q'" "pelems fl n [] (d # q') = Inr (v, r)"
      | "json_scalar fl s = Inr (v, r)"
      by (auto split: if_splits option.splits list.splits)
    then show ?thesis
    proof cases
      case 1
      then show ?thesis using s str_body_length by fastforce
    next
      case (2 d q')
      then show ?thesis using s skip_ws_Cons_length by fastforce
    next
      case (3 d q')
      with im [OF 3(2)] skip_ws_length [of q] s show ?thesis by simp
    next
      case (4 d q')
      with ie [OF 4(2)] skip_ws_length [of q] s show ?thesis by simp
    next
      case 5
      then show ?thesis by (rule json_scalar_length)
    qed
  qed
  moreover have "length r < length s" if p: "pmembers fl (Suc n) acc s = Inr (v, r)" for acc s v r
  proof -
    from p obtain c q k r1 d r2 x r3 e r4 where
      "s = c # q" "str_body q = Some (k, r1)" "skip_ws r1 = d # r2" "pval fl n (skip_ws r2) = Inr (x, r3)"
      "skip_ws r3 = e # r4" "r = r4 \<or> pmembers fl n (obj_set acc k x) (skip_ws r4) = Inr (v, r)"
      by (auto split: if_splits option.splits list.splits sum.splits prod.splits)
    moreover from this have "length r \<le> length r4"
      using im skip_ws_length [of r4] by fastforce
    ultimately show ?thesis
      using str_body_length [of q k r1] skip_ws_Cons_length [of r1 d r2] iv [of "skip_ws r2" x r3]
        skip_ws_length [of r2] skip_ws_Cons_length [of r3 e r4] by simp
  qed
  moreover have "length r < length s" if p: "pelems fl (Suc n) acc s = Inr (v, r)" for acc s v r
  proof -
    from p obtain x r3 e r4 where "pval fl n s = Inr (x, r3)"
      "skip_ws r3 = e # r4" "r = r4 \<or> pelems fl n (acc @ [x]) (skip_ws r4) = Inr (v, r)"
      by (auto split: if_splits option.splits list.splits sum.splits prod.splits)
    moreover from this have "length r \<le> length r4"
      using ie skip_ws_length [of r4] by fastforce
    ultimately show ?thesis
      using iv [of s x r3] skip_ws_Cons_length [of r3 e r4] by simp
  qed
  ultimately show ?case by blast
qed simp

text \<open>With fuel twice the length the result no longer depends on the fuel.\<close>

lemma parse_fuel:
  "(\<forall>s. 2 * length s + 1 \<le> n \<longrightarrow> pval fl (Suc n) s = pval fl n s)
   \<and> (\<forall>acc s. 2 * length s + 1 \<le> n \<longrightarrow> pmembers fl (Suc n) acc s = pmembers fl n acc s)
   \<and> (\<forall>acc s. 2 * length s + 2 \<le> n \<longrightarrow> pelems fl (Suc n) acc s = pelems fl n acc s)"
proof (induction n)
  case (Suc n)
  then have iv: "\<And>s. 2 * length s + 1 \<le> n \<Longrightarrow> pval fl (Suc n) s = pval fl n s"
    and im: "\<And>acc s. 2 * length s + 1 \<le> n \<Longrightarrow> pmembers fl (Suc n) acc s = pmembers fl n acc s"
    and ie: "\<And>acc s. 2 * length s + 2 \<le> n \<Longrightarrow> pelems fl (Suc n) acc s = pelems fl n acc s" by blast+
  note lens = parse_length [of fl n]
  have "pval fl (Suc (Suc n)) s = pval fl (Suc n) s" if l: "2 * length s + 1 \<le> Suc n" for s
  proof (cases s)
    case (Cons c q)
    have "pmembers fl (Suc n) [] (d # q') = pmembers fl n [] (d # q')
        \<and> pelems fl (Suc n) [] (d # q') = pelems fl n [] (d # q')" if "skip_ws q = d # q'" for d q'
      using im [of "d # q'"] ie [of "d # q'"] skip_ws_length [of q] that l Cons by simp
    then show ?thesis
      by (subst (1 2) pval.simps) (auto simp: Cons simp del: pval.simps pmembers.simps pelems.simps split: list.splits)
  qed simp
  moreover have "pmembers fl (Suc (Suc n)) acc s = pmembers fl (Suc n) acc s" if l: "2 * length s + 1 \<le> Suc n" for acc s
  proof (cases s)
    case (Cons c q)
    have v: "pval fl (Suc n) (skip_ws r2) = pval fl n (skip_ws r2)"
      if "str_body q = Some (k, r1)" "skip_ws r1 = d # r2" for k r1 d r2
      by (rule iv) (use str_body_length [OF that(1)] skip_ws_Cons_length [OF that(2)] skip_ws_length [of r2] l Cons in simp)
    have m: "pmembers fl (Suc n) acc' (skip_ws r4) = pmembers fl n acc' (skip_ws r4)"
      if "str_body q = Some (k, r1)" "skip_ws r1 = d # r2" "pval fl n (skip_ws r2) = Inr (x, r3)" "skip_ws r3 = e # r4"
      for k r1 d r2 x r3 e r4 acc'
    proof -
      have "length r3 < length (skip_ws r2)" using lens that(3) by blast
      with str_body_length [OF that(1)] skip_ws_Cons_length [OF that(2)] skip_ws_length [of r2]
        skip_ws_Cons_length [OF that(4)] skip_ws_length [of r4] l Cons
      show ?thesis by (intro im) simp
    qed
    show ?thesis
      by (subst (1 2) pmembers.simps)
         (auto simp: Cons v m simp del: pval.simps pmembers.simps pelems.simps split: list.splits option.splits sum.splits prod.splits)
  qed simp
  moreover have "pelems fl (Suc (Suc n)) acc s = pelems fl (Suc n) acc s" if l: "2 * length s + 2 \<le> Suc n" for acc s
  proof -
    have v: "pval fl (Suc n) s = pval fl n s" by (rule iv) (use l in simp)
    have m: "pelems fl (Suc n) acc' (skip_ws r4) = pelems fl n acc' (skip_ws r4)"
      if "pval fl n s = Inr (x, r3)" "skip_ws r3 = e # r4" for x r3 e r4 acc'
    proof -
      have "length r3 < length s" using lens that(1) by blast
      with skip_ws_Cons_length [OF that(2)] skip_ws_length [of r4] l show ?thesis by (intro ie) simp
    qed
    show ?thesis
      by (subst (1 2) pelems.simps)
         (auto simp: v m simp del: pval.simps pmembers.simps pelems.simps split: list.splits sum.splits prod.splits)
  qed
  ultimately show ?case by blast
qed simp


section \<open>Python values\<close>

fun pyjson :: "(string \<Rightarrow> string) \<Rightarrow> jval \<Rightarrow> bool" where
  \<comment> \<open>what any Python value satisfies: dictionaries have one value per key, a float is its \<^verbatim>\<open>repr\<close>\<close>
  "pyjson fl (JFloat t) = (t \<in> set non_finite \<or> float_token t \<and> fl t = t)"
| "pyjson fl (JList vs) = list_all (pyjson fl) vs"
| "pyjson fl (JObj kvs) = (distinct (map fst kvs) \<and> list_all (\<lambda>kv. pyjson fl (snd kv)) kvs)"
| "pyjson fl _ = True"

lemma pyjson_jwf: "pyjson fl v \<Longrightarrow> dump_ok v \<Longrightarrow> jwf fl v"
proof (induction v)
  case (JObj kvs)
  then show ?case by (fastforce simp: list_all_iff)
qed (auto simp: list_all_iff)

definition float_law :: "(string \<Rightarrow> string) \<Rightarrow> bool" where
  \<comment> \<open>\<^verbatim>\<open>repr(float(t))\<close> is a number token that denotes the same float, or no finite number\<close>
  "float_law fl = (\<forall>t. fl t \<in> set non_finite \<or> float_token (fl t) \<and> fl (fl t) = fl t)"

lemma obj_set_keys: "fst ` set (obj_set acc k v) = insert k (fst ` set acc)"
proof (induction acc)
  case (Cons kv acc)
  then show ?case by (cases kv) (simp add: insert_commute)
qed simp

lemma obj_set_pyjson:
  "distinct (map fst acc) \<Longrightarrow> list_all (\<lambda>kv. P (snd kv)) acc \<Longrightarrow> P v \<Longrightarrow>
     distinct (map fst (obj_set acc k v)) \<and> list_all (\<lambda>kv. P (snd kv)) (obj_set acc k v)"
proof (induction acc)
  case (Cons kv acc)
  obtain k' v' where kv: "kv = (k', v')" by fastforce
  show ?case
  proof (cases "k' = k")
    case True
    with Cons.prems kv show ?thesis by simp
  next
    case False
    have "k' \<notin> fst ` set (obj_set acc k v)" using Cons.prems(1) kv False by (simp add: obj_set_keys)
    with Cons kv False show ?thesis by simp
  qed
qed simp

lemma json_scalar_pyjson:
  assumes "float_law fl" "json_scalar fl s = Inr (v, r)"
  shows "pyjson fl v"
proof (cases "find (\<lambda>(w, v). starts_with s w) json_literals")
  case None
  with assms show ?thesis
    by (auto simp: json_scalar_def json_number_def float_law_def split: option.splits if_splits)
next
  case (Some wv)
  then have "wv \<in> set json_literals" by (metis find_Some_iff nth_mem)
  then have "pyjson fl (snd wv)" by (auto simp: json_literals_def non_finite_def)
  with Some assms(2) show ?thesis by (cases wv) (simp add: json_scalar_def)
qed

lemma parse_pyjson:
  assumes fl: "float_law fl"
  shows "(\<forall>s v r. pval fl n s = Inr (v, r) \<longrightarrow> pyjson fl v)
   \<and> (\<forall>acc s v r. pyjson fl (JObj acc) \<longrightarrow> pmembers fl n acc s = Inr (v, r) \<longrightarrow> pyjson fl v)
   \<and> (\<forall>acc s v r. list_all (pyjson fl) acc \<longrightarrow> pelems fl n acc s = Inr (v, r) \<longrightarrow> pyjson fl v)"
proof (induction n)
  case (Suc n)
  then have iv: "\<And>s v r. pval fl n s = Inr (v, r) \<Longrightarrow> pyjson fl v"
    and im: "\<And>acc s v r. pyjson fl (JObj acc) \<Longrightarrow> pmembers fl n acc s = Inr (v, r) \<Longrightarrow> pyjson fl v"
    and ie: "\<And>acc s v r. list_all (pyjson fl) acc \<Longrightarrow> pelems fl n acc s = Inr (v, r) \<Longrightarrow> pyjson fl v" by blast+
  have "pyjson fl v" if p: "pval fl (Suc n) s = Inr (v, r)" for s v r
    using p im [of "[]"] ie [of "[]"] json_scalar_pyjson [OF fl]
    by (auto split: list.splits if_splits option.splits)
  moreover have "pyjson fl v" if a: "pyjson fl (JObj acc)" and p: "pmembers fl (Suc n) acc s = Inr (v, r)" for acc s v r
  proof -
    from p obtain c q k r1 d r2 x r3 e r4 where
      "s = c # q" "str_body q = Some (k, r1)" "skip_ws r1 = d # r2" and x: "pval fl n (skip_ws r2) = Inr (x, r3)"
      and "skip_ws r3 = e # r4"
      and y: "v = JObj (obj_set acc k x) \<and> r = r4 \<or> pmembers fl n (obj_set acc k x) (skip_ws r4) = Inr (v, r)"
      by (auto split: if_splits option.splits list.splits sum.splits prod.splits)
    have "pyjson fl (JObj (obj_set acc k x))"
      using obj_set_pyjson [of acc "pyjson fl" x k] a iv [OF x] by simp
    with y im show ?thesis by blast
  qed
  moreover have "pyjson fl v" if a: "list_all (pyjson fl) acc" and p: "pelems fl (Suc n) acc s = Inr (v, r)" for acc s v r
  proof -
    from p obtain x r3 e r4 where x: "pval fl n s = Inr (x, r3)" and "skip_ws r3 = e # r4"
      and y: "v = JList (acc @ [x]) \<and> r = r4 \<or> pelems fl n (acc @ [x]) (skip_ws r4) = Inr (v, r)"
      by (auto split: if_splits option.splits list.splits sum.splits prod.splits)
    have "list_all (pyjson fl) (acc @ [x])" using a iv [OF x] by simp
    with y ie [of "acc @ [x]"] show ?thesis by auto
  qed
  ultimately show ?case by blast
qed simp

lemma loads_pyjson:
  assumes "float_law fl" "loads fl s = Inr v"
  shows "pyjson fl v"
proof -
  let ?n = "2 * length s + 2"
  obtain r where "pval fl ?n (skip_ws s) = Inr (v, r)"
    using assms(2) unfolding loads_def
    by (cases "pval fl ?n (skip_ws s)") (auto simp del: pval.simps split: prod.splits if_splits)
  with parse_pyjson [OF assms(1), of ?n, THEN conjunct1] show ?thesis by blast
qed

section \<open>The normal form has the same text\<close>

lemma jtext_obj: "jtext (JObj kvs) = CHR 123 # join '','' (map member_text (sort_key fst kvs)) @ [CHR 125]"
  by (simp add: sort_key_map_snd member_text_def [abs_def] comp_def)

lemma jtext_jnorm: "jtext (jnorm v) = jtext v"
proof (induction v)
  case (JList vs)
  then show ?case by (simp cong: map_cong)
next
  case (JObj kvs)
  have "map member_text (map (\<lambda>kv. (fst kv, jnorm (snd kv))) (sort_key fst kvs)) = map member_text (sort_key fst kvs)"
    using JObj by (auto simp: member_text_def)
  moreover have "sort_key fst (map (\<lambda>kv. (fst kv, jnorm (snd kv))) (sort_key fst kvs))
      = map (\<lambda>kv. (fst kv, jnorm (snd kv))) (sort_key fst kvs)"
    by (simp add: sort_key_map_snd sort_key_id_if_sorted)
  ultimately show ?case by (simp only: jnorm.simps jtext_obj sort_key_map_snd)
qed simp_all

lemma dump_ok_jnorm: "dump_ok (jnorm v) = dump_ok v"
proof (induction v)
  case (JObj kvs)
  then show ?case by (fastforce simp: list_all_iff)
qed (auto simp: list_all_iff)

section \<open>No line ends in a text\<close>

definition no_breaks :: "string \<Rightarrow> bool" where
  "no_breaks s = (CHR 10 \<notin> set s \<and> CHR 13 \<notin> set s)"

lemma no_breaks_append [simp]: "no_breaks (a @ b) = (no_breaks a \<and> no_breaks b)"
  "no_breaks [] = True" "no_breaks (c # b) = (c \<noteq> CHR 10 \<and> c \<noteq> CHR 13 \<and> no_breaks b)"
  by (auto simp: no_breaks_def)

lemma hex_digit_no_break: "k < 16 \<Longrightarrow> hex_digit k \<noteq> CHR 10 \<and> hex_digit k \<noteq> CHR 13"
proof -
  assume k: "k < 16"
  then have "(of_char (hex_digit k) :: nat) \<ge> 48" by (auto simp: hex_digit_def)
  then show ?thesis by auto
qed

lemma esc_char_no_breaks: "no_breaks (esc_char c)"
proof (cases "(of_char c :: nat) < 32")
  case True
  then have "hex_digit (of_char c div 16) \<noteq> CHR 10 \<and> hex_digit (of_char c div 16) \<noteq> CHR 13"
    by (intro hex_digit_no_break) simp
  with hex_digit_no_break [of "of_char c mod 16"] show ?thesis by (simp add: esc_char_def)
next
  case False
  then have "c \<noteq> CHR 10" "c \<noteq> CHR 13" by auto
  with False show ?thesis by (simp add: esc_char_def)
qed

lemma quote_no_breaks: "no_breaks (quote s)"
  by (induction s) (use esc_char_no_breaks in \<open>auto simp: quote_def\<close>)

definition number_char :: "char \<Rightarrow> bool" where
  "number_char c = (is_digit c \<or> c \<in> set ''-+.eE'')"

lemma takeWhile_digits: "\<forall>c \<in> set (takeWhile is_digit s). number_char c"
  by (auto simp: number_char_def dest: set_takeWhileD)

lemma number_span_chars: "number_span s = Some (t, f, r) \<Longrightarrow> \<forall>c \<in> set t. number_char c"
proof -
  assume n: "number_span s = Some (t, f, r)"
  obtain sg s1 ip s2 fp s3 ep s4 where p: "leading_sign [CHR ''-''] s = (sg, s1)" "int_part s1 = Some (ip, s2)"
    "frac_part s2 = (fp, s3)" "exp_part s3 = (ep, s4)" "t = sg @ ip @ fp @ ep"
    using n by (auto simp: number_span_def split: option.splits prod.splits)
  have sg: "\<forall>c \<in> set x. number_char c"
    if "leading_sign signs u = (x, w)" "set signs \<subseteq> {CHR ''-'', CHR ''+''}" for signs u x w
    using that by (auto simp: leading_sign_def number_char_def split: list.splits if_splits)
  have "\<forall>c \<in> set sg. number_char c" by (rule sg [OF p(1)]) simp
  moreover have "\<forall>c \<in> set ip. number_char c"
    using p(2) takeWhile_digits [of s1]
    by (auto simp: int_part_def number_char_def is_digit_def split: list.splits if_splits)
  moreover have "\<forall>c \<in> set fp. number_char c"
  proof (cases "fp = []")
    case False
    with p(3) have "fp = CHR ''.'' # takeWhile is_digit (tl s2)"
      by (auto simp: frac_part_def split: list.splits if_splits)
    with takeWhile_digits [of "tl s2"] show ?thesis by (simp add: number_char_def)
  qed simp
  moreover have "\<forall>c \<in> set ep. number_char c"
  proof (cases "ep = []")
    case False
    with p(4) obtain c u x w where e: "s3 = c # u" "leading_sign [CHR ''-'', CHR ''+''] u = (x, w)"
      "ep = c # x @ takeWhile is_digit w" "c \<in> set ''eE''"
      by (cases s3) (auto simp: exp_part_def split: prod.splits if_splits)
    have "\<forall>c \<in> set x. number_char c" by (rule sg [OF e(2)]) simp
    with takeWhile_digits [of w] e(3,4) show ?thesis by (auto simp: number_char_def)
  qed simp
  ultimately show ?thesis using p(5) by auto
qed

lemma number_chars_no_breaks: "\<forall>c \<in> set t. number_char c \<Longrightarrow> no_breaks t"
  by (auto simp: no_breaks_def number_char_def is_digit_def)

lemma join_no_breaks: "no_breaks sep \<Longrightarrow> (\<And>x. x \<in> set xs \<Longrightarrow> no_breaks x) \<Longrightarrow> no_breaks (join sep xs)"
  by (induction sep xs rule: join.induct) auto

lemma jtext_no_breaks: "jwf fl v \<Longrightarrow> no_breaks (jtext v)"
proof (induction v)
  case (JInt i)
  show ?case using number_chars_no_breaks [OF number_span_chars [OF number_span_int]] by simp
next
  case (JFloat t)
  then have "number_span t = Some (t, True, [])" by (simp add: float_token_def)
  from number_chars_no_breaks [OF number_span_chars [OF this]] show ?case by simp
next
  case (JList vs)
  then show ?case by (auto simp: list_all_iff intro!: join_no_breaks)
next
  case (JObj kvs)
  have "no_breaks (jtext (snd kv))" if "kv \<in> set kvs" for kv
    using JObj.IH [of kv "snd kv"] JObj.prems that by (cases kv) (auto simp: list_all_iff)
  then show ?case unfolding jtext_obj
    by (auto intro!: join_no_breaks simp: member_text_def quote_no_breaks)
qed (use quote_no_breaks in auto)

section \<open>The value of a numeral\<close>

definition digits_value :: "string \<Rightarrow> nat" where
  "digits_value s = foldl (\<lambda>a c. 10 * a + (of_char c - 48)) 0 s"

lemma digits_value_digits [simp]: "digits_value (nat_digits n) = n"
proof -
  have step: "int (foldl (\<lambda>a c. 10 * a + (of_char c - 48)) a s)
      = foldl (\<lambda>a c. 10 * a + (of_char c - 48)) (int a) s" if "\<forall>c \<in> set s. is_digit c" for a s
    using that
  proof (induction s arbitrary: a)
    case (Cons c s)
    have "48 \<le> (of_char c :: nat)" using Cons.prems by (auto simp: is_digit_def less_eq_char_def)
    then have "int (10 * a + (of_char c - 48)) = 10 * int a + (of_char c - 48)"
      by (simp add: of_nat_diff of_nat_of_char)
    then show ?case using Cons by simp
  qed simp
  have "int (digits_value (nat_digits n)) = int n"
    unfolding digits_value_def using step [OF nat_digits_digits, of 0] by (simp add: foldl_digits)
  then show ?thesis by simp
qed

end
