(* ===== verification/Journal.thy ===== *)
theory Journal
  imports Json
begin

text \<open>
  The hash-chained journal of a run (\<^verbatim>\<open>journal.py\<close>) and its lenient readers
  (\<^verbatim>\<open>journal_read.py\<close>). A file is its bytes; \<open>h\<close> is the hex digest of a byte string
  (\<^verbatim>\<open>hash_bytes\<close>), arbitrary throughout, and \<open>fl\<close> the float rendering of \<^verbatim>\<open>Json\<close>. What leaves
  \<^verbatim>\<open>verify\<close> as an exception is a value of \<open>journal_exn\<close>.
\<close>

section \<open>Events\<close>

definition genesis_provenance_keys :: "string list" where
  "genesis_provenance_keys = [''dispatcher_version'', ''tasks_yaml_path'', ''tasks_yaml_hash'',
     ''reviewer_prompts_hash'', ''hostname'', ''run_nonce'']"

definition genesis_prev_hash :: string where
  "genesis_prev_hash = replicate 64 (CHR ''0'')"

definition event_types :: "string list" where
  "event_types = [''run_started'', ''preflight'', ''heartbeat'', ''task_started'',
     ''task_spawn_finished'', ''summary_parsed'', ''commit_retry'', ''agent_fallback'',
     ''push_verify'', ''verification_mechanical'', ''role_diff_loop_gate'', ''verification_seal'',
     ''verification_started'', ''verification_verdict'', ''verification_iterate'',
     ''verification_skipped'', ''panel_started'', ''panel_verdict'', ''panel_iterate'',
     ''panel_advisory_finding'', ''panel_finding'', ''feature_review_started'',
     ''feature_review_verdict'', ''disposition_recorded'', ''transcript_logged'', ''task_done'',
     ''task_blocked'', ''pr_gate'', ''pr_opened'', ''pr_approved'', ''pr_merged'',
     ''pr_merge_failed'', ''integrate_result'', ''notify_sent'', ''budget_exceeded'',
     ''worklist_invalid'', ''scope_excursion'', ''panel_convergence_stalled'', ''run_complete'',
     ''resume_started'', ''task_reset'', ''task_marked_blocked'']"

record jevent =
  je_seq :: jval
  je_timestamp :: jval
  je_type :: jval
  je_task :: jval
  je_payload :: jval
  je_prev :: jval
  je_hash :: jval

definition covered_fields :: "jevent \<Rightarrow> (string \<times> jval) list" where
  "covered_fields e = [(''seq'', je_seq e), (''timestamp'', je_timestamp e), (''event_type'', je_type e),
     (''task_key'', je_task e), (''payload'', je_payload e), (''prev_hash'', je_prev e)]"

definition canonical_bytes :: "jval \<Rightarrow> string option" where
  \<comment> \<open>None: \<^verbatim>\<open>json.dumps\<close> or the encoding raises\<close>
  "canonical_bytes v = (if dump_ok v \<and> is_utf8 (jtext v) then Some (jtext v) else None)"

definition compute_hash :: "(string \<Rightarrow> string) \<Rightarrow> jval \<Rightarrow> string option" where
  "compute_hash h v = map_option h (canonical_bytes v)"

definition recompute_hash :: "(string \<Rightarrow> string) \<Rightarrow> jevent \<Rightarrow> string option" where
  "recompute_hash h e = compute_hash h (JObj (covered_fields e))"

definition to_json_line :: "jevent \<Rightarrow> string" where
  "to_json_line e = jtext (JObj (covered_fields e @ [(''hash'', je_hash e)]))"

definition event_from_dict :: "(string \<times> jval) list \<Rightarrow> jevent option" where
  \<comment> \<open>None: a field is missing\<close>
  "event_from_dict d =
     (case (map_of d ''seq'', map_of d ''timestamp'', map_of d ''event_type'', map_of d ''task_key'',
            map_of d ''payload'', map_of d ''prev_hash'', map_of d ''hash'') of
        (Some s, Some t, Some y, Some k, Some p, Some v, Some x) \<Rightarrow>
          Some \<lparr>je_seq = s, je_timestamp = t, je_type = y, je_task = k, je_payload = p,
                je_prev = v, je_hash = x\<rparr>
      | _ \<Rightarrow> None)"

section \<open>Lines of a file\<close>

fun segments :: "string \<Rightarrow> string list" where
  \<comment> \<open>the runs between line ends; a carriage return before a line feed only adds an empty run\<close>
  "segments [] = [[]]"
| "segments (c # s) =
     (if c = CHR 10 \<or> c = CHR 13 then [] # segments s
      else (case segments s of [] \<Rightarrow> [[c]] | w # ws \<Rightarrow> (c # w) # ws))"

definition space_texts :: "string list" where
  \<comment> \<open>the characters \<^verbatim>\<open>str.strip\<close> removes: the ASCII ones, then U+0085, U+00A0, U+1680, U+2000 to
      U+200A, U+2028, U+2029, U+202F, U+205F and U+3000\<close>
  "space_texts =
     map (\<lambda>c. [c]) [CHR 9, CHR 10, CHR 11, CHR 12, CHR 13, CHR 28, CHR 29, CHR 30, CHR 31, CHR 32]
     @ [[CHR 0xC2, CHR 0x85], [CHR 0xC2, CHR 0xA0], [CHR 0xE1, CHR 0x9A, CHR 0x80]]
     @ map (\<lambda>c. [CHR 0xE2, CHR 0x80, c])
         [CHR 0x80, CHR 0x81, CHR 0x82, CHR 0x83, CHR 0x84, CHR 0x85, CHR 0x86, CHR 0x87, CHR 0x88,
          CHR 0x89, CHR 0x8A, CHR 0xA8, CHR 0xA9, CHR 0xAF]
     @ [[CHR 0xE2, CHR 0x81, CHR 0x9F], [CHR 0xE3, CHR 0x80, CHR 0x80]]"

function strip_front :: "string list \<Rightarrow> string \<Rightarrow> string" where
  "strip_front pats s =
     (case find (\<lambda>p. p \<noteq> [] \<and> starts_with s p) pats of
        None \<Rightarrow> s
      | Some p \<Rightarrow> strip_front pats (drop (length p) s))"
  by pat_completeness auto

termination strip_front
proof (relation "measure (\<lambda>(pats, s). length s)", goal_cases)
  case (2 pats s p)
  then have "p \<noteq> []" "starts_with s p" by (auto simp: find_Some_iff)
  then obtain t where "s = p @ t" by (auto simp: starts_with_iff_prefix)
  with \<open>p \<noteq> []\<close> show ?case by simp
qed simp

declare strip_front.simps [simp del]

definition strip_text :: "string \<Rightarrow> string" where
  "strip_text s = rev (strip_front (map rev space_texts) (rev (strip_front space_texts s)))"

section \<open>Reading and verifying\<close>

datatype journal_exn = JournalError | RaisedValueError

datatype line_result = BlankLine | EventLine jevent | RefusedLine | RaisingLine

definition read_line :: "(string \<Rightarrow> string) \<Rightarrow> string \<Rightarrow> line_result" where
  \<comment> \<open>one round of \<^verbatim>\<open>read_events\<close>; an integer beyond the interpreter's limit raises a plain
      \<^verbatim>\<open>ValueError\<close>, which is no \<^verbatim>\<open>JSONDecodeError\<close>\<close>
  "read_line fl raw =
     (let s = strip_text raw in
      if s = [] then BlankLine
      else (case loads fl s of
          Inl BadJson \<Rightarrow> RefusedLine
        | Inl IntTooLong \<Rightarrow> RaisingLine
        | Inr (JObj d) \<Rightarrow> (case event_from_dict d of None \<Rightarrow> RefusedLine | Some e \<Rightarrow> EventLine e)
        | Inr _ \<Rightarrow> RefusedLine))"

fun collect_events :: "(string \<Rightarrow> string) \<Rightarrow> string list \<Rightarrow> journal_exn + jevent list" where
  "collect_events fl [] = Inr []"
| "collect_events fl (l # ls) =
     (case read_line fl l of
        BlankLine \<Rightarrow> collect_events fl ls
      | RefusedLine \<Rightarrow> Inl JournalError
      | RaisingLine \<Rightarrow> Inl RaisedValueError
      | EventLine e \<Rightarrow> map_sum id ((#) e) (collect_events fl ls))"

definition read_events :: "(string \<Rightarrow> string) \<Rightarrow> string \<Rightarrow> journal_exn + jevent list" where
  \<comment> \<open>the generator run to its end\<close>
  \<comment> \<open>(decoding is taken to happen before the first line is read, as it does for a file within the buffer)\<close>
  "read_events fl file = (if is_utf8 file then collect_events fl (segments file) else Inl RaisedValueError)"

datatype verify_error = SeqMismatch | GenesisProblem | PrevMismatch | HashMismatch | Unparsable

record verify_result =
  vr_ok :: bool
  vr_checked :: nat
  vr_error :: "verify_error option"
  vr_error_seq :: "jval option"

definition eq_index :: "jval \<Rightarrow> nat \<Rightarrow> bool" where
  \<comment> \<open>\<^verbatim>\<open>seq == n\<close> of a decoded value: true is 1, and a float may equal an integer\<close>
  "eq_index v n = (case v of
       JInt i \<Rightarrow> i = int n
     | JBool b \<Rightarrow> n = (if b then 1 else 0)
     | JFloat t \<Rightarrow> t = nat_digits n @ ''.0'' \<or> n = 0 \<and> t = ''-0.0''
     | _ \<Rightarrow> False)"

definition genesis_problem :: "jevent \<Rightarrow> bool" where
  "genesis_problem e =
     (je_type e \<noteq> JStr ''run_started''
      \<or> (case je_payload e of
           JObj p \<Rightarrow> list_ex (\<lambda>k. map_of p k = None) genesis_provenance_keys
         | _ \<Rightarrow> True))"

definition broken :: "nat \<Rightarrow> verify_error \<Rightarrow> jval \<Rightarrow> verify_result" where
  "broken n err sq = \<lparr>vr_ok = False, vr_checked = n, vr_error = Some err, vr_error_seq = Some sq\<rparr>"

fun verify_from :: "(string \<Rightarrow> string) \<Rightarrow> (string \<Rightarrow> string) \<Rightarrow> nat \<Rightarrow> jval \<Rightarrow> string list
    \<Rightarrow> journal_exn + verify_result" where
  "verify_from h fl n prev [] =
     Inr \<lparr>vr_ok = True, vr_checked = n, vr_error = None, vr_error_seq = None\<rparr>"
| "verify_from h fl n prev (l # ls) =
     (case read_line fl l of
        BlankLine \<Rightarrow> verify_from h fl n prev ls
      | RefusedLine \<Rightarrow> Inr (broken n Unparsable (JInt (int n)))
      | RaisingLine \<Rightarrow> Inl RaisedValueError
      | EventLine e \<Rightarrow>
          if \<not> eq_index (je_seq e) n then Inr (broken n SeqMismatch (JInt (int n)))
          else if n = 0 \<and> genesis_problem e then Inr (broken n GenesisProblem (JInt 0))
          else if je_prev e \<noteq> prev then Inr (broken n PrevMismatch (je_seq e))
          else (case recompute_hash h e of
              None \<Rightarrow> Inl RaisedValueError
            | Some x \<Rightarrow>
                if JStr x \<noteq> je_hash e then Inr (broken n HashMismatch (je_seq e))
                else verify_from h fl (Suc n) (je_hash e) ls))"

definition verify_journal :: "(string \<Rightarrow> string) \<Rightarrow> (string \<Rightarrow> string) \<Rightarrow> string \<Rightarrow> journal_exn + verify_result" where
  "verify_journal h fl file =
     (if is_utf8 file then verify_from h fl 0 (JStr genesis_prev_hash) (segments file)
      else Inl RaisedValueError)"

section \<open>The writer\<close>

record journal =
  jn_file :: string
  jn_last_seq :: jval
  jn_last_hash :: jval

definition py_succ :: "jval \<Rightarrow> jval" where
  \<comment> \<open>\<^verbatim>\<open>seq + 1\<close> for a sequence number that passed \<^verbatim>\<open>verify\<close>\<close>
  "py_succ v = (case v of
       JInt i \<Rightarrow> JInt (i + 1)
     | JBool b \<Rightarrow> JInt (if b then 2 else 1)
     | JFloat t \<Rightarrow> JFloat (int_text (token_int (takeWhile is_digit t) + 1) @ ''.0'')
     | _ \<Rightarrow> v)"

definition journal_append ::
  "(string \<Rightarrow> string) \<Rightarrow> string \<Rightarrow> string \<Rightarrow> jval \<Rightarrow> jval \<Rightarrow> journal \<Rightarrow> (journal_exn \<times> journal) + (jevent \<times> journal)" where
  \<comment> \<open>\<open>now\<close> is the clock's text, \<open>et\<close> the event type, then payload and task key\<close>
  "journal_append h now et payload task j =
     (if et \<notin> set event_types then Inl (RaisedValueError, j)
      else (let sq = py_succ (jn_last_seq j) in
        if eq_index sq 0 \<and> et \<noteq> ''run_started'' then Inl (JournalError, j)
        else (let e = \<lparr>je_seq = sq, je_timestamp = JStr now, je_type = JStr et, je_task = task,
                       je_payload = payload, je_prev = jn_last_hash j, je_hash = JNull\<rparr> in
          case recompute_hash h e of
            None \<Rightarrow> Inl (JournalError, j)
          | Some x \<Rightarrow> (let e' = e\<lparr>je_hash := JStr x\<rparr> in
              Inr (e', \<lparr>jn_file = jn_file j @ to_json_line e' @ [CHR 10],
                        jn_last_seq = sq, jn_last_hash = JStr x\<rparr>)))))"

record genesis_inputs =
  gi_version :: string
  gi_tasks_path :: string
  gi_tasks_hash :: string
  gi_prompts_hash :: string
  gi_hostname :: string
  gi_run_id :: "string option"
  gi_nonce :: string
  gi_run_config :: "jval option"

definition build_genesis_payload :: "genesis_inputs \<Rightarrow> jval" where
  "build_genesis_payload g = JObj
     ([(''dispatcher_version'', JStr (gi_version g)), (''tasks_yaml_path'', JStr (gi_tasks_path g)),
       (''tasks_yaml_hash'', JStr (gi_tasks_hash g)), (''reviewer_prompts_hash'', JStr (gi_prompts_hash g)),
       (''hostname'', JStr (gi_hostname g)),
       (''run_id'', case gi_run_id g of None \<Rightarrow> JNull | Some r \<Rightarrow> JStr r),
       (''run_nonce'', JStr (gi_nonce g))]
      @ (case gi_run_config g of None \<Rightarrow> [] | Some c \<Rightarrow> [(''run_config'', c)]))"

definition journal_create ::
  "(string \<Rightarrow> string) \<Rightarrow> string \<Rightarrow> genesis_inputs \<Rightarrow> string option \<Rightarrow> journal_exn + journal" where
  \<comment> \<open>\<open>existing\<close> is the content of the file when there is one\<close>
  "journal_create h now g existing =
     (if existing \<noteq> None \<and> existing \<noteq> Some [] then Inl JournalError
      else (case journal_append h now ''run_started'' (build_genesis_payload g) JNull
            \<lparr>jn_file = [], jn_last_seq = JInt (- 1), jn_last_hash = JStr genesis_prev_hash\<rparr> of
          Inl (e, _) \<Rightarrow> Inl e
        | Inr (_, j) \<Rightarrow> Inr j))"

definition journal_resume :: "(string \<Rightarrow> string) \<Rightarrow> (string \<Rightarrow> string) \<Rightarrow> string \<Rightarrow> journal_exn + journal" where
  "journal_resume h fl file =
     (case verify_journal h fl file of
        Inl e \<Rightarrow> Inl e
      | Inr r \<Rightarrow>
          if \<not> vr_ok r then Inl JournalError
          else (case read_events fl file of
              Inl e \<Rightarrow> Inl e
            | Inr es \<Rightarrow> if es = [] then Inl JournalError
                else Inr \<lparr>jn_file = file, jn_last_seq = je_seq (last es), jn_last_hash = je_hash (last es)\<rparr>))"

section \<open>Lenient readers\<close>

definition break_texts :: "string list" where
  \<comment> \<open>the line ends of \<^verbatim>\<open>str.splitlines\<close>, the pair first; the last three are U+0085, U+2028 and U+2029\<close>
  "break_texts = [[CHR 13, CHR 10], [CHR 10], [CHR 11], [CHR 12], [CHR 13], [CHR 28], [CHR 29], [CHR 30],
     [CHR 0xC2, CHR 0x85], [CHR 0xE2, CHR 0x80, CHR 0xA8], [CHR 0xE2, CHR 0x80, CHR 0xA9]]"

function text_lines :: "string \<Rightarrow> string \<Rightarrow> string list" where
  \<comment> \<open>the current line, reversed, and the text left\<close>
  "text_lines acc s =
     (case s of
        [] \<Rightarrow> if acc = [] then [] else [rev acc]
      | c # r \<Rightarrow>
         (case find (\<lambda>p. p \<noteq> [] \<and> starts_with s p) break_texts of
            Some p \<Rightarrow> rev acc # text_lines [] (drop (length p) s)
          | None \<Rightarrow> text_lines (c # acc) r))"
  by pat_completeness auto

termination text_lines
  by (relation "measure (\<lambda>(acc, s). length s)") (auto simp: find_Some_iff)

declare text_lines.simps [simp del]

definition read_journal_events :: "(string \<Rightarrow> string) \<Rightarrow> string option \<Rightarrow> (string \<times> jval) list list" where
  \<comment> \<open>of the decoded text; None when the file cannot be read\<close>
  "read_journal_events fl content =
     (case content of
        None \<Rightarrow> []
      | Some s \<Rightarrow> List.map_filter
          (\<lambda>l. if strip_text l = [] then None
               else (case loads fl (strip_text l) of Inr (JObj d) \<Rightarrow> Some d | _ \<Rightarrow> None))
          (text_lines [] s))"

definition genesis_run_config :: "(string \<times> jval) list list \<Rightarrow> (string \<times> jval) list" where
  "genesis_run_config evs =
     (case find (\<lambda>ev. map_of ev ''event_type'' = Some (JStr ''run_started'')) evs of
        Some ev \<Rightarrow>
          (case map_of ev ''payload'' of
             Some (JObj p) \<Rightarrow> (case map_of p ''run_config'' of Some (JObj rc) \<Rightarrow> rc | _ \<Rightarrow> [])
           | _ \<Rightarrow> [])
      | None \<Rightarrow> [])"

definition integration_mode :: "(string \<times> jval) list list \<Rightarrow> string" where
  "integration_mode evs =
     (if map_of (genesis_run_config evs) ''integration'' = Some (JStr ''pr'') then ''pr'' else ''branch'')"

record pr_flow =
  pf_risk :: "string option"
  pf_approver :: "string option"

definition text_field :: "(string \<times> jval) list \<Rightarrow> string \<Rightarrow> string option" where
  "text_field p k = (case map_of p k of
       Some (JStr s) \<Rightarrow> if strip_text s = [] then None else Some (strip_text s)
     | _ \<Rightarrow> None)"

definition pr_flow_step :: "(string \<Rightarrow> pr_flow option) \<Rightarrow> (string \<times> jval) list \<Rightarrow> (string \<Rightarrow> pr_flow option)" where
  "pr_flow_step index ev =
     (if map_of ev ''event_type'' \<notin> {Some (JStr ''pr_approved''), Some (JStr ''pr_merged'')} then index
      else (case (map_of ev ''task_key'', map_of ev ''payload'') of
          (Some (JStr tk), Some (JObj p)) \<Rightarrow>
            (let cur = (case index tk of None \<Rightarrow> \<lparr>pf_risk = None, pf_approver = None\<rparr> | Some c \<Rightarrow> c);
                 c1 = (case text_field p ''risk_level'' of None \<Rightarrow> cur | s \<Rightarrow> cur\<lparr>pf_risk := s\<rparr>);
                 c2 = (case text_field p ''approver'' of None \<Rightarrow> c1 | s \<Rightarrow> c1\<lparr>pf_approver := s\<rparr>)
             in index(tk \<mapsto> c2))
        | _ \<Rightarrow> index))"

definition pr_flow_index :: "(string \<times> jval) list list \<Rightarrow> (string \<Rightarrow> pr_flow option)" where
  "pr_flow_index evs = foldl pr_flow_step Map.empty evs"

definition journal_get :: "(string \<times> jval) list \<Rightarrow> string \<Rightarrow> jval" where
  "journal_get d k = (case map_of d k of None \<Rightarrow> JNull | Some v \<Rightarrow> v)"

definition spawn_fields :: "string list" where
  "spawn_fields = [''input_tokens'', ''output_tokens'', ''cache_read_input_tokens'',
     ''cache_creation_input_tokens'', ''duration_ms'', ''num_turns'']"

record task_index =
  ti_spawn :: "(string \<times> jval) list option"
  ti_panel :: "(string \<times> jval) list option"

definition task_index_step :: "(string \<Rightarrow> task_index) \<Rightarrow> (string \<times> jval) list \<Rightarrow> (string \<Rightarrow> task_index)" where
  "task_index_step index ev =
     (case (journal_get ev ''task_key'', journal_get ev ''payload'') of
        (JStr tk, JObj p) \<Rightarrow>
          if journal_get ev ''event_type'' = JStr ''task_spawn_finished''
          then index(tk := (index tk)\<lparr>ti_spawn := Some (map (\<lambda>k. (k, journal_get p k)) spawn_fields)\<rparr>)
          else if journal_get ev ''event_type'' = JStr ''panel_verdict''
            \<and> (case journal_get p ''consensus'' of JStr _ \<Rightarrow> True | _ \<Rightarrow> False)
          then index(tk := (index tk)\<lparr>ti_panel := Some
            [(''consensus'', journal_get p ''consensus''),
             (''blocking_findings'', journal_get p ''blocking_findings''),
             (''verdicts'', case journal_get p ''verdicts'' of JObj v \<Rightarrow> JObj v | _ \<Rightarrow> JObj [])]\<rparr>)
          else index
      | _ \<Rightarrow> index)"

definition journal_task_index :: "(string \<times> jval) list list \<Rightarrow> (string \<Rightarrow> task_index option)" where
  "journal_task_index evs tk =
     (let i = foldl task_index_step (\<lambda>_. \<lparr>ti_spawn = None, ti_panel = None\<rparr>) evs tk
      in if ti_spawn i = None \<and> ti_panel i = None then None else Some i)"


section \<open>The text of an event\<close>

lemma utf8_valid_ascii:
  assumes c: "c < 128"
  shows "utf8_valid (a @ c # b) \<longleftrightarrow> utf8_valid a \<and> utf8_valid b"
proof (induction a rule: utf8_valid.induct)
  case 1
  show ?case using c by (simp add: utf8_valid.simps(2))
next
  case (2 x a)
  have nc: "\<not> cont_byte c" using c by (simp add: cont_byte_def)
  note head = utf8_valid.simps(2) [of x]
  consider "x < 128" | "194 \<le> x" "x \<le> 223" | "224 \<le> x" "x \<le> 239" | "240 \<le> x" "x \<le> 244"
    | "\<not> x < 128" "\<not> (194 \<le> x \<and> x \<le> 223)" "\<not> (224 \<le> x \<and> x \<le> 239)" "\<not> (240 \<le> x \<and> x \<le> 244)"
    by blast
  then show ?case
  proof cases
    case 1
    with "2.IH"(1) show ?thesis by (simp add: head)
  next
    case 2
    with "2.IH"(2) nc show ?thesis by (cases a) (simp_all add: head)
  next
    case 3
    with "2.IH"(3) nc show ?thesis by (cases a rule: remdups_adj.cases) (simp_all add: head split: list.split)
  next
    case 4
    have x: "\<not> x < 128" "\<not> (194 \<le> x \<and> x \<le> 223)" "\<not> (224 \<le> x \<and> x \<le> 239)" using 4 by auto
    consider "a = []" | c1 where "a = [c1]" | c1 c2 where "a = [c1, c2]" | c1 c2 c3 r where "a = c1 # c2 # c3 # r"
      by (cases a; cases "tl a"; cases "tl (tl a)") auto
    then show ?thesis
    proof cases
      case (4 c1 c2 c3 r)
      from "2.IH"(4) [OF x _ 4 refl refl] \<open>240 \<le> x\<close> \<open>x \<le> 244\<close> x show ?thesis by (simp add: head 4)
    qed (use 4 x nc in \<open>simp_all add: head split: list.splits\<close>)
  next
    case 5
    then show ?thesis by (simp only: append_Cons head if_False simp_thms)
  qed
qed

lemma is_utf8_ascii:
  "(of_char c :: nat) < 128 \<Longrightarrow> is_utf8 (a @ c # b) \<longleftrightarrow> is_utf8 a \<and> is_utf8 b"
  "(of_char c :: nat) < 128 \<Longrightarrow> is_utf8 (c # b) \<longleftrightarrow> is_utf8 b"
  "is_utf8 []"
  using utf8_valid_ascii [of "of_char c" "map of_char a" "map of_char b"]
    utf8_valid_ascii [of "of_char c" "[]" "map of_char b"]
  by (simp_all add: is_utf8_def)

lemma covered_sorted:
  "sort_key fst (covered_fields e) = [(''event_type'', je_type e), (''payload'', je_payload e),
     (''prev_hash'', je_prev e), (''seq'', je_seq e), (''task_key'', je_task e), (''timestamp'', je_timestamp e)]"
  by (simp add: covered_fields_def)
lemma line_sorted:
  "sort_key fst (covered_fields e @ [(''hash'', je_hash e)]) = [(''event_type'', je_type e), (''hash'', je_hash e),
     (''payload'', je_payload e), (''prev_hash'', je_prev e), (''seq'', je_seq e), (''task_key'', je_task e),
     (''timestamp'', je_timestamp e)]"
  by (simp add: covered_fields_def)

definition hex_digest :: "(string \<Rightarrow> string) \<Rightarrow> bool" where
  \<comment> \<open>what \<^verbatim>\<open>hexdigest\<close> returns is lower-case hexadecimal\<close>
  "hex_digest h = (\<forall>s. \<forall>c \<in> set (h s). c \<in> set ''0123456789abcdef'')"

lemma hex_text:
  assumes "\<forall>c \<in> set x. c \<in> set ''0123456789abcdef''"
  shows "quote x = dquote # x @ [dquote]" "is_utf8 x"
proof -
  have "list_all (\<lambda>c. esc_char c = [c] \<and> (of_char c :: nat) < 128) ''0123456789abcdef''" by code_simp
  then have "\<forall>c \<in> set x. esc_char c = [c] \<and> (of_char c :: nat) < 128"
    using assms by (simp only: list_all_iff) blast
  then have "concat (map esc_char x) = x \<and> is_utf8 x"
    by (induction x) (simp_all add: is_utf8_ascii)
  then show "quote x = dquote # x @ [dquote]" "is_utf8 x" by (simp_all add: quote_def)
qed

lemma canonical_text:
  "jtext (JObj (covered_fields e)) = CHR 123 # member_text (''event_type'', je_type e) @ CHR 44
     # member_text (''payload'', je_payload e) @ CHR 44 # member_text (''prev_hash'', je_prev e) @ CHR 44
     # member_text (''seq'', je_seq e) @ CHR 44 # member_text (''task_key'', je_task e) @ CHR 44
     # member_text (''timestamp'', je_timestamp e) @ [CHR 125]"
  by (simp only: jtext_obj covered_sorted list.map join.simps append_Cons append_Nil append_assoc)

lemma line_text:
  "to_json_line e = CHR 123 # member_text (''event_type'', je_type e) @ CHR 44
     # member_text (''hash'', je_hash e) @ CHR 44
     # member_text (''payload'', je_payload e) @ CHR 44 # member_text (''prev_hash'', je_prev e) @ CHR 44
     # member_text (''seq'', je_seq e) @ CHR 44 # member_text (''task_key'', je_task e) @ CHR 44
     # member_text (''timestamp'', je_timestamp e) @ [CHR 125]"
  by (simp only: to_json_line_def jtext_obj line_sorted list.map join.simps append_Cons append_Nil append_assoc)

lemma line_utf8:
  assumes "is_utf8 (jtext (JObj (covered_fields e)))" "\<forall>c \<in> set x. c \<in> set ''0123456789abcdef''"
  shows "is_utf8 (to_json_line (e\<lparr>je_hash := JStr x\<rparr>))"
proof -
  have "is_utf8 (member_text (''hash'', JStr x))"
    using hex_text [OF assms(2)]
    by (simp add: member_text_def quote_def [of "''hash''"] esc_char_def is_utf8_ascii)
  with assms(1) [unfolded canonical_text] show ?thesis by (simp add: line_text is_utf8_ascii)
qed

definition norm_event :: "jevent \<Rightarrow> jevent" where
  "norm_event e = \<lparr>je_seq = jnorm (je_seq e), je_timestamp = jnorm (je_timestamp e), je_type = jnorm (je_type e),
     je_task = jnorm (je_task e), je_payload = jnorm (je_payload e), je_prev = jnorm (je_prev e),
     je_hash = jnorm (je_hash e)\<rparr>"

definition event_wf :: "(string \<Rightarrow> string) \<Rightarrow> jevent \<Rightarrow> bool" where
  "event_wf fl e = list_all (jwf fl) [je_seq e, je_timestamp e, je_type e, je_task e, je_payload e, je_prev e, je_hash e]"

lemma strip_front_none:
  "\<forall>p \<in> set pats. p \<noteq> [] \<and> hd p \<noteq> c \<Longrightarrow> strip_front pats (c # s) = c # s"
proof -
  assume p: "\<forall>p \<in> set pats. p \<noteq> [] \<and> hd p \<noteq> c"
  have "\<not> starts_with (c # s) q" if "q \<in> set pats" for q
    using p that by (cases q) auto
  then have "find (\<lambda>p. p \<noteq> [] \<and> starts_with (c # s) p) pats = None" by (auto simp: find_None_iff)
  then show ?thesis by (subst strip_front.simps) simp
qed

lemma strip_text_object: "strip_text (CHR 123 # s @ [CHR 125]) = CHR 123 # s @ [CHR 125]"
proof -
  have "list_all (\<lambda>p. p \<noteq> [] \<and> hd p \<noteq> CHR 123) space_texts
      \<and> list_all (\<lambda>p. p \<noteq> [] \<and> hd p \<noteq> CHR 125) (map rev space_texts)"
    by (simp add: space_texts_def)
  then have "strip_front space_texts (CHR 123 # s @ [CHR 125]) = CHR 123 # s @ [CHR 125]"
    "strip_front (map rev space_texts) (CHR 125 # rev s @ [CHR 123]) = CHR 125 # rev s @ [CHR 123]"
    by (blast intro: strip_front_none dest: list_all_iff [THEN iffD1])+
  then show ?thesis by (simp add: strip_text_def)
qed

lemma read_line_event:
  assumes "event_wf fl e"
  shows "read_line fl (to_json_line e) = EventLine (norm_event e)"
proof -
  have s: "strip_text (to_json_line e) = to_json_line e"
    unfolding to_json_line_def jtext_obj by (rule strip_text_object)
  have "jwf fl (JObj (covered_fields e @ [(''hash'', je_hash e)]))"
    using assms by (simp add: covered_fields_def event_wf_def)
  from loads_jtext_spec [OF this]
  have l: "loads fl (to_json_line e) = Inr (jnorm (JObj (covered_fields e @ [(''hash'', je_hash e)])))"
    by (simp add: to_json_line_def)
  have n: "jnorm (JObj (covered_fields e @ [(''hash'', je_hash e)])) = JObj
     [(''event_type'', jnorm (je_type e)), (''hash'', jnorm (je_hash e)), (''payload'', jnorm (je_payload e)),
      (''prev_hash'', jnorm (je_prev e)), (''seq'', jnorm (je_seq e)), (''task_key'', jnorm (je_task e)),
      (''timestamp'', jnorm (je_timestamp e))]"
    by (simp only: jnorm.simps sort_key_map_snd line_sorted list.map fst_conv snd_conv)
  have "to_json_line e \<noteq> []" by (simp add: line_text)
  then show ?thesis
    unfolding read_line_def Let_def s l n
    by (simp add: event_from_dict_def norm_event_def)
qed

lemma recompute_norm: "recompute_hash h (norm_event e) = recompute_hash h e"
proof -
  have "dump_ok (JObj (covered_fields (norm_event e))) = dump_ok (JObj (covered_fields e))"
    by (simp add: covered_fields_def norm_event_def dump_ok_jnorm)
  moreover have "jtext (JObj (covered_fields (norm_event e))) = jtext (JObj (covered_fields e))"
    by (simp only: canonical_text) (simp add: norm_event_def member_text_def jtext_jnorm)
  ultimately show ?thesis by (simp only: recompute_hash_def compute_hash_def canonical_bytes_def)
qed


section \<open>Files of lines\<close>

lemma segments_not_Nil: "segments s \<noteq> []"
  by (induction s) (auto split: list.splits)

lemma segments_append: "segments (a @ CHR 10 # b) = segments a @ segments b"
proof (induction a)
  case (Cons c a)
  then show ?case using segments_not_Nil [of a] by (auto split: list.splits)
qed simp

lemma segments_line: "no_breaks s \<Longrightarrow> segments s = [s]"
  by (induction s) auto

lemma segments_lines:
  "\<forall>l \<in> set ls. no_breaks l \<Longrightarrow> segments (concat (map (\<lambda>l. l @ [CHR 10]) ls)) = ls @ [[]]"
  by (induction ls) (simp_all add: segments_append segments_line)

lemma is_utf8_lines: "\<forall>l \<in> set ls. is_utf8 l \<Longrightarrow> is_utf8 (concat (map (\<lambda>l. l @ [CHR 10]) ls))"
  by (induction ls) (simp_all add: is_utf8_ascii)

lemma read_blank: "read_line fl [] = BlankLine"
proof -
  have "\<not> (p \<noteq> [] \<and> starts_with [] p)" for p by (cases p) auto
  then have "find (\<lambda>p. p \<noteq> [] \<and> starts_with [] p) pats = None" for pats by (simp add: find_None_iff)
  then have "strip_front pats [] = []" for pats by (subst strip_front.simps) simp
  then have "strip_text [] = []" by (simp add: strip_text_def)
  then show ?thesis by (simp add: read_line_def)
qed

text \<open>A verification that succeeded on a part continues on the rest.\<close>

lemma verify_collects:
  "verify_from h fl n prev ls = Inr r \<Longrightarrow> vr_ok r \<Longrightarrow>
     \<exists>es. collect_events fl ls = Inr es \<and> vr_checked r = n + length es
       \<and> verify_from h fl n prev (ls @ rest)
         = verify_from h fl (n + length es) (if es = [] then prev else je_hash (last es)) rest"
proof (induction ls arbitrary: n prev)
  case (Cons l ls)
  show ?case
  proof (cases "read_line fl l")
    case (EventLine e)
    with Cons.prems have c: "eq_index (je_seq e) n" "\<not> (n = 0 \<and> genesis_problem e)" "je_prev e = prev"
      by (auto simp: broken_def split: if_splits)
    from EventLine Cons.prems obtain x where x: "recompute_hash h e = Some x" "je_hash e = JStr x"
      "verify_from h fl (Suc n) (je_hash e) ls = Inr r"
      by (auto simp: broken_def split: if_splits option.splits)
    from Cons.IH [OF x(3) Cons.prems(2)] obtain es where es: "collect_events fl ls = Inr es"
      "vr_checked r = Suc n + length es"
      "verify_from h fl (Suc n) (je_hash e) (ls @ rest)
         = verify_from h fl (Suc n + length es) (if es = [] then je_hash e else je_hash (last es)) rest" by blast
    have "verify_from h fl n prev ((l # ls) @ rest) = verify_from h fl (Suc n) (je_hash e) (ls @ rest)"
      using EventLine c x(1,2) by (cases "n = 0") simp_all
    with EventLine es show ?thesis by (intro exI [of _ "e # es"]) simp
  qed (use Cons in \<open>auto simp: broken_def\<close>)
qed auto

definition verified :: "nat \<Rightarrow> verify_result" where
  "verified n = \<lparr>vr_ok = True, vr_checked = n, vr_error = None, vr_error_seq = None\<rparr>"

section \<open>Journals written by the program\<close>

text \<open>
  A journal in use: created, then appended to. A failing append leaves it as it was.
\<close>

inductive journal_run :: "(string \<Rightarrow> string) \<Rightarrow> (string \<Rightarrow> string) \<Rightarrow> journal \<Rightarrow> nat \<Rightarrow> bool" for h fl where
  run_created: "journal_create h now g existing = Inr j \<Longrightarrow>
     (\<And>c. gi_run_config g = Some c \<Longrightarrow> pyjson fl c) \<Longrightarrow> journal_run h fl j 1"
| run_appended: "journal_run h fl j n \<Longrightarrow> journal_append h now et payload task j = Inr (e, j') \<Longrightarrow>
     pyjson fl payload \<Longrightarrow> pyjson fl task \<Longrightarrow> journal_run h fl j' (Suc n)"

definition journal_of :: "(string \<Rightarrow> string) \<Rightarrow> (string \<Rightarrow> string) \<Rightarrow> journal \<Rightarrow> jevent list \<Rightarrow> bool" where
  \<comment> \<open>the file holds the lines of \<open>es\<close>, which verify, and the object is at their end\<close>
  "journal_of h fl j es =
     (jn_file j = concat (map (\<lambda>l. l @ [CHR 10]) (map to_json_line es))
      \<and> (\<forall>e \<in> set es. event_wf fl e \<and> is_utf8 (to_json_line e))
      \<and> verify_from h fl 0 (JStr genesis_prev_hash) (map to_json_line es) = Inr (verified (length es))
      \<and> jn_last_seq j = JInt (int (length es) - 1)
      \<and> (es \<noteq> [] \<longrightarrow> je_seq (last es) = jn_last_seq j \<and> je_hash (last es) = jn_last_hash j)
      \<and> (es = [] \<longrightarrow> jn_last_hash j = JStr genesis_prev_hash)
      \<and> (\<exists>x. jn_last_hash j = JStr x))"

lemma collect_lines:
  "\<forall>e \<in> set es. event_wf fl e \<Longrightarrow> collect_events fl (map to_json_line es) = Inr (map norm_event es)"
  by (induction es) (simp_all add: read_line_event)

lemma event_wf_no_breaks: "event_wf fl e \<Longrightarrow> no_breaks (to_json_line e)"
  unfolding to_json_line_def by (rule jtext_no_breaks) (simp add: event_wf_def covered_fields_def)

lemma journal_of_file:
  assumes "journal_of h fl j es"
  shows "is_utf8 (jn_file j)" "segments (jn_file j) = map to_json_line es @ [[]]"
proof -
  have f: "jn_file j = concat (map (\<lambda>l. l @ [CHR 10]) (map to_json_line es))"
    and e: "\<forall>e \<in> set es. event_wf fl e \<and> is_utf8 (to_json_line e)"
    using assms unfolding journal_of_def by blast+
  show "is_utf8 (jn_file j)" unfolding f by (rule is_utf8_lines) (use e in auto)
  show "segments (jn_file j) = map to_json_line es @ [[]]"
    unfolding f by (rule segments_lines) (use e event_wf_no_breaks in auto)
qed

lemma journal_of_verifies:
  assumes "journal_of h fl j es"
  shows "verify_journal h fl (jn_file j) = Inr (verified (length es))"
    and "read_events fl (jn_file j) = Inr (map norm_event es)"
proof -
  have e: "\<forall>e \<in> set es. event_wf fl e"
    and v: "verify_from h fl 0 (JStr genesis_prev_hash) (map to_json_line es) = Inr (verified (length es))"
    using assms unfolding journal_of_def by blast+
  note file_facts = journal_of_file [OF assms]
  from verify_collects [OF v, of "[[]]"] collect_lines [OF e]
  show "verify_journal h fl (jn_file j) = Inr (verified (length es))"
    by (simp add: verify_journal_def file_facts verified_def read_blank)
  have "collect_events fl (ls @ [[]]) = collect_events fl ls" for ls
    by (induction ls) (simp_all add: read_blank split: line_result.splits)
  with collect_lines [OF e] show "read_events fl (jn_file j) = Inr (map norm_event es)"
    by (simp add: read_events_def file_facts)
qed


lemma jnorm_kinds: "jnorm v = JStr s \<longleftrightarrow> v = JStr s" "jnorm v = JInt i \<longleftrightarrow> v = JInt i"
  by (cases v; simp)+

lemma map_of_jnorm_None:
  "map_of (sort_key fst (map (\<lambda>kv. (fst kv, jnorm (snd kv))) p)) k = None \<longleftrightarrow> map_of p k = None"
  by (auto simp: map_of_eq_None_iff image_image)

lemma genesis_norm: "genesis_problem (norm_event e) = genesis_problem e"
  by (cases "je_payload e")
    (simp_all only: genesis_problem_def norm_event_def jevent.simps jval.case jnorm_kinds jnorm.simps map_of_jnorm_None)

lemma recompute_hash_Some:
  "recompute_hash h e = Some x \<longleftrightarrow> dump_ok (JObj (covered_fields e)) \<and> is_utf8 (jtext (JObj (covered_fields e)))
     \<and> x = h (jtext (JObj (covered_fields e)))"
  by (auto simp: recompute_hash_def compute_hash_def canonical_bytes_def)

lemma append_step:
  assumes j: "journal_of h fl j es" and a: "journal_append h now et payload task j = Inr (e, j')"
    and p: "pyjson fl payload" "pyjson fl task" and h: "hex_digest h"
    and g: "es \<noteq> [] \<or> \<not> genesis_problem e"
  shows "journal_of h fl j' (es @ [e])"
proof -
  obtain x0 where l: "jn_last_seq j = JInt (int (length es) - 1)" "jn_last_hash j = JStr x0"
    "es \<noteq> [] \<longrightarrow> je_hash (last es) = jn_last_hash j" "es = [] \<longrightarrow> jn_last_hash j = JStr genesis_prev_hash"
    using j unfolding journal_of_def by blast
  define e0 where "e0 = \<lparr>je_seq = JInt (int (length es)), je_timestamp = JStr now, je_type = JStr et,
    je_task = task, je_payload = payload, je_prev = JStr x0, je_hash = JNull\<rparr>"
  from a obtain x where x: "recompute_hash h e0 = Some x" "e = e0\<lparr>je_hash := JStr x\<rparr>"
    "j' = \<lparr>jn_file = jn_file j @ to_json_line e @ [CHR 10], jn_last_seq = JInt (int (length es)), jn_last_hash = JStr x\<rparr>"
    by (auto simp: journal_append_def Let_def l py_succ_def e0_def split: if_splits option.splits)
  have cov: "covered_fields e = covered_fields e0" by (simp add: x(2) covered_fields_def)
  then have rx: "recompute_hash h e = Some x" using x(1) by (simp add: recompute_hash_def)
  from x(1) have d: "dump_ok (JObj (covered_fields e0))" "is_utf8 (jtext (JObj (covered_fields e0)))"
    "x = h (jtext (JObj (covered_fields e0)))" by (simp_all only: recompute_hash_Some)
  have "event_wf fl e"
    using d(1) p by (auto simp: event_wf_def x(2) e0_def covered_fields_def intro: pyjson_jwf)
  moreover have "is_utf8 (to_json_line e)"
    unfolding x(2) by (rule line_utf8 [OF d(2)]) (use h d(3) in \<open>simp add: hex_digest_def\<close>)
  moreover have "verify_from h fl 0 (JStr genesis_prev_hash) (map to_json_line (es @ [e])) = Inr (verified (length (es @ [e])))"
  proof -
    have v: "verify_from h fl 0 (JStr genesis_prev_hash) (map to_json_line es) = Inr (verified (length es))"
      and e: "\<forall>e \<in> set es. event_wf fl e" using j unfolding journal_of_def by blast+
    have prev: "(if map norm_event es = [] then JStr genesis_prev_hash else je_hash (last (map norm_event es))) = JStr x0"
      using l by (cases "es = []") (auto simp: last_map norm_event_def)
    have ok: "vr_ok (verified (length es))" by (simp add: verified_def)
    obtain es' where es': "collect_events fl (map to_json_line es) = Inr es'"
      "verify_from h fl 0 (JStr genesis_prev_hash) (map to_json_line es @ [to_json_line e])
         = verify_from h fl (0 + length es') (if es' = [] then JStr genesis_prev_hash else je_hash (last es'))
             [to_json_line e]"
      using verify_collects [OF v ok, of "[to_json_line e]"] by blast
    have "es' = map norm_event es" using es'(1) collect_lines [OF e] by simp
    then have "verify_from h fl 0 (JStr genesis_prev_hash) (map to_json_line (es @ [e]))
      = verify_from h fl (length es) (JStr x0) [to_json_line e]"
      using es'(2) prev by (simp only: map_append list.map length_map add_0)
    also have "\<dots> = Inr (verified (length (es @ [e])))"
    proof -
      have ev: "read_line fl (to_json_line e) = EventLine (norm_event e)" by (rule read_line_event) fact
      have "eq_index (je_seq (norm_event e)) (length es)" "je_prev (norm_event e) = JStr x0"
        "je_hash (norm_event e) = JStr x"
        by (simp_all add: norm_event_def x(2) e0_def eq_index_def)
      moreover have "\<not> (length es = 0 \<and> genesis_problem (norm_event e))" using g by (simp add: genesis_norm)
      ultimately show ?thesis
        by (simp only: verify_from.simps ev line_result.case recompute_norm rx option.case) (simp add: verified_def)
    qed
    finally show ?thesis .
  qed
  ultimately show ?thesis
    using j x(2,3) unfolding journal_of_def by (simp add: e0_def)
qed

lemma journal_of_run:
  assumes h: "hex_digest h"
  shows "journal_run h fl j n \<Longrightarrow> \<exists>es. journal_of h fl j es \<and> length es = n \<and> es \<noteq> []"
proof (induction rule: journal_run.induct)
  case (run_created now g existing j)
  let ?j0 = "\<lparr>jn_file = [], jn_last_seq = JInt (- 1), jn_last_hash = JStr genesis_prev_hash\<rparr>"
  have j0: "journal_of h fl ?j0 []" by (simp add: journal_of_def verified_def)
  from run_created(1) obtain e where
    a: "journal_append h now ''run_started'' (build_genesis_payload g) JNull ?j0 = Inr (e, j)"
    by (auto simp: journal_create_def split: if_splits sum.splits prod.splits)
  have "pyjson fl (build_genesis_payload g)"
    using run_created(2) by (auto simp: build_genesis_payload_def split: option.splits)
  moreover have "\<not> genesis_problem e"
    using a by (auto simp: journal_append_def Let_def genesis_problem_def build_genesis_payload_def
        genesis_provenance_keys_def split: if_splits option.splits)
  ultimately have "journal_of h fl j ([] @ [e])"
    by (intro append_step [OF j0 a _ _ h]) auto
  then show ?case by (intro exI [of _ "[e]"]) simp
next
  case (run_appended j n now et payload task e j')
  then obtain es where es: "journal_of h fl j es" "length es = n" "es \<noteq> []" by blast
  from append_step [OF es(1) run_appended(2-4) h] es(2,3) show ?case
    by (intro exI [of _ "es @ [e]"]) simp
qed

section \<open>The last hash commits to the whole history\<close>

fun chained :: "(string \<Rightarrow> string) \<Rightarrow> nat \<Rightarrow> jval \<Rightarrow> jevent list \<Rightarrow> bool" where
  "chained h n prev [] = True"
| "chained h n prev (e # es) =
     (eq_index (je_seq e) n \<and> je_prev e = prev
      \<and> (case recompute_hash h e of None \<Rightarrow> False | Some x \<Rightarrow> je_hash e = JStr x)
      \<and> chained h (Suc n) (je_hash e) es)"

lemma chained_snoc:
  "chained h n prev (es @ [e]) \<longleftrightarrow> chained h n prev es \<and> eq_index (je_seq e) (n + length es)
     \<and> je_prev e = (if es = [] then prev else je_hash (last es))
     \<and> (case recompute_hash h e of None \<Rightarrow> False | Some x \<Rightarrow> je_hash e = JStr x)"
  by (induction es arbitrary: n prev) auto

lemma verify_chained:
  "verify_from h fl n prev ls = Inr r \<Longrightarrow> vr_ok r \<Longrightarrow> collect_events fl ls = Inr es \<Longrightarrow> chained h n prev es"
proof (induction ls arbitrary: n prev es)
  case (Cons l ls)
  show ?case
  proof (cases "read_line fl l")
    case (EventLine e)
    with Cons.prems obtain es' where es': "es = e # es'" "collect_events fl ls = Inr es'"
      by (cases "collect_events fl ls") auto
    from EventLine Cons.prems(1,2) obtain x where x: "recompute_hash h e = Some x" "je_hash e = JStr x"
      "verify_from h fl (Suc n) (je_hash e) ls = Inr r"
      by (auto simp: broken_def split: if_splits option.splits)
    have "eq_index (je_seq e) n" "je_prev e = prev"
      using EventLine Cons.prems(1,2) by (auto simp: broken_def split: if_splits)
    with x es' Cons.IH [OF x(3) Cons.prems(2) es'(2)] show ?thesis by simp
  qed (use Cons in \<open>auto simp: broken_def\<close>)
qed simp

definition event_pyjson :: "(string \<Rightarrow> string) \<Rightarrow> jevent \<Rightarrow> bool" where
  "event_pyjson fl e = list_all (pyjson fl)
     [je_seq e, je_timestamp e, je_type e, je_task e, je_payload e, je_prev e, je_hash e]"

lemma map_of_pyjson: "pyjson fl (JObj d) \<Longrightarrow> map_of d k = Some v \<Longrightarrow> pyjson fl v"
  by (fastforce simp: list_all_iff dest: map_of_SomeD)

lemma read_line_pyjson:
  assumes "float_law fl" "read_line fl l = EventLine e"
  shows "event_pyjson fl e"
proof -
  from assms(2) obtain d where d: "loads fl (strip_text l) = Inr (JObj d)" "event_from_dict d = Some e"
    by (auto simp: read_line_def Let_def split: if_splits sum.splits json_error.splits jval.splits option.splits)
  note p = map_of_pyjson [OF loads_pyjson [OF assms(1) d(1)]]
  from d(2) show ?thesis
    by (auto simp: event_from_dict_def event_pyjson_def intro: p split: option.splits)
qed

lemma collect_pyjson:
  "float_law fl \<Longrightarrow> collect_events fl ls = Inr es \<Longrightarrow> e \<in> set es \<Longrightarrow> event_pyjson fl e"
proof (induction ls arbitrary: es)
  case (Cons l ls)
  then show ?case
    by (cases "read_line fl l"; cases "collect_events fl ls") (auto dest: read_line_pyjson)
qed simp

lemma nat_digits_injective: "nat_digits m = nat_digits n \<Longrightarrow> m = n"
proof -
  assume "nat_digits m = nat_digits n"
  then have "int m = int n" by (simp only: foldl_digits [symmetric])
  then show "m = n" by simp
qed

lemma eq_index_unique: "eq_index v m \<Longrightarrow> eq_index v n \<Longrightarrow> m = n"
proof -
  have z: "nat_digits k @ ''.0'' \<noteq> ''-0.0''" for k using nat_digits_no_minus [of k] by (auto simp: append_eq_Cons_conv)
  show "eq_index v m \<Longrightarrow> eq_index v n \<Longrightarrow> m = n"
    using z [of m] z [of n]
    by (cases v) (auto simp: eq_index_def dest: nat_digits_injective split: if_splits)
qed

lemma eq_index_norm: "eq_index (jnorm v) n = eq_index v n"
  by (cases v) (simp_all add: eq_index_def)

lemma eq_index_norm_unique: "eq_index v m \<Longrightarrow> eq_index w n \<Longrightarrow> jnorm v = jnorm w \<Longrightarrow> m = n"
  using eq_index_norm [of v] eq_index_norm [of w] eq_index_unique by simp

lemma covered_injective:
  assumes "event_pyjson fl e" "event_pyjson fl e'"
    and "recompute_hash h e = Some x" "recompute_hash h e' = Some x" and inj: "\<And>a b. h a = h b \<Longrightarrow> a = b"
    and "je_hash e = je_hash e'"
  shows "norm_event e = norm_event e'"
proof -
  have d: "dump_ok (JObj (covered_fields e))" "dump_ok (JObj (covered_fields e'))"
    and x: "x = h (jtext (JObj (covered_fields e)))" "x = h (jtext (JObj (covered_fields e')))"
    using assms(3,4) by (simp_all only: recompute_hash_Some)
  have "jtext (JObj (covered_fields e)) = jtext (JObj (covered_fields e'))" by (rule inj) (simp only: x [symmetric])
  note d = d this
  have "pyjson fl (JObj (covered_fields e))" "pyjson fl (JObj (covered_fields e'))"
    using assms(1,2) by (simp_all add: event_pyjson_def covered_fields_def)
  with d have "jnorm (JObj (covered_fields e)) = jnorm (JObj (covered_fields e'))"
    by (intro jtext_injective [of fl]) (simp_all only: pyjson_jwf)
  with assms(6) show ?thesis
    by (simp only: jnorm.simps sort_key_map_snd covered_sorted list.map fst_conv snd_conv) (simp add: norm_event_def)
qed

lemma chained_last:
  assumes "chained h n p (es @ [e])" "chained h n p (es' @ [e'])" "je_hash e = je_hash e'"
  obtains x where "recompute_hash h e = Some x" "recompute_hash h e' = Some x"
  using assms by (simp add: chained_snoc split: option.splits)

lemma chained_determined:
  assumes inj: "\<And>a b. h a = h b \<Longrightarrow> a = b"
  shows "chained h 0 p (es @ [e]) \<Longrightarrow> chained h 0 p (es' @ [e']) \<Longrightarrow>
     \<forall>d \<in> set (es @ [e]). event_pyjson fl d \<Longrightarrow> \<forall>d \<in> set (es' @ [e']). event_pyjson fl d \<Longrightarrow>
     je_hash e = je_hash e' \<Longrightarrow> map norm_event (es @ [e]) = map norm_event (es' @ [e'])"
proof (induction es arbitrary: e es' e' rule: rev_induct)
  case (Nil e es' e')
  obtain x where x: "recompute_hash h e = Some x" "recompute_hash h e' = Some x"
    by (rule chained_last [OF Nil(1,2,5)])
  have n: "norm_event e = norm_event e'" by (rule covered_injective [OF _ _ x inj]) (use Nil in auto)
  have "eq_index (je_seq e) 0" "eq_index (je_seq e') (length es')" using Nil by (auto simp: chained_snoc)
  moreover have "jnorm (je_seq e) = jnorm (je_seq e')" using n by (simp add: norm_event_def)
  ultimately have "length es' = 0" by (rule eq_index_norm_unique [symmetric])
  with n show ?case by simp
next
  case (snoc d es e es' e')
  from snoc.prems(1) have c: "chained h 0 p (es @ [d])" "eq_index (je_seq e) (length (es @ [d]))" "je_prev e = je_hash d"
    unfolding chained_snoc [of _ _ _ "es @ [d]"] by simp_all
  obtain x where x: "recompute_hash h e = Some x" "recompute_hash h e' = Some x"
    by (rule chained_last [OF snoc.prems(1,2,5)])
  have n: "norm_event e = norm_event e'" by (rule covered_injective [OF _ _ x inj]) (use snoc.prems in auto)
  have "eq_index (je_seq e) (Suc (length es))" "eq_index (je_seq e') (length es')"
    using c snoc.prems(2) by (simp_all add: chained_snoc)
  moreover have "jnorm (je_seq e) = jnorm (je_seq e')" using n by (simp add: norm_event_def)
  ultimately have "length es' = Suc (length es)" by (rule eq_index_norm_unique [symmetric])
  then obtain ds d' where es': "es' = ds @ [d']" by (cases es' rule: rev_cases) auto
  obtain y where y: "je_hash d = JStr y" using c(1) by (auto simp: chained_snoc split: option.splits)
  from snoc.prems(2) [unfolded es' chained_snoc [of _ _ _ "ds @ [d']"]]
  have c': "chained h 0 p (ds @ [d'])" "je_prev e' = je_hash d'" by simp_all
  have "jnorm (je_prev e) = jnorm (je_prev e')" using n by (simp add: norm_event_def)
  moreover obtain y' where "je_hash d' = JStr y'" using c'(1) by (auto simp: chained_snoc split: option.splits)
  ultimately have "je_hash d = je_hash d'" using y c c' by simp
  then have "map norm_event (es @ [d]) = map norm_event (ds @ [d'])"
    by (intro snoc.IH [OF c(1) c'(1)]) (use snoc.prems(3,4) es' in auto)
  with n show ?case by (simp add: es')
qed

lemma verified_history:
  assumes "float_law fl" "verify_journal h fl f = Inr r" "vr_ok r" "read_events fl f = Inr es"
  shows "chained h 0 (JStr genesis_prev_hash) es" "\<forall>e \<in> set es. event_pyjson fl e"
  using assms verify_chained collect_pyjson [OF assms(1)]
  by (auto simp: verify_journal_def read_events_def split: if_splits)

lemma verify_exact_spec:
  "verify_from h fl n prev ls = Inr r \<and> vr_ok r \<longleftrightarrow>
     (\<exists>es. collect_events fl ls = Inr es \<and> chained h n prev es \<and> \<not> (n = 0 \<and> es \<noteq> [] \<and> genesis_problem (hd es))
       \<and> r = verified (n + length es))"
proof (induction ls arbitrary: n prev)
  case Nil
  show ?case by (auto simp: verified_def)
next
  case (Cons l ls)
  show ?case
  proof (cases "read_line fl l")
    case (EventLine e)
    have bad: "\<not> vr_ok (broken k x y)" "broken k x y \<noteq> verified m" for k m x y
      by (simp_all add: broken_def verified_def)
    show ?thesis
      using EventLine bad Cons.IH [of "Suc n" "je_hash e"]
      by (cases "collect_events fl ls") (auto split: option.split)
  qed (use Cons in \<open>auto simp: broken_def\<close>)
qed

lemma written_journal_spec:
  assumes "hex_digest h" and "journal_run h fl j n"
  shows "verify_journal h fl (jn_file j) = Inr \<lparr>vr_ok = True, vr_checked = n, vr_error = None, vr_error_seq = None\<rparr>
    \<and> journal_resume h fl (jn_file j) = Inr j"
proof -
  obtain es where es: "journal_of h fl j es" "length es = n" "es \<noteq> []"
    using journal_of_run [OF assms] by blast
  note v = journal_of_verifies [OF es(1)]
  from es obtain x where l: "jn_last_seq j = JInt (int n - 1)" "jn_last_hash j = JStr x"
    "je_seq (last es) = jn_last_seq j" "je_hash (last es) = jn_last_hash j"
    unfolding journal_of_def by blast
  have "je_seq (last (map norm_event es)) = jn_last_seq j" "je_hash (last (map norm_event es)) = jn_last_hash j"
    using es(3) l by (simp_all add: last_map norm_event_def)
  with v es(2,3) show ?thesis by (simp add: journal_resume_def verified_def)
qed


lemma verify_accepts_spec:
  "(verify_journal h fl f = Inr r \<and> vr_ok r) =
     (is_utf8 f \<and> (\<exists>es. read_events fl f = Inr es \<and> chained h 0 (JStr genesis_prev_hash) es
        \<and> \<not> (es \<noteq> [] \<and> genesis_problem (hd es)) \<and> r = verified (length es)))"
  by (simp add: verify_journal_def read_events_def verify_exact_spec [where n = 0])

section \<open>When an append succeeds\<close>

definition plain_char :: "char \<Rightarrow> bool" where
  "plain_char c = (case c of Char b0 b1 b2 b3 b4 b5 b6 b7 \<Rightarrow> \<not> b7)"

lemma plain_char: "plain_char c \<Longrightarrow> (of_char c :: nat) < 128"
  by (cases c) (auto simp: plain_char_def of_char_def horner_sum_bit_eq_take_bit of_bool_def split: if_splits)

lemma plain_utf8: "list_all plain_char s \<Longrightarrow> is_utf8 s"
  by (induction s) (auto simp: is_utf8_ascii plain_char)

lemma event_types_plain: "list_all (\<lambda>t. list_all plain_char (quote t)) event_types"
  by code_simp

lemma keys_plain:
  "list_all (\<lambda>t. list_all plain_char (quote t))
     [''event_type'', ''payload'', ''prev_hash'', ''seq'', ''task_key'', ''timestamp'']"
  by code_simp

lemma number_chars_plain: "\<forall>c \<in> set t. number_char c \<Longrightarrow> is_utf8 t"
proof (induction t)
  case (Cons c t)
  then have "(of_char c :: nat) < 128" by (auto simp: number_char_def is_digit_def less_eq_char_def)
  with Cons show ?case by (simp add: is_utf8_ascii)
qed (simp add: is_utf8_ascii)

lemma utf8_plain_append: "list_all plain_char a \<Longrightarrow> is_utf8 (a @ b) = is_utf8 b"
  by (induction a) (simp_all add: is_utf8_ascii plain_char)

lemma member_utf8: "list_all plain_char (quote k) \<Longrightarrow> is_utf8 (member_text (k, v)) = is_utf8 (jtext v)"
  by (simp add: member_text_def utf8_plain_append is_utf8_ascii)

lemma int_text_utf8: "is_utf8 (int_text i)"
  using number_chars_plain [OF number_span_chars [OF number_span_int]] by simp

lemma canonical_utf8:
  "is_utf8 (jtext (JObj (covered_fields e))) \<longleftrightarrow> is_utf8 (jtext (je_type e)) \<and> is_utf8 (jtext (je_payload e))
     \<and> is_utf8 (jtext (je_prev e)) \<and> is_utf8 (jtext (je_seq e)) \<and> is_utf8 (jtext (je_task e)) \<and> is_utf8 (jtext (je_timestamp e))"
proof -
  have m: "is_utf8 (member_text (k, v) @ c # r) \<longleftrightarrow> is_utf8 (jtext v) \<and> is_utf8 r"
    if "k \<in> {''event_type'', ''payload'', ''prev_hash'', ''seq'', ''task_key'', ''timestamp''}" "(of_char c :: nat) < 128" for k v c r
    using that keys_plain by (auto simp: is_utf8_ascii member_utf8)
  have l: "is_utf8 [] = True" "\<And>r. is_utf8 (CHR 123 # r) = is_utf8 r" by (simp_all add: is_utf8_ascii)
  show ?thesis unfolding canonical_text by (simp add: m l)
qed

lemma journal_of_hash:
  assumes "journal_of h fl j es" "es \<noteq> []"
  shows "\<exists>y. jn_last_hash j = JStr (h y)"
proof -
  have e: "\<forall>e \<in> set es. event_wf fl e"
    and v: "verify_from h fl 0 (JStr genesis_prev_hash) (map to_json_line es) = Inr (verified (length es))"
    and l: "je_hash (last es) = jn_last_hash j"
    using assms unfolding journal_of_def by blast+
  have "chained h 0 (JStr genesis_prev_hash) (map norm_event es)"
    by (rule verify_chained [OF v _ collect_lines [OF e]]) (simp add: verified_def)
  moreover have "map norm_event es = map norm_event (butlast es) @ [norm_event (last es)]"
    using assms(2) by (metis append_butlast_last_id list.simps(8,9) map_append)
  ultimately obtain x where "recompute_hash h (norm_event (last es)) = Some x" "je_hash (norm_event (last es)) = JStr x"
    by (auto simp: chained_snoc split: option.splits)
  with l show ?thesis by (auto simp: recompute_hash_Some norm_event_def jnorm_kinds)
qed

lemma append_succeeds_spec:
  assumes j: "journal_of h fl j es" and h: "hex_digest h" and et: "et \<in> set event_types" and es: "es \<noteq> [] \<or> et = ''run_started''"
    and n: "int_fits (int (length es))" and now: "is_utf8 (jtext (JStr now))"
  shows "(\<exists>e j'. journal_append h now et payload task j = Inr (e, j'))
     \<longleftrightarrow> dump_ok payload \<and> dump_ok task \<and> is_utf8 (jtext payload) \<and> is_utf8 (jtext task)"
proof -
  from j obtain x where l: "jn_last_seq j = JInt (int (length es) - 1)" "jn_last_hash j = JStr x"
    "es = [] \<longrightarrow> x = genesis_prev_hash" unfolding journal_of_def by auto
  have x: "is_utf8 (jtext (JStr x))" 
  proof -
    have "\<forall>c \<in> set x. c \<in> set ''0123456789abcdef''"
    proof (cases "es = []")
      case False
      from journal_of_hash [OF j this] l obtain y where "x = h y" by auto
      with h show ?thesis by (simp add: hex_digest_def)
    qed (use l in \<open>simp add: genesis_prev_hash_def\<close>)
    from hex_text [OF this] show ?thesis by (simp add: is_utf8_ascii)
  qed
  have t: "is_utf8 (jtext (JStr et))" using event_types_plain et by (simp add: list_all_iff plain_utf8)
  have z: "\<not> (eq_index (JInt (int (length es))) 0 \<and> et \<noteq> ''run_started'')" using es by (auto simp: eq_index_def)
  have r: "recompute_hash h \<lparr>je_seq = JInt (int (length es)), je_timestamp = JStr now, je_type = JStr et,
      je_task = task, je_payload = payload, je_prev = JStr x, je_hash = JNull\<rparr> = None
    \<longleftrightarrow> \<not> (dump_ok payload \<and> dump_ok task \<and> is_utf8 (jtext payload) \<and> is_utf8 (jtext task))" (is "recompute_hash h ?e = None \<longleftrightarrow> _")
  proof -
    have "recompute_hash h ?e = None \<longleftrightarrow> \<not> (dump_ok (JObj (covered_fields ?e)) \<and> is_utf8 (jtext (JObj (covered_fields ?e))))"
      by (simp only: recompute_hash_def compute_hash_def canonical_bytes_def) (simp only: map_option_is_None split: if_split, simp)
    also have "\<dots> \<longleftrightarrow> \<not> (dump_ok payload \<and> dump_ok task \<and> is_utf8 (jtext payload) \<and> is_utf8 (jtext task))"
      using x t n now by (simp only: canonical_utf8) (auto simp: covered_fields_def int_text_utf8)
    finally show ?thesis .
  qed
  show ?thesis
    using et z r by (cases "recompute_hash h \<lparr>je_seq = JInt (int (length es)), je_timestamp = JStr now, je_type = JStr et,
      je_task = task, je_payload = payload, je_prev = JStr x, je_hash = JNull\<rparr>")
     (simp_all add: journal_append_def Let_def l py_succ_def)
qed


lemma append_unchanged: "journal_append h now et payload task j = Inl (x, j') \<Longrightarrow> j' = j"
  by (auto simp: journal_append_def Let_def split: if_splits option.splits)

section \<open>A concrete journal\<close>

definition sample_digest :: "string \<Rightarrow> string" where
  \<comment> \<open>the bytes in hexadecimal\<close>
  "sample_digest s = concat (map (\<lambda>c. [hex_digit (of_char c div 16), hex_digit (of_char c mod 16)]) s)"

definition sample_float :: "string \<Rightarrow> string" where
  "sample_float t = (if float_token t then t else ''0.0'')"

definition sample_genesis :: genesis_inputs where
  "sample_genesis = \<lparr>gi_version = ''1'', gi_tasks_path = ''t'', gi_tasks_hash = ''a'', gi_prompts_hash = ''b'',
     gi_hostname = ''c'', gi_run_id = None, gi_nonce = ''n'', gi_run_config = None\<rparr>"

definition sample_payload :: jval where
  "sample_payload = JObj [(''x'', JFloat ''1.5''), (''agent'', JNull)]"

lemma hex_digit_injective: "j < 16 \<Longrightarrow> k < 16 \<Longrightarrow> hex_digit j = hex_digit k \<Longrightarrow> j = k"
  by (metis hex_value_digit option.inject)

lemma nibbles: "(of_char c :: nat) div 16 < 16" "(of_char c :: nat) mod 16 < 16"
proof -
  have "(of_char c :: nat) < 256" by (metis mod_less_divisor of_char_mod_256 zero_less_numeral)
  then show "(of_char c :: nat) div 16 < 16" "(of_char c :: nat) mod 16 < 16"
    by (simp_all add: less_mult_imp_div_less)
qed

lemma sample_digest_hex: "hex_digest sample_digest"
proof -
  define H where "H = set ''0123456789abcdef''"
  have "list_all (\<lambda>k. hex_digit k \<in> set ''0123456789abcdef'') [0..<16]" by code_simp
  then have "hex_digit k \<in> H" if "k < 16" for k
    using that by (simp only: list_all_iff set_upt H_def) auto
  note d = this [OF nibbles(1)] this [OF nibbles(2)]
  show ?thesis unfolding hex_digest_def sample_digest_def H_def [symmetric] by (auto simp: d)
qed

lemma sample_digest_injective: "sample_digest a = sample_digest b \<Longrightarrow> a = b"
proof (induction a arbitrary: b)
  case Nil
  then show ?case by (cases b) (simp_all add: sample_digest_def)
next
  case (Cons c a)
  then obtain d b' where b: "b = d # b'" by (cases b) (simp_all add: sample_digest_def)
  have "hex_digit (of_char c div 16) = hex_digit (of_char d div 16)" "hex_digit (of_char c mod 16) = hex_digit (of_char d mod 16)"
    and r: "sample_digest a = sample_digest b'"
    using Cons.prems by (simp_all add: b sample_digest_def)
  then have "(of_char c :: nat) div 16 = of_char d div 16" "(of_char c :: nat) mod 16 = of_char d mod 16"
    by (auto intro: hex_digit_injective nibbles)
  then have "(of_char c :: nat) = of_char d" by (metis div_mult_mod_eq)
  with Cons.IH [OF r] b show ?case by simp
qed

lemma sample_float_law: "float_law sample_float"
proof -
  have "float_token ''0.0''" by code_simp
  then show ?thesis by (simp add: float_law_def sample_float_def)
qed

lemma sample_payload_ok: "dump_ok sample_payload" "pyjson sample_float sample_payload" "is_utf8 (jtext sample_payload)"
  by code_simp+

lemma sample_run:
  "\<exists>j. journal_run sample_digest sample_float j 1"
  "\<exists>j. journal_run sample_digest sample_float j 2"
proof -
  let ?j0 = "\<lparr>jn_file = [], jn_last_seq = JInt (- 1), jn_last_hash = JStr genesis_prev_hash\<rparr>"
  have j0: "journal_of sample_digest sample_float ?j0 []" by (simp add: journal_of_def verified_def)
  have now: "is_utf8 (jtext (JStr ''now''))" "''task_started'' \<in> set event_types" "''run_started'' \<in> set event_types"
    by code_simp+
  have "int_fits (int (length ([] :: jevent list)))" by code_simp
  moreover have "dump_ok (build_genesis_payload sample_genesis)" "dump_ok JNull"
    "is_utf8 (jtext (build_genesis_payload sample_genesis))" "is_utf8 (jtext JNull)" by code_simp+
  ultimately obtain e0 j where "journal_append sample_digest ''now'' ''run_started'' (build_genesis_payload sample_genesis) JNull ?j0 = Inr (e0, j)"
    using append_succeeds_spec [OF j0 sample_digest_hex now(3) _ _ now(1)] by blast
  then have j: "journal_create sample_digest ''now'' sample_genesis None = Inr j" by (simp add: journal_create_def)
  have r: "journal_run sample_digest sample_float j 1"
    by (rule run_created [OF j]) (simp add: sample_genesis_def)
  from journal_of_run [OF sample_digest_hex r] obtain es where es: "journal_of sample_digest sample_float j es" "length es = 1" "es \<noteq> []"
    by blast
  have "int_fits (int (length es))" unfolding es(2) by code_simp
  moreover have "dump_ok JNull" "is_utf8 (jtext JNull)" by code_simp+
  ultimately obtain e j' where "journal_append sample_digest ''now'' ''task_started'' sample_payload JNull j = Inr (e, j')"
    using append_succeeds_spec [OF es(1) sample_digest_hex now(2) _ _ now(1)] es(3) sample_payload_ok by blast
  from run_appended [OF r this sample_payload_ok(2)] have "journal_run sample_digest sample_float j' 2"
    by (simp add: numeral_2_eq_2)
  with r show "\<exists>j. journal_run sample_digest sample_float j 1"  "\<exists>j. journal_run sample_digest sample_float j 2" by blast+
qed


lemma verify_raises_on_bad_bytes: "verify_journal h fl [CHR 255] = Inl RaisedValueError"
proof -
  have "\<not> is_utf8 [CHR 255]" by code_simp
  then show ?thesis by (simp add: verify_journal_def)
qed

definition separator_event :: jevent where
  \<comment> \<open>its payload holds U+2028\<close>
  "separator_event = \<lparr>je_seq = JInt 0, je_timestamp = JNull, je_type = JNull, je_task = JNull,
     je_payload = JStr [CHR 0xE2, CHR 0x80, CHR 0xA8], je_prev = JNull, je_hash = JNull\<rparr>"

lemma lenient_reader_tears:
  "read_events sample_float (to_json_line separator_event) = Inr [separator_event]
   \<and> read_journal_events sample_float (Some (to_json_line separator_event)) = []"
  by code_simp

section \<open>Properties\<close>

text \<open>
  C27. A journal the program wrote verifies, with as many events as were appended, whatever the
  payloads were; and resuming from its file gives back exactly the writer's state, so that the
  next event continues the chain.
\<close>

theorem written_journal_verifies:
  assumes "hex_digest h" and "journal_run h fl j n"
  shows "verify_journal h fl (jn_file j) = Inr \<lparr>vr_ok = True, vr_checked = n, vr_error = None, vr_error_seq = None\<rparr>
    \<and> journal_resume h fl (jn_file j) = Inr j"
  by (rule written_journal_spec) fact+

theorem written_journal_verifies_witness:
  "\<exists>j. verify_journal sample_digest sample_float (jn_file j)
         = Inr \<lparr>vr_ok = True, vr_checked = 2, vr_error = None, vr_error_seq = None\<rparr>
       \<and> journal_resume sample_digest sample_float (jn_file j) = Inr j"
  using sample_run(2) written_journal_verifies [OF sample_digest_hex] by blast

text \<open>
  C28. An append to a journal in use goes through exactly when the payload and the task key
  serialise: every value in them is one JSON has, no number is NaN or infinite, no text holds a
  lone surrogate. The event type must be a known one, and the event number one the interpreter
  can print.
\<close>

theorem append_succeeds_exactly:
  assumes "hex_digest h" "journal_run h fl j n" "et \<in> set event_types"
    and "int_fits (int n)" "is_utf8 (jtext (JStr now))"
  shows "(\<exists>e j'. journal_append h now et payload task j = Inr (e, j'))
     = (dump_ok payload \<and> dump_ok task \<and> is_utf8 (jtext payload) \<and> is_utf8 (jtext task))"
proof -
  obtain es where "journal_of h fl j es" "length es = n" "es \<noteq> []"
    using journal_of_run [OF assms(1,2)] by blast
  with append_succeeds_spec [OF _ assms(1,3)] assms(4,5) show ?thesis by blast
qed

theorem append_succeeds_exactly_witness:
  "\<exists>j. (\<exists>e j'. journal_append sample_digest ''now'' ''task_done'' sample_payload JNull j = Inr (e, j'))
     \<and> \<not> (\<exists>e j'. journal_append sample_digest ''now'' ''task_done'' (JFloat ''nan'') JNull j = Inr (e, j'))"
proof -
  obtain j where j: "journal_run sample_digest sample_float j 1" using sample_run(1) by blast
  have "int_fits (int 1)" "is_utf8 (jtext (JStr ''now''))" "''task_done'' \<in> set event_types" by code_simp+
  note a = append_succeeds_exactly [OF sample_digest_hex j this(3,1,2)]
  have "dump_ok JNull" "is_utf8 (jtext JNull)" "\<not> dump_ok (JFloat ''nan'')" by code_simp+
  with sample_payload_ok a show ?thesis by (intro exI [of _ j]) (simp only: simp_thms)
qed




end
