(* ===== verification/Merge.thy ===== *)
theory Merge
  imports Plan Risk Json
begin

text \<open>
  The mechanical merge engine of pr mode: the review state and the merge of a pull request
  (\<^verbatim>\<open>pr.py\<close>), what a merge is authorised for (\<^verbatim>\<open>merge_authorization.py\<close>), the witness of the merged
  commit (\<^verbatim>\<open>merge_record.py\<close>) and the pass over the worklist (\<^verbatim>\<open>merge_engine.py\<close>). What git, gh, the
  file lock and other writers of the tasks file answer is a \<open>merge_world\<close>, one for every time the
  engine turns to a task, so the answers may change at will between two tasks. An exception that leaves an
  operation is a value of \<open>merge_exn\<close>. The parts of messages that only quote an interpreter's
  exception are left out.
\<close>

section \<open>Tools\<close>

datatype tool_run =
    ToolMissing
  | ToolTimedOut
  | ToolOSError string
  | ToolExited int string string      \<comment> \<open>exit code, standard output, standard error\<close>

datatype merge_exn =
    ClassifyRaised classify_exn
  | ToolRaised
  | ReviewsRaised
  | LockRaised
  | RowRaised
  | OrderRaised plan_error

definition first_text :: "string list \<Rightarrow> string" where
  \<comment> \<open>\<^verbatim>\<open>a or b or c\<close> of strings\<close>
  "first_text xs = (case find (\<lambda>x. x \<noteq> []) xs of None \<Rightarrow> [] | Some x \<Rightarrow> x)"

definition sha40 :: "string \<Rightarrow> bool" where
  "sha40 s = (length s = 40 \<and> list_all (\<lambda>c. c \<in> set ''0123456789abcdef'') s)"

section \<open>Opening a pull request\<close>

record pr_result =
  pr_url :: "string option"
  pr_error :: "string option"
  pr_number :: "int option"

definition url_tail :: "string \<Rightarrow> string" where
  \<comment> \<open>what follows the last slash, trailing slashes aside\<close>
  "url_tail url = rev (takeWhile (\<lambda>c. c \<noteq> CHR ''/'') (dropWhile (\<lambda>c. c = CHR ''/'') (rev url)))"

definition pr_number_from_url :: "string \<Rightarrow> merge_exn + int option" where
  \<comment> \<open>\<^verbatim>\<open>isdigit\<close> also accepts the superscripts one, two and three, which \<^verbatim>\<open>int\<close> refuses\<close>
  "pr_number_from_url url =
     (let t = url_tail url in
      if t = [] \<or> \<not> list_all (\<lambda>c. is_digit c \<or> c \<in> {CHR 0xB2, CHR 0xB3, CHR 0xB9}) t then Inr None
      else (case int_of_text t of None \<Rightarrow> Inl ToolRaised | Some n \<Rightarrow> Inr (Some n)))"

definition last_url :: "string \<Rightarrow> string" where
  "last_url out =
     (case find (\<lambda>l. starts_with l ''http'') (map py_strip (rev (py_splitlines out))) of
        None \<Rightarrow> [] | Some l \<Rightarrow> l)"

definition raise_pr :: "string \<Rightarrow> tool_run \<Rightarrow> merge_exn + pr_result" where
  "raise_pr gh_bin run =
     (let failed = (\<lambda>e. Inr \<lparr>pr_url = None, pr_error = Some e, pr_number = None\<rparr>) in
      case run of
        ToolMissing \<Rightarrow> failed (''gh binary not found: '' @ gh_bin)
      | ToolTimedOut \<Rightarrow> failed ''gh pr create timed out after 120s''
      | ToolOSError _ \<Rightarrow> Inl ToolRaised
      | ToolExited rc out err \<Rightarrow>
          if rc \<noteq> 0 then failed (first_text [py_strip err, py_strip out, ''unknown gh error''])
          else if last_url out = [] then failed ''gh returned no URL on stdout''
          else map_sum id (\<lambda>n. \<lparr>pr_url = Some (last_url out), pr_error = None, pr_number = n\<rparr>)
                 (pr_number_from_url (last_url out)))"

section \<open>Review state\<close>

record review_state =
  rs_approved :: bool
  rs_latest :: "(string \<times> string) list"
  rs_approver :: "string option"
  rs_oid :: "string option"
  rs_error :: "string option"

definition unread_review :: "string \<Rightarrow> review_state" where
  "unread_review e = \<lparr>rs_approved = False, rs_latest = [], rs_approver = None, rs_oid = None, rs_error = Some e\<rparr>"

definition json_truthy :: "jval \<Rightarrow> bool" where
  "json_truthy v = (case v of
       JNull \<Rightarrow> False | JBool b \<Rightarrow> b | JInt i \<Rightarrow> i \<noteq> 0 | JFloat t \<Rightarrow> t \<notin> {''0.0'', ''-0.0''}
     | JStr s \<Rightarrow> s \<noteq> [] | JList vs \<Rightarrow> vs \<noteq> [] | JObj d \<Rightarrow> d \<noteq> [] | JOther \<Rightarrow> True)"

definition json_get :: "(string \<times> jval) list \<Rightarrow> string \<Rightarrow> jval" where
  "json_get d k = (case map_of d k of None \<Rightarrow> JNull | Some v \<Rightarrow> v)"

definition upper_char :: "char \<Rightarrow> char" where
  "upper_char c = (if CHR ''a'' \<le> c \<and> c \<le> CHR ''z'' then char_of (of_char c - (32 :: nat)) else c)"

definition py_upper :: "string \<Rightarrow> string" where
  \<comment> \<open>of ASCII text; no other letter upper-cases into the two names the code compares with\<close>
  "py_upper s = map upper_char s"

definition json_word :: "jval \<Rightarrow> string" where
  \<comment> \<open>\<^verbatim>\<open>str(v or "")\<close>; of anything but a text only that it is none of the names compared with matters\<close>
  "json_word v = (if json_truthy v then (case v of JStr s \<Rightarrow> s | _ \<Rightarrow> jtext v) else [])"

definition review_login :: "(string \<times> jval) list \<Rightarrow> merge_exn + string" where
  \<comment> \<open>a list or a mapping cannot key the dictionary\<close>
  "review_login r =
     (case json_get r ''author'' of
        JObj a \<Rightarrow>
          (let v = json_get a ''login'' in
           if json_truthy v \<and> (case v of JList _ \<Rightarrow> True | JObj _ \<Rightarrow> True | _ \<Rightarrow> False) then Inl ReviewsRaised
           else Inr (json_word v))
      | _ \<Rightarrow> Inr [])"

definition review_oid :: "(string \<times> jval) list \<Rightarrow> string option" where
  "review_oid r =
     (case json_get r ''commit'' of
        JObj c \<Rightarrow> (case json_get c ''oid'' of JStr s \<Rightarrow> Some s | _ \<Rightarrow> None)
      | _ \<Rightarrow> None)"

type_synonym review_table = "(string \<times> string \<times> string option) list"

fun read_reviews :: "review_table \<Rightarrow> jval list \<Rightarrow> merge_exn + review_table" where
  \<comment> \<open>the dictionaries \<^verbatim>\<open>latest\<close> and \<^verbatim>\<open>latest_oid\<close>, which have the same keys\<close>
  "read_reviews tab [] = Inr tab"
| "read_reviews tab (v # vs) =
     (case v of
        JObj r \<Rightarrow>
          (let state = py_upper (json_word (json_get r ''state'')) in
           case review_login r of
             Inl e \<Rightarrow> if state = [] then read_reviews tab vs else Inl e
           | Inr login \<Rightarrow>
               if state = [] then read_reviews tab vs
               else read_reviews (obj_set tab login (state, review_oid r)) vs)
      | _ \<Rightarrow> read_reviews tab vs)"

definition review_verdict :: "review_table \<Rightarrow> review_state" where
  "review_verdict tab =
     (let states = set (map (fst \<circ> snd) tab);
          approved = (''APPROVED'' \<in> states \<and> ''CHANGES_REQUESTED'' \<notin> states);
          pick = (if approved then find (\<lambda>(login, st, oid). st = ''APPROVED'') tab else None)
      in \<lparr>rs_approved = approved, rs_latest = map (\<lambda>(login, st, oid). (login, st)) tab,
          rs_approver = map_option fst pick,
          rs_oid = (case pick of None \<Rightarrow> None | Some (login, st, oid) \<Rightarrow> oid), rs_error = None\<rparr>)"

definition review_items :: "jval \<Rightarrow> merge_exn + jval list" where
  \<comment> \<open>what the loop over a truthy value yields; only objects matter\<close>
  "review_items v =
     (if \<not> json_truthy v then Inr []
      else (case v of JList vs \<Rightarrow> Inr vs | JObj _ \<Rightarrow> Inr [] | JStr _ \<Rightarrow> Inr [] | _ \<Rightarrow> Inl ReviewsRaised))"

definition pr_review_state :: "(string \<Rightarrow> string) \<Rightarrow> string \<Rightarrow> tool_run \<Rightarrow> merge_exn + review_state" where
  "pr_review_state fl gh_bin run =
     (case run of
        ToolMissing \<Rightarrow> Inr (unread_review (''gh binary not found: '' @ gh_bin))
      | ToolTimedOut \<Rightarrow> Inr (unread_review ''gh pr view timed out after 60s'')
      | ToolOSError _ \<Rightarrow> Inl ToolRaised
      | ToolExited rc out err \<Rightarrow>
          if rc \<noteq> 0 then Inr (unread_review (first_text [py_strip err, py_strip out, ''unknown gh error'']))
          else (case loads fl (if out = [] then ''{}'' else out) of
              Inl BadJson \<Rightarrow> Inr (unread_review ''could not parse gh review JSON: '')
            | Inl IntTooLong \<Rightarrow> Inl ReviewsRaised
            | Inr (JObj d) \<Rightarrow>
                (case review_items (json_get d ''reviews'') of
                   Inl e \<Rightarrow> Inl e
                 | Inr vs \<Rightarrow> map_sum id review_verdict (read_reviews [] vs))
            | Inr _ \<Rightarrow> Inr (unread_review ''could not parse gh review JSON: '')))"

section \<open>Merging a pull request\<close>

record merge_result =
  mr_merged :: bool
  mr_conflict :: bool
  mr_error :: "string option"

definition conflict_markers :: "string list" where
  "conflict_markers = [''not mergeable'', ''not in a mergeable state'', ''merge conflict'', ''conflict'', ''is dirty'']"

definition merge_pr :: "string \<Rightarrow> tool_run \<Rightarrow> merge_exn + merge_result" where
  "merge_pr gh_bin run =
     (case run of
        ToolMissing \<Rightarrow> Inr \<lparr>mr_merged = False, mr_conflict = False, mr_error = Some (''gh binary not found: '' @ gh_bin)\<rparr>
      | ToolTimedOut \<Rightarrow> Inr \<lparr>mr_merged = False, mr_conflict = False, mr_error = Some ''gh pr merge timed out after 120s''\<rparr>
      | ToolOSError _ \<Rightarrow> Inl ToolRaised
      | ToolExited rc out err \<Rightarrow>
          if rc = 0 then Inr \<lparr>mr_merged = True, mr_conflict = False, mr_error = None\<rparr>
          else (let detail = first_text [py_strip err, py_strip out, ''gh pr merge exit '' @ int_text rc] in
            Inr \<lparr>mr_merged = False, mr_conflict = list_ex (contains (py_lower detail)) conflict_markers,
                 mr_error = Some (take 300 detail)\<rparr>))"

section \<open>What a merge is authorised for\<close>

datatype sha_source = LocalClassifiedTip | ExternalReviewCommit

record merge_auth =
  ma_number :: int
  ma_sha :: string
  ma_source :: sha_source

definition make_auth :: "int \<Rightarrow> string \<Rightarrow> sha_source \<Rightarrow> merge_auth option" where
  \<comment> \<open>the constructor's check\<close>
  "make_auth n s src = (if sha40 s then Some \<lparr>ma_number = n, ma_sha = s, ma_source = src\<rparr> else None)"

definition authorize_external :: "int \<Rightarrow> review_state \<Rightarrow> merge_auth option" where
  \<comment> \<open>None: \<^verbatim>\<open>AuthorizationUnavailable\<close>\<close>
  "authorize_external n rs =
     (if (case rs_error rs of None \<Rightarrow> False | Some e \<Rightarrow> e \<noteq> []) \<or> \<not> rs_approved rs then None
      else (case rs_oid rs of None \<Rightarrow> None | Some oid \<Rightarrow> make_auth n oid ExternalReviewCommit))"

definition authorize_self :: "int \<Rightarrow> tool_run \<Rightarrow> merge_auth option" where
  "authorize_self n run =
     (case run of
        ToolExited rc out err \<Rightarrow>
          if rc \<noteq> 0 then None else make_auth n (py_strip out) LocalClassifiedTip
      | _ \<Rightarrow> None)"

section \<open>The witness of the merged commit\<close>

datatype merge_witness = Observed string | Unavailable string

definition unavailable :: "string \<Rightarrow> merge_witness" where
  "unavailable detail = Unavailable (take 300 detail)"

definition witness_merged_sha :: "(string \<Rightarrow> string) \<Rightarrow> string \<Rightarrow> tool_run \<Rightarrow> merge_witness" where
  "witness_merged_sha fl gh_bin run =
     (case run of
        ToolMissing \<Rightarrow> unavailable (''gh binary not found: '' @ gh_bin)
      | ToolTimedOut \<Rightarrow> unavailable ''gh pr view timed out after 60s''
      | ToolOSError e \<Rightarrow> unavailable (''gh could not be executed: '' @ e)
      | ToolExited rc out err \<Rightarrow>
          if rc \<noteq> 0
          then unavailable (''gh pr view failed: '' @ first_text [py_strip err, py_strip out, ''exit '' @ int_text rc])
          else (case loads fl (if out = [] then ''{}'' else out) of
              Inl BadJson \<Rightarrow> unavailable ''could not parse gh mergeCommit JSON: ''
            | Inl IntTooLong \<Rightarrow> unavailable ''unexpected ValueError reading origin's answer: ''
            | Inr (JObj d) \<Rightarrow>
                (case map_of d ''mergeCommit'' of
                   None \<Rightarrow> unavailable ''no mergeCommit in gh answer''
                 | Some JNull \<Rightarrow> unavailable ''mergeCommit is null in gh answer (origin does not record this PR as merged)''
                 | Some (JObj m) \<Rightarrow>
                     (case json_get m ''oid'' of
                        JStr s \<Rightarrow> if sha40 s then Observed s else unavailable ''mergeCommit oid is not a 40-hex SHA: ''
                      | _ \<Rightarrow> unavailable ''mergeCommit oid is not a 40-hex SHA: '')
                 | Some _ \<Rightarrow> unavailable ''mergeCommit oid is not a 40-hex SHA: '')
            | Inr _ \<Rightarrow> unavailable ''no mergeCommit in gh answer''))"

definition witness_fields :: "merge_witness \<Rightarrow> row" where
  "witness_fields w =
     (case w of
        Observed s \<Rightarrow> [(''merged_sha'', PStr s), (''merged_sha_source'', PStr ''origin_pr_merge_commit''),
                       (''merged_sha_state'', PStr ''observed'')]
      | Unavailable d \<Rightarrow> [(''merged_sha_state'', PStr ''unavailable''), (''merged_sha_detail'', PStr d)])"

section \<open>The engine\<close>

definition dispatcher_approver :: string where "dispatcher_approver = ''dispatcher-agent''"

record merge_cfg =
  mc_feature :: string
  mc_gh :: string
  mc_risk :: risk_config
  mc_float :: "string \<Rightarrow> string"

record merge_world =
  mw_self :: "string \<Rightarrow> tool_run"            \<comment> \<open>\<^verbatim>\<open>git rev-parse\<close> of a branch\<close>
  mw_view :: git_view
  mw_strict :: "string \<Rightarrow> unit + classification option"
  mw_reviews :: "int \<Rightarrow> tool_run"
  mw_merge :: "int \<Rightarrow> string \<Rightarrow> tool_run"    \<comment> \<open>\<^verbatim>\<open>gh pr merge\<close>, pinned to a commit\<close>
  mw_fetch :: tool_run
  mw_commit :: "int \<Rightarrow> tool_run"
  mw_lock :: bool                              \<comment> \<open>whether the file lock is obtained\<close>
  mw_edit :: "pyval \<Rightarrow> pyval"                \<comment> \<open>what other writers made of the file since\<close>
  mw_now :: string

datatype notice = AwaitsApproval | NeedsRebase

datatype merge_event =
    EvApproved string int string risk_verdict merge_auth
  | EvMerged string int string merge_witness
  | EvMergeFailed string "int option" bool
  | EvNotified string notice

record merge_state =
  ms_doc :: pyval
  ms_approval :: "string list"
  ms_rebase :: "string list"
  ms_events :: "merge_event list"

datatype outcome = Landed | HeldForApproval | HeldForRebase | Unactionable

definition emit :: "merge_event \<Rightarrow> merge_state \<Rightarrow> merge_state" where
  "emit ev s = s\<lparr>ms_events := ms_events s @ [ev]\<rparr>"

definition notify_approval :: "string \<Rightarrow> merge_state \<Rightarrow> merge_state" where
  "notify_approval k s =
     (if k \<in> set (ms_approval s) then s
      else (emit (EvNotified k AwaitsApproval) s)\<lparr>ms_approval := k # ms_approval s\<rparr>)"

definition notify_rebase :: "string \<Rightarrow> merge_state \<Rightarrow> merge_state" where
  "notify_rebase k s =
     (if k \<in> set (ms_rebase s) then s
      else (emit (EvNotified k NeedsRebase) s)\<lparr>ms_rebase := k # ms_rebase s\<rparr>)"

fun mutate_rows :: "string \<Rightarrow> (row \<Rightarrow> row) \<Rightarrow> pyval list \<Rightarrow> merge_exn + pyval list" where
  \<comment> \<open>the first row with the key; a row before it that is no mapping raises\<close>
  "mutate_rows k f [] = Inr []"
| "mutate_rows k f (v # vs) =
     (case v of
        PDict r \<Rightarrow> if py_str (row_get r ''key'') = k then Inr (PDict (f r) # vs)
          else map_sum id ((#) v) (mutate_rows k f vs)
      | _ \<Rightarrow> Inl RowRaised)"

definition mutate_doc :: "string \<Rightarrow> (row \<Rightarrow> row) \<Rightarrow> pyval \<Rightarrow> merge_exn + pyval" where
  "mutate_doc k f d =
     (case d of
        PDict r \<Rightarrow>
          (case (case map_of r ''tasks'' of None \<Rightarrow> Inr [] | Some v \<Rightarrow> iter_values v) of
             Inl _ \<Rightarrow> Inl RowRaised
           | Inr vs \<Rightarrow>
               (case mutate_rows k f vs of
                  Inl e \<Rightarrow> Inl e
                | Inr vs' \<Rightarrow> Inr (if vs' = vs then d else PDict (row_set r ''tasks'' (PList vs')))))
      | _ \<Rightarrow> Inl RowRaised)"

definition mutate_row :: "merge_world \<Rightarrow> string \<Rightarrow> (row \<Rightarrow> row) \<Rightarrow> merge_state \<Rightarrow> (merge_exn + unit) \<times> merge_state" where
  "mutate_row w k f s =
     (let s' = s\<lparr>ms_doc := mw_edit w (ms_doc s)\<rparr> in
      if \<not> mw_lock w then (Inl LockRaised, s')
      else (case mutate_doc k f (ms_doc s') of
          Inl e \<Rightarrow> (Inl e, s')
        | Inr d \<Rightarrow> (Inr (), s'\<lparr>ms_doc := d\<rparr>)))"

definition apply_merged :: "string \<Rightarrow> string \<Rightarrow> merge_witness \<Rightarrow> row \<Rightarrow> row" where
  "apply_merged now approver wit r =
     (let r1 = row_set (row_set (row_set (row_set r ''status'' (PStr MERGED)) ''merged_at'' (PStr now))
                 ''pr_approved_by'' (PStr approver)) ''merged_by'' (PStr dispatcher_approver);
          r2 = row_pop (row_pop (row_pop (row_pop r1 ''merged_sha'') ''merged_sha_source'') ''merged_sha_state'')
                 ''merged_sha_detail''
      in row_pop (row_pop (row_update r2 (witness_fields wit)) ''needs_rebase'') ''merge_error'')"

datatype approval = Approved string merge_auth | NotApproved | NoCommit

definition ladder :: "merge_cfg \<Rightarrow> merge_world \<Rightarrow> int \<Rightarrow> merge_auth \<Rightarrow> risk_verdict \<Rightarrow> merge_exn + approval" where
  "ladder cfg w n auth v =
     (if level v = Low then Inr (Approved dispatcher_approver auth)
      else (case pr_review_state (mc_float cfg) (mc_gh cfg) (mw_reviews w n) of
          Inl e \<Rightarrow> Inl e
        | Inr rs \<Rightarrow>
            if \<not> rs_approved rs then Inr NotApproved
            else (case authorize_external n rs of
                None \<Rightarrow> Inr NoCommit
              | Some a \<Rightarrow> Inr (Approved (case rs_approver rs of
                    None \<Rightarrow> ''external''
                  | Some who \<Rightarrow> if who = [] then ''external'' else ''external:'' @ who) a))))"

definition failed_mark :: "merge_result \<Rightarrow> row \<Rightarrow> row" where
  "failed_mark m r =
     (if mr_conflict m then row_set r ''needs_rebase'' (PBool True)
      else row_set r ''merge_error'' (PStr (take 300 (case mr_error m of
             None \<Rightarrow> ''gh pr merge failed'' | Some e \<Rightarrow> if e = [] then ''gh pr merge failed'' else e))))"

definition land :: "merge_cfg \<Rightarrow> merge_world \<Rightarrow> string \<Rightarrow> int \<Rightarrow> string \<Rightarrow> merge_auth \<Rightarrow> merge_state
    \<Rightarrow> (merge_exn + outcome) \<times> merge_state" where
  "land cfg w k n who a s =
     (case merge_pr (mc_gh cfg) (mw_merge w n (ma_sha a)) of
        Inl e \<Rightarrow> (Inl e, s)
      | Inr m \<Rightarrow>
          if mr_merged m then
            (if mw_fetch w = ToolTimedOut then (Inl ToolRaised, s)
             else (let wit = witness_merged_sha (mc_float cfg) (mc_gh cfg) (mw_commit w n) in
               case mutate_row w k (apply_merged (mw_now w) who wit) s of
                 (Inl e, s') \<Rightarrow> (Inl e, s')
               | (Inr _, s') \<Rightarrow> (Inr Landed, emit (EvMerged k n who wit) s')))
          else
            (case mutate_row w k (failed_mark m) s of
                 (Inl e, s') \<Rightarrow> (Inl e, s')
               | (Inr _, s') \<Rightarrow>
                   (Inr HeldForRebase, notify_rebase k (emit (EvMergeFailed k (Some n) (mr_conflict m)) s'))))"

definition usable_number :: "row \<Rightarrow> int option" where
  "usable_number r = (let v = row_get r ''pr_number'' in if v = PNone then None else py_int v)"

definition consider_one :: "merge_cfg \<Rightarrow> merge_world \<Rightarrow> task \<Rightarrow> merge_state \<Rightarrow> (merge_exn + outcome) \<times> merge_state" where
  "consider_one cfg w t s =
     (let r = t_raw t; k = t_key t; branch = row_get r ''branch'' in
      case usable_number r of
        None \<Rightarrow> (Inr Unactionable, emit (EvMergeFailed k None False) s)
      | Some n \<Rightarrow>
          if \<not> truthy branch then (Inr Unactionable, emit (EvMergeFailed k None False) s)
          else (case authorize_self n (mw_self w (py_str branch)) of
              None \<Rightarrow> (Inr Unactionable, emit (EvMergeFailed k (Some n) False) s)
            | Some auth \<Rightarrow>
                (case risk_classify r (mw_view w) (mw_strict w) (mc_risk cfg) (mc_feature cfg) (ma_sha auth) of
                   Inl e \<Rightarrow> (Inl (ClassifyRaised e), s)
                 | Inr v \<Rightarrow>
                     (case ladder cfg w n auth v of
                        Inl e \<Rightarrow> (Inl e, s)
                      | Inr NotApproved \<Rightarrow> (Inr HeldForApproval, notify_approval k s)
                      | Inr NoCommit \<Rightarrow> (Inr HeldForApproval, emit (EvMergeFailed k (Some n) False) s)
                      | Inr (Approved who a) \<Rightarrow> land cfg w k n who a (emit (EvApproved k n who v a) s)))))"

record merge_pass =
  ps_state :: merge_state
  ps_skip :: "string list"
  ps_merged :: "string list"
  ps_awaiting :: "string list"
  ps_rebase :: "string list"
  ps_unactionable :: "string list"

definition record_outcome :: "outcome \<Rightarrow> string \<Rightarrow> merge_pass \<Rightarrow> merge_pass" where
  "record_outcome oc k p =
     (case oc of
        Landed \<Rightarrow> p\<lparr>ps_merged := ps_merged p @ [k]\<rparr>
      | HeldForApproval \<Rightarrow> p\<lparr>ps_skip := k # ps_skip p, ps_awaiting := ps_awaiting p @ [k]\<rparr>
      | HeldForRebase \<Rightarrow> p\<lparr>ps_skip := k # ps_skip p, ps_rebase := ps_rebase p @ [k]\<rparr>
      | Unactionable \<Rightarrow> p\<lparr>ps_skip := k # ps_skip p, ps_unactionable := ps_unactionable p @ [k]\<rparr>)"

definition load_for_merge :: "merge_world \<Rightarrow> pyval \<Rightarrow> task list" where
  "load_for_merge w d = (if mw_lock w then (case load_tasks d of Inl _ \<Rightarrow> [] | Inr ts \<Rightarrow> ts) else [])"

fun consider_all :: "merge_cfg \<Rightarrow> (nat \<Rightarrow> merge_world) \<Rightarrow> nat \<Rightarrow> task list \<Rightarrow> bool \<Rightarrow> merge_pass
    \<Rightarrow> merge_exn option \<times> nat \<times> bool \<times> merge_pass" where
  "consider_all cfg W n [] prog p = (None, n, prog, p)"
| "consider_all cfg W n (t # ts) prog p =
     (case consider_one cfg (W n) t (ps_state p) of
        (Inl e, s) \<Rightarrow> (Some e, Suc n, prog, p\<lparr>ps_state := s\<rparr>)
      | (Inr oc, s) \<Rightarrow>
          consider_all cfg W (Suc n) ts (prog \<or> oc = Landed) (record_outcome oc (t_key t) (p\<lparr>ps_state := s\<rparr>)))"

definition pass_candidates :: "merge_world \<Rightarrow> merge_pass \<Rightarrow> merge_exn + task list" where
  \<comment> \<open>of the file as it stands in \<open>p\<close>\<close>
  "pass_candidates w p =
     (case mergeable_now (load_for_merge w (ms_doc (ps_state p))) of
        Inl e \<Rightarrow> Inl (OrderRaised e)
      | Inr ts \<Rightarrow> Inr (filter (\<lambda>t. t_key t \<notin> set (ps_skip p) \<and> t_key t \<notin> set (ms_rebase (ps_state p))) ts))"

definition see_edits :: "merge_world \<Rightarrow> merge_pass \<Rightarrow> merge_pass" where
  "see_edits w p = p\<lparr>ps_state := (ps_state p)\<lparr>ms_doc := mw_edit w (ms_doc (ps_state p))\<rparr>\<rparr>"

fun merge_loop :: "nat \<Rightarrow> merge_cfg \<Rightarrow> (nat \<Rightarrow> merge_world) \<Rightarrow> nat \<Rightarrow> merge_pass \<Rightarrow> (merge_exn option \<times> merge_pass) option" where
  \<comment> \<open>None: the rounds allowed are used up\<close>
  "merge_loop 0 cfg W n p = None"
| "merge_loop (Suc fuel) cfg W n p =
     (let q = see_edits (W n) p in
      case pass_candidates (W n) q of
        Inl e \<Rightarrow> Some (Some e, q)
      | Inr [] \<Rightarrow> Some (None, q)
      | Inr ts \<Rightarrow>
          (case consider_all cfg W (Suc n) ts False q of
             (Some e, _, _, q') \<Rightarrow> Some (Some e, q')
           | (None, n', prog, q') \<Rightarrow> if prog then merge_loop fuel cfg W n' q' else Some (None, q')))"

definition start_pass :: "merge_state \<Rightarrow> merge_pass" where
  "start_pass s = \<lparr>ps_state = s, ps_skip = [], ps_merged = [], ps_awaiting = [], ps_rebase = [], ps_unactionable = []\<rparr>"

definition merge_pass_run :: "nat \<Rightarrow> merge_cfg \<Rightarrow> (nat \<Rightarrow> merge_world) \<Rightarrow> merge_state \<Rightarrow> (merge_exn option \<times> merge_pass) option" where
  "merge_pass_run fuel cfg W s = merge_loop fuel cfg W 0 (start_pass s)"

end
