(* ===== verification/MergePass.thy ===== *)
theory MergePass
  imports Merge
begin

text \<open>
  What the merge engine of \<^verbatim>\<open>Merge\<close> guarantees: a task it merged was authorised, for exactly the
  commit origin was asked to merge, with its dependencies merged before; a pass ends; the reading
  of the reviews; and the merge that leaves no record.
\<close>

section \<open>A merge that landed\<close>

definition merge_authorised :: "merge_cfg \<Rightarrow> merge_world \<Rightarrow> row \<Rightarrow> int \<Rightarrow> string \<Rightarrow> string \<Rightarrow> bool" where
  \<comment> \<open>the ladder, read as a condition: pull request, commit, approver\<close>
  "merge_authorised cfg w r n sha who =
     (usable_number r = Some n \<and> truthy (row_get r ''branch'') \<and> sha40 sha
      \<and> (\<exists>out err v. mw_self w (py_str (row_get r ''branch'')) = ToolExited 0 out err \<and> sha40 (py_strip out)
          \<and> risk_classify r (mw_view w) (mw_strict w) (mc_risk cfg) (mc_feature cfg) (py_strip out) = Inr v
          \<and> (if level v = Low then sha = py_strip out \<and> who = dispatcher_approver
             else (\<exists>rs. pr_review_state (mc_float cfg) (mc_gh cfg) (mw_reviews w n) = Inr rs
                    \<and> rs_approved rs \<and> rs_oid rs = Some sha))))"

lemma make_auth_Some: "make_auth n s src = Some a \<longleftrightarrow> sha40 s \<and> a = \<lparr>ma_number = n, ma_sha = s, ma_source = src\<rparr>"
  by (auto simp: make_auth_def)

lemma authorize_self_Some:
  "authorize_self n run = Some a \<longleftrightarrow> (\<exists>out err. run = ToolExited 0 out err \<and> sha40 (py_strip out)
     \<and> a = \<lparr>ma_number = n, ma_sha = py_strip out, ma_source = LocalClassifiedTip\<rparr>)"
  by (auto simp: authorize_self_def make_auth_Some split: tool_run.splits)

lemma authorize_external_Some:
  "authorize_external n rs = Some a \<Longrightarrow> rs_approved rs \<and> rs_oid rs = Some (ma_sha a) \<and> sha40 (ma_sha a)"
  by (auto simp: authorize_external_def make_auth_Some split: if_splits option.splits)

lemma merge_pr_merged: "merge_pr gh run = Inr m \<Longrightarrow> mr_merged m \<Longrightarrow> \<exists>out err. run = ToolExited 0 out err"
  by (auto simp: merge_pr_def Let_def split: tool_run.splits if_splits)

lemma mutate_row_events: "mutate_row w k f s = (x, s') \<Longrightarrow> ms_events s' = ms_events s \<and> ms_rebase s' = ms_rebase s \<and> ms_approval s' = ms_approval s"
  by (auto simp: mutate_row_def Let_def split: if_splits pyval.splits option.splits sum.splits)

lemma land_Landed:
  assumes "land cfg w k n who a s = (Inr Landed, s')"
  shows "\<exists>out err wit s1. mw_merge w n (ma_sha a) = ToolExited 0 out err
    \<and> mutate_row w k (apply_merged (mw_now w) who wit) s = (Inr (), s1) \<and> s' = emit (EvMerged k n who wit) s1"
proof -
  from assms obtain m where m: "merge_pr (mc_gh cfg) (mw_merge w n (ma_sha a)) = Inr m" "mr_merged m"
    by (auto simp: land_def Let_def split: sum.splits if_splits prod.splits)
  with assms have "\<exists>wit s1. mutate_row w k (apply_merged (mw_now w) who wit) s = (Inr (), s1) \<and> s' = emit (EvMerged k n who wit) s1"
    by (auto simp: land_def Let_def split: sum.splits if_splits prod.splits)
  with merge_pr_merged [OF m] show ?thesis by blast
qed

lemma ladder_Approved:
  assumes "ladder cfg w n auth v = Inr (Approved who a)" "sha40 (ma_sha auth)"
  shows "sha40 (ma_sha a) \<and> (if level v = Low then a = auth \<and> who = dispatcher_approver
    else (\<exists>rs. pr_review_state (mc_float cfg) (mc_gh cfg) (mw_reviews w n) = Inr rs
                    \<and> rs_approved rs \<and> rs_oid rs = Some (ma_sha a)))"
  using assms by (auto simp: ladder_def dest: authorize_external_Some split: if_splits sum.splits option.splits)

lemma consider_one_Landed:
  assumes "consider_one cfg w t s = (Inr Landed, s')"
  shows "\<exists>n v who a out err wit s1. merge_authorised cfg w (t_raw t) n (ma_sha a) who
    \<and> mw_merge w n (ma_sha a) = ToolExited 0 out err
    \<and> mutate_row w (t_key t) (apply_merged (mw_now w) who wit) (emit (EvApproved (t_key t) n who v a) s) = (Inr (), s1)
    \<and> s' = emit (EvMerged (t_key t) n who wit) s1"
proof -
  let ?r = "t_raw t"
  from assms obtain n where n: "usable_number ?r = Some n" "truthy (row_get ?r ''branch'')"
    by (auto simp: consider_one_def Let_def split: option.splits if_splits)
  from assms n obtain auth where auth: "authorize_self n (mw_self w (py_str (row_get ?r ''branch''))) = Some auth"
    by (auto simp: consider_one_def Let_def split: option.splits)
  from assms n auth obtain v where v: "risk_classify ?r (mw_view w) (mw_strict w) (mc_risk cfg) (mc_feature cfg) (ma_sha auth) = Inr v"
    by (auto simp: consider_one_def Let_def split: sum.splits)
  from assms n auth v obtain who a where a: "ladder cfg w n auth v = Inr (Approved who a)"
    and l: "land cfg w (t_key t) n who a (emit (EvApproved (t_key t) n who v a) s) = (Inr Landed, s')"
    by (auto simp: consider_one_def Let_def split: sum.splits approval.splits)
  from auth obtain out err where self: "mw_self w (py_str (row_get ?r ''branch'')) = ToolExited 0 out err" "sha40 (py_strip out)"
    "ma_sha auth = py_strip out" by (auto simp: authorize_self_Some)
  with ladder_Approved [OF a] have "merge_authorised cfg w ?r n (ma_sha a) who"
    unfolding merge_authorised_def using n v by (auto split: if_splits)
  with land_Landed [OF l] show ?thesis by blast
qed

section \<open>What a pass has merged\<close>

definition landed_from :: "merge_cfg \<Rightarrow> (nat \<Rightarrow> merge_world) \<Rightarrow> string \<Rightarrow> task list \<Rightarrow> bool" where
  \<comment> \<open>the key was considered, while it stood in \<open>ts\<close>, and merged under an authorisation for exactly
      the commit origin was asked to merge\<close>
  "landed_from cfg W k ts =
     (\<exists>m t n sha who out err. t \<in> set ts \<and> t_key t = k
        \<and> merge_authorised cfg (W m) (t_raw t) n sha who \<and> mw_merge (W m) n sha = ToolExited 0 out err)"

lemma landed_fromI:
  "merge_authorised cfg (W m) (t_raw t) n sha who \<Longrightarrow> mw_merge (W m) n sha = ToolExited 0 out err \<Longrightarrow>
   landed_from cfg W (t_key t) (t # ts)"
  unfolding landed_from_def by (simp only: list.set insert_iff) blast

lemma ps_merged_simps:
  "ps_merged (record_outcome oc k p) = ps_merged p @ (if oc = Landed then [k] else [])"
  by (cases oc) (simp_all add: record_outcome_def)

lemma consider_all_merged:
  "consider_all cfg W n ts prog p = (e, n', prog', q) \<Longrightarrow> k \<in> set (ps_merged q) \<Longrightarrow>
     k \<in> set (ps_merged p) \<or> landed_from cfg W k ts"
proof (induction cfg W n ts prog p rule: consider_all.induct)
  case (2 cfg W n t ts prog p)
  obtain x s where c: "consider_one cfg (W n) t (ps_state p) = (x, s)" by fastforce
  show ?case
  proof (cases x)
    case (Inl ex)
    with "2.prems" c show ?thesis by auto
  next
    case (Inr oc)
    from "2.IH" [OF c [symmetric] Inr] "2.prems" c Inr
    have "k \<in> set (ps_merged (record_outcome oc (t_key t) (p\<lparr>ps_state := s\<rparr>))) \<or> landed_from cfg W k ts" by auto
    moreover have "landed_from cfg W k (t # ts)" if "landed_from cfg W k ts"
      using that unfolding landed_from_def by (simp only: list.set insert_iff) blast
    moreover have "landed_from cfg W k (t # ts)" if "oc = Landed" "k = t_key t"
    proof -
      from consider_one_Landed [of cfg "W n" t "ps_state p" s] c Inr that(1)
      show ?thesis unfolding that(2) by (auto intro: landed_fromI)
    qed
    ultimately show ?thesis by (auto simp: ps_merged_simps split: if_splits)
  qed
qed simp

definition ready_to_merge :: "task list \<Rightarrow> task \<Rightarrow> bool" where
  "ready_to_merge ts t = (t \<in> set ts \<and> t_status t = AWAITING_REVIEW
     \<and> (\<forall>d \<in> set (t_blocked_by t). \<exists>dt. by_key ts d = Some dt \<and> is_merged dt))"

lemma pass_candidates_ready:
  assumes "pass_candidates w p = Inr cs"
  shows "\<exists>ts. (load_tasks (ms_doc (ps_state p)) = Inr ts \<or> ts = []) \<and> (\<forall>t \<in> set cs. ready_to_merge ts t)"
proof -
  let ?ts = "load_for_merge w (ms_doc (ps_state p))"
  have l: "load_tasks (ms_doc (ps_state p)) = Inr ?ts \<or> ?ts = []"
    by (auto simp: load_for_merge_def split: sum.splits)
  then have "closed_worklist ?ts" using load_tasks_spec [of "ms_doc (ps_state p)" ?ts]
    by (cases "?ts = []") (simp_all add: closed_worklist_def)
  from mergeable_now_selected [OF this] assms
  have "\<forall>t \<in> set cs. ready_to_merge ?ts t"
    by (auto simp: pass_candidates_def ready_to_merge_def merge_passes_def split: option.splits)
  with l show ?thesis by blast
qed

lemma merge_loop_merged:
  "merge_loop fuel cfg W n p = Some (e, q) \<Longrightarrow> k \<in> set (ps_merged q) \<Longrightarrow> k \<in> set (ps_merged p)
   \<or> (\<exists>d ts cs. load_tasks d = Inr ts \<and> (\<forall>t \<in> set cs. ready_to_merge ts t) \<and> landed_from cfg W k cs)"
proof (induction fuel arbitrary: n p)
  case (Suc fuel)
  define q0 where "q0 = see_edits (W n) p"
  have m0: "ps_merged q0 = ps_merged p" by (simp add: q0_def see_edits_def)
  show ?case
  proof (cases "pass_candidates (W n) q0")
    case (Inl x)
    with Suc.prems m0 show ?thesis by (auto simp: q0_def [symmetric] Let_def)
  next
    case (Inr cs)
    show ?thesis
    proof (cases "cs = []")
      case True
      with Inr Suc.prems m0 show ?thesis by (auto simp: q0_def [symmetric] Let_def)
    next
      case False
      obtain x n' prog q' where c: "consider_all cfg W (Suc n) cs False q0 = (x, n', prog, q')"
        by (metis prod_cases4)
      from False Inr Suc.prems c have "q = q' \<or> merge_loop fuel cfg W n' q' = Some (e, q)"
        by (auto simp: q0_def [symmetric] Let_def neq_Nil_conv split: option.splits if_splits)
      with Suc.IH Suc.prems(2) have "k \<in> set (ps_merged q') \<or> (\<exists>d ts cs. load_tasks d = Inr ts
          \<and> (\<forall>t \<in> set cs. ready_to_merge ts t) \<and> landed_from cfg W k cs)" by blast
      moreover have "k \<in> set (ps_merged p) \<or> (\<exists>d ts cs. load_tasks d = Inr ts
          \<and> (\<forall>t \<in> set cs. ready_to_merge ts t) \<and> landed_from cfg W k cs)" if "k \<in> set (ps_merged q')"
      proof -
        from pass_candidates_ready [OF Inr] obtain ts where ts: "load_tasks (ms_doc (ps_state q0)) = Inr ts \<or> ts = []"
          "\<forall>t \<in> set cs. ready_to_merge ts t" by blast
        with False have "ts \<noteq> []" by (cases cs) (auto simp: ready_to_merge_def)
        with ts consider_all_merged [OF c that] m0 show ?thesis by auto
      qed
      ultimately show ?thesis by blast
    qed
  qed
qed simp

section \<open>A pass ends\<close>

definition rows_of :: "pyval \<Rightarrow> pyval list" where
  "rows_of d = (case d of PDict r \<Rightarrow> (case map_of r ''tasks'' of Some (PList vs) \<Rightarrow> vs | _ \<Rightarrow> []) | _ \<Rightarrow> [])"

definition row_sig :: "pyval \<Rightarrow> (string \<times> string) option" where
  "row_sig v = (case v of PDict r \<Rightarrow> Some (py_str (row_get r ''key''), read_status r) | _ \<Rightarrow> None)"

definition waiting :: "(string \<times> string) option list \<Rightarrow> nat" where
  "waiting xs = length (filter (\<lambda>x. map_option snd x = Some AWAITING_REVIEW) xs)"

definition row_waits :: "string \<Rightarrow> (string \<times> string) option list \<Rightarrow> bool" where
  "row_waits k xs = (Some (k, AWAITING_REVIEW) \<in> set xs \<and> (\<forall>st. Some (k, st) \<in> set xs \<longrightarrow> st = AWAITING_REVIEW))"

lemma sig_apply_merged: "row_sig (PDict (apply_merged now who wit r)) = Some (py_str (row_get r ''key''), MERGED)"
  by (cases wit) (simp_all add: row_sig_def apply_merged_def Let_def row_update_def witness_fields_def read_status_def row_get_def)

lemma mutate_rows_keeps:
  assumes "\<And>r. row_sig (PDict (f r)) = row_sig (PDict r)"
  shows "mutate_rows k f vs = Inr vs' \<Longrightarrow> map row_sig vs' = map row_sig vs"
  by (induction vs arbitrary: vs') (auto simp: assms split: pyval.splits if_splits)

lemma mutate_rows_merged:
  "mutate_rows k (apply_merged now who wit) vs = Inr vs' \<Longrightarrow>
     waiting (map row_sig vs') \<le> waiting (map row_sig vs)
     \<and> (row_waits k (map row_sig vs) \<longrightarrow> waiting (map row_sig vs') < waiting (map row_sig vs))"
proof (induction vs arbitrary: vs')
  case (Cons v vs)
  then obtain r where v: "v = PDict r" by (auto split: pyval.splits)
  define st where "st = read_status r"
  have sv: "row_sig v = Some (py_str (row_get r ''key''), st)" by (simp add: v row_sig_def st_def)
  show ?case
  proof (cases "py_str (row_get r ''key'') = k")
    case True
    with Cons.prems v have "vs' = PDict (apply_merged now who wit r) # vs" by simp
    then have e: "map row_sig vs' = Some (k, MERGED) # map row_sig vs" by (simp add: sig_apply_merged True)
    show ?thesis unfolding e list.map sv True by (auto simp: waiting_def row_waits_def)
  next
    case False
    with Cons.prems v obtain us where us: "mutate_rows k (apply_merged now who wit) vs = Inr us" "vs' = v # us" by auto
    have "row_waits k (map row_sig (v # vs)) = row_waits k (map row_sig vs)"
      using False unfolding list.map sv by (auto simp: row_waits_def)
    with Cons.IH [OF us(1)] us(2) show ?thesis by (auto simp: waiting_def)
  qed
qed (simp add: row_waits_def)

abbreviation state_sigs :: "merge_state \<Rightarrow> (string \<times> string) option list" where
  "state_sigs s \<equiv> map row_sig (rows_of (ms_doc s))"

definition undisturbed :: "merge_world \<Rightarrow> bool" where
  \<comment> \<open>nobody else writes the file\<close>
  "undisturbed w = (\<forall>d. mw_edit w d = d)"

lemma mutate_rows_items: "\<forall>u \<in> set us. \<exists>x. u = PStr x \<Longrightarrow> mutate_rows k f us = Inr vs \<Longrightarrow> us = [] \<and> vs = []"
  by (cases us) auto

lemma mutate_doc_rows: "mutate_doc k f d = Inr d' \<Longrightarrow> mutate_rows k f (rows_of d) = Inr (rows_of d')"
proof -
  assume m: "mutate_doc k f d = Inr d'"
  then obtain r where r: "d = PDict r" by (cases d) (simp_all add: mutate_doc_def)
  show ?thesis
  proof (cases "map_of r ''tasks''")
    case None
    with m r have "d' = PDict r" by (simp add: mutate_doc_def)
    with None r show ?thesis by (simp add: rows_of_def)
  next
    case (Some v)
    with m r obtain vs vs' where i: "iter_values v = Inr vs" "mutate_rows k f vs = Inr vs'"
      "d' = (if vs' = vs then d else PDict (row_set r ''tasks'' (PList vs')))"
      by (auto simp: mutate_doc_def split: sum.splits)
    show ?thesis
    proof (cases "\<exists>us. v = PList us")
      case True
      with i Some r show ?thesis by (auto simp: iter_values_def rows_of_def)
    next
      case False
      with i(1) have "\<forall>u \<in> set vs. \<exists>x. u = PStr x" "rows_of d = []"
        by (cases v; auto simp: iter_values_def rows_of_def r Some)+
      with mutate_rows_items [OF _ i(2)] i(3) show ?thesis by simp
    qed
  qed
qed

lemma mutate_row_cases:
  assumes "mutate_row w k f s = (x, s')" "undisturbed w"
  obtains e where "x = Inl e" "s' = s"
    | "x = Inr ()" "mutate_rows k f (rows_of (ms_doc s)) = Inr (rows_of (ms_doc s'))"
  using assms
  by (auto simp: mutate_row_def undisturbed_def Let_def split: if_splits sum.splits dest: mutate_doc_rows)

lemma notify_docs [simp]:
  "ms_doc (emit ev s) = ms_doc s" "ms_doc (notify_approval k s) = ms_doc s" "ms_doc (notify_rebase k s) = ms_doc s"
  by (simp_all add: emit_def notify_approval_def notify_rebase_def)

lemma failed_mark_keeps:
  "row_sig (PDict (row_set r ''needs_rebase'' v)) = row_sig (PDict r)"
  "row_sig (PDict (row_set r ''merge_error'' v)) = row_sig (PDict r)"
  by (simp_all add: row_sig_def read_status_def)

lemma mutate_row_keeps:
  assumes "mutate_row w k f s = (x, s')" "undisturbed w" "\<And>r. row_sig (PDict (f r)) = row_sig (PDict r)"
  shows "state_sigs s' = state_sigs s"
  by (rule mutate_row_cases [OF assms(1,2)]) (simp_all add: mutate_rows_keeps [OF assms(3)])

lemma mutate_row_merged:
  assumes "mutate_row w k (apply_merged now who wit) s = (Inr (), s')" "undisturbed w"
  shows "waiting (state_sigs s') \<le> waiting (state_sigs s)
    \<and> (row_waits k (state_sigs s) \<longrightarrow> waiting (state_sigs s') < waiting (state_sigs s))"
  by (rule mutate_row_cases [OF assms]) (simp_all add: mutate_rows_merged)

lemma mutate_row_error: "mutate_row w k f s = (Inl e, s') \<Longrightarrow> undisturbed w \<Longrightarrow> s' = s"
  by (erule mutate_row_cases) simp_all

lemma land_docs:
  assumes "land cfg w k n who a s = (x, s')" "undisturbed w" "x \<noteq> Inr Landed"
  shows "state_sigs s' = state_sigs s"
proof -
  show ?thesis
  proof (cases "merge_pr (mc_gh cfg) (mw_merge w n (ma_sha a))")
    case (Inl e)
    with assms(1) show ?thesis by (simp add: land_def)
  next
    case (Inr m)
    show ?thesis
    proof (cases "mr_merged m")
      case True
      define wit where "wit = witness_merged_sha (mc_float cfg) (mc_gh cfg) (mw_commit w n)"
      obtain y s1 where y: "mutate_row w k (apply_merged (mw_now w) who wit) s = (y, s1)" by fastforce
      show ?thesis
      proof (cases y)
        case (Inl e)
        have "s' = s \<or> s' = s1"
          using assms(1) y unfolding land_def \<open>merge_pr _ _ = _\<close> Let_def wit_def [symmetric]
          by (cases "mw_fetch w = ToolTimedOut") (simp_all add: True Inl)
        with mutate_row_error [OF y [unfolded Inl] assms(2)] show ?thesis by auto
      next
        case (Inr u)
        with assms(1,3) \<open>merge_pr _ _ = _\<close> True y have "s' = s"
          by (simp add: land_def wit_def Let_def split: if_splits)
        then show ?thesis by simp
      qed
    next
      case False
      obtain y s1 where y: "mutate_row w k (failed_mark m) s = (y, s1)" by fastforce
      have k: "row_sig (PDict (failed_mark m r)) = row_sig (PDict r)" for r by (simp add: failed_mark_def failed_mark_keeps)
      have "ms_doc s' = ms_doc s1"
        using assms(1) Inr False y unfolding land_def by (cases y) auto
      with mutate_row_keeps [OF y assms(2) k] show ?thesis by simp
    qed
  qed
qed

lemma consider_one_docs:
  assumes "consider_one cfg w t s = (x, s')" "undisturbed w"
  shows "x \<noteq> Inr Landed \<Longrightarrow> state_sigs s' = state_sigs s"
    and "x = Inr Landed \<Longrightarrow> waiting (state_sigs s') \<le> waiting (state_sigs s)"
    and "x = Inr Landed \<Longrightarrow> row_waits (t_key t) (state_sigs s) \<Longrightarrow> waiting (state_sigs s') < waiting (state_sigs s)"
proof -
  assume x: "x \<noteq> Inr Landed"
  consider "ms_doc s' = ms_doc s" | n who a v where "land cfg w (t_key t) n who a (emit (EvApproved (t_key t) n who v a) s) = (x, s')"
    using assms(1)
    by (auto simp: consider_one_def Let_def split: option.splits sum.splits if_splits approval.splits)
  then show "state_sigs s' = state_sigs s"
  proof cases
    case 2
    from land_docs [OF 2 assms(2) x] show ?thesis by simp
  qed simp
next
  assume "x = Inr Landed"
  with consider_one_Landed [of cfg w t s s'] assms(1) obtain n v who a wit s1 where
    m: "mutate_row w (t_key t) (apply_merged (mw_now w) who wit) (emit (EvApproved (t_key t) n who v a) s) = (Inr (), s1)"
    "s' = emit (EvMerged (t_key t) n who wit) s1" by blast
  note mm = mutate_row_merged [OF m(1) assms(2)]
  from mm show "waiting (state_sigs s') \<le> waiting (state_sigs s)" by (simp add: m(2))
  from mm show "waiting (state_sigs s') < waiting (state_sigs s)" if "row_waits (t_key t) (state_sigs s)"
    using that by (simp add: m(2))
qed

lemma record_outcome_state [simp]: "ps_state (record_outcome oc k p) = ps_state p"
  by (cases oc) (simp_all add: record_outcome_def)

lemma consider_all_waiting:
  "consider_all cfg W n ts prog p = (None, n', prog', q) \<Longrightarrow> \<forall>m. undisturbed (W m) \<Longrightarrow>
     waiting (state_sigs (ps_state q)) \<le> waiting (state_sigs (ps_state p))
     \<and> (prog' \<and> \<not> prog \<and> (\<forall>t \<in> set ts. row_waits (t_key t) (state_sigs (ps_state p)))
        \<longrightarrow> waiting (state_sigs (ps_state q)) < waiting (state_sigs (ps_state p)))"
proof (induction cfg W n ts prog p rule: consider_all.induct)
  case (2 cfg W n t ts prog p)
  obtain oc s where c: "consider_one cfg (W n) t (ps_state p) = (Inr oc, s)"
    using "2.prems"(1) by (auto split: prod.splits sum.splits)
  let ?p = "record_outcome oc (t_key t) (p\<lparr>ps_state := s\<rparr>)"
  have u: "undisturbed (W n)" using "2.prems"(2) by blast
  note d = consider_one_docs [OF c u]
  from "2.prems"(1) c have a: "consider_all cfg W (Suc n) ts (prog \<or> oc = Landed) ?p = (None, n', prog', q)" by simp
  note ih = "2.IH" [OF c [symmetric] refl a "2.prems"(2)]
  show ?case
  proof (cases "oc = Landed")
    case True
    from ih d(2,3) True show ?thesis by auto
  next
    case False
    then have "state_sigs s = state_sigs (ps_state p)" using d(1) by simp
    with ih False show ?thesis by auto
  qed
qed simp

lemma parse_row_sig: "parse_row idx seen v = Inr t \<Longrightarrow> row_sig v = Some (t_key t, t_status t)"
proof -
  assume p: "parse_row idx seen v = Inr t"
  then obtain r where v: "v = PDict r" by (cases v) (auto simp: parse_row_def)
  with p have "t_key t = py_str (row_get r ''key'') \<and> t_status t = read_status r"
    by (auto simp: parse_row_def Let_def split: if_splits sum.splits)
  then show ?thesis by (simp add: v row_sig_def)
qed

lemma parse_rows_sigs:
  "parse_rows idx seen vs = Inr ts \<Longrightarrow> map row_sig vs = map (\<lambda>t. Some (t_key t, t_status t)) ts"
  by (induction vs arbitrary: idx seen ts) (auto dest: parse_row_sig split: sum.splits)

lemma load_sigs:
  assumes "load_tasks d = Inr ts" "ts \<noteq> []"
  shows "map row_sig (rows_of d) = map (\<lambda>t. Some (t_key t, t_status t)) ts"
proof -
  from assms obtain r vs where r: "d = PDict r" "map_of r ''tasks'' = Some (PList vs)" "parse_rows 0 [] vs = Inr ts"
    by (auto simp: load_tasks_def Let_def split: pyval.splits option.splits sum.splits if_splits)
  with parse_rows_sigs [OF r(3)] show ?thesis by (simp add: rows_of_def)
qed

lemma candidate_waits:
  assumes "pass_candidates w p = Inr cs" "t \<in> set cs"
  shows "row_waits (t_key t) (state_sigs (ps_state p))"
proof -
  from pass_candidates_ready [OF assms(1)] assms(2) obtain ts where
    ts: "load_tasks (ms_doc (ps_state p)) = Inr ts \<or> ts = []" "t \<in> set ts" "t_status t = AWAITING_REVIEW"
    by (auto simp: ready_to_merge_def)
  then have l: "load_tasks (ms_doc (ps_state p)) = Inr ts" "ts \<noteq> []" by auto
  from load_tasks_spec [OF l(1)] have "distinct (map t_key ts)" by blast
  with ts(2,3) show ?thesis
    unfolding load_sigs [OF l] row_waits_def by (auto simp: distinct_map dest: inj_onD)
qed

lemma see_edits_undisturbed: "undisturbed w \<Longrightarrow> see_edits w p = p"
  by (simp add: see_edits_def undisturbed_def)

lemma merge_loop_returns:
  "\<forall>m. undisturbed (W m) \<Longrightarrow> waiting (state_sigs (ps_state p)) < fuel \<Longrightarrow> \<exists>e q. merge_loop fuel cfg W n p = Some (e, q)"
proof (induction fuel arbitrary: n p)
  case (Suc fuel)
  have se: "see_edits (W n) p = p" using Suc.prems(1) see_edits_undisturbed by blast
  show ?case
  proof (cases "pass_candidates (W n) p")
    case (Inl x)
    then show ?thesis by (simp add: se Let_def)
  next
    case (Inr cs)
    show ?thesis
    proof (cases cs)
      case Nil
      with Inr show ?thesis by (simp add: se Let_def)
    next
      case (Cons t ts)
      obtain x n' prog q where c: "consider_all cfg W (Suc n) cs False p = (x, n', prog, q)"
        by (metis prod_cases4)
      show ?thesis
      proof (cases "x = None \<and> prog")
        case True
        from candidate_waits [OF Inr] consider_all_waiting [of cfg W "Suc n" cs False p n' prog q] c True Suc.prems(1)
        have "waiting (state_sigs (ps_state q)) < waiting (state_sigs (ps_state p))" by blast
        with Suc.prems(2) have "waiting (state_sigs (ps_state q)) < fuel" by linarith
        from Suc.IH [OF Suc.prems(1) this, of n'] c True Inr Cons show ?thesis by (auto simp: se Let_def)
      next
        case False
        with c Inr Cons show ?thesis by (cases x) (auto simp: se Let_def)
      qed
    qed
  qed
qed simp

section \<open>What the reviews say\<close>

definition review_entry :: "jval \<Rightarrow> (string \<times> string \<times> string option) option" where
  \<comment> \<open>the author, state and commit of a review that has a state\<close>
  "review_entry v =
     (case v of
        JObj r \<Rightarrow>
          (let st = py_upper (json_word (json_get r ''state'')) in
           if st = [] then None
           else (case review_login r of Inl _ \<Rightarrow> None | Inr login \<Rightarrow> Some (login, st, review_oid r)))
      | _ \<Rightarrow> None)"

definition final_reviews :: "jval list \<Rightarrow> string \<Rightarrow> (string \<times> string option) option" where
  \<comment> \<open>every author's last review\<close>
  "final_reviews vs = map_of (rev (List.map_filter review_entry vs))"

lemma map_of_obj_set: "map_of (obj_set tab k v) = (map_of tab)(k \<mapsto> v)"
  by (induction tab) (auto simp: fun_eq_iff)

lemma distinct_obj_set: "distinct (map fst tab) \<Longrightarrow> distinct (map fst (obj_set tab k v))"
proof (induction tab)
  case (Cons kv tab)
  have "fst ` set (obj_set tab k v) = insert k (fst ` set tab)" by (rule obj_set_keys)
  with Cons show ?case by (cases kv) auto
qed simp

lemma read_reviews_step:
  "read_reviews tab (v # vs) = Inr tab' \<Longrightarrow>
     read_reviews (case review_entry v of None \<Rightarrow> tab | Some (l, e) \<Rightarrow> obj_set tab l e) vs = Inr tab'"
  by (cases v) (auto simp: review_entry_def Let_def split: if_splits sum.splits)

lemma final_reviews_Cons:
  "final_reviews (v # vs) = (case review_entry v of None \<Rightarrow> Map.empty | Some (l, e) \<Rightarrow> [l \<mapsto> e]) ++ final_reviews vs"
  by (cases "review_entry v") (auto simp: final_reviews_def map_add_def fun_eq_iff split: option.splits)

lemma read_reviews_final:
  "read_reviews tab vs = Inr tab' \<Longrightarrow> distinct (map fst tab) \<Longrightarrow>
     distinct (map fst tab') \<and> map_of tab' = map_of tab ++ final_reviews vs"
proof (induction vs arbitrary: tab)
  case (Cons v vs)
  show ?case
  proof (cases "review_entry v")
    case None
    with Cons.IH [OF read_reviews_step [OF Cons.prems(1)]] Cons.prems(2) show ?thesis by (simp add: final_reviews_Cons)
  next
    case (Some le)
    obtain l e where le: "le = (l, e)" by (cases le)
    with Cons.IH [OF read_reviews_step [OF Cons.prems(1)]] Some distinct_obj_set [OF Cons.prems(2), of l e]
    show ?thesis by (simp add: final_reviews_Cons map_of_obj_set map_add_def fun_eq_iff split: option.splits)
  qed
qed (simp add: final_reviews_def)

lemma review_state_spec:
  assumes "read_reviews [] vs = Inr tab"
  shows "rs_approved (review_verdict tab) =
      ((\<exists>l oid. final_reviews vs l = Some (''APPROVED'', oid)) \<and> \<not> (\<exists>l oid. final_reviews vs l = Some (''CHANGES_REQUESTED'', oid)))"
    and "rs_approved (review_verdict tab) \<Longrightarrow>
      \<exists>l. rs_approver (review_verdict tab) = Some l \<and> final_reviews vs l = Some (''APPROVED'', rs_oid (review_verdict tab))"
proof -
  from read_reviews_final [OF assms] have d: "distinct (map fst tab)" "map_of tab = final_reviews vs" by auto
  have m: "(l, st, oid) \<in> set tab \<longleftrightarrow> final_reviews vs l = Some (st, oid)" for l st oid
    using d by (metis map_of_eq_Some_iff)
  have s: "st \<in> set (map (fst \<circ> snd) tab) \<longleftrightarrow> (\<exists>l oid. final_reviews vs l = Some (st, oid))" for st
    using m by force
  show a: "rs_approved (review_verdict tab) =
      ((\<exists>l oid. final_reviews vs l = Some (''APPROVED'', oid)) \<and> \<not> (\<exists>l oid. final_reviews vs l = Some (''CHANGES_REQUESTED'', oid)))"
    by (simp only: review_verdict_def Let_def review_state.simps s)
  assume ap: "rs_approved (review_verdict tab)"
  then obtain l oid where "(l, ''APPROVED'', oid) \<in> set tab" using a m by blast
  then have "find (\<lambda>(login, st, oid). st = ''APPROVED'') tab \<noteq> None"
    unfolding find_None_iff by blast
  then obtain x where x: "find (\<lambda>(login, st, oid). st = ''APPROVED'') tab = Some x" by auto
  then have "case x of (login, st, oid) \<Rightarrow> st = ''APPROVED''" by (auto simp: find_Some_iff)
  with x obtain l oid where f: "find (\<lambda>(login, st, oid). st = ''APPROVED'') tab = Some (l, ''APPROVED'', oid)"
    by (cases x) auto
  then have "(l, ''APPROVED'', oid) \<in> set tab" unfolding find_Some_iff by (metis nth_mem)
  with m f ap show "\<exists>l. rs_approver (review_verdict tab) = Some l
      \<and> final_reviews vs l = Some (''APPROVED'', rs_oid (review_verdict tab))"
    by (simp add: review_verdict_def Let_def)
qed

section \<open>A merge origin has made and the file does not show\<close>

lemma approved_means_read: "pr_review_state fl gh run = Inr rs \<Longrightarrow> rs_approved rs \<Longrightarrow> rs_error rs = None"
  by (auto simp: pr_review_state_def unread_review_def review_verdict_def Let_def
      split: tool_run.splits if_splits sum.splits json_error.splits jval.splits)

lemma authorised_lands:
  assumes "merge_authorised cfg w (t_raw t) n sha who"
  shows "\<exists>v a who'. ma_sha a = sha \<and> consider_one cfg w t s = land cfg w (t_key t) n who' a (emit (EvApproved (t_key t) n who' v a) s)"
proof -
  let ?r = "t_raw t"
  from assms obtain out err v where
    n: "usable_number ?r = Some n" "truthy (row_get ?r ''branch'')" "sha40 sha" and
    self: "mw_self w (py_str (row_get ?r ''branch'')) = ToolExited 0 out err" "sha40 (py_strip out)" and
    v: "risk_classify ?r (mw_view w) (mw_strict w) (mc_risk cfg) (mc_feature cfg) (py_strip out) = Inr v" and
    l: "if level v = Low then sha = py_strip out \<and> who = dispatcher_approver
        else (\<exists>rs. pr_review_state (mc_float cfg) (mc_gh cfg) (mw_reviews w n) = Inr rs \<and> rs_approved rs \<and> rs_oid rs = Some sha)"
    unfolding merge_authorised_def by blast
  let ?auth = "\<lparr>ma_number = n, ma_sha = py_strip out, ma_source = LocalClassifiedTip\<rparr>"
  have auth: "authorize_self n (mw_self w (py_str (row_get ?r ''branch''))) = Some ?auth"
    unfolding authorize_self_Some using self by blast
  have "\<exists>who' a. ladder cfg w n ?auth v = Inr (Approved who' a) \<and> ma_sha a = sha"
  proof (cases "level v = Low")
    case True
    with l show ?thesis by (simp add: ladder_def)
  next
    case False
    with l obtain rs where rs: "pr_review_state (mc_float cfg) (mc_gh cfg) (mw_reviews w n) = Inr rs" "rs_approved rs" "rs_oid rs = Some sha"
      by auto
    with n(3) have "authorize_external n rs = Some \<lparr>ma_number = n, ma_sha = sha, ma_source = ExternalReviewCommit\<rparr>"
      by (simp add: authorize_external_def make_auth_def approved_means_read [OF rs(1,2)])
    with rs False show ?thesis by (simp add: ladder_def)
  qed
  then obtain who' a where "ladder cfg w n ?auth v = Inr (Approved who' a)" "ma_sha a = sha" by blast
  with n auth v show ?thesis by (intro exI [of _ v] exI [of _ a] exI [of _ who']) (simp add: consider_one_def Let_def)
qed

lemma merge_authorised_lock: "merge_authorised cfg (w\<lparr>mw_lock := b\<rparr>) = merge_authorised cfg w"
proof -
  have "mw_self (w\<lparr>mw_lock := b\<rparr>) = mw_self w" "mw_view (w\<lparr>mw_lock := b\<rparr>) = mw_view w"
    "mw_strict (w\<lparr>mw_lock := b\<rparr>) = mw_strict w" "mw_reviews (w\<lparr>mw_lock := b\<rparr>) = mw_reviews w" by simp_all
  then show ?thesis by (intro ext) (simp only: merge_authorised_def)
qed

lemma unstamped_spec:
  assumes "merge_authorised cfg w (t_raw t) n sha who" "mw_merge w n sha = ToolExited 0 out err"
    and "mw_fetch w = ToolTimedOut \<or> \<not> mw_lock w"
  shows "\<exists>e s' ev. consider_one cfg w t s = (Inl e, s') \<and> ms_doc s' \<in> {ms_doc s, mw_edit w (ms_doc s)}
    \<and> ms_events s' = ms_events s @ [ev] \<and> \<not> (\<exists>k i ap wit. ev = EvMerged k i ap wit)"
proof -
  from authorised_lands [OF assms(1)] obtain v a who' where a: "ma_sha a = sha"
    "consider_one cfg w t s = land cfg w (t_key t) n who' a (emit (EvApproved (t_key t) n who' v a) s)" by blast
  have m: "merge_pr (mc_gh cfg) (mw_merge w n (ma_sha a)) = Inr \<lparr>mr_merged = True, mr_conflict = False, mr_error = None\<rparr>"
    by (simp add: a(1) assms(2) merge_pr_def)
  show ?thesis
    unfolding a(2) using assms(3)
    by (cases "mw_fetch w = ToolTimedOut") (simp_all add: land_def m mutate_row_def Let_def emit_def)
qed

lemma comment_lifts_changes_requested:
  "map_sum id (rs_approved \<circ> review_verdict) (read_reviews []
     [JObj [(''author'', JObj [(''login'', JStr ''ann'')]), (''state'', JStr ''CHANGES_REQUESTED'')],
      JObj [(''author'', JObj [(''login'', JStr ''bob'')]), (''state'', JStr ''APPROVED'')],
      JObj [(''author'', JObj [(''login'', JStr ''ann'')]), (''state'', JStr ''COMMENTED'')]]) = Inr True"
  by code_simp

lemma witness_wellformed:
  "witness_merged_sha fl gh run = Observed s \<Longrightarrow> sha40 s"
  "witness_merged_sha fl gh run = Unavailable d \<Longrightarrow> d \<noteq> [] \<and> length d \<le> 300"
  by (auto simp: witness_merged_sha_def unavailable_def
      split: tool_run.splits if_splits sum.splits json_error.splits jval.splits option.splits)

section \<open>Properties\<close>

definition sample_row :: "string \<Rightarrow> string list \<Rightarrow> pyval" where
  "sample_row k deps = PDict [(''key'', PStr k), (''summary'', PStr ''s''), (''description'', PStr ''d''),
     (''type'', PStr ''task''), (''labels'', PList [PStr ''size:S'']), (''status'', PStr AWAITING_REVIEW),
     (''blockedBy'', PList (map PStr deps)), (''verified'', PBool True), (''verification_iterations'', PInt 0),
     (''branch'', PStr (''b'' @ k)), (''pr_number'', PInt 7)]"

definition sample_doc :: pyval where
  "sample_doc = PDict [(''tasks'', PList [sample_row ''B'' [''A''], sample_row ''A'' []])]"

definition sample_sha :: string where
  "sample_sha = replicate 40 (CHR ''a'')"

definition sample_world :: merge_world where
  "sample_world = \<lparr>mw_self = (\<lambda>_. ToolExited 0 (sample_sha @ [CHR 10]) []), mw_view = example_git,
     mw_strict = (\<lambda>_. Inr None), mw_reviews = (\<lambda>_. ToolMissing), mw_merge = (\<lambda>_ _. ToolExited 0 [] []),
     mw_fetch = ToolMissing, mw_commit = (\<lambda>_. ToolTimedOut), mw_lock = True, mw_edit = (\<lambda>d. d), mw_now = ''now''\<rparr>"

definition sample_cfg :: merge_cfg where
  "sample_cfg = \<lparr>mc_feature = ''f'', mc_gh = ''gh'', mc_risk = default_risk_config, mc_float = (\<lambda>t. t)\<rparr>"

definition sample_state :: merge_state where
  "sample_state = \<lparr>ms_doc = sample_doc, ms_approval = [], ms_rebase = [], ms_events = []\<rparr>"

lemma sample_pass:
  "\<exists>q. merge_pass_run 3 sample_cfg (\<lambda>_. sample_world) sample_state = Some (None, q) \<and> ps_merged q = [''A'', ''B'']"
proof -
  have "case merge_pass_run 3 sample_cfg (\<lambda>_. sample_world) sample_state of None \<Rightarrow> False
    | Some (e, q) \<Rightarrow> e = None \<and> ps_merged q = [''A'', ''B'']" by code_simp
  then show ?thesis by (auto split: option.splits)
qed



text \<open>
  C24. When nobody else writes the tasks file, a merge pass ends: one round more than there are
  rows in Awaiting Review is enough, whatever the tools answer.
\<close>

theorem merge_pass_returns:
  assumes "\<forall>m. undisturbed (W m)" "waiting (map row_sig (rows_of (ms_doc s))) < fuel"
  shows "\<exists>e q. merge_pass_run fuel cfg W s = Some (e, q)"
  unfolding merge_pass_run_def by (rule merge_loop_returns) (use assms in \<open>simp_all add: start_pass_def\<close>)

theorem merge_pass_returns_witness:
  "\<exists>e q. merge_pass_run 3 sample_cfg (\<lambda>_. sample_world) sample_state = Some (e, q)"
proof (rule merge_pass_returns)
  have "waiting (map row_sig (rows_of (ms_doc sample_state))) = 2" by code_simp
  then show "waiting (map row_sig (rows_of (ms_doc sample_state))) < 3" by simp
qed (simp add: undisturbed_def sample_world_def)

text \<open>
  The reviews approve a pull request exactly when some author's last review with a state is
  an approval and no author's is a request for changes; then the approver named is such an author
  and the commit named is the one that author's last review names.
\<close>

theorem reviews_approve_exactly:
  assumes "read_reviews [] vs = Inr tab"
  shows "rs_approved (review_verdict tab) =
      ((\<exists>l oid. final_reviews vs l = Some (''APPROVED'', oid)) \<and> \<not> (\<exists>l oid. final_reviews vs l = Some (''CHANGES_REQUESTED'', oid)))
    \<and> (rs_approved (review_verdict tab) \<longrightarrow>
      (\<exists>l. rs_approver (review_verdict tab) = Some l \<and> final_reviews vs l = Some (''APPROVED'', rs_oid (review_verdict tab))))"
  using review_state_spec [OF assms] by blast

theorem reviews_approve_exactly_witness:
  "\<exists>tab l. read_reviews [] [JObj [(''author'', JObj [(''login'', JStr ''bob'')]), (''state'', JStr ''approved'')]] = Inr tab
     \<and> rs_approver (review_verdict tab) = Some l"
proof -
  let ?vs = "[JObj [(''author'', JObj [(''login'', JStr ''bob'')]), (''state'', JStr ''approved'')]]"
  have "read_reviews [] ?vs = Inr [(''bob'', ''APPROVED'', None)]" by code_simp
  moreover from this have "rs_approved (review_verdict [(''bob'', ''APPROVED'', None)])" by (simp add: review_verdict_def)
  ultimately show ?thesis using reviews_approve_exactly [of ?vs] by blast
qed

text \<open>
  A merge origin has accepted may leave no record: when the local fetch after it times out or
  the file lock is not obtained, turning to the task raises, the row keeps what it held, and no
  event says the pull request was merged.
\<close>

theorem landed_merge_unrecorded:
  assumes "merge_authorised cfg w (t_raw t) n sha who" "mw_merge w n sha = ToolExited 0 out err"
    and "mw_fetch w = ToolTimedOut \<or> \<not> mw_lock w"
  shows "\<exists>e s' ev. consider_one cfg w t s = (Inl e, s') \<and> ms_doc s' \<in> {ms_doc s, mw_edit w (ms_doc s)}
    \<and> ms_events s' = ms_events s @ [ev] \<and> \<not> (\<exists>k i ap wit. ev = EvMerged k i ap wit)"
  by (rule unstamped_spec [OF assms])

theorem landed_merge_unrecorded_witness:
  "\<exists>t e s'. consider_one sample_cfg (sample_world\<lparr>mw_lock := False\<rparr>) t sample_state = (Inl e, s')
     \<and> ms_doc s' = sample_doc"
proof -
  from sample_pass obtain q where q: "merge_pass_run 3 sample_cfg (\<lambda>_. sample_world) sample_state = Some (None, q)"
    "ps_merged q = [''A'', ''B'']" by blast
  from merge_loop_merged [OF q(1) [unfolded merge_pass_run_def], of "''B''"] q(2) obtain cs where
    "landed_from sample_cfg (\<lambda>_. sample_world) ''B'' cs" by (auto simp: start_pass_def)
  then obtain t :: task and n sha who out err where "merge_authorised sample_cfg sample_world (t_raw t) n sha who"
    "mw_merge sample_world n sha = ToolExited 0 out err" unfolding landed_from_def by blast
  then have "merge_authorised sample_cfg (sample_world\<lparr>mw_lock := False\<rparr>) (t_raw t) n sha who"
    "mw_merge (sample_world\<lparr>mw_lock := False\<rparr>) n sha = ToolExited 0 out err"
    by (simp_all only: merge_authorised_lock) simp
  from landed_merge_unrecorded [OF this, of sample_state] show ?thesis
    by (auto simp: sample_state_def sample_world_def)
qed

end
