(* ===== verification/Regex.thy ===== *)
theory Regex
  imports Prelude
begin

text \<open>
  The part of Python's \<^verbatim>\<open>re\<close> that the dispatcher's readers of provider and agent output use: a
  backtracking matcher that returns every way to match in the order \<^verbatim>\<open>re\<close> tries them, so the
  first one is the match, and the relation it decides. A position is the pair of the text before it,
  reversed, and the text after it. The body of a repetition never matches the empty text.
\<close>

section \<open>Patterns\<close>

datatype rx =
    RClass "char \<Rightarrow> bool"            \<comment> \<open>one character of a class\<close>
  | RSeq rx rx
  | RAlt rx rx
  | ROpt rx
  | RRep nat "nat option" rx         \<comment> \<open>at least and at most so many\<close>
  | RGroup nat rx
  | RLazy rx                         \<comment> \<open>as few as possible\<close>
  | RWordEdge "char \<Rightarrow> bool"         \<comment> \<open>\<^verbatim>\<open>\b\<close>, for a class of word characters\<close>
  | RLineStart                       \<comment> \<open>\<^verbatim>\<open>^\<close> under \<^verbatim>\<open>re.MULTILINE\<close>\<close>
  | RLineEnd                         \<comment> \<open>\<^verbatim>\<open>$\<close> under \<^verbatim>\<open>re.MULTILINE\<close>\<close>
  | RNot rx                          \<comment> \<open>a negative lookahead\<close>

type_synonym position = "string \<times> string"
type_synonym groups = "(nat \<times> string) list"

definition word_char :: "char \<Rightarrow> bool" where
  \<comment> \<open>\<^verbatim>\<open>\w\<close> below code point 256\<close>
  "word_char c = (let n = of_char c :: nat in
     (48 \<le> n \<and> n \<le> 57) \<or> (65 \<le> n \<and> n \<le> 90) \<or> (97 \<le> n \<and> n \<le> 122) \<or> n = 95 \<or>
     n \<in> {170, 178, 179, 181, 185, 186, 188, 189, 190} \<or> (192 \<le> n \<and> n \<noteq> 215 \<and> n \<noteq> 247))"

definition word_edge :: "(char \<Rightarrow> bool) \<Rightarrow> position \<Rightarrow> bool" where
  "word_edge W p = ((fst p \<noteq> [] \<and> W (hd (fst p))) \<noteq> (snd p \<noteq> [] \<and> W (hd (snd p))))"

definition line_start :: "position \<Rightarrow> bool" where
  "line_start p = (case fst p of [] \<Rightarrow> True | c # _ \<Rightarrow> c = CHR 10)"

definition line_end :: "position \<Rightarrow> bool" where
  "line_end p = (case snd p of [] \<Rightarrow> True | c # _ \<Rightarrow> c = CHR 10)"

fun rx_repeat :: "(position \<Rightarrow> (groups \<times> position) list) \<Rightarrow> nat \<Rightarrow> nat \<Rightarrow> position \<Rightarrow> (groups \<times> position) list" where
  "rx_repeat m lo 0 p = (if lo = 0 then [([], p)] else [])"
| "rx_repeat m lo (Suc hi) p =
     concat (map (\<lambda>(g, q). map (\<lambda>(g', q'). (g @ g', q')) (rx_repeat m (lo - 1) hi q)) (m p))
     @ (if lo = 0 then [([], p)] else [])"

fun rx_lazily :: "(position \<Rightarrow> (groups \<times> position) list) \<Rightarrow> nat \<Rightarrow> position \<Rightarrow> (groups \<times> position) list" where
  "rx_lazily m 0 p = [([], p)]"
| "rx_lazily m (Suc hi) p = ([], p) #
     concat (map (\<lambda>(g, q). map (\<lambda>(g', q'). (g @ g', q')) (rx_lazily m hi q)) (m p))"

fun rx_run :: "rx \<Rightarrow> position \<Rightarrow> (groups \<times> position) list" where
  "rx_run (RClass P) p = (case snd p of [] \<Rightarrow> []
     | c # s \<Rightarrow> if P c then [([], c # fst p, s)] else [])"
| "rx_run (RSeq a b) p =
     concat (map (\<lambda>(g, q). map (\<lambda>(g', q'). (g @ g', q')) (rx_run b q)) (rx_run a p))"
| "rx_run (RAlt a b) p = rx_run a p @ rx_run b p"
| "rx_run (ROpt a) p = rx_run a p @ [([], p)]"
| "rx_run (RRep lo hi a) p =
     rx_repeat (rx_run a) lo (case hi of None \<Rightarrow> length (snd p) | Some n \<Rightarrow> n) p"
| "rx_run (RGroup n a) p =
     map (\<lambda>(g, q). (g @ [(n, take (length (snd p) - length (snd q)) (snd p))], q)) (rx_run a p)"
| "rx_run (RLazy a) p = rx_lazily (rx_run a) (length (snd p)) p"
| "rx_run (RWordEdge W) p = (if word_edge W p then [([], p)] else [])"
| "rx_run RLineStart p = (if line_start p then [([], p)] else [])"
| "rx_run RLineEnd p = (if line_end p then [([], p)] else [])"
| "rx_run (RNot a) p = (if rx_run a p = [] then [([], p)] else [])"

definition rx_match :: "rx \<Rightarrow> position \<Rightarrow> (groups \<times> position) option" where
  "rx_match r p = (case rx_run r p of [] \<Rightarrow> None | m # _ \<Rightarrow> Some m)"

fun rx_search_from :: "rx \<Rightarrow> string \<Rightarrow> string \<Rightarrow> (groups \<times> position) option" where
  \<comment> \<open>the first match at or after a position, with what \<^verbatim>\<open>findall\<close> continues from\<close>
  "rx_search_from r b [] = rx_match r (b, [])"
| "rx_search_from r b (c # s) =
     (case rx_match r (b, c # s) of Some m \<Rightarrow> Some m | None \<Rightarrow> rx_search_from r (c # b) s)"

definition rx_search :: "rx \<Rightarrow> string \<Rightarrow> groups option" where
  "rx_search r s = map_option fst (rx_search_from r [] s)"

fun rx_matches_from :: "nat \<Rightarrow> rx \<Rightarrow> position \<Rightarrow> (groups \<times> position) list" where
  "rx_matches_from 0 r p = []"
| "rx_matches_from (Suc n) r p =
     (case rx_search_from r (fst p) (snd p) of
        None \<Rightarrow> []
      | Some (g, q) \<Rightarrow> (g, q) # rx_matches_from n r q)"

definition rx_finditer :: "rx \<Rightarrow> string \<Rightarrow> (groups \<times> position) list" where
  \<comment> \<open>for a pattern that does not match the empty text: at most one match per character\<close>
  "rx_finditer r s = rx_matches_from (length s) r ([], s)"

definition rx_findall :: "rx \<Rightarrow> string \<Rightarrow> groups list" where
  "rx_findall r s = map fst (rx_finditer r s)"

fun rx_remove_from :: "nat \<Rightarrow> rx \<Rightarrow> position \<Rightarrow> string" where
  "rx_remove_from 0 r p = snd p"
| "rx_remove_from (Suc n) r p =
     (case rx_match r p of
        Some (_, q) \<Rightarrow> rx_remove_from n r q
      | None \<Rightarrow> (case snd p of [] \<Rightarrow> [] | c # s \<Rightarrow> c # rx_remove_from n r (c # fst p, s)))"

definition rx_remove :: "rx \<Rightarrow> string \<Rightarrow> string" where
  \<comment> \<open>\<^verbatim>\<open>re.sub(r, "", s)\<close> for a pattern that does not match the empty text\<close>
  "rx_remove r s = rx_remove_from (length s) r ([], s)"

definition rx_group :: "groups \<Rightarrow> nat \<Rightarrow> string option" where
  "rx_group g n = map_of (rev g) n"

section \<open>Building blocks\<close>

definition RChar :: "char \<Rightarrow> rx" where "RChar c = RClass ((=) c)"

definition RCaseless :: "char \<Rightarrow> rx" where
  \<comment> \<open>a letter under \<^verbatim>\<open>re.IGNORECASE\<close>\<close>
  "RCaseless c = RClass (\<lambda>x. lower_char x = lower_char c)"

fun RText :: "(char \<Rightarrow> rx) \<Rightarrow> string \<Rightarrow> rx" where
  "RText f [] = RRep 0 (Some 0) (RClass (\<lambda>_. False))"
| "RText f [c] = f c"
| "RText f (c # d # s) = RSeq (f c) (RText f (d # s))"

fun RSeqs :: "rx list \<Rightarrow> rx" where
  "RSeqs [] = RRep 0 (Some 0) (RClass (\<lambda>_. False))"
| "RSeqs [r] = r"
| "RSeqs (r # q # rs) = RSeq r (RSeqs (q # rs))"

fun RAlts :: "rx list \<Rightarrow> rx" where
  "RAlts [] = RClass (\<lambda>_. False)"
| "RAlts [r] = r"
| "RAlts (r # q # rs) = RAlt r (RAlts (q # rs))"

definition RMany :: "rx \<Rightarrow> rx" where "RMany r = RRep 0 None r"
definition RSome :: "rx \<Rightarrow> rx" where "RSome r = RRep 1 None r"
definition RTimes :: "nat \<Rightarrow> rx \<Rightarrow> rx" where "RTimes n r = RRep n (Some n) r"

lemmas rx_blocks = RChar_def RCaseless_def RMany_def RSome_def RTimes_def

section \<open>What a pattern matches\<close>

text \<open>
  The pairs of positions a pattern may lead between, by recursion on the pattern and without an
  order of tries. Its repetitions are powers of the body's relation, so the bound the matcher puts
  on them is the matcher's own: it loses nothing where a body without a bound consumes.
\<close>

primrec rx_lang :: "rx \<Rightarrow> position rel" where
  "rx_lang (RClass P) = {(p, q). \<exists>c s. snd p = c # s \<and> P c \<and> q = (c # fst p, s)}"
| "rx_lang (RSeq a b) = rx_lang a O rx_lang b"
| "rx_lang (RAlt a b) = rx_lang a \<union> rx_lang b"
| "rx_lang (ROpt a) = rx_lang a \<union> Id"
| "rx_lang (RRep lo hi a) =
     {(p, q). \<exists>n\<ge>lo. (hi = None \<or> (\<exists>h. hi = Some h \<and> n \<le> h)) \<and> (p, q) \<in> rx_lang a ^^ n}"
| "rx_lang (RGroup n a) = rx_lang a"
| "rx_lang (RLazy a) = (rx_lang a)\<^sup>*"
| "rx_lang (RWordEdge W) = {(p, q). q = p \<and> word_edge W p}"
| "rx_lang RLineStart = {(p, q). q = p \<and> line_start p}"
| "rx_lang RLineEnd = {(p, q). q = p \<and> line_end p}"
| "rx_lang (RNot a) = {(p, q). q = p \<and> p \<notin> Domain (rx_lang a)}"

primrec consumes :: "rx \<Rightarrow> bool" where
  "consumes (RClass P) = True"
| "consumes (RSeq a b) = (consumes a \<or> consumes b)"
| "consumes (RAlt a b) = (consumes a \<and> consumes b)"
| "consumes (ROpt a) = False"
| "consumes (RRep lo hi a) = (lo \<noteq> 0 \<and> consumes a)"
| "consumes (RGroup n a) = consumes a"
| "consumes (RLazy a) = False"
| "consumes (RWordEdge W) = False"
| "consumes RLineStart = False"
| "consumes RLineEnd = False"
| "consumes (RNot a) = False"

primrec rx_ok :: "rx \<Rightarrow> bool" where
  "rx_ok (RClass P) = True"
| "rx_ok (RSeq a b) = (rx_ok a \<and> rx_ok b)"
| "rx_ok (RAlt a b) = (rx_ok a \<and> rx_ok b)"
| "rx_ok (ROpt a) = rx_ok a"
| "rx_ok (RRep lo hi a) = (rx_ok a \<and> (hi = None \<longrightarrow> consumes a))"
| "rx_ok (RGroup n a) = rx_ok a"
| "rx_ok (RLazy a) = (rx_ok a \<and> consumes a)"
| "rx_ok (RWordEdge W) = True"
| "rx_ok RLineStart = True"
| "rx_ok RLineEnd = True"
| "rx_ok (RNot a) = rx_ok a"

definition rest :: "position \<Rightarrow> nat" where "rest p = length (snd p)"

lemma relpow_rest:
  assumes step: "\<And>p q. (p, q) \<in> R \<Longrightarrow> rest q + k \<le> rest p"
  shows "(p, q) \<in> R ^^ n \<Longrightarrow> rest q + n * k \<le> rest p"
proof (induction n arbitrary: q)
  case (Suc n)
  then obtain m where "(p, m) \<in> R ^^ n" "(m, q) \<in> R" by auto
  with Suc.IH [of m] step [of m q] show ?case by simp
qed simp

lemma rx_lang_rest: "(p, q) \<in> rx_lang r \<Longrightarrow> rest q \<le> rest p"
proof (induction r arbitrary: p q)
  case (RSeq a b)
  then obtain m where "(p, m) \<in> rx_lang a" "(m, q) \<in> rx_lang b" by auto
  with RSeq.IH show ?case by (meson order_trans)
next
  case (RRep lo hi r)
  then obtain n where "(p, q) \<in> rx_lang r ^^ n" by auto
  from relpow_rest [of "rx_lang r" 0, OF _ this] RRep.IH show ?case by simp
next
  case (RLazy r)
  then have "(p, q) \<in> (rx_lang r)\<^sup>*" by simp
  then show ?case by (induction rule: rtrancl_induct) (auto dest: RLazy.IH intro: order_trans)
qed (auto simp: rest_def)

lemma rx_lang_consumes: "consumes r \<Longrightarrow> (p, q) \<in> rx_lang r \<Longrightarrow> rest q + 1 \<le> rest p"
proof (induction r arbitrary: p q)
  case (RSeq a b)
  then obtain m where m: "(p, m) \<in> rx_lang a" "(m, q) \<in> rx_lang b" by auto
  from RSeq.prems(1) consider "consumes a" | "consumes b" by auto
  then show ?case
  proof cases
    case 1
    from RSeq.IH(1) [OF this m(1)] rx_lang_rest [OF m(2)] show ?thesis by simp
  next
    case 2
    from RSeq.IH(2) [OF this m(2)] rx_lang_rest [OF m(1)] show ?thesis by simp
  qed
next
  case (RRep lo hi r)
  then obtain n where n: "lo \<le> n" "(p, q) \<in> rx_lang r ^^ n" by auto
  from RRep.prems(1) n(1) have "0 < n" and c: "consumes r" by auto
  from relpow_rest [of "rx_lang r" 1, OF RRep.IH [OF c] n(2)] \<open>0 < n\<close> show ?case by simp
qed (auto simp: rest_def)

lemma relpow_consumes: "consumes r \<Longrightarrow> (p, q) \<in> rx_lang r ^^ n \<Longrightarrow> n \<le> rest p"
  using relpow_rest [of "rx_lang r" 1, OF rx_lang_consumes] by fastforce

lemma set_sequence:
  "snd ` set (concat (map (\<lambda>(g, q). map (\<lambda>(g', q'). (g @ g', q')) (f q)) xs))
     = (\<Union>q\<in>snd ` set xs. snd ` set (f q))"
  by (induction xs) (auto simp: image_Un image_image case_prod_beta)

lemma set_repeat:
  assumes m: "\<And>p. snd ` set (m p) = R `` {p}"
  shows "snd ` set (rx_repeat m lo hi p) = {q. \<exists>n. lo \<le> n \<and> n \<le> hi \<and> (p, q) \<in> R ^^ n}"
proof (induction hi arbitrary: lo p)
  case (Suc hi)
  have "q \<in> snd ` set (rx_repeat m lo (Suc hi) p) \<longleftrightarrow>
      (\<exists>p'\<in>R `` {p}. q \<in> snd ` set (rx_repeat m (lo - 1) hi p')) \<or> (lo = 0 \<and> q = p)" for q
    unfolding rx_repeat.simps set_append image_Un set_sequence m by auto
  also have "\<dots> q \<longleftrightarrow> (\<exists>n. lo \<le> n \<and> n \<le> Suc hi \<and> (p, q) \<in> R ^^ n)" for q
  proof
    assume "(\<exists>p'\<in>R `` {p}. q \<in> snd ` set (rx_repeat m (lo - 1) hi p')) \<or> (lo = 0 \<and> q = p)"
    then consider p' n where "(p, p') \<in> R" "lo - 1 \<le> n" "n \<le> hi" "(p', q) \<in> R ^^ n" | "lo = 0" "q = p"
      by (auto simp: Suc.IH)
    then show "\<exists>n. lo \<le> n \<and> n \<le> Suc hi \<and> (p, q) \<in> R ^^ n"
    proof cases
      case 1
      then show ?thesis by (intro exI [of _ "Suc n"]) (auto simp del: relpow.simps intro: relpow_Suc_I2)
    qed (auto intro: exI [of _ 0])
  next
    assume "\<exists>n. lo \<le> n \<and> n \<le> Suc hi \<and> (p, q) \<in> R ^^ n"
    then obtain n where n: "lo \<le> n" "n \<le> Suc hi" "(p, q) \<in> R ^^ n" by blast
    show "(\<exists>p'\<in>R `` {p}. q \<in> snd ` set (rx_repeat m (lo - 1) hi p')) \<or> (lo = 0 \<and> q = p)"
    proof (cases n)
      case (Suc k)
      with n(3) obtain p' where "(p, p') \<in> R" "(p', q) \<in> R ^^ k" by (metis relpow_Suc_D2)
      moreover from n Suc have "lo - 1 \<le> k" "k \<le> hi" by auto
      ultimately have "p' \<in> R `` {p}" "q \<in> snd ` set (rx_repeat m (lo - 1) hi p')"
        by (auto simp: Suc.IH)
      then show ?thesis by blast
    qed (use n in auto)
  qed
  finally show ?case by blast
qed auto

lemma set_lazily:
  assumes m: "\<And>p. snd ` set (m p) = R `` {p}"
  shows "snd ` set (rx_lazily m hi p) = {q. \<exists>n\<le>hi. (p, q) \<in> R ^^ n}"
proof -
  have "snd ` set (rx_lazily m hi p) = snd ` set (rx_repeat m 0 hi p)"
    by (induction hi arbitrary: p) (simp_all only: rx_repeat.simps rx_lazily.simps set_append image_Un
        list.set image_insert set_sequence diff_0_eq_0 if_True, auto)
  then show ?thesis using set_repeat [OF m, where lo = 0] by auto
qed

lemma rx_run_lang: "rx_ok r \<Longrightarrow> snd ` set (rx_run r p) = rx_lang r `` {p}"
proof (induction r arbitrary: p)
  case (RClass P)
  show ?case by (auto split: list.splits)
next
  case (RSeq a b)
  then show ?case by (auto simp only: rx_run.simps set_sequence rx_ok.simps rx_lang.simps)
next
  case (RRep lo hi a)
  then have ih: "snd ` set (rx_run a p) = rx_lang a `` {p}" for p by simp
  show ?case
  proof (cases hi)
    case None
    with RRep.prems have "n \<le> length (snd p)" if "(p, q) \<in> rx_lang a ^^ n" for q n
      using relpow_consumes [OF _ that] by (simp add: rest_def)
    with None show ?thesis by (auto simp: set_repeat [OF ih])
  qed (auto simp: set_repeat [OF ih])
next
  case (RGroup n a)
  then show ?case by (simp add: image_image case_prod_beta)
next
  case (RLazy a)
  then have ih: "snd ` set (rx_run a p) = rx_lang a `` {p}" for p by simp
  from RLazy.prems have "n \<le> length (snd p)" if "(p, q) \<in> rx_lang a ^^ n" for q n
    using relpow_consumes [OF _ that] by (simp add: rest_def)
  then have "(\<exists>n\<le>length (snd p). (p, q) \<in> rx_lang a ^^ n) \<longleftrightarrow> (\<exists>n. (p, q) \<in> rx_lang a ^^ n)" for q
    by blast
  then show ?case by (simp add: set_lazily [OF ih] Image_singleton rtrancl_power)
next
  case (RNot a)
  then have "rx_run a p = [] \<longleftrightarrow> rx_lang a `` {p} = {}" by (metis image_is_empty set_empty rx_ok.simps(11))
  then show ?case by auto
qed (auto simp: image_Un image_image)

lemma rx_match_None: "rx_ok r \<Longrightarrow> rx_match r p = None \<longleftrightarrow> rx_lang r `` {p} = {}"
  by (auto simp: rx_match_def rx_run_lang [symmetric] split: list.splits)

lemma rx_match_Some: "rx_ok r \<Longrightarrow> rx_match r p = Some (g, q) \<Longrightarrow> (p, q) \<in> rx_lang r"
  using rx_run_lang [of r p] by (force simp: rx_match_def split: list.splits)

lemma rx_search_from_None:
  "rx_ok r \<Longrightarrow> rx_search_from r b s = None \<longleftrightarrow> (\<forall>u v. s = u @ v \<longrightarrow> rx_lang r `` {(rev u @ b, v)} = {})"
proof (induction s arbitrary: b)
  case (Cons c s)
  have "(\<forall>u v. c # s = u @ v \<longrightarrow> P u v) \<longleftrightarrow> P [] (c # s) \<and> (\<forall>u v. s = u @ v \<longrightarrow> P (c # u) v)" for P
    by (metis append_Cons append_Nil Cons_eq_append_conv)
  note split = this [of "\<lambda>u v. rx_lang r `` {(rev u @ b, v)} = {}"]
  show ?case
    unfolding split using Cons by (cases "rx_match r (b, c # s)") (simp_all flip: rx_match_None)
qed (simp add: rx_match_None)

section \<open>Words\<close>

text \<open>
  A pattern without anchors and lookaheads is a set of words: it leads from a position to the
  positions one of its words further.
\<close>

primrec plain :: "rx \<Rightarrow> bool" where
  "plain (RClass P) = True"
| "plain (RSeq a b) = (plain a \<and> plain b)"
| "plain (RAlt a b) = (plain a \<and> plain b)"
| "plain (ROpt a) = plain a"
| "plain (RRep lo hi a) = plain a"
| "plain (RGroup n a) = plain a"
| "plain (RLazy a) = plain a"
| "plain (RWordEdge W) = False"
| "plain RLineStart = False"
| "plain RLineEnd = False"
| "plain (RNot a) = False"

primrec rx_words :: "rx \<Rightarrow> string set" where
  "rx_words (RClass P) = {[c] |c. P c}"
| "rx_words (RSeq a b) = {u @ v |u v. u \<in> rx_words a \<and> v \<in> rx_words b}"
| "rx_words (RAlt a b) = rx_words a \<union> rx_words b"
| "rx_words (ROpt a) = insert [] (rx_words a)"
| "rx_words (RRep lo hi a) = {concat ws |ws. lo \<le> length ws
     \<and> (hi = None \<or> (\<exists>h. hi = Some h \<and> length ws \<le> h)) \<and> set ws \<subseteq> rx_words a}"
| "rx_words (RGroup n a) = rx_words a"
| "rx_words (RLazy a) = {concat ws |ws. set ws \<subseteq> rx_words a}"
| "rx_words (RWordEdge W) = {}"
| "rx_words RLineStart = {}"
| "rx_words RLineEnd = {}"
| "rx_words (RNot a) = {}"

definition onward :: "string \<Rightarrow> position \<Rightarrow> position \<Rightarrow> bool" where
  "onward w p q = (snd p = w @ snd q \<and> fst q = rev w @ fst p)"

lemma onward_Nil [simp]: "onward [] p q \<longleftrightarrow> q = p"
  by (auto simp: onward_def prod_eq_iff)

lemma onward_append: "onward (u @ v) p q \<longleftrightarrow> (\<exists>m. onward u p m \<and> onward v m q)"
proof
  assume "onward (u @ v) p q"
  then show "\<exists>m. onward u p m \<and> onward v m q"
    by (intro exI [of _ "(rev u @ fst p, v @ snd q)"]) (auto simp: onward_def)
qed (auto simp: onward_def)

lemma relpow_words:
  assumes R: "\<And>p q. (p, q) \<in> R \<longleftrightarrow> (\<exists>w\<in>W. onward w p q)"
  shows "(p, q) \<in> R ^^ n \<longleftrightarrow> (\<exists>ws. length ws = n \<and> set ws \<subseteq> W \<and> onward (concat ws) p q)"
proof (induction n arbitrary: p)
  case (Suc n)
  have "(p, q) \<in> R ^^ Suc n \<longleftrightarrow> (\<exists>m. (p, m) \<in> R \<and> (m, q) \<in> R ^^ n)"
    by (metis relpow_Suc_D2 relpow_Suc_I2)
  also have "\<dots> \<longleftrightarrow> (\<exists>w ws. w \<in> W \<and> length ws = n \<and> set ws \<subseteq> W \<and> onward (w @ concat ws) p q)"
    unfolding R Suc.IH onward_append by blast
  also have "\<dots> \<longleftrightarrow> (\<exists>ws. length ws = Suc n \<and> set ws \<subseteq> W \<and> onward (concat ws) p q)" (is "?l \<longleftrightarrow> ?r")
  proof
    assume ?l
    then obtain w ws where "w \<in> W" "length ws = n" "set ws \<subseteq> W" "onward (w @ concat ws) p q" by blast
    then show ?r by (intro exI [of _ "w # ws"]) simp
  next
    assume ?r
    then show ?l by (auto simp: length_Suc_conv) blast
  qed
  finally show ?case .
qed auto

lemma rx_lang_words: "plain r \<Longrightarrow> (p, q) \<in> rx_lang r \<longleftrightarrow> (\<exists>w\<in>rx_words r. onward w p q)"
proof (induction r arbitrary: p q)
  case (RClass P)
  then show ?case by (auto simp: onward_def prod_eq_iff)
next
  case (RSeq a b)
  then have "(p, q) \<in> rx_lang (RSeq a b) \<longleftrightarrow>
      (\<exists>u v. u \<in> rx_words a \<and> v \<in> rx_words b \<and> onward (u @ v) p q)"
    unfolding onward_append by (simp add: relcomp_unfold) blast
  then show ?case by auto
next
  case (RRep lo hi a)
  then have "(p, q) \<in> rx_lang a \<longleftrightarrow> (\<exists>w\<in>rx_words a. onward w p q)" for p q by simp
  note pow = relpow_words [OF this]
  show ?case by (auto simp: pow)
next
  case (RLazy a)
  then have "(p, q) \<in> rx_lang a \<longleftrightarrow> (\<exists>w\<in>rx_words a. onward w p q)" for p q by simp
  note pow = relpow_words [OF this]
  show ?case by (auto simp: rtrancl_power pow)
qed auto

lemma rx_words_text [simp]: "s \<noteq> [] \<Longrightarrow> rx_words (RText RChar s) = {s}"
  by (induction RChar s rule: RText.induct) (auto simp: RChar_def)

lemma rx_words_caseless: "s \<noteq> [] \<Longrightarrow> rx_words (RText RCaseless s) = {w. map lower_char w = map lower_char s}"
proof (induction RCaseless s rule: RText.induct)
  case (3 c d s)
  then show ?case by (auto simp: RCaseless_def map_eq_Cons_conv Cons_eq_map_conv) (metis append_Cons append_Nil)+
qed (auto simp: RCaseless_def map_eq_Cons_conv)

lemma rx_words_alts: "rx_words (RAlts rs) = (\<Union>r\<in>set rs. rx_words r)"
  by (induction rs rule: RAlts.induct) auto

lemma alts_shape:
  "plain (RAlts rs) = list_all plain rs" "rx_ok (RAlts rs) = list_all rx_ok rs"
  "consumes (RAlts rs) = list_all consumes rs"
  by (induction rs rule: RAlts.induct) auto

lemma seqs_shape:
  "plain (RSeqs rs) = list_all plain rs" "rx_ok (RSeqs rs) = list_all rx_ok rs"
  "consumes (RSeqs rs) = list_ex consumes rs"
  by (induction rs rule: RSeqs.induct) auto

lemma text_shape:
  "(\<And>c. plain (f c)) \<Longrightarrow> plain (RText f s)" "(\<And>c. rx_ok (f c)) \<Longrightarrow> rx_ok (RText f s)"
  "(\<And>c. consumes (f c)) \<Longrightarrow> s \<noteq> [] \<Longrightarrow> consumes (RText f s)"
  by (induction f s rule: RText.induct) auto

lemma letter_shape [simp]:
  "plain (RChar c)" "rx_ok (RChar c)" "consumes (RChar c)"
  "plain (RCaseless c)" "rx_ok (RCaseless c)" "consumes (RCaseless c)"
  by (simp_all add: RChar_def RCaseless_def)

lemmas rx_shape = alts_shape seqs_shape text_shape

fun in_sequence :: "string set list \<Rightarrow> string set" where
  "in_sequence [] = {[]}"
| "in_sequence (A # As) = {u @ v |u v. u \<in> A \<and> v \<in> in_sequence As}"

lemma in_sequence_one [simp]: "in_sequence [A] = A"
  by auto

declare in_sequence.simps(2) [simp del]

lemma in_sequenceI: "u \<in> A \<Longrightarrow> v \<in> in_sequence As \<Longrightarrow> u @ v \<in> in_sequence (A # As)"
  by (subst in_sequence.simps(2)) blast

lemma rx_words_seqs: "rx_words (RSeqs rs) = in_sequence (map rx_words rs)"
proof (induction rs rule: RSeqs.induct)
  case (3 r q rs)
  then show ?case by (simp add: in_sequence.simps(2) [of "rx_words r"])
qed auto

lemma rx_words_many_class: "rx_words (RMany (RClass P)) = {w. list_all P w}"
proof -
  have "w \<in> rx_words (RMany (RClass P))" if "list_all P w" for w
    using that by (auto simp: RMany_def list_all_iff intro!: exI [of _ "map (\<lambda>c. [c]) w"])
  moreover have "list_all P (concat ws)" if "set ws \<subseteq> {[c] |c. P c}" for ws
    using that by (induction ws) auto
  ultimately show ?thesis by (auto simp: RMany_def)
qed

lemma rx_lang_seqs_append:
  "rs \<noteq> [] \<Longrightarrow> qs \<noteq> [] \<Longrightarrow> rx_lang (RSeqs (rs @ qs)) = rx_lang (RSeqs rs) O rx_lang (RSeqs qs)"
proof (induction rs rule: RSeqs.induct)
  case (2 r)
  then show ?case by (cases qs) simp_all
qed (simp_all add: O_assoc)

lemma rx_lang_seqs_between:
  "rs \<noteq> [] \<Longrightarrow> rx_lang (RSeqs ([a] @ rs @ [b])) = rx_lang a O rx_lang (RSeqs rs) O rx_lang b"
  by (subst rx_lang_seqs_append) (simp_all add: rx_lang_seqs_append)

lemma rx_words_copies: "rx_words (RRep lo hi (RChar c)) = {replicate n c |n. lo \<le> n \<and> (hi = None \<or> (\<exists>h. hi = Some h \<and> n \<le> h))}"
proof -
  have all: "set ws \<subseteq> {[c]} \<Longrightarrow> concat ws = replicate (length ws) c" for ws :: "string list"
    by (induction ws) auto
  have copies: "concat (replicate n [c]) = replicate n c" for n by (induction n) auto
  show ?thesis
  proof (intro equalityI subsetI)
    fix w assume "w \<in> {replicate n c |n. lo \<le> n \<and> (hi = None \<or> (\<exists>h. hi = Some h \<and> n \<le> h))}"
    then obtain n where n: "w = replicate n c" "lo \<le> n" "hi = None \<or> (\<exists>h. hi = Some h \<and> n \<le> h)" by blast
    have "set (replicate n [c]) \<subseteq> rx_words (RChar c)" by (auto simp: RChar_def)
    with n copies show "w \<in> rx_words (RRep lo hi (RChar c))"
      unfolding rx_words.simps by (intro CollectI exI [of _ "replicate n [c]"]) simp
  next
    fix w assume "w \<in> rx_words (RRep lo hi (RChar c))"
    then obtain ws where ws: "w = concat ws" "lo \<le> length ws" "hi = None \<or> (\<exists>h. hi = Some h \<and> length ws \<le> h)"
        "set ws \<subseteq> {[c]}" by (auto simp: RChar_def)
    with all [OF ws(4)] show "w \<in> {replicate n c |n. lo \<le> n \<and> (hi = None \<or> (\<exists>h. hi = Some h \<and> n \<le> h))}"
      by blast
  qed
qed

section \<open>Whether a search finds anything\<close>

definition occurs :: "rx \<Rightarrow> string \<Rightarrow> bool" where
  "occurs r t = (\<exists>u v q. t = u @ v \<and> ((rev u, v), q) \<in> rx_lang r)"

lemma rx_search_occurs: "rx_ok r \<Longrightarrow> rx_search r t \<noteq> None \<longleftrightarrow> occurs r t"
  using rx_search_from_None [of r "[]" t] by (auto simp: rx_search_def occurs_def Image_singleton)

lemma rx_finditer_occurs: "rx_ok r \<Longrightarrow> consumes r \<Longrightarrow> rx_finditer r t \<noteq> [] \<longleftrightarrow> occurs r t"
proof -
  assume r: "rx_ok r" "consumes r"
  have none: "rx_search_from r [] t = None \<longleftrightarrow> \<not> occurs r t"
    using rx_search_from_None [OF r(1), of "[]" t] by (auto simp: occurs_def Image_singleton)
  have "\<not> occurs r []" using rx_lang_consumes [OF r(2)] by (fastforce simp: occurs_def rest_def)
  then show ?thesis using none by (cases t) (auto simp: rx_finditer_def split: option.splits)
qed

end
