(* ===== verification/SpawnFailure.thy ===== *)
theory SpawnFailure
  imports Journal Merge Regex
begin

text \<open>
  Why an agent process ended with a non-zero exit code (\<^verbatim>\<open>spawn_failure.py\<close>): the result envelope
  of the CLI is read from its output, from whole lines, from a balanced suffix or from a fragment,
  and the failure is classified. Texts are UTF-8 bytes as in \<^verbatim>\<open>Json\<close>; the classes of the fragment
  patterns are those of ASCII text, and a numeral beyond the interpreter's digit limit is read.
\<close>

section \<open>Outcomes\<close>

datatype failure_kind = QualityFailure | InfrastructureFailure | ConfigurationFailure
datatype retry = RetryNow | RetryLater | NeedsHuman | EscalateRung

record failure =
  fl_kind :: failure_kind
  fl_retry :: retry
  fl_reason :: string
  fl_status :: "nat option"
  fl_message :: string

definition is_infrastructure :: "failure \<Rightarrow> bool" where
  "is_infrastructure f = (fl_kind f = InfrastructureFailure)"

definition blocks_cascade :: "failure \<Rightarrow> bool" where
  "blocks_cascade f = (fl_kind f \<in> {InfrastructureFailure, ConfigurationFailure})"

definition retry_text :: "retry \<Rightarrow> string" where
  "retry_text r = (case r of RetryNow \<Rightarrow> ''retryable_now'' | RetryLater \<Rightarrow> ''retryable_after_reset''
     | NeedsHuman \<Rightarrow> ''needs_a_human'' | EscalateRung \<Rightarrow> ''escalate_to_a_stronger_rung'')"

definition overloaded_statuses :: "nat list" where "overloaded_statuses = [500, 502, 503, 504, 529]"
definition quota_statuses :: "nat list" where "quota_statuses = [429]"
definition auth_statuses :: "nat list" where "auth_statuses = [401, 403]"

section \<open>The envelope\<close>

type_synonym jobj = "(string \<times> jval) list"

definition looks_like_result :: "jval \<Rightarrow> bool" where
  "looks_like_result v = (case v of
       JObj d \<Rightarrow> json_get d ''type'' = JStr ''result'' \<or> map_of d ''api_error_status'' \<noteq> None
         \<or> map_of d ''terminal_reason'' \<noteq> None
     | _ \<Rightarrow> False)"

definition result_object :: "(string \<Rightarrow> string) \<Rightarrow> string \<Rightarrow> jobj option" where
  \<comment> \<open>\<^verbatim>\<open>json.loads\<close> of a text, where it succeeds and looks like a result\<close>
  "result_object fl s = (case loads fl s of
       Inr (JObj d) \<Rightarrow> if looks_like_result (JObj d) then Some d else None
     | _ \<Rightarrow> None)"

definition result_line :: "(string \<Rightarrow> string) \<Rightarrow> string \<Rightarrow> jobj option" where
  "result_line fl raw = (let l = strip_text raw in
     if starts_with l ''{'' \<and> ends_with l ''}'' then result_object fl l else None)"

fun last_line_result :: "(string \<Rightarrow> string) \<Rightarrow> jobj \<Rightarrow> string list \<Rightarrow> jobj" where
  "last_line_result fl best [] = best"
| "last_line_result fl best (l # ls) =
     last_line_result fl (case result_line fl l of Some d \<Rightarrow> d | None \<Rightarrow> best) ls"

fun balanced_prefix :: "nat \<Rightarrow> bool \<Rightarrow> bool \<Rightarrow> string \<Rightarrow> string \<Rightarrow> string option" where
  \<comment> \<open>nesting depth, inside a string, after a backslash, the text read so far in reverse\<close>
  "balanced_prefix depth in_str esc acc [] = None"
| "balanced_prefix depth in_str esc acc (c # s) =
     (if in_str then
        (if esc then balanced_prefix depth True False (c # acc) s
         else if c = bslash then balanced_prefix depth True True (c # acc) s
         else balanced_prefix depth (c \<noteq> dquote) False (c # acc) s)
      else if c = dquote then balanced_prefix depth True False (c # acc) s
      else if c = CHR ''{'' then balanced_prefix (Suc depth) False False (c # acc) s
      else if c = CHR ''}'' then
        (if depth \<le> 1 then Some (rev (c # acc)) else balanced_prefix (depth - 1) False False (c # acc) s)
      else balanced_prefix depth False False (c # acc) s)"

definition object_at :: "(string \<Rightarrow> string) \<Rightarrow> string \<Rightarrow> jobj option" where
  \<comment> \<open>the scan of one start position; it gives up at the first balanced text\<close>
  "object_at fl s = (case s of
       c # _ \<Rightarrow> if c = CHR ''{'' then (case balanced_prefix 0 False False [] s of
                     Some t \<Rightarrow> result_object fl t | None \<Rightarrow> None) else None
     | [] \<Rightarrow> None)"

fun last_object :: "(string \<Rightarrow> string) \<Rightarrow> string \<Rightarrow> jobj" where
  \<comment> \<open>start positions from the end of the text\<close>
  "last_object fl [] = []"
| "last_object fl (c # s) =
     (case last_object fl s of
        [] \<Rightarrow> (case object_at fl (c # s) of Some d \<Rightarrow> d | None \<Rightarrow> [])
      | d \<Rightarrow> d)"

definition envelope :: "(string \<Rightarrow> string) \<Rightarrow> string \<Rightarrow> jobj" where
  "envelope fl t = (case last_line_result fl [] (text_lines [] t) of
       [] \<Rightarrow> last_object fl t
     | d \<Rightarrow> d)"

section \<open>Fragments\<close>

definition ascii_space :: "char \<Rightarrow> bool" where
  "ascii_space c = (let n = of_char c :: nat in (9 \<le> n \<and> n \<le> 13) \<or> (28 \<le> n \<and> n \<le> 32))"

definition after_key :: "string \<Rightarrow> rx \<Rightarrow> rx" where
  \<comment> \<open>a quoted key, a colon between optional white space, and a value\<close>
  "after_key k r = RSeqs [RText RChar ([dquote] @ k @ [dquote]), RMany (RClass ascii_space),
     RChar (CHR '':''), RMany (RClass ascii_space), r]"

definition status_pattern :: rx where
  "status_pattern = after_key ''api_error_status'' (RGroup 1 (RTimes 3 (RClass is_digit)))"

definition terminal_pattern :: rx where
  "terminal_pattern = after_key ''terminal_reason'' (RSeqs [RChar dquote,
     RGroup 1 (RSome (RClass (\<lambda>c. (CHR ''a'' \<le> c \<and> c \<le> CHR ''z'') \<or> c = CHR ''_''))), RChar dquote])"

definition message_pattern :: rx where
  "message_pattern = after_key ''result'' (RSeqs [RChar dquote,
     RGroup 1 (RRep 0 (Some 400) (RAlt (RClass (\<lambda>c. c \<noteq> dquote \<and> c \<noteq> bslash))
        (RSeq (RChar bslash) (RClass (\<lambda>c. c \<noteq> CHR 10))))), RChar dquote])"

definition last_group :: "rx \<Rightarrow> string \<Rightarrow> string option" where
  \<comment> \<open>the last element of \<^verbatim>\<open>findall\<close>\<close>
  "last_group r s = (case rx_findall r s of [] \<Rightarrow> None | gs \<Rightarrow> rx_group (last gs) 1)"

definition scavenge :: "(string \<Rightarrow> string) \<Rightarrow> string \<Rightarrow> jobj" where
  "scavenge fl t =
     (let base = (case last_group status_pattern t of None \<Rightarrow> []
                    | Some d \<Rightarrow> [(''api_error_status'', JInt (int (digits_value d)))])
                 @ (case last_group terminal_pattern t of None \<Rightarrow> []
                    | Some w \<Rightarrow> [(''terminal_reason'', JStr w)])
      in if base = [] then []
         else (case last_group message_pattern t of None \<Rightarrow> base
           | Some m \<Rightarrow> base @ [(''result'',
               case loads fl ([dquote] @ m @ [dquote]) of Inr v \<Rightarrow> v | Inl _ \<Rightarrow> JStr m)]))"

section \<open>Classification\<close>

definition config_signatures :: "string list" where
  "config_signatures = [''unknown model id'', ''couldn'' @ [CHR 39] @ ''t set model'', ''could not set model'',
     ''unrecognized_model'', ''unrecognised model'', ''model not found'', ''invalid model'']"

definition lower_ascii :: "string \<Rightarrow> string" where
  "lower_ascii = map (\<lambda>c. if CHR ''A'' \<le> c \<and> c \<le> CHR ''Z'' then char_of (of_char c + (32 :: nat)) else c)"

definition mentions :: "string \<Rightarrow> string \<Rightarrow> bool" where
  "mentions t sig = contains (lower_ascii t) sig"

definition signature_line :: "string \<Rightarrow> string \<Rightarrow> string" where
  "signature_line sig blob =
     (case find (\<lambda>l. mentions l sig) (text_lines [] blob) of Some l \<Rightarrow> strip_text l | None \<Rightarrow> sig)"

fun json_to_py :: "jval \<Rightarrow> pyval" where
  "json_to_py JNull = PNone"
| "json_to_py (JBool b) = PBool b"
| "json_to_py (JInt i) = PInt i"
| "json_to_py (JFloat t) = POther t t (t \<notin> {''0.0'', ''-0.0''}) None"
| "json_to_py (JStr s) = PStr s"
| "json_to_py (JList vs) = PList (map json_to_py vs)"
| "json_to_py (JObj kvs) = PDict (map (\<lambda>kv. (fst kv, json_to_py (snd kv))) kvs)"
| "json_to_py JOther = PNone"

definition text_or_empty :: "jval \<Rightarrow> string" where
  \<comment> \<open>\<^verbatim>\<open>str(v or "")\<close>\<close>
  "text_or_empty v = (if json_truthy v then py_str (json_to_py v) else [])"

definition status_of :: "jval \<Rightarrow> nat option" where
  "status_of v = (case v of
       JInt i \<Rightarrow> if i < 0 then None else Some (nat i)
     | JStr s \<Rightarrow> if s \<noteq> [] \<and> list_all is_digit s then Some (digits_value s) else None
     | _ \<Rightarrow> None)"

definition dict_or :: "jobj \<Rightarrow> jobj \<Rightarrow> jobj" where
  "dict_or a b = (if a = [] then b else a)"

definition failure_env :: "(string \<Rightarrow> string) \<Rightarrow> string \<Rightarrow> string \<Rightarrow> jobj" where
  "failure_env fl out err =
     dict_or (dict_or (dict_or (envelope fl out) (envelope fl err)) (scavenge fl out)) (scavenge fl err)"

definition retry_for :: "nat option \<Rightarrow> retry \<times> string" where
  "retry_for status =
     (case status of
        None \<Rightarrow> (RetryNow, ''provider error'')
      | Some n \<Rightarrow>
          if n \<in> set quota_statuses then (RetryLater, ''provider quota exhausted'')
          else if n \<in> set auth_statuses then (NeedsHuman, ''provider rejected our credentials'')
          else if n \<in> set overloaded_statuses then (RetryNow, ''provider overloaded'')
          else (RetryNow, ''provider error''))"

definition em_dash :: string where "em_dash = [CHR 32, CHR 0xE2, CHR 0x80, CHR 0x94, CHR 32]"

definition classify :: "(string \<Rightarrow> string) \<Rightarrow> int \<Rightarrow> string \<Rightarrow> string \<Rightarrow> failure" where
  \<comment> \<open>the reasons are cut to 300 and 600 bytes, where the code counts characters\<close>
  "classify fl exit_code out err =
     (let blob = out @ [CHR 10] @ err in
      case find (mentions blob) config_signatures of
        Some sig \<Rightarrow>
          \<lparr>fl_kind = ConfigurationFailure, fl_retry = NeedsHuman,
           fl_reason = ''misconfigured dispatch'' @ em_dash @ take 300 (signature_line sig blob),
           fl_status = None, fl_message = []\<rparr>
      | None \<Rightarrow>
         (let env = failure_env fl out err; status = status_of (json_get env ''api_error_status'');
              terminal = text_or_empty (json_get env ''terminal_reason'');
              message = strip_text (text_or_empty (json_get env ''result''))
          in if status = None \<and> terminal \<noteq> ''api_error''
             then \<lparr>fl_kind = QualityFailure, fl_retry = EscalateRung,
                   fl_reason = ''session_exit_code_'' @ int_text exit_code, fl_status = None, fl_message = []\<rparr>
             else (let (r, what) = retry_for status in
               \<lparr>fl_kind = InfrastructureFailure, fl_retry = r,
                fl_reason = take 600 (what @ '' (api_error_status='' @
                  (case status of Some n \<Rightarrow> nat_digits n | None \<Rightarrow> ''unset'') @ '', '' @ retry_text r @ '')'' @
                  (if message = [] then [] else em_dash @ message)),
                fl_status = status, fl_message = message\<rparr>)))"

section \<open>The final result line decides\<close>

text \<open>
  The CLI ends its output with one JSON object on a line of its own. Whatever was printed
  before, progress objects with a stale status included, that line is the envelope.
\<close>

definition one_line :: "string \<Rightarrow> bool" where
  "one_line s = list_all (\<lambda>p. \<not> contains s p) break_texts"

lemma one_line_tail: "one_line (c # s) \<Longrightarrow> one_line s"
proof -
  have "contains s p \<Longrightarrow> contains (c # s) p" for p
    by (subst contains.simps) simp
  then show "one_line (c # s) \<Longrightarrow> one_line s" by (auto simp: one_line_def list_all_iff)
qed

lemma one_line_start: "one_line s \<Longrightarrow> find (\<lambda>p. p \<noteq> [] \<and> starts_with s p) break_texts = None"
  by (auto simp: one_line_def list_all_iff find_None_iff) (metis contains.simps)

lemma text_lines_one: "one_line s \<Longrightarrow> acc \<noteq> [] \<or> s \<noteq> [] \<Longrightarrow> text_lines acc s = [rev acc @ s]"
proof (induction s arbitrary: acc)
  case Nil
  then show ?case by (subst text_lines.simps) simp
next
  case (Cons c s)
  have "text_lines acc (c # s) = text_lines (c # acc) s"
    by (subst text_lines.simps) (simp add: one_line_start [OF Cons.prems(1)])
  then show ?case using Cons.IH [OF one_line_tail [OF Cons.prems(1)], of "c # acc"] by simp
qed

lemma break_at_newline:
  assumes "p \<in> set break_texts" "p \<noteq> []" "starts_with (u @ CHR 10 # s) p"
  shows "\<exists>u'. drop (length p) (u @ CHR 10 # s) = u' @ CHR 10 # s \<and> length u' < length u
     \<or> drop (length p) (u @ CHR 10 # s) = s"
proof -
  have newline_last: "\<forall>p \<in> set break_texts. CHR 10 \<notin> set (butlast p)"
    by (simp add: break_texts_def)
  from assms(3) obtain t where t: "u @ CHR 10 # s = p @ t" by (auto simp: starts_with_iff_prefix)
  from this consider v where "u = p @ v" "t = v @ CHR 10 # s" | v where "p = u @ CHR 10 # v" "s = v @ t"
    by (auto simp: append_eq_append_conv2 Cons_eq_append_conv)
  then show ?thesis
  proof cases
    case 1
    then show ?thesis using assms(2) by (intro exI [of _ v]) auto
  next
    case 2
    have "v = []"
    proof (rule ccontr)
      assume "v \<noteq> []"
      then have "CHR 10 \<in> set (butlast p)" using 2 by (simp add: butlast_append)
      with newline_last assms(1) show False by blast
    qed
    with 2 show ?thesis by simp
  qed
qed

lemma text_lines_newline: "\<exists>ls. text_lines acc (u @ CHR 10 # s) = ls @ text_lines [] s"
proof (induction "length u" arbitrary: acc u rule: less_induct)
  case less
  show ?case
  proof (cases "find (\<lambda>p. p \<noteq> [] \<and> starts_with (u @ CHR 10 # s) p) break_texts")
    case (Some p)
    then have p: "p \<in> set break_texts" "p \<noteq> []" "starts_with (u @ CHR 10 # s) p"
      by (auto simp: find_Some_iff)
    have step: "text_lines acc (u @ CHR 10 # s) = rev acc # text_lines [] (drop (length p) (u @ CHR 10 # s))"
      by (subst text_lines.simps) (cases u; use Some in simp)
    from break_at_newline [OF p] show ?thesis
    proof (elim exE disjE conjE)
      fix u' assume d: "drop (length p) (u @ CHR 10 # s) = u' @ CHR 10 # s" and "length u' < length u"
      from less [OF this(2), of "[]"] obtain ls where "text_lines [] (u' @ CHR 10 # s) = ls @ text_lines [] s"
        by blast
      with step d have "text_lines acc (u @ CHR 10 # s) = (rev acc # ls) @ text_lines [] s" by simp
      then show ?thesis by blast
    next
      assume "drop (length p) (u @ CHR 10 # s) = s"
      with step have "text_lines acc (u @ CHR 10 # s) = [rev acc] @ text_lines [] s" by simp
      then show ?thesis by blast
    qed
  next
    case None
    have "u \<noteq> []"
    proof
      assume "u = []"
      with None have "\<not> starts_with (CHR 10 # s) [CHR 10]" by (auto simp: find_None_iff break_texts_def)
      then show False by simp
    qed
    then obtain c u' where u: "u = c # u'" by (cases u) auto
    have "text_lines acc (u @ CHR 10 # s) = text_lines (c # acc) (u' @ CHR 10 # s)"
      by (subst text_lines.simps) (use None u in simp)
    with less [of u' "c # acc"] u show ?thesis by simp
  qed
qed

lemma last_line_result_snoc:
  "last_line_result fl best (ls @ [l]) =
     (case result_line fl l of Some d \<Rightarrow> d | None \<Rightarrow> last_line_result fl best ls)"
  by (induction ls arbitrary: best) (auto split: option.split)

lemma map_of_norm:
  assumes "distinct (map fst d)"
  shows "map_of (sort_key fst (map (\<lambda>kv. (fst kv, jnorm (snd kv))) d)) k = map_option jnorm (map_of d k)"
proof -
  let ?n = "map (\<lambda>kv. (fst kv, jnorm (snd kv))) d"
  have keys: "map fst ?n = map fst d" by simp
  from assms have "distinct (map fst ?n)" unfolding keys .
  then have "distinct (map fst (sort_key fst ?n))" by (simp only: distinct_map distinct_sort set_sort simp_thms)
  then have "map_of (sort_key fst ?n) = map_of ?n"
    by (intro map_of_inject_set [THEN iffD2]) (use assms in \<open>simp_all add: comp_def\<close>)
  moreover have "map_of ?n k = map_option jnorm (map_of d k)" by (induction d) auto
  ultimately show ?thesis by simp
qed


lemma object_text: "\<exists>t. jtext (JObj d) = CHR 123 # t @ [CHR 125]"
  by simp

lemma final_line_envelope:
  assumes "jwf fl (JObj d)" "one_line (jtext (JObj d))" "looks_like_result (JObj (sort_key fst (map (\<lambda>kv. (fst kv, jnorm (snd kv))) d)))"
  shows "envelope fl (pre @ CHR 10 # jtext (JObj d)) = sort_key fst (map (\<lambda>kv. (fst kv, jnorm (snd kv))) d)"
    (is "_ = ?n")
proof -
  obtain t where t: "jtext (JObj d) = CHR 123 # t @ [CHR 125]" using object_text by blast
  obtain ls where "text_lines [] (pre @ CHR 10 # jtext (JObj d)) = ls @ text_lines [] (jtext (JObj d))"
    using text_lines_newline by blast
  also have "text_lines [] (jtext (JObj d)) = [jtext (JObj d)]"
    using text_lines_one [OF assms(2), of "[]"] t by (simp del: jtext.simps)
  finally have lines: "text_lines [] (pre @ CHR 10 # jtext (JObj d)) = ls @ [jtext (JObj d)]" .
  have "loads fl (jtext (JObj d)) = Inr (JObj ?n)"
    using loads_jtext_spec [OF assms(1)] by (simp del: jtext.simps)
  then have "result_object fl (jtext (JObj d)) = Some ?n"
    using assms(3) by (simp add: result_object_def del: jtext.simps)
  moreover have "ends_with (jtext (JObj d)) [CHR 125]"
    unfolding t ends_with_iff_suffix by (rule exI [of _ "CHR 123 # t"]) simp
  ultimately have "result_line fl (jtext (JObj d)) = Some ?n"
    using t strip_text_object [of t] by (simp add: result_line_def del: jtext.simps)
  then have "last_line_result fl [] (ls @ [jtext (JObj d)]) = ?n"
    by (simp add: last_line_result_snoc del: jtext.simps)
  moreover have "?n \<noteq> []" using assms(3) by (auto simp: looks_like_result_def json_get_def)
  ultimately show ?thesis by (simp add: envelope_def lines del: jtext.simps split: list.split)
qed

text \<open>
  The provider's own words decide. When the last line of the output is the result object,
  with a status and a message, then whatever was printed before it, a failure that names no
  configuration fault is classified by that status alone and carries that message: a quota
  refusal waits for the reset, rejected credentials for a human, any other is retried at once.
\<close>

theorem final_result_line_decides:
  assumes "jwf fl (JObj d)" "one_line (jtext (JObj d))"
    and "map_of d ''api_error_status'' = Some (JInt (int n))" "map_of d ''result'' = Some (JStr m)"
    and "find (mentions (pre @ CHR 10 # jtext (JObj d) @ CHR 10 # err)) config_signatures = None"
  shows "let f = classify fl code (pre @ CHR 10 # jtext (JObj d)) err in
     fl_kind f = InfrastructureFailure \<and> fl_status f = Some n \<and> fl_message f = strip_text m \<and>
     fl_retry f = (if n = 429 then RetryLater else if n = 401 \<or> n = 403 then NeedsHuman else RetryNow)"
proof -
  let ?n = "sort_key fst (map (\<lambda>kv. (fst kv, jnorm (snd kv))) d)"
  have get: "map_of ?n k = map_option jnorm (map_of d k)" for k
    by (rule map_of_norm) (use assms(1) in simp)
  have "looks_like_result (JObj ?n)"
    using get [of "''api_error_status''"] assms(3) by (simp add: looks_like_result_def)
  note env = final_line_envelope [OF assms(1,2) this]
  have "?n \<noteq> []" using get [of "''api_error_status''"] assms(3) by auto
  then have env': "failure_env fl (pre @ CHR 10 # jtext (JObj d)) err = ?n"
    by (simp add: failure_env_def dict_or_def env del: jtext.simps)
  show ?thesis
    using assms(5)
    by (simp add: classify_def env' json_get_def get assms(3,4) status_of_def text_or_empty_def
        json_truthy_def py_str_def retry_for_def quota_statuses_def auth_statuses_def
        overloaded_statuses_def Let_def del: jtext.simps)
qed

definition sample_result :: jobj where
  "sample_result = [(''api_error_status'', JInt 429), (''result'', JStr ''Weekly limit''), (''type'', JStr ''result'')]"

theorem final_result_line_decides_witness:
  "fl_retry (classify (\<lambda>t. t) 1 (''working'' @ CHR 10 # jtext (JObj sample_result)) []) = RetryLater"
proof -
  have "one_line (jtext (JObj sample_result))" by code_simp
  moreover have "find (mentions (''working'' @ CHR 10 # jtext (JObj sample_result) @ CHR 10 # []))
      config_signatures = None"
    by code_simp
  ultimately show ?thesis
    using final_result_line_decides [of "\<lambda>t. t" sample_result 429 "''Weekly limit''" "''working''" "[]" 1]
    by (simp add: sample_result_def int_fits_def max_int_digits_def nat_digits.simps Let_def del: jtext.simps)
qed

end
