(* ===== verification/Accounts.thy ===== *)
theory Accounts
  imports SpawnFailure
begin

text \<open>
  The accounts a run may spend (\<^verbatim>\<open>accounts.py\<close>): when a capped account may be tried again, the
  rotation over the accounts, and the loop of \<^verbatim>\<open>_run_task\<close> that spawns the implementer with
  provider retries and account failover. A time is a number of microseconds since the epoch, the
  resolution of \<^verbatim>\<open>datetime\<close>; an account is the path of its configuration directory.
\<close>

section \<open>When a capped account is back\<close>

definition monthly_signatures :: "string list" where
  "monthly_signatures = [''monthly spend limit'', ''monthly limit'', ''spend limit'']"

definition weekly_signatures :: "string list" where
  "weekly_signatures = [''weekly limit'', ''weekly usage limit'', ''weekly cap'']"

definition second :: nat where "second = 1000000"
definition default_cooldown :: nat where "default_cooldown = 3 * 3600 * second"
definition weekly_probe :: nat where "weekly_probe = 24 * 3600 * second"
definition day_length :: nat where "day_length = 86400 * second"

definition is_monthly :: "string \<Rightarrow> bool" where
  "is_monthly msg = list_ex (mentions msg) monthly_signatures"

definition is_weekly :: "string \<Rightarrow> bool" where
  "is_weekly msg = list_ex (mentions msg) weekly_signatures"

subsection \<open>The calendar\<close>

definition leap_year :: "nat \<Rightarrow> bool" where
  "leap_year y = (y mod 4 = 0 \<and> (y mod 100 \<noteq> 0 \<or> y mod 400 = 0))"

definition month_days :: "nat \<Rightarrow> nat \<Rightarrow> nat" where
  "month_days y m = (if m = 2 then (if leap_year y then 29 else 28)
     else if m \<in> {4, 6, 9, 11} then 30 else 31)"

definition year_days :: "nat \<Rightarrow> nat" where
  "year_days y = sum_list (map (month_days y) [1..<13])"

definition month_start :: "nat \<Rightarrow> nat \<Rightarrow> nat" where
  \<comment> \<open>days from the epoch to the first of a month\<close>
  "month_start y m = sum_list (map year_days [1970..<y]) + sum_list (map (month_days y) [1..<m])"

definition next_month :: "nat \<times> nat \<Rightarrow> nat \<times> nat" where
  "next_month ym = (if snd ym = 12 then (fst ym + 1, 1) else (fst ym, snd ym + 1))"

lemma month_days_bounds: "28 \<le> month_days y m" "month_days y m \<le> 31"
  by (auto simp: month_days_def)

lemma month_start_next:
  assumes "1970 \<le> y" "1 \<le> m" "m \<le> 12"
  shows "month_start (fst (next_month (y, m))) (snd (next_month (y, m))) = month_start y m + month_days y m"
proof (cases "m = 12")
  case True
  have "[1970..<Suc y] = [1970..<y] @ [y]" using assms by simp
  moreover have "[1..<13] = [1..<12] @ [12::nat]" by (simp add: upt_rec)
  then have "year_days y = sum_list (map (month_days y) [1..<12]) + month_days y 12"
    by (simp add: year_days_def)
  ultimately show ?thesis using True by (simp add: month_start_def next_month_def)
next
  case False
  with assms show ?thesis by (simp add: month_start_def next_month_def)
qed

function month_of_day_from :: "nat \<Rightarrow> nat \<times> nat \<Rightarrow> nat \<times> nat" where
  \<comment> \<open>the month of the day that many days after the first of the given month\<close>
  "month_of_day_from d ym = (if d < month_days (fst ym) (snd ym) then ym
     else month_of_day_from (d - month_days (fst ym) (snd ym)) (next_month ym))"
  by pat_completeness auto

termination month_of_day_from
proof (relation "measure fst", goal_cases)
  case (2 d ym)
  have "28 \<le> month_days (fst ym) (snd ym)" by (rule month_days_bounds)
  with 2 show ?case by simp
qed simp

declare month_of_day_from.simps [simp del]

definition month_of_day :: "nat \<Rightarrow> nat \<times> nat" where
  "month_of_day d = month_of_day_from d (1970, 1)"

definition next_month_start :: "nat \<Rightarrow> nat" where
  "next_month_start now = (let ym = next_month (month_of_day (now div day_length))
     in month_start (fst ym) (snd ym) * day_length)"

subsection \<open>The reset the provider states\<close>

definition spaces1 :: rx where "spaces1 = RSome (RClass py_space)"
definition digits :: "nat \<Rightarrow> rx" where "digits n = RTimes n (RClass is_digit)"

definition resets_at :: rx where
  \<comment> \<open>\<^verbatim>\<open>resets?\s+(?:at|on)\s+\<close>\<close>
  "resets_at = RSeqs [RText RCaseless ''reset'', ROpt (RCaseless (CHR ''s'')), spaces1,
     RAlt (RText RCaseless ''at'') (RText RCaseless ''on''), spaces1]"

definition iso_pattern :: rx where
  "iso_pattern = RSeq resets_at (RGroup 1 (RSeqs [digits 4, RChar (CHR ''-''), digits 2, RChar (CHR ''-''),
     digits 2, RAlt (RCaseless (CHR ''T'')) (RChar (CHR 32)), digits 2, RChar (CHR '':''), digits 2,
     ROpt (RSeq (RChar (CHR '':'')) (digits 2)), RMany (RClass py_space), ROpt (RCaseless (CHR ''Z''))]))"

definition clock_pattern :: rx where
  "clock_pattern = RSeq resets_at (RSeqs [RGroup 1 (RRep 1 (Some 2) (RClass is_digit)),
     ROpt (RSeq (RChar (CHR '':'')) (RGroup 2 (digits 2))), RMany (RClass py_space),
     ROpt (RGroup 3 (RAlt (RText RCaseless ''am'') (RText RCaseless ''pm''))), RWordEdge word_char])"

definition rstrip_char :: "char \<Rightarrow> string \<Rightarrow> string" where
  "rstrip_char c s = rev (dropWhile ((=) c) (rev s))"

definition epoch_seconds :: "nat \<Rightarrow> nat \<Rightarrow> nat \<Rightarrow> nat \<Rightarrow> nat \<Rightarrow> nat \<Rightarrow> int option" where
  \<comment> \<open>of a UTC date and time, None for a field out of range; a year before the epoch lies before every \<open>now\<close>\<close>
  "epoch_seconds y mo d h mi s =
     (if y = 0 \<or> mo = 0 \<or> 12 < mo \<or> d = 0 \<or> month_days y mo < d \<or> 23 < h \<or> 59 < mi \<or> 59 < s then None
      else if y < 1970 then Some (- 1)
      else Some (int ((month_start y mo + d - 1) * 86400 + h * 3600 + mi * 60 + s)))"

definition from_isoformat :: "string \<Rightarrow> int option" where
  \<comment> \<open>of the texts the pattern lets through: \<^verbatim>\<open>YYYY-MM-DD?HH:MM\<close> and \<^verbatim>\<open>YYYY-MM-DD?HH:MM:SS\<close>\<close>
  "from_isoformat t =
     (let f = (\<lambda>i n. digits_value (take n (drop i t))) in
      if length t = 16 then epoch_seconds (f 0 4) (f 5 2) (f 8 2) (f 11 2) (f 14 2) 0
      else if length t = 19 \<and> t ! 16 = CHR '':'' then
        epoch_seconds (f 0 4) (f 5 2) (f 8 2) (f 11 2) (f 14 2) (f 17 2)
      else None)"

definition iso_reset :: "string \<Rightarrow> nat \<Rightarrow> nat option" where
  "iso_reset raw now =
     (case from_isoformat (rstrip_char (CHR ''Z'')
          (map (\<lambda>c. if c = CHR 32 then CHR ''T'' else c) (py_strip raw))) of
        None \<Rightarrow> None
      | Some t \<Rightarrow> if t * int second > int now then Some (nat t * second) else None)"

definition clock_hour :: "nat \<Rightarrow> string option \<Rightarrow> nat" where
  "clock_hour h meridiem =
     (case meridiem of
        None \<Rightarrow> h
      | Some m \<Rightarrow>
          if h = 12 then (if py_lower m = ''am'' then 0 else 12)
          else if py_lower m = ''pm'' then h + 12 else h)"

definition clock_reset :: "nat \<Rightarrow> nat \<Rightarrow> nat \<Rightarrow> nat option" where
  "clock_reset hour minute now =
     (if 23 < hour \<or> 59 < minute then None
      else (let target = now div day_length * day_length + (hour * 3600 + minute * 60) * second
            in Some (if target \<le> now then target + day_length else target)))"

definition group_text :: "groups \<Rightarrow> nat \<Rightarrow> string" where
  "group_text g n = (case rx_group g n of Some s \<Rightarrow> s | None \<Rightarrow> [])"

definition parse_reset_time :: "string \<Rightarrow> nat \<Rightarrow> nat option" where
  "parse_reset_time msg now =
     (case rx_search iso_pattern msg of
        Some g \<Rightarrow> iso_reset (group_text g 1) now
      | None \<Rightarrow>
         (case rx_search clock_pattern msg of
            None \<Rightarrow> None
          | Some g \<Rightarrow> clock_reset (clock_hour (digits_value (group_text g 1)) (rx_group g 3))
              (digits_value (group_text g 2)) now))"

definition eligible_at :: "nat \<Rightarrow> string \<Rightarrow> nat" where
  "eligible_at now msg =
     (case parse_reset_time msg now of
        Some t \<Rightarrow> t
      | None \<Rightarrow>
          if is_monthly msg then next_month_start now
          else if is_weekly msg then now + weekly_probe
          else now + default_cooldown)"

section \<open>The rotation\<close>

type_synonym account = string

record rotation =
  candidates :: "account list"
  exhausted :: "account list"
  active_account :: "account option"
  cooling :: "account \<rightharpoonup> nat"
  cursor :: nat

definition rotation_enabled :: "rotation \<Rightarrow> bool" where
  "rotation_enabled r = (1 < length (candidates r))"

definition remaining :: "rotation \<Rightarrow> account list" where
  "remaining r = filter (\<lambda>c. c \<notin> set (exhausted r)) (candidates r)"

definition mark_exhausted :: "account option \<Rightarrow> rotation \<Rightarrow> rotation" where
  "mark_exhausted a r = (case a of None \<Rightarrow> r
     | Some c \<Rightarrow> if c \<in> set (exhausted r) then r else r\<lparr>exhausted := c # exhausted r\<rparr>)"

definition advance :: "rotation \<Rightarrow> account option \<times> rotation" where
  "advance r = (let c = find (\<lambda>c. c \<notin> set (exhausted r)) (candidates r) in (c, r\<lparr>active_account := c\<rparr>))"

definition cooled :: "rotation \<Rightarrow> nat \<Rightarrow> account \<Rightarrow> bool" where
  "cooled r now c = (c \<notin> set (exhausted r) \<and> (case cooling r c of None \<Rightarrow> True | Some t \<Rightarrow> t \<le> now))"

definition available :: "rotation \<Rightarrow> nat \<Rightarrow> account list" where
  "available r now = filter (cooled r now) (candidates r)"

definition mark_capped :: "account option \<Rightarrow> nat \<Rightarrow> string \<Rightarrow> rotation \<Rightarrow> rotation" where
  "mark_capped a now msg r = (case a of None \<Rightarrow> r
     | Some c \<Rightarrow> r\<lparr>cooling := (cooling r)(c \<mapsto> eligible_at now msg)\<rparr>)"

definition in_turn :: "rotation \<Rightarrow> nat \<Rightarrow> account" where
  "in_turn r step = candidates r ! ((cursor r + step) mod length (candidates r))"

definition next_account :: "nat \<Rightarrow> rotation \<Rightarrow> account option \<times> rotation" where
  "next_account now r =
     (case find (\<lambda>step. cooled r now (in_turn r step)) [0..<length (candidates r)] of
        None \<Rightarrow> (None, r\<lparr>active_account := None\<rparr>)
      | Some step \<Rightarrow> (Some (in_turn r step),
          r\<lparr>cursor := (cursor r + step + 1) mod length (candidates r),
            active_account := Some (in_turn r step)\<rparr>))"

definition should_rotate :: "nat option \<Rightarrow> bool" where
  "should_rotate s = (case s of None \<Rightarrow> False | Some n \<Rightarrow> n \<in> set quota_statuses)"

definition build_rotation :: "account list \<Rightarrow> account option \<Rightarrow> rotation" where
  "build_rotation cs ambient =
     \<lparr>candidates = (case ambient of Some a \<Rightarrow> if a \<in> set cs then a # remove1 a cs else cs | None \<Rightarrow> cs),
      exhausted = [], active_account = ambient, cooling = (\<lambda>_. None), cursor = 0\<rparr>"

definition account_for_task :: "bool \<Rightarrow> nat \<Rightarrow> rotation option \<Rightarrow> account option \<times> rotation option" where
  \<comment> \<open>\<open>rotating\<close> is \<^verbatim>\<open>cfg.rotate_accounts\<close>\<close>
  "account_for_task rotating now rot =
     (case rot of
        None \<Rightarrow> (None, None)
      | Some r \<Rightarrow> if rotating \<and> rotation_enabled r
          then map_prod id Some (next_account now r)
          else (active_account r, Some r))"

section \<open>Spawning with provider retries and failover\<close>

record spawn_out =
  so_exit :: int
  so_out :: string
  so_err :: string

record 'w spawner =
  sp_run :: "account option \<Rightarrow> 'w \<Rightarrow> (string + spawn_out) \<times> 'w"   \<comment> \<open>\<open>Inl\<close>: the spawn raised\<close>
  sp_clock :: "'w \<Rightarrow> nat"

record spawn_state =
  sp_rotation :: "rotation option"
  sp_account :: "account option"       \<comment> \<open>\<^verbatim>\<open>env["CLAUDE_CONFIG_DIR"]\<close>\<close>
  sp_retries :: nat
  sp_spawns :: nat                     \<comment> \<open>processes started\<close>

definition infra_retry_limit :: nat where "infra_retry_limit = 1"

definition failover :: "nat \<Rightarrow> failure \<Rightarrow> spawn_state \<Rightarrow> bool \<times> spawn_state" where
  "failover now f st =
     (case sp_rotation st of
        None \<Rightarrow> (False, st)
      | Some r \<Rightarrow>
          if rotation_enabled r \<and> should_rotate (fl_status f) then
            (case next_account now (mark_capped (active_account r) now (fl_message f) r) of
               (Some a, r') \<Rightarrow> (True, st\<lparr>sp_rotation := Some r', sp_account := Some a\<rparr>)
             | (None, r') \<Rightarrow> (False, st\<lparr>sp_rotation := Some r'\<rparr>))
          else (False, st))"

fun spawn_loop :: "nat \<Rightarrow> (string \<Rightarrow> string) \<Rightarrow> 'w spawner \<Rightarrow> spawn_state \<Rightarrow> 'w
    \<Rightarrow> ((string + spawn_out) \<times> spawn_state \<times> 'w) option" where
  "spawn_loop 0 fl ops st w = None"
| "spawn_loop (Suc n) fl ops st w =
     (case sp_run ops (sp_account st) w of
        (Inl e, w') \<Rightarrow> Some (Inl (''spawn_failed: '' @ e), st\<lparr>sp_spawns := Suc (sp_spawns st)\<rparr>, w')
      | (Inr r, w') \<Rightarrow>
          let st = st\<lparr>sp_spawns := Suc (sp_spawns st)\<rparr>; f = classify fl (so_exit r) (so_out r) (so_err r)
          in if so_exit r = 0 then Some (Inr r, st, w')
             else if fl_retry f \<noteq> RetryNow \<or> infra_retry_limit \<le> sp_retries st then
               (case failover (sp_clock ops w') f st of
                  (True, st') \<Rightarrow> spawn_loop n fl ops st' w'
                | (False, st') \<Rightarrow> Some (Inr r, st', w'))
             else spawn_loop n fl ops (st\<lparr>sp_retries := Suc (sp_retries st)\<rparr>) w')"

section \<open>Bounds of the cooldown\<close>

lemma next_month_range:
  assumes "1970 \<le> fst ym" "1 \<le> snd ym" "snd ym \<le> 12"
  shows "1970 \<le> fst (next_month ym) \<and> 1 \<le> snd (next_month ym) \<and> snd (next_month ym) \<le> 12"
  using assms by (auto simp: next_month_def)

lemma month_of_day_from_spec:
  assumes "1970 \<le> fst ym" "1 \<le> snd ym" "snd ym \<le> 12"
    and "month_of_day_from d ym = (y, m)"
  shows "1970 \<le> y \<and> 1 \<le> m \<and> m \<le> 12 \<and> month_start y m \<le> month_start (fst ym) (snd ym) + d \<and>
     month_start (fst ym) (snd ym) + d < month_start y m + month_days y m"
  using assms
proof (induction d ym rule: month_of_day_from.induct)
  case (1 d ym)
  show ?case
  proof (cases "d < month_days (fst ym) (snd ym)")
    case True
    with 1(5) have "ym = (y, m)" by (simp add: month_of_day_from.simps)
    with True 1(2-4) show ?thesis by simp
  next
    case False
    with 1(5) have "month_of_day_from (d - month_days (fst ym) (snd ym)) (next_month ym) = (y, m)"
      by (simp add: month_of_day_from.simps [of d ym])
    from 1(1) [OF False _ _ _ this] next_month_range [OF 1(2-4)]
      month_start_next [OF 1(2-4)] False
    show ?thesis by simp
  qed
qed

lemma next_month_start_bounds:
  "now < next_month_start now" "next_month_start now \<le> now + 31 * day_length"
proof -
  obtain y m where ym: "month_of_day (now div day_length) = (y, m)" by fastforce
  have start: "month_start 1970 1 = 0" by (simp add: month_start_def)
  from ym month_of_day_from_spec [of "(1970, 1)" "now div day_length" y m] start
  have r: "1970 \<le> y" "1 \<le> m" "m \<le> 12" and lo: "month_start y m \<le> now div day_length"
    and hi: "now div day_length < month_start y m + month_days y m"
    by (simp_all add: month_of_day_def)
  from month_start_next [OF r] ym
  have n: "next_month_start now = (month_start y m + month_days y m) * day_length"
    by (simp add: next_month_start_def Let_def)
  have pos: "0 < day_length" by (simp add: day_length_def second_def)
  have "now < Suc (now div day_length) * day_length"
    using pos by (metis dividend_less_div_times mult_Suc add.commute)
  also have "\<dots> \<le> next_month_start now" unfolding n using hi by (intro mult_right_mono) auto
  finally show "now < next_month_start now" .
  have "next_month_start now \<le> (now div day_length + 31) * day_length"
    unfolding n using lo month_days_bounds(2) [of y m] by (intro mult_right_mono) linarith+
  also have "\<dots> = now div day_length * day_length + 31 * day_length"
    by (rule add_mult_distrib)
  also have "\<dots> \<le> now + 31 * day_length" using div_times_less_eq_dividend [of now day_length] by linarith
  finally show "next_month_start now \<le> now + 31 * day_length" .
qed

lemma clock_reset_bounds:
  assumes "clock_reset h mi now = Some t"
  shows "now < t \<and> t \<le> now + day_length"
proof -
  let ?d = "now div day_length * day_length" and ?c = "(h * 3600 + mi * 60) * second"
  from assms have hm: "h \<le> 23" "mi \<le> 59"
    and t: "t = (if ?d + ?c \<le> now then ?d + ?c + day_length else ?d + ?c)"
    by (auto simp: clock_reset_def Let_def split: if_splits)
  have "?c < day_length" using hm by (simp add: day_length_def second_def)
  moreover have "?d \<le> now" "now < ?d + day_length"
    using dividend_less_div_times [of day_length now] by (simp_all add: day_length_def second_def)
  ultimately show ?thesis unfolding t
    by (cases "?d + ?c \<le> now") (simp_all only: if_True if_False simp_thms, linarith+)
qed

lemma iso_reset_later: "iso_reset g now = Some t \<Longrightarrow> now < t"
  by (auto simp: iso_reset_def second_def split: option.splits if_splits)

lemma parse_reset_later: "parse_reset_time msg now = Some t \<Longrightarrow> now < t"
  by (auto simp: parse_reset_time_def dest: iso_reset_later clock_reset_bounds split: option.splits)

lemma eligible_later: "now < eligible_at now msg"
  using next_month_start_bounds(1)
  by (auto simp: eligible_at_def weekly_probe_def default_cooldown_def second_def
      dest: parse_reset_later split: option.splits)

lemma eligible_soon:
  assumes "rx_search iso_pattern msg = None"
  shows "eligible_at now msg \<le> now + 31 * day_length"
proof (cases "parse_reset_time msg now")
  case None
  then show ?thesis using next_month_start_bounds(2) [of now]
    by (simp add: eligible_at_def weekly_probe_def default_cooldown_def day_length_def second_def)
next
  case (Some t)
  then have "t \<le> now + day_length" using assms
    by (auto simp: parse_reset_time_def dest: clock_reset_bounds split: option.splits)
  then have "t \<le> now + 31 * day_length" by (simp add: day_length_def second_def)
  with Some show ?thesis by (simp add: eligible_at_def)
qed

text \<open>
  A cooldown is real and finite: a capped account is out for a positive time whatever the
  refusal says, so it cannot be un-capped by the text that capped it, and unless the provider
  states a full date it is back within 31 days.
\<close>

theorem cooldown_bounds:
  "now < eligible_at now msg \<and>
   (case rx_search iso_pattern msg of None \<Rightarrow> eligible_at now msg \<le> now + 31 * day_length | Some _ \<Rightarrow> True)"
  using eligible_later eligible_soon by (auto split: option.split)

section \<open>The rotation serves every account\<close>

lemma cooled_next [simp]: "cooled (snd (next_account now r)) t c = cooled r t c"
  by (simp add: next_account_def cooled_def split: option.split)

lemma candidates_next [simp]: "candidates (snd (next_account now r)) = candidates r"
  by (simp add: next_account_def split: option.split)

lemma next_account_step:
  assumes "k < length (candidates r)" "cooled r now (in_turn r k)"
  shows "\<exists>s \<le> k. fst (next_account now r) = Some (in_turn r s) \<and> cooled r now (in_turn r s) \<and>
     (\<forall>j. in_turn (snd (next_account now r)) j = in_turn r (s + 1 + j))"
proof -
  let ?n = "length (candidates r)"
  have "find (\<lambda>step. cooled r now (in_turn r step)) [0..<?n] \<noteq> None"
    using assms by (auto simp: find_None_iff)
  then obtain s where f: "find (\<lambda>step. cooled r now (in_turn r step)) [0..<?n] = Some s" by blast
  then have s: "cooled r now (in_turn r s)" "\<forall>j < s. \<not> cooled r now (in_turn r j)"
    by (auto simp: find_Some_iff)
  with assms(2) have "s \<le> k" using linorder_not_less by blast
  moreover have n: "next_account now r = (Some (in_turn r s),
      r\<lparr>cursor := (cursor r + s + 1) mod ?n, active_account := Some (in_turn r s)\<rparr>)"
    unfolding next_account_def f by simp
  then have "in_turn (snd (next_account now r)) j = in_turn r (s + 1 + j)" for j
    unfolding n by (simp add: in_turn_def mod_add_left_eq mod_Suc_eq add.assoc)
  ultimately show ?thesis using s(1) n by (intro exI [of _ s]) simp
qed

fun turns :: "nat \<Rightarrow> nat \<Rightarrow> rotation \<Rightarrow> account option list" where
  \<comment> \<open>the accounts of so many tasks in a row\<close>
  "turns 0 now r = []"
| "turns (Suc n) now r = (let (a, r') = next_account now r in a # turns n now r')"

lemma turns_mono: "set (turns n now r) \<subseteq> set (turns (n + m) now r)"
  by (induction n arbitrary: r) (auto simp: Let_def split: prod.split)

lemma turns_reach:
  assumes "k < length (candidates r)" "cooled r now (in_turn r k)"
  shows "Some (in_turn r k) \<in> set (turns (Suc k) now r)"
  using assms
proof (induction k arbitrary: r rule: less_induct)
  case (less k)
  from next_account_step [OF less.prems] obtain s where s: "s \<le> k"
    "fst (next_account now r) = Some (in_turn r s)"
    "\<And>j. in_turn (snd (next_account now r)) j = in_turn r (s + 1 + j)" by blast
  show ?case
  proof (cases "s = k")
    case True
    with s(2) show ?thesis by (cases "next_account now r") auto
  next
    case False
    let ?j = "k - s - 1" and ?r = "snd (next_account now r)"
    have j: "?j < k" "s + 1 + ?j = k" using False s(1) by auto
    have "Some (in_turn ?r ?j) \<in> set (turns (Suc ?j) now ?r)"
      using less.IH [OF j(1), of ?r] less.prems j s(3) by simp
    then have "Some (in_turn r k) \<in> set (turns (Suc ?j) now ?r)" using s(3) [of ?j] j(2) by simp
    moreover have "Suc ?j + s = k" using False s(1) by simp
    ultimately have "Some (in_turn r k) \<in> set (turns k now ?r)" using turns_mono [of "Suc ?j" now ?r s] by auto
    then show ?thesis by (cases "next_account now r") auto
  qed
qed

lemma in_turn_covers:
  assumes "c \<in> set (candidates r)"
  shows "\<exists>k < length (candidates r). in_turn r k = c"
proof -
  let ?n = "length (candidates r)"
  from assms obtain i where i: "i < ?n" "candidates r ! i = c" by (auto simp: in_set_conv_nth)
  let ?k = "(i + (?n - cursor r mod ?n)) mod ?n"
  have less: "cursor r mod ?n < ?n" using i(1) by (intro mod_less_divisor) auto
  have "(cursor r + ?k) mod ?n = (cursor r + (i + (?n - cursor r mod ?n))) mod ?n"
    by (rule mod_add_right_eq)
  also have "\<dots> = (cursor r mod ?n + (i + (?n - cursor r mod ?n))) mod ?n"
    by (rule mod_add_left_eq [symmetric])
  also have "cursor r mod ?n + (i + (?n - cursor r mod ?n)) = i + ?n"
    using less by simp
  finally have "in_turn r ?k = c" using i by (simp add: in_turn_def)
  moreover have "?k < ?n" using i(1) by (intro mod_less_divisor) auto
  ultimately show ?thesis by blast
qed

text \<open>
  C34. Round-robin starves nobody: while the clock stands still, every account that is neither
  spent nor cooling down is chosen within as many turns as there are accounts.
\<close>

theorem rotation_serves_every_account:
  assumes "c \<in> set (candidates r)" "cooled r now c"
  shows "Some c \<in> set (turns (length (candidates r)) now r)"
proof -
  from in_turn_covers [OF assms(1)] obtain k where k: "k < length (candidates r)" "in_turn r k = c" by blast
  with turns_reach assms(2) have "Some c \<in> set (turns (Suc k) now r)" by metis
  with turns_mono k(1) show ?thesis by (metis Suc_leI le_add_diff_inverse subsetD)
qed

theorem rotation_serves_every_account_witness:
  "Some ''b'' \<in> set (turns 3 0 (build_rotation [''a'', ''b'', ''c''] None))"
  using rotation_serves_every_account [of "''b''" "build_rotation [''a'', ''b'', ''c''] None" 0]
  by (simp add: build_rotation_def cooled_def numeral_3_eq_3 del: turns.simps)

section \<open>The spawn loop ends\<close>

text \<open>
  Every failover caps the account it leaves, so while the clock stands still the number of
  accounts left falls, up to one step for a run that started on an account outside the rotation.
\<close>

definition failovers_left :: "nat \<Rightarrow> rotation \<Rightarrow> nat" where
  "failovers_left now r = length (available r now) +
     (if \<exists>c \<in> set (available r now). active_account r = Some c then 0 else 1)"

lemma available_next [simp]: "available (snd (next_account now r)) t = available r t"
  unfolding available_def by (simp cong: filter_cong)

lemma next_account_active:
  assumes "next_account now r = (Some c, r')"
  shows "active_account r' = Some c" "c \<in> set (available r now)"
proof -
  from assms obtain s where f: "find (\<lambda>step. cooled r now (in_turn r step)) [0..<length (candidates r)] = Some s"
    by (auto simp: next_account_def split: option.splits)
  then have s: "cooled r now (in_turn r s)" "s < length (candidates r)" by (auto simp: find_Some_iff)
  from assms f have "c = in_turn r s" "active_account r' = Some c" by (auto simp: next_account_def)
  moreover have "in_turn r s \<in> set (candidates r)" unfolding in_turn_def
    by (rule nth_mem) (use s(2) in \<open>intro mod_less_divisor, auto\<close>)
  ultimately show "active_account r' = Some c" "c \<in> set (available r now)"
    using s(1) by (auto simp: available_def)
qed

lemma available_capped:
  "available (mark_capped a now msg r) now = filter (\<lambda>c. Some c \<noteq> a) (available r now)"
proof (cases a)
  case None then show ?thesis by (simp add: mark_capped_def)
next
  case (Some d)
  have "cooled (mark_capped a now msg r) now c \<longleftrightarrow> cooled r now c \<and> c \<noteq> d" for c
    using eligible_later [of now msg] Some by (auto simp: mark_capped_def cooled_def)
  then have "filter (cooled (mark_capped a now msg r) now) (candidates r)
      = filter (\<lambda>c. cooled r now c \<and> c \<noteq> d) (candidates r)"
    by (intro filter_cong) simp_all
  then show ?thesis using Some by (simp add: available_def mark_capped_def conj_commute)
qed

lemma failover_step:
  assumes "failover now f st = (True, st')" "sp_rotation st = Some r"
  shows "\<exists>r'. sp_rotation st' = Some r' \<and> failovers_left now r' < failovers_left now r
     \<and> sp_retries st' = sp_retries st \<and> sp_spawns st' = sp_spawns st"
proof -
  let ?m = "mark_capped (active_account r) now (fl_message f) r"
  from assms obtain a r' where n: "next_account now ?m = (Some a, r')"
    and st': "st' = st\<lparr>sp_rotation := Some r', sp_account := Some a\<rparr>"
    by (auto simp: failover_def split: if_splits prod.splits option.splits)
  have av: "available r' now = filter (\<lambda>c. Some c \<noteq> active_account r) (available r now)"
    using available_next [of now ?m now] n available_capped by simp
  from next_account_active [OF n] have "active_account r' = Some a" "a \<in> set (available r' now)"
    using available_next [of now ?m now] n by simp_all
  then have left: "failovers_left now r' = length (available r' now)" by (auto simp: failovers_left_def)
  have "length (available r' now) < failovers_left now r"
  proof (cases "\<exists>c \<in> set (available r now). active_account r = Some c")
    case True
    then obtain c where "c \<in> set (available r now)" "active_account r = Some c" by blast
    then have "length (filter (\<lambda>c. Some c \<noteq> active_account r) (available r now)) < length (available r now)"
      by (intro length_filter_less [of c]) auto
    then show ?thesis by (simp add: av failovers_left_def)
  next
    case False
    have "length (available r' now) \<le> length (available r now)" unfolding av by (rule length_filter_le)
    with False show ?thesis by (simp add: failovers_left_def)
  qed
  with left st' show ?thesis by auto
qed

definition spawns_left :: "nat \<Rightarrow> spawn_state \<Rightarrow> nat" where
  "spawns_left now st = (infra_retry_limit - sp_retries st)
     + (case sp_rotation st of None \<Rightarrow> 0 | Some r \<Rightarrow> failovers_left now r)"

lemma failover_left:
  assumes "failover now f st = (True, st')"
  shows "spawns_left now st' < spawns_left now st \<and> sp_spawns st' = sp_spawns st"
proof -
  from assms obtain r where "sp_rotation st = Some r" by (auto simp: failover_def split: option.splits)
  with failover_step [OF assms this] show ?thesis by (auto simp: spawns_left_def)
qed

lemma failover_false: "failover now f st = (False, st') \<Longrightarrow> sp_spawns st' = sp_spawns st"
  by (auto simp: failover_def split: option.splits if_splits prod.splits)

lemma spawn_loop_ends:
  assumes "\<And>w. sp_clock ops w = now" "spawns_left now st < n"
  shows "\<exists>r st' w'. spawn_loop n fl ops st w = Some (r, st', w') \<and>
     sp_spawns st' \<le> sp_spawns st + spawns_left now st + 1"
  using assms(2)
proof (induction n arbitrary: st w)
  case 0
  then show ?case by simp
next
  case (Suc n)
  obtain x w' where run: "sp_run ops (sp_account st) w = (x, w')" by fastforce
  show ?case
  proof (cases x)
    case (Inl e)
    then show ?thesis by (simp add: run)
  next
    case (Inr r)
    let ?st = "st\<lparr>sp_spawns := Suc (sp_spawns st)\<rparr>"
    let ?f = "classify fl (so_exit r) (so_out r) (so_err r)"
    have left: "spawns_left now ?st = spawns_left now st" by (simp add: spawns_left_def)
    consider "so_exit r = 0"
      | "so_exit r \<noteq> 0" "fl_retry ?f \<noteq> RetryNow \<or> infra_retry_limit \<le> sp_retries st"
      | "so_exit r \<noteq> 0" "fl_retry ?f = RetryNow" "sp_retries st < infra_retry_limit" by linarith
    then show ?thesis
    proof cases
      case 1
      then show ?thesis by (simp add: run Inr)
    next
      case 2
      obtain b st' where fo: "failover now ?f ?st = (b, st')" by fastforce
      show ?thesis
      proof (cases b)
        case True
        from failover_left [of now ?f ?st st'] fo True left
        have less: "spawns_left now st' < spawns_left now st" and sp: "sp_spawns st' = Suc (sp_spawns st)"
          by simp_all
        with Suc.IH [of st' w'] Suc.prems obtain r' st'' w'' where
          "spawn_loop n fl ops st' w' = Some (r', st'', w'')"
          "sp_spawns st'' \<le> sp_spawns st' + spawns_left now st' + 1" by auto
        with less sp show ?thesis using 2 fo True by (auto simp: run Inr assms(1) Let_def)
      next
        case False
        with failover_false [of now ?f ?st st'] fo 2 show ?thesis by (auto simp: run Inr assms(1) Let_def)
      qed
    next
      case 3
      let ?st' = "?st\<lparr>sp_retries := Suc (sp_retries st)\<rparr>"
      have "spawns_left now ?st' < spawns_left now st" using 3 by (auto simp: spawns_left_def)
      with Suc.IH [of ?st' w'] Suc.prems obtain r' st'' w'' where
        "spawn_loop n fl ops ?st' w' = Some (r', st'', w'')"
        "sp_spawns st'' \<le> sp_spawns ?st' + spawns_left now ?st' + 1" by auto
      with \<open>spawns_left now ?st' < spawns_left now st\<close> show ?thesis
        using 3 by (auto simp: run Inr Let_def)
    qed
  qed
qed

text \<open>
  The spawn loop ends: while the clock stands still no rung starts more than one process per
  account, one for the account it started on and one retry, whatever the agents answer; fuel of
  one more than that bound is enough.
\<close>

theorem spawn_loop_bounded:
  assumes "\<And>w. sp_clock ops w = now" "sp_retries st = 0" "sp_spawns st = 0" "sp_rotation st = Some r"
  shows "\<exists>out st' w'. spawn_loop (length (candidates r) + 3) fl ops st w = Some (out, st', w') \<and>
     sp_spawns st' \<le> length (candidates r) + 3"
proof -
  have "failovers_left now r \<le> length (candidates r) + 1"
    using length_filter_le [of "cooled r now" "candidates r"]
    by (auto simp: failovers_left_def available_def intro: le_SucI)
  then have "spawns_left now st \<le> length (candidates r) + 2"
    using assms by (simp add: spawns_left_def infra_retry_limit_def)
  with spawn_loop_ends [OF assms(1), of st "length (candidates r) + 3" fl w] assms(3) show ?thesis
    by fastforce
qed

definition quota_spawner :: "unit spawner" where
  \<comment> \<open>every account refuses\<close>
  "quota_spawner = \<lparr>sp_run = (\<lambda>a w. (Inr \<lparr>so_exit = 1, so_out = jtext (JObj sample_result), so_err = []\<rparr>, w)),
     sp_clock = (\<lambda>w. 0)\<rparr>"

theorem spawn_loop_bounded_witness:
  "\<exists>out st' w'. spawn_loop 6 (\<lambda>t. t) quota_spawner
       \<lparr>sp_rotation = Some (build_rotation [''a'', ''b'', ''c''] None), sp_account = None,
        sp_retries = 0, sp_spawns = 0\<rparr> () = Some (out, st', w') \<and> sp_spawns st' \<le> 6"
  using spawn_loop_bounded [of quota_spawner 0
      "\<lparr>sp_rotation = Some (build_rotation [''a'', ''b'', ''c''] None), sp_account = None,
        sp_retries = 0, sp_spawns = 0\<rparr>" "build_rotation [''a'', ''b'', ''c''] None" "\<lambda>t. t" "()"]
  by (simp add: quota_spawner_def build_rotation_def)

text \<open>
  The rotation is one object shared by the tasks of a run, and a refusal caps its active account,
  the one chosen last. With two tasks in flight that is not the refused one.
\<close>

definition two_tasks :: "rotation" where
  \<comment> \<open>after the accounts of two tasks have been chosen: \<open>a\<close> for the first, \<open>b\<close> for the second\<close>
  "two_tasks = (let (_, r) = account_for_task True 1 (Some (build_rotation [''a'', ''b'', ''c''] None));
       (_, r') = account_for_task True 1 r in the r')"

lemma two_tasks_eq:
  "two_tasks = \<lparr>candidates = [''a'', ''b'', ''c''], exhausted = [], active_account = Some ''b'',
     cooling = (\<lambda>_. None), cursor = 2\<rparr>"
  by (simp add: two_tasks_def account_for_task_def build_rotation_def rotation_enabled_def
      next_account_def cooled_def in_turn_def upt_rec Let_def map_prod_def)

lemma refusal_caps_another_account:
  assumes "failover 1 f \<lparr>sp_rotation = Some two_tasks, sp_account = Some ''a'', sp_retries = 0, sp_spawns = 1\<rparr>
      = (True, st')"
  shows "cooling (the (sp_rotation st')) ''a'' = None \<and> cooling (the (sp_rotation st')) ''b'' \<noteq> None"
  using assms
  by (auto simp: two_tasks_eq failover_def next_account_def mark_capped_def split: option.splits if_splits prod.splits)

end
