(* ===== verification/Panel.thy ===== *)
theory Panel
  imports Quality Risk
begin

text \<open>
  The cross-family review panel (\<^verbatim>\<open>cross_family_reviewer.py\<close> and its callers in
  \<^verbatim>\<open>orchestrator.py\<close>): the verdict of a seat, the consensus over the seats, when a panel runs,
  who is seated and when iterating on its findings stops. The seats' answers are inputs; the
  advisory seats, which no function below reads, and the rendered texts are left out.
\<close>

section \<open>Verdicts\<close>

datatype seat_verdict = Approve | ChangesRequested | Reject | ParseFailed | Unavailable
datatype severity = Critical | High | Medium | LowSeverity

definition severity_text :: "severity \<Rightarrow> string" where
  "severity_text s = (case s of Critical \<Rightarrow> ''CRITICAL'' | High \<Rightarrow> ''HIGH'' | Medium \<Rightarrow> ''MEDIUM''
     | LowSeverity \<Rightarrow> ''LOW'')"

definition blocking_severities :: "severity list" where
  "blocking_severities = [Critical, High]"

record finding =
  fd_severity :: severity
  fd_location :: string
  fd_description :: string

record review =
  rv_family :: string
  rv_verdict :: seat_verdict
  rv_findings :: "finding list"

definition blocks :: "finding \<Rightarrow> bool" where
  "blocks f = (fd_severity f \<in> set blocking_severities)"

definition is_blocker :: "review \<Rightarrow> bool" where
  "is_blocker r =
     (if rv_verdict r \<in> {ChangesRequested, Reject} then True
      else if rv_verdict r = ParseFailed then True
      else list_ex blocks (rv_findings r))"

definition blocking_findings :: "review \<Rightarrow> finding list" where
  "blocking_findings r = filter blocks (rv_findings r)"

datatype consensus = ApproveConsensus | BlockConsensus | IncompleteConsensus

record panel_verdict =
  pl_consensus :: consensus
  pl_reviews :: "review list"
  pl_blocking :: "finding list"

definition is_approve :: "panel_verdict \<Rightarrow> bool" where
  "is_approve p = (pl_consensus p = ApproveConsensus)"

section \<open>Consensus\<close>

definition available_seats :: "review list \<Rightarrow> review list" where
  "available_seats rs = filter (\<lambda>r. rv_verdict r \<noteq> Unavailable) rs"

definition valid_seats :: "review list \<Rightarrow> review list" where
  "valid_seats rs = filter (\<lambda>r. rv_verdict r \<noteq> ParseFailed) (available_seats rs)"

definition aggregate :: "review list \<Rightarrow> panel_verdict" where
  "aggregate reviews =
     (if reviews = [] then \<lparr>pl_consensus = IncompleteConsensus, pl_reviews = [], pl_blocking = []\<rparr>
      else
       let blocking = concat (map blocking_findings reviews); valid = valid_seats reviews;
           families = length (filter is_blocker valid);
           any_critical = list_ex (\<lambda>f. fd_severity f = Critical) blocking
       in \<lparr>pl_consensus =
             (if any_critical \<or> 2 \<le> families then BlockConsensus
              else if min 2 (length reviews) \<le> length valid then ApproveConsensus
              else IncompleteConsensus),
           pl_reviews = reviews, pl_blocking = blocking\<rparr>)"

section \<open>When a panel runs\<close>

definition panel_skip_types :: "string list" where
  "panel_skip_types = [''docs'', ''documentation'', ''test'', ''tests'']"

definition is_small_leaf :: "string list \<Rightarrow> bool" where
  "is_small_leaf ls = list_ex (\<lambda>l. norm_label l \<in> {''size:xs'', ''size:s''}) ls"

definition panel_required :: "string list \<Rightarrow> string option \<Rightarrow> classification option \<Rightarrow> bool" where
  "panel_required ls ty cls =
     (if (case cls of None \<Rightarrow> False | Some c \<Rightarrow> requires_full_panel c) then True
      else if (case ty of None \<Rightarrow> False | Some t \<Rightarrow> t \<noteq> [] \<and> py_lower t \<in> set panel_skip_types) then False
      else has_risk_label ls)"

record panel_inputs =
  pi_type :: string
  pi_labels :: "string list"
  pi_verify :: "string option"          \<comment> \<open>\<^verbatim>\<open>snap.verify\<close>, \<^verbatim>\<open>snap.panel\<close> and the design stage's\<close>
  pi_panel :: "string option"
  pi_design_verify :: "string option"
  pi_design_panel :: "string option"
  pi_run_panel :: string                \<comment> \<open>\<^verbatim>\<open>cfg.cross_family_panel\<close>\<close>
  pi_skip_verification :: bool

definition resolved_quality :: "panel_inputs \<Rightarrow> quality_levels" where
  "resolved_quality i = resolve_quality_levels
     \<lparr>in_labels = pi_labels i, task_verify = pi_verify i, task_panel = pi_panel i,
      design_verify = pi_design_verify i, design_panel = pi_design_panel i,
      run_verify = (if pi_skip_verification i then ''mechanical'' else ''llm''),
      run_panel = (let r = py_lower (if pi_run_panel i = [] then ''auto'' else pi_run_panel i)
                   in if r \<in> set known_panel then r else ''auto'')\<rparr>"

definition panel_should_run :: "panel_inputs \<Rightarrow> bool" where
  "panel_should_run i =
     (let mode = q_panel (resolved_quality i);
          pinned = py_lower (py_strip (case pi_panel i of None \<Rightarrow> [] | Some p \<Rightarrow> p))
      in if pi_type i \<noteq> [] \<and> py_lower (pi_type i) \<in> set panel_skip_types then False
         else if mode = ''never'' then False
         else if pinned \<in> {''full'', ''single'', ''always''} then True
         else if is_small_leaf (pi_labels i) \<and> \<not> has_risk_label (pi_labels i)
                 \<and> pi_panel i = None \<and> mode \<noteq> ''always'' then False
         else if mode \<in> {''full'', ''always'', ''single''} then True
         else panel_required (pi_labels i) (Some (pi_type i)) None)"

section \<open>Seating\<close>

definition rank_in :: "string list \<Rightarrow> string \<Rightarrow> nat" where
  \<comment> \<open>the position in a preference list, 9 for a family it does not name\<close>
  "rank_in fams f = (case find (\<lambda>i. fams ! i = f) [0..<length fams] of Some i \<Rightarrow> i | None \<Rightarrow> 9)"

definition panel_seats :: "string list \<Rightarrow> bool \<Rightarrow> string \<Rightarrow> string \<Rightarrow> int option \<Rightarrow> string list" where
  \<comment> \<open>the families seated out of those configured; \<open>recommended\<close> is the seat count of the path
      classification where the base configuration honours it\<close>
  "panel_seats seats exclude_author author mode recommended =
     (let without = filter (\<lambda>f. f \<noteq> author) seats;
          chosen = (if exclude_author \<and> 2 \<le> length without then without else seats);
          chosen = (if mode = ''single'' \<and> chosen \<noteq> []
                    then take 1 (sort_key (rank_in [''claude'', ''grok'', ''gemini'', ''codex'']) chosen)
                    else chosen)
      in case recommended of
           None \<Rightarrow> chosen
         | Some n \<Rightarrow>
             if 2 < length chosen \<and> n < int (length chosen)
                \<and> max 2 n < int (length chosen)
             then take (nat (max 2 n)) (sort_key (rank_in [''claude'', ''grok'', ''codex'', ''gemini'']) chosen)
             else chosen)"

definition progressive_panel :: "review list \<Rightarrow> review list \<Rightarrow> panel_verdict" where
  \<comment> \<open>the answers of the codex seats and, where the first stage does not settle it, of the others\<close>
  "progressive_panel codex others =
     (if codex = [] then aggregate others
      else (let first = aggregate codex
            in if pl_consensus first = BlockConsensus \<or> list_ex (\<lambda>r. blocking_findings r \<noteq> []) (pl_reviews first)
               then first\<lparr>pl_consensus := BlockConsensus\<rparr>
               else aggregate (pl_reviews first @ others)))"

section \<open>Convergence of the iteration\<close>

fun stale_rounds :: "nat \<Rightarrow> nat \<Rightarrow> nat list \<Rightarrow> nat" where
  "stale_rounds best stale [] = stale"
| "stale_rounds best stale (v # vs) =
     (if v < best then stale_rounds v 0 vs else stale_rounds best (Suc stale) vs)"

definition convergence_stalled :: "nat list \<Rightarrow> int \<Rightarrow> bool" where
  "convergence_stalled history patience =
     (if patience \<le> 0 then False
      else (case history of [] \<Rightarrow> False | b # vs \<Rightarrow> patience \<le> int (stale_rounds b 0 vs)))"

section \<open>What a consensus means\<close>

lemma aggregate_consensus:
  assumes "reviews \<noteq> []"
  shows "pl_consensus (aggregate reviews) =
     (if (\<exists>r \<in> set reviews. \<exists>f \<in> set (rv_findings r). fd_severity f = Critical)
         \<or> 2 \<le> length (filter is_blocker (valid_seats reviews)) then BlockConsensus
      else if min 2 (length reviews) \<le> length (valid_seats reviews) then ApproveConsensus
      else IncompleteConsensus)"
proof -
  have "list_ex (\<lambda>f. fd_severity f = Critical) (concat (map blocking_findings reviews))
      \<longleftrightarrow> (\<exists>r \<in> set reviews. \<exists>f \<in> set (rv_findings r). fd_severity f = Critical)"
    by (auto simp: list_ex_iff blocking_findings_def blocks_def blocking_severities_def)
  then show ?thesis using assms by (simp add: aggregate_def Let_def)
qed

lemma aggregate_approve_iff:
  "is_approve (aggregate reviews) \<longleftrightarrow> reviews \<noteq> [] \<and>
     (\<forall>r \<in> set reviews. \<forall>f \<in> set (rv_findings r). fd_severity f \<noteq> Critical) \<and>
     length (filter is_blocker (valid_seats reviews)) < 2 \<and>
     min 2 (length reviews) \<le> length (valid_seats reviews)"
proof (cases "reviews = []")
  case True
  then show ?thesis by (simp add: is_approve_def aggregate_def)
next
  case False
  then show ?thesis unfolding is_approve_def aggregate_consensus [OF False] by auto
qed

text \<open>A seat dissents more: it turns to a blocker, or names a critical finding, and stays valid.\<close>

definition harsher :: "review \<Rightarrow> review \<Rightarrow> bool" where
  "harsher r r' = ((is_blocker r \<longrightarrow> is_blocker r') \<and>
     (rv_verdict r \<in> {ParseFailed, Unavailable} \<longleftrightarrow> rv_verdict r' \<in> {ParseFailed, Unavailable}) \<and>
     ((\<exists>f \<in> set (rv_findings r). fd_severity f = Critical) \<longrightarrow> (\<exists>f \<in> set (rv_findings r'). fd_severity f = Critical)))"

lemma valid_iff: "r \<in> set (valid_seats rs) \<longleftrightarrow> r \<in> set rs \<and> rv_verdict r \<notin> {ParseFailed, Unavailable}"
  by (auto simp: valid_seats_def available_seats_def)

lemma valid_seats_Cons: "valid_seats (r # rs) =
    (if rv_verdict r \<in> {ParseFailed, Unavailable} then valid_seats rs else r # valid_seats rs)"
  by (auto simp: valid_seats_def available_seats_def)

lemma harsher_counts:
  assumes "list_all2 harsher rs rs'"
  shows "length (valid_seats rs) = length (valid_seats rs') \<and>
     length (filter is_blocker (valid_seats rs)) \<le> length (filter is_blocker (valid_seats rs'))"
  using assms
  by (induction rs rs' rule: list_all2_induct) (auto simp: valid_seats_Cons harsher_def valid_seats_def available_seats_def)


text \<open>
  A single seat cannot refuse: when only one seat is invited, its rejection alone is an
  approval unless it also names a critical finding.
\<close>

theorem single_seat_rejection_approves:
  "is_approve (aggregate [r]) \<longleftrightarrow>
     rv_verdict r \<notin> {ParseFailed, Unavailable} \<and> (\<nexists>f. f \<in> set (rv_findings r) \<and> fd_severity f = Critical)"
  unfolding aggregate_approve_iff by (auto simp: valid_seats_def available_seats_def)

definition seat_rejects :: review where
  "seat_rejects = \<lparr>rv_family = ''claude'', rv_verdict = Reject, rv_findings = []\<rparr>"

definition seat_approves :: "string \<Rightarrow> review" where
  "seat_approves f = \<lparr>rv_family = f, rv_verdict = Approve, rv_findings = []\<rparr>"


lemma seats_not_starved:
  assumes "2 \<le> length seats" "mode \<noteq> ''single''"
  shows "2 \<le> length (panel_seats seats ex author mode recommended)"
  using assms by (auto simp: panel_seats_def Let_def split: option.split)

section \<open>Iteration on findings stops\<close>

lemma stale_bound:
  assumes "\<forall>n \<le> length vs. stale_rounds b stale (take n vs) < p" "stale < p"
  shows "length vs \<le> b * p + (p - 1 - stale)"
  using assms
proof (induction b stale vs rule: stale_rounds.induct)
  case (1 b stale)
  then show ?case by simp
next
  case (2 b stale v vs)
  have tail: "stale_rounds (if v < b then v else b) (if v < b then 0 else Suc stale) (take n vs) < p"
    if "n \<le> length vs" for n
    using 2(3) that by (auto dest: spec [of _ "Suc n"])
  show ?case
  proof (cases "v < b")
    case True
    then have "length vs \<le> v * p + (p - 1)" using 2(1) tail 2(4) by simp
    moreover have "v * p + p \<le> b * p"
      using mult_le_mono1 [of "Suc v" b p] True by (simp add: add.commute)
    ultimately show ?thesis using 2(4) by simp
  next
    case False
    have "Suc stale < p" using tail [of 0] False by simp
    then have "length vs \<le> b * p + (p - 1 - Suc stale)" using 2(2) tail False by simp
    then show ?thesis using \<open>Suc stale < p\<close> by simp
  qed
qed

text \<open>
  Reviewing again ends by itself: with a positive patience, a run of panel rounds none of
  which is reported stalled is no longer than the patience times one more than the number of
  blocking findings of the first round, whatever the iterate budget.
\<close>

theorem panel_rounds_bounded:
  assumes "0 < patience" "history \<noteq> []"
    and "\<forall>n \<in> {1..length history}. \<not> convergence_stalled (take n history) patience"
  shows "int (length history) \<le> patience * (int (hd history) + 1)"
proof -
  obtain b vs where h: "history = b # vs" using assms(2) by (cases history) auto
  obtain p where p: "patience = int p" "0 < p" using assms(1) by (metis nonneg_int_cases order_less_imp_le of_nat_0_less_iff)
  have "stale_rounds b 0 (take n vs) < p" if "n \<le> length vs" for n
    using assms(3) that p h by (auto simp: convergence_stalled_def dest: bspec [of _ _ "Suc n"])
  with stale_bound [of vs b 0 p] p(2) have "length vs \<le> b * p + (p - 1)" by simp
  then have "length history \<le> p * (b + 1)" using h p(2) by (simp add: algebra_simps)
  then show ?thesis using h p(1) by (metis list.sel(1) of_nat_1 of_nat_add of_nat_le_iff of_nat_mult)
qed

theorem panel_rounds_bounded_witness: "int (length [3, 2, 2, 1 :: nat]) \<le> 2 * (int (hd [3, 2, 2, 1]) + 1)"
proof (rule panel_rounds_bounded)
  have "{1..length [3, 2, 2, 1 :: nat]} = {1, 2, 3, 4}" by auto
  then show "\<forall>n \<in> {1..length [3, 2, 2, 1 :: nat]}. \<not> convergence_stalled (take n [3, 2, 2, 1]) 2"
    by (simp add: convergence_stalled_def)
qed simp_all

end
