(* ===== verification/Disposition.thy ===== *)
theory Disposition
  imports Panel Tasks Json
begin

text \<open>
  The final review of a feature: the dispositions of its findings and their ledger
  (\<^verbatim>\<open>disposition.py\<close>), the fix tasks it appends to the worklist, and the loop of \<^verbatim>\<open>_run_loop\<close>
  that drains the worklist, reviews, and drains again. The panel's answer, the drain and the merge
  pass are operations of the run's world; events and log lines are left out.
\<close>

section \<open>Dispositions\<close>

datatype disposition = AcceptFinding | DeferFinding | HoldFinding | RejectFinding

definition is_blocking_severity :: "severity \<Rightarrow> bool" where
  "is_blocking_severity s = (s \<in> {Critical, High})"

definition finding_key :: "string \<Rightarrow> severity \<Rightarrow> string" where
  "finding_key location s =
     (if location = [] then location
      else if is_blocking_severity s then takeWhile (\<lambda>c. c \<noteq> CHR '':'') location
      else location)"

record disposition_record =
  dr_id :: string
  dr_severity :: severity
  dr_corroboration :: nat
  dr_gate_grounded :: bool
  dr_disposition :: disposition

definition classify_disposition :: "severity \<Rightarrow> nat \<Rightarrow> bool \<Rightarrow> bool \<Rightarrow> disposition" where
  "classify_disposition s corroborated grounded refutable =
     (if refutable then RejectFinding
      else if is_blocking_severity s then
        (if 2 \<le> corroborated \<or> grounded then AcceptFinding else HoldFinding)
      else DeferFinding)"

definition key_of :: "finding \<Rightarrow> string" where
  "key_of f = finding_key (fd_location f) (fd_severity f)"

definition corroboration :: "panel_verdict \<Rightarrow> string \<Rightarrow> nat" where
  \<comment> \<open>\<^verbatim>\<open>counts.get(key, 0)\<close>\<close>
  "corroboration v key = length (filter (\<lambda>r. key \<in> set (map key_of (rv_findings r))) (pl_reviews v))"

section \<open>The ledger\<close>

record ledger =
  lg_records :: "disposition_record list"
  lg_max_rounds :: int
  lg_max_tasks :: nat

definition new_ledger :: "int \<Rightarrow> ledger" where
  "new_ledger rounds = \<lparr>lg_records = [], lg_max_rounds = rounds, lg_max_tasks = 20\<rparr>"

definition ledger_record :: "disposition_record \<Rightarrow> ledger \<Rightarrow> ledger" where
  "ledger_record d l = l\<lparr>lg_records := lg_records l @ [d]\<rparr>"

definition accepted_ids :: "ledger \<Rightarrow> string list" where
  "accepted_ids l = map dr_id (filter (\<lambda>r. dr_disposition r = AcceptFinding) (lg_records l))"

definition accepted_count :: "ledger \<Rightarrow> nat" where
  "accepted_count l = length (filter (\<lambda>r. dr_disposition r = AcceptFinding) (lg_records l))"

definition regenerating :: "string \<Rightarrow> ledger \<Rightarrow> bool" where
  "regenerating i l = list_ex (\<lambda>r. dr_id r = i \<and> dr_disposition r = AcceptFinding) (lg_records l)"

fun has_repeat :: "string list \<Rightarrow> string list \<Rightarrow> bool" where
  "has_repeat seen [] = False"
| "has_repeat seen (x # xs) = (x \<in> set seen \<or> has_repeat (x # seen) xs)"

definition has_regenerating :: "ledger \<Rightarrow> bool" where
  "has_regenerating l = has_repeat [] (accepted_ids l)"

datatype alarm = MaxRounds | TaskCap | Regenerated | HighAcceptRate

definition alarm_tripped :: "ledger \<Rightarrow> int \<Rightarrow> alarm option" where
  \<comment> \<open>\<^verbatim>\<open>HIGH_RATE_MIN_RECORDS\<close> is 4; the quotient of the counts exceeds 0.6 where five times the one
      exceeds three times the other\<close>
  "alarm_tripped l rounds_done =
     (let accepted = accepted_count l; total = length (lg_records l) in
      if lg_max_rounds l \<le> rounds_done then Some MaxRounds
      else if lg_max_tasks l < accepted then Some TaskCap
      else if has_regenerating l then Some Regenerated
      else if 4 \<le> total \<and> 3 * total < 5 * accepted then Some HighAcceptRate
      else None)"

section \<open>Recording a verdict\<close>

definition severity_rank :: "severity \<Rightarrow> nat" where
  "severity_rank s = (case s of Critical \<Rightarrow> 3 | High \<Rightarrow> 2 | Medium \<Rightarrow> 1 | LowSeverity \<Rightarrow> 0)"

fun merge_finding :: "string \<Rightarrow> finding \<Rightarrow> (string \<times> finding) list \<Rightarrow> (string \<times> finding) list" where
  "merge_finding k f [] = [(k, f)]"
| "merge_finding k f ((k', g) # rest) =
     (if k' = k then
        (k', if severity_rank (fd_severity g) < severity_rank (fd_severity f)
             then g\<lparr>fd_severity := fd_severity f,
                    fd_description := (if fd_description f = [] then fd_description g else fd_description f)\<rparr>
             else g) # rest
      else (k', g) # merge_finding k f rest)"

definition distinct_findings :: "panel_verdict \<Rightarrow> finding list" where
  "distinct_findings v =
     map snd (fold (\<lambda>f acc. merge_finding (key_of f) f acc) (concat (map rv_findings (pl_reviews v))) [])"

record fix_request =
  fx_finding :: finding
  fx_corroboration :: nat

record triage =
  tr_ledger :: ledger
  tr_accepted :: "fix_request list"
  tr_held :: "fix_request list"

definition triage_finding :: "panel_verdict \<Rightarrow> finding \<Rightarrow> triage \<Rightarrow> triage" where
  "triage_finding v f t =
     (let k = key_of f; c = (if corroboration v k = 0 then 1 else corroboration v k);
          d = classify_disposition (fd_severity f) c False False;
          rec = \<lparr>dr_id = k @ '':'' @ severity_text (fd_severity f), dr_severity = fd_severity f,
                 dr_corroboration = c, dr_gate_grounded = False, dr_disposition = d\<rparr>;
          x = \<lparr>fx_finding = f, fx_corroboration = c\<rparr>;
          t = t\<lparr>tr_ledger := ledger_record rec (tr_ledger t)\<rparr>
      in if d = AcceptFinding then t\<lparr>tr_accepted := tr_accepted t @ [x]\<rparr>
         else if d = HoldFinding then t\<lparr>tr_held := tr_held t @ [x]\<rparr>
         else t)"

definition apply_dispositions :: "panel_verdict \<Rightarrow> ledger \<Rightarrow> triage" where
  "apply_dispositions v l = fold (triage_finding v) (distinct_findings v)
     \<lparr>tr_ledger = l, tr_accepted = [], tr_held = []\<rparr>"

section \<open>Fix tasks\<close>

definition key_text :: "row \<Rightarrow> string" where
  "key_text r = (case map_of r ''key'' of None \<Rightarrow> [] | Some v \<Rightarrow> py_str v)"

definition fix_number :: "row \<Rightarrow> nat option" where
  "fix_number r = (let k = key_text r in
     if starts_with k ''FIX-'' \<and> drop 4 k \<noteq> [] \<and> list_all is_digit (drop 4 k)
     then Some (digits_value (drop 4 k)) else None)"

definition first_fix_number :: "row list \<Rightarrow> nat" where
  "first_fix_number rows = fold max (List.map_filter fix_number rows) 0"

definition newline :: string where "newline = [CHR 10]"

definition fix_row :: "nat \<Rightarrow> nat \<Rightarrow> fix_request \<Rightarrow> row" where
  "fix_row n review_round x =
     (let f = fx_finding x; desc = fd_description f; loc = fd_location f in
      [(''key'', PStr (''FIX-'' @ nat_digits n)),
       (''summary'', PStr (''fix: '' @ take 70 (if desc = [] then loc else desc))),
       (''description'', PStr (''Address this finding from the final feature review (round ''
          @ nat_digits review_round @ ''):'' @ newline @ newline @ ''- location: '' @ loc @ newline
          @ ''- severity: '' @ severity_text (fd_severity f) @ newline
          @ ''- corroboration: '' @ nat_digits (fx_corroboration x) @ '' reviewer(s)'' @ newline @ newline
          @ desc @ newline @ newline
          @ ''Make the change and add/adjust a test proving it. Commit only ''
          @ [CHR 0xE2, CHR 0x80, CHR 0x94] @ '' the dispatcher integrates.'')),
       (''type'', PStr ''Task''), (''labels'', PList [PStr ''size:S'', PStr ''area:fix'']),
       (''agent'', PStr ''claude''), (''risk'', PStr ''High'')])"

definition fix_rows :: "nat \<Rightarrow> nat \<Rightarrow> fix_request list \<Rightarrow> row list" where
  "fix_rows n review_round xs =
     map (\<lambda>(i, x). fix_row (n + 1 + i) review_round x) (zip [0..<length xs] xs)"

definition append_fix_tasks :: "fix_request list \<Rightarrow> nat \<Rightarrow> row list \<Rightarrow> row list" where
  "append_fix_tasks xs review_round rows = rows @ fix_rows (first_fix_number rows) review_round xs"

section \<open>The review round and the run\<close>

record 'w run_ops =
  ro_drain :: "'w \<Rightarrow> bool \<times> 'w"                     \<comment> \<open>\<^verbatim>\<open>_dispatch_drain\<close>: whether the budget tripped\<close>
  ro_merge :: "'w \<Rightarrow> 'w"
  ro_review :: "'w \<Rightarrow> panel_verdict option \<times> 'w"    \<comment> \<open>None: no cumulative diff\<close>
  ro_invalid :: "'w \<Rightarrow> bool"                        \<comment> \<open>the worklist no longer validates\<close>
  ro_rows :: "'w \<Rightarrow> row list"
  ro_write :: "row list \<Rightarrow> 'w \<Rightarrow> 'w"

datatype round_end = NoDiff | Alarm alarm | Held | CleanReview | Appended nat

definition review_round_step :: "'w run_ops \<Rightarrow> ledger \<Rightarrow> nat \<Rightarrow> 'w \<Rightarrow> round_end \<times> ledger \<times> 'w" where
  "review_round_step ops l n w =
     (case ro_review ops w of
        (None, w) \<Rightarrow> (NoDiff, l, w)
      | (Some v, w) \<Rightarrow>
         (let t = apply_dispositions v l; l = tr_ledger t in
          case alarm_tripped l (int n) of
            Some a \<Rightarrow> (Alarm a, l, w)
          | None \<Rightarrow>
              if tr_held t \<noteq> [] then (Held, l, w)
              else if tr_accepted t = [] then (CleanReview, l, w)
              else (Appended (length (tr_accepted t)), l,
                    ro_write ops (append_fix_tasks (tr_accepted t) n (ro_rows ops w)) w)))"

record run_config =
  rc_feature_review :: bool
  rc_pr_mode :: bool

record 'w run_state =
  ru_ledger :: ledger
  ru_round :: nat
  ru_budget :: bool
  ru_appended :: nat        \<comment> \<open>fix tasks written so far\<close>
  ru_world :: 'w

lemma appended_before_limit:
  assumes "review_round_step ops l n w = (Appended k, l', w')"
  shows "int n < lg_max_rounds l' \<and> k \<noteq> 0"
  using assms
  by (auto simp: review_round_step_def alarm_tripped_def Let_def split: prod.splits option.splits if_splits)

lemma triage_config [simp]:
  "lg_max_rounds (tr_ledger (triage_finding v f t)) = lg_max_rounds (tr_ledger t)"
  "lg_max_tasks (tr_ledger (triage_finding v f t)) = lg_max_tasks (tr_ledger t)"
  by (simp_all add: triage_finding_def ledger_record_def Let_def)

lemma apply_config [simp]:
  "lg_max_rounds (tr_ledger (apply_dispositions v l)) = lg_max_rounds l"
  "lg_max_tasks (tr_ledger (apply_dispositions v l)) = lg_max_tasks l"
proof -
  have "lg_max_rounds (tr_ledger (fold (triage_finding v) fs t)) = lg_max_rounds (tr_ledger t) \<and>
      lg_max_tasks (tr_ledger (fold (triage_finding v) fs t)) = lg_max_tasks (tr_ledger t)" for fs t
    by (induction fs arbitrary: t) simp_all
  then show "lg_max_rounds (tr_ledger (apply_dispositions v l)) = lg_max_rounds l"
    "lg_max_tasks (tr_ledger (apply_dispositions v l)) = lg_max_tasks l"
    by (simp_all add: apply_dispositions_def)
qed

lemma round_config:
  assumes "review_round_step ops l n w = (e, l', w')"
  shows "lg_max_rounds l' = lg_max_rounds l" "lg_max_tasks l' = lg_max_tasks l"
  using assms by (auto simp: review_round_step_def Let_def split: prod.splits option.splits if_splits)

function run_rounds :: "'w run_ops \<Rightarrow> run_config \<Rightarrow> 'w run_state \<Rightarrow> 'w run_state" where
  "run_rounds ops cfg s =
     (let (tripped, w) = ro_drain ops (ru_world s); budget = (ru_budget s \<or> tripped);
          s = s\<lparr>ru_budget := budget, ru_world := w\<rparr>
      in if ro_invalid ops w then s
         else let w = ro_merge ops w; s = s\<lparr>ru_world := w\<rparr> in
           if budget \<or> \<not> (rc_feature_review cfg \<and> rc_pr_mode cfg) then s
           else (case review_round_step ops (ru_ledger s) (ru_round s) w of
               (Appended k, l, w) \<Rightarrow> run_rounds ops cfg (s\<lparr>ru_ledger := l, ru_round := Suc (ru_round s),
                   ru_appended := ru_appended s + k, ru_world := w\<rparr>)
             | (_, l, w) \<Rightarrow> s\<lparr>ru_ledger := l, ru_world := w\<rparr>))"
  by pat_completeness auto

termination run_rounds
proof (relation "measure (\<lambda>(ops, cfg, s). nat (lg_max_rounds (ru_ledger s) - int (ru_round s)))", goal_cases)
  case 1
  then show ?case by simp
next
  case 2
  then show ?case
    by (clarsimp simp: eq_commute [of "(_, _)" "review_round_step _ _ _ _"]) (frule appended_before_limit, drule round_config(1), simp)
qed

declare run_rounds.simps [simp del]

definition run_exit_code :: "string list \<Rightarrow> bool \<Rightarrow> bool \<Rightarrow> nat" where
  \<comment> \<open>over the statuses of the rows at the end of the run\<close>
  "run_exit_code statuses budget invalid =
     (if BLOCKED \<in> set statuses \<or> ESCALATED \<in> set statuses \<or> budget \<or> invalid then 1 else 0)"

section \<open>The loop is bounded\<close>

lemma has_repeat_iff: "has_repeat seen xs \<longleftrightarrow> \<not> distinct xs \<or> set xs \<inter> set seen \<noteq> {}"
  by (induction xs arbitrary: seen) auto

lemma triage_accepted:
  assumes "accepted_count (tr_ledger t) = c + length (tr_accepted t)"
  shows "accepted_count (tr_ledger (triage_finding v f t)) = c + length (tr_accepted (triage_finding v f t))"
  using assms by (simp add: triage_finding_def accepted_count_def ledger_record_def Let_def)

lemma apply_accepted:
  "accepted_count (tr_ledger (apply_dispositions v l)) = accepted_count l + length (tr_accepted (apply_dispositions v l))"
proof -
  have "accepted_count (tr_ledger t) = c + length (tr_accepted t) \<Longrightarrow>
      accepted_count (tr_ledger (fold (triage_finding v) fs t)) = c + length (tr_accepted (fold (triage_finding v) fs t))"
    for fs t c
    by (induction fs arbitrary: t) (simp_all add: triage_accepted)
  then show ?thesis by (simp add: apply_dispositions_def)
qed

lemma round_appended:
  assumes "review_round_step ops l n w = (Appended k, l', w')"
  shows "accepted_count l' = accepted_count l + k" "accepted_count l' \<le> lg_max_tasks l'"
    "distinct (accepted_ids l')"
  using assms
  by (auto simp: review_round_step_def alarm_tripped_def has_regenerating_def has_repeat_iff apply_accepted Let_def
      split: prod.splits option.splits if_splits)

definition rounds_ok :: "'w run_state \<Rightarrow> bool" where
  "rounds_ok s = (ru_appended s = accepted_count (ru_ledger s) \<and>
     accepted_count (ru_ledger s) \<le> lg_max_tasks (ru_ledger s) \<and>
     int (ru_round s) \<le> max 0 (lg_max_rounds (ru_ledger s)))"

lemma run_rounds_ok:
  assumes "rounds_ok s"
  shows "ru_appended (run_rounds ops cfg s) \<le> lg_max_tasks (ru_ledger s) \<and>
     int (ru_round (run_rounds ops cfg s)) \<le> max 0 (lg_max_rounds (ru_ledger s))"
  using assms
proof (induction ops cfg s rule: run_rounds.induct)
  case (1 ops cfg s)
  obtain tripped w where d: "ro_drain ops (ru_world s) = (tripped, w)" by fastforce
  let ?b = "ru_budget s \<or> tripped"
  let ?s = "s\<lparr>ru_budget := ?b, ru_world := ro_merge ops w\<rparr>"
  obtain e l w2 where st: "review_round_step ops (ru_ledger s) (ru_round s) (ro_merge ops w) = (e, l, w2)"
    by (metis prod_cases3)
  show ?case
  proof (cases "\<not> ro_invalid ops w \<and> \<not> ?b \<and> rc_feature_review cfg \<and> rc_pr_mode cfg \<and> (\<exists>k. e = Appended k)")
    case False
    then have "ru_appended (run_rounds ops cfg s) = ru_appended s \<and> ru_round (run_rounds ops cfg s) = ru_round s"
      by (subst (1 2) run_rounds.simps) (auto simp: d st Let_def split: round_end.split)
    with 1(2) show ?thesis by (auto simp: rounds_ok_def)
  next
    case True
    then obtain k where k: "e = Appended k" and go: "\<not> ro_invalid ops w" "\<not> ?b"
      "rc_feature_review cfg" "rc_pr_mode cfg" by blast
    let ?t = "?s\<lparr>ru_ledger := l, ru_round := Suc (ru_round s), ru_appended := ru_appended s + k, ru_world := w2\<rparr>"
    have run: "run_rounds ops cfg s = run_rounds ops cfg ?t"
      using go by (subst run_rounds.simps) (simp add: d st k Let_def)
    note app = round_appended [OF st [unfolded k]] appended_before_limit [OF st [unfolded k]]
      round_config [OF st [unfolded k]]
    have "rounds_ok ?t" using 1(2) app by (auto simp: rounds_ok_def)
    then have "ru_appended (run_rounds ops cfg ?t) \<le> lg_max_tasks (ru_ledger ?t) \<and>
        int (ru_round (run_rounds ops cfg ?t)) \<le> max 0 (lg_max_rounds (ru_ledger ?t))"
      using 1(1) [OF refl d [symmetric] refl refl go(1) refl refl] go st k by simp
    with run app show ?thesis by simp
  qed
qed

text \<open>
  C36. The feature review cannot feed itself: whatever the reviewers answer and whatever the fix
  tasks do, a run reviews at most one time more than its limit of rounds and appends at most
  twenty fix tasks.
\<close>

theorem feature_review_bounded:
  assumes "ru_ledger s = new_ledger limit" "ru_round s = 0" "ru_appended s = 0"
  shows "ru_appended (run_rounds ops cfg s) \<le> 20 \<and> int (ru_round (run_rounds ops cfg s)) \<le> max 0 limit"
  using run_rounds_ok [of s ops cfg] assms
  by (simp add: rounds_ok_def new_ledger_def accepted_count_def)

section \<open>Fix tasks get new keys\<close>

lemma fold_max_ge: "m \<in> set xs \<or> m \<le> a \<Longrightarrow> m \<le> fold max xs (a :: nat)"
  by (induction xs arbitrary: a) (auto simp: le_max_iff_disj)

lemma key_text_fix_row [simp]: "key_text (fix_row n r x) = ''FIX-'' @ nat_digits n"
  by (simp add: key_text_def fix_row_def Let_def)

lemma nat_digits_not_Nil [simp]: "nat_digits n \<noteq> []"
  by (subst nat_digits.simps) simp

lemma fix_number_key: "key_text r = ''FIX-'' @ nat_digits n \<Longrightarrow> fix_number r = Some n"
  using nat_digits_digits [of n] by (simp add: fix_number_def starts_with_def Let_def list_all_iff)

lemma fix_rows_keys:
  "map key_text (fix_rows n r xs) = map (\<lambda>i. ''FIX-'' @ nat_digits (n + 1 + i)) [0..<length xs]"
  by (rule nth_equalityI) (simp_all add: fix_rows_def)

text \<open>
  C37. A fix task never takes the key of a row that is there: the keys appended to a worklist are
  new and different from each other.
\<close>

theorem fix_keys_fresh:
  "distinct (map key_text (fix_rows (first_fix_number rows) r xs)) \<and>
   set (map key_text (fix_rows (first_fix_number rows) r xs)) \<inter> set (map key_text rows) = {}"
proof
  have "inj_on (\<lambda>i. ''FIX-'' @ nat_digits (first_fix_number rows + 1 + i)) A" for A
    by (rule inj_onI) (metis add_left_cancel digits_value_digits same_append_eq)
  then show "distinct (map key_text (fix_rows (first_fix_number rows) r xs))"
    unfolding fix_rows_keys by (simp add: distinct_map)
  have "key_text row \<noteq> ''FIX-'' @ nat_digits (first_fix_number rows + 1 + i)" if "row \<in> set rows" for row i
  proof
    assume "key_text row = ''FIX-'' @ nat_digits (first_fix_number rows + 1 + i)"
    then have "fix_number row = Some (first_fix_number rows + 1 + i)" by (rule fix_number_key)
    with that have "first_fix_number rows + 1 + i \<in> set (List.map_filter fix_number rows)"
      by (force simp: List.map_filter_def)
    then have "first_fix_number rows + 1 + i \<le> first_fix_number rows"
      unfolding first_fix_number_def [of rows] by (intro fold_max_ge) simp
    then show False by simp
  qed
  then show "set (map key_text (fix_rows (first_fix_number rows) r xs)) \<inter> set (map key_text rows) = {}"
    unfolding fix_rows_keys by (force simp: disjoint_iff dest: sym)
qed

section \<open>Weak points\<close>

text \<open>A panel none of whose seats answered is not told from one that found nothing.\<close>

lemma unread_feature_is_clean:
  assumes "ro_review ops w = (Some (aggregate rs), w')" "\<forall>r \<in> set rs. rv_verdict r = Unavailable \<and> rv_findings r = []"
    and "alarm_tripped l (int n) = None"
  shows "review_round_step ops l n w = (CleanReview, l, w')"
proof -
  have "concat (map rv_findings (pl_reviews (aggregate rs))) = []"
    using assms(2) by (auto simp: aggregate_def Let_def)
  then have "apply_dispositions (aggregate rs) l = \<lparr>tr_ledger = l, tr_accepted = [], tr_held = []\<rparr>"
    unfolding apply_dispositions_def distinct_findings_def by (simp only: fold_simps list.map)
  then show ?thesis using assms(1,3) by (simp add: review_round_step_def)
qed

text \<open>Two blocking findings of one file are one record: the second never becomes a fix task.\<close>

definition two_defects :: panel_verdict where
  "two_defects = (let race = \<lparr>fd_severity = High, fd_location = ''a.py:10'', fd_description = ''race''\<rparr>;
       leak = \<lparr>fd_severity = High, fd_location = ''a.py:90'', fd_description = ''leak''\<rparr>;
       seat = (\<lambda>f. \<lparr>rv_family = f, rv_verdict = Reject, rv_findings = [race, leak]\<rparr>)
     in aggregate [seat ''claude'', seat ''codex''])"

lemma second_defect_is_lost:
  "map (fd_description \<circ> fx_finding) (tr_accepted (apply_dispositions two_defects (new_ledger 3))) = [''race'']"
  by code_simp

definition stub_run :: "unit run_ops" where
  "stub_run = \<lparr>ro_drain = (\<lambda>w. (False, w)), ro_merge = (\<lambda>w. w), ro_review = (\<lambda>w. (Some two_defects, w)),
     ro_invalid = (\<lambda>w. False), ro_rows = (\<lambda>w. []), ro_write = (\<lambda>rows w. w)\<rparr>"

theorem feature_review_bounded_witness:
  "ru_appended (run_rounds stub_run \<lparr>rc_feature_review = True, rc_pr_mode = True\<rparr>
     \<lparr>ru_ledger = new_ledger 3, ru_round = 0, ru_budget = False, ru_appended = 0, ru_world = ()\<rparr>) \<le> 20"
  using feature_review_bounded [of "\<lparr>ru_ledger = new_ledger 3, ru_round = 0, ru_budget = False,
      ru_appended = 0, ru_world = ()\<rparr>" 3] by simp

end
