(* ===== verification/Cascade.thy ===== *)
theory Cascade
  imports Quality Plan "HOL-Library.Multiset"
begin

text \<open>
  Which agent runs a task and how hard it tries (\<^verbatim>\<open>orchestrator.py\<close>, \<^verbatim>\<open>spawn.py\<close>): the rungs of the
  implementer cascade, the effective implementer and models, and the co-runnable batch taken off
  the queue with its combined quality pins.
\<close>

section \<open>Rungs\<close>

type_synonym rung = "string \<times> string option"

definition effort_ladder :: "string list" where
  "effort_ladder = [''low'', ''medium'', ''high'', ''xhigh'', ''max'', ''ultra'']"

definition effort_capable_agents :: "string list" where
  "effort_capable_agents = [''claude'', ''codex'', ''grok'']"

definition ladder_of :: "string \<Rightarrow> string list" where
  "ladder_of agent = filter (\<lambda>e. e \<in> set (case map_of agent_efforts agent of None \<Rightarrow> [] | Some es \<Rightarrow> es)) effort_ladder"

fun rung_above :: "string list \<Rightarrow> string \<Rightarrow> string option" where
  \<comment> \<open>the entry after the first occurrence of an effort\<close>
  "rung_above [] e = None"
| "rung_above [x] e = None"
| "rung_above (x # y # xs) e = (if x = e then Some y else rung_above (y # xs) e)"

definition with_effort_bump :: "bool \<Rightarrow> string \<Rightarrow> string option \<Rightarrow> rung list" where
  "with_effort_bump pin_effort agent effort =
     (agent, effort) #
     (if pin_effort \<or> agent \<notin> set effort_capable_agents \<or> ladder_of agent = [] then []
      else (case effort of
          None \<Rightarrow> if ''high'' \<in> set (ladder_of agent) then [(agent, Some ''high'')] else []
        | Some e \<Rightarrow> (case rung_above (ladder_of agent) e of None \<Rightarrow> [] | Some e' \<Rightarrow> [(agent, Some e')])))"

fun dedupe_rungs_after :: "rung option \<Rightarrow> rung list \<Rightarrow> rung list" where
  "dedupe_rungs_after p [] = []"
| "dedupe_rungs_after p (r # rs) =
     (if p = Some r then dedupe_rungs_after p rs else r # dedupe_rungs_after (Some r) rs)"

definition dedupe_cascade_rungs :: "rung list \<Rightarrow> rung list" where
  "dedupe_cascade_rungs rs = dedupe_rungs_after None rs"

record cascade_inputs =
  ci_agent :: "string option"
  ci_effort :: "string option"
  ci_labels :: "string list"
  ci_terminal :: string
  ci_stay_in_family :: bool
  ci_pin_effort :: bool

definition or_default :: "string option \<Rightarrow> string \<Rightarrow> string" where
  \<comment> \<open>\<^verbatim>\<open>v or d\<close>\<close>
  "or_default v d = (case v of None \<Rightarrow> d | Some s \<Rightarrow> if s = [] then d else s)"

definition cascade_terminal :: "cascade_inputs \<Rightarrow> string" where
  "cascade_terminal i = (let t = py_lower (py_strip (or_default (Some (ci_terminal i)) ''claude''))
     in if t \<in> {''claude'', ''grok''} then t else ''claude'')"

definition implementer_cascade :: "cascade_inputs \<Rightarrow> rung list" where
  "implementer_cascade i =
     (let terminal = cascade_terminal i; primary = or_default (ci_agent i) ''claude'' in
      if primary = ''claude'' then
        (let effort = (if ci_effort i \<notin> {None, Some []} then ci_effort i
                       else if is_hard_task_labels (ci_labels i) then Some ''high'' else None)
         in dedupe_cascade_rungs (with_effort_bump (ci_pin_effort i) ''claude'' effort))
      else
        (let rungs = with_effort_bump (ci_pin_effort i) primary (ci_effort i)
         in dedupe_cascade_rungs
              (if terminal \<noteq> primary \<and> \<not> ci_stay_in_family i then rungs @ [(terminal, Some ''high'')] else rungs)))"

fun distinct_agents :: "string option \<Rightarrow> rung list \<Rightarrow> string list" where
  "distinct_agents p [] = []"
| "distinct_agents p ((a, e) # rs) =
     (if p = Some a then distinct_agents p rs else a # distinct_agents (Some a) rs)"

definition implementer_fallback_chain :: "cascade_inputs \<Rightarrow> string list" where
  "implementer_fallback_chain i = distinct_agents None (implementer_cascade i)"

section \<open>Implementers and models\<close>

definition effective_implementer :: "string option \<Rightarrow> bool \<Rightarrow> string" where
  "effective_implementer implementer no_claude =
     (case implementer of
        Some s \<Rightarrow> if s \<noteq> [] \<and> py_strip s \<noteq> [] then py_lower (py_strip s)
                  else if no_claude then ''grok'' else ''claude''
      | None \<Rightarrow> if no_claude then ''grok'' else ''claude'')"

definition model_for_agent :: "string option \<Rightarrow> string option \<Rightarrow> string option" where
  \<comment> \<open>\<^verbatim>\<open>spawn.effective_model_for_agent\<close>\<close>
  "model_for_agent agent model =
     (case model of
        None \<Rightarrow> None
      | Some m \<Rightarrow>
          if m = [] then None
          else if py_lower (py_strip (or_default agent ''claude'')) \<in> {''claude'', []} then Some m
          else if contains (py_lower m) ''claude'' then None else Some m)"

definition verifier_model_for :: "string \<Rightarrow> string option \<Rightarrow> string option \<Rightarrow> string option" where
  "verifier_model_for v_agent row_model verifier_model =
     (if v_agent = ''claude'' then
        (case row_model of
           Some m \<Rightarrow> if m \<noteq> [] \<and> contains (py_lower m) ''claude'' then Some m else verifier_model
         | None \<Rightarrow> verifier_model)
      else model_for_agent (Some v_agent) verifier_model)"

definition model_for_cascade_rung :: "string option \<Rightarrow> string option \<Rightarrow> string option \<Rightarrow> string option" where
  "model_for_cascade_rung from_agent to_agent model =
     (let f = or_default from_agent ''claude''; t = or_default to_agent ''claude''
      in if f = t then model else map_of cascade_family_model t)"

section \<open>Batches\<close>

definition truthy_text :: "string option \<Rightarrow> string option" where
  "truthy_text v = (case v of Some s \<Rightarrow> if s = [] then None else Some s | None \<Rightarrow> None)"

definition take_batch_group :: "task list \<Rightarrow> task list \<times> task list" where
  "take_batch_group runnable =
     (case runnable of
        [] \<Rightarrow> ([], [])
      | h # ts \<Rightarrow>
          (case truthy_text (t_batch_id h) of
             None \<Rightarrow> ([h], ts)
           | Some b \<Rightarrow> (h # filter (\<lambda>t. truthy_text (t_batch_id t) = Some b) ts,
                        filter (\<lambda>t. truthy_text (t_batch_id t) \<noteq> Some b) ts)))"

definition strictest :: "(string \<times> nat) list \<Rightarrow> string \<Rightarrow> string option \<Rightarrow> string option list \<Rightarrow> string option" where
  \<comment> \<open>the fold of \<^verbatim>\<open>_dispatch_drain\<close> over the further members of a batch\<close>
  "strictest ranks lowest first others =
     fold (\<lambda>v best. case truthy_text v of
         None \<Rightarrow> best
       | Some s \<Rightarrow> if best = None \<or> rank_of ranks (or_default best lowest) < rank_of ranks s
                   then Some s else best) others first"

definition batch_verify :: "task list \<Rightarrow> string option" where
  "batch_verify ts = strictest verify_rank ''none'' (t_verify (hd ts)) (map t_verify (tl ts))"

definition batch_panel :: "task list \<Rightarrow> string option" where
  "batch_panel ts = strictest panel_rank ''never'' (t_panel (hd ts)) (map t_panel (tl ts))"

section \<open>The cascade escalates\<close>

definition effort_rank :: "string option \<Rightarrow> nat" where
  "effort_rank e = (case e of None \<Rightarrow> 0
     | Some s \<Rightarrow> (case find (\<lambda>i. effort_ladder ! i = s) [0..<length effort_ladder] of Some i \<Rightarrow> Suc i | None \<Rightarrow> 0))"

definition escalates :: "rung \<Rightarrow> rung \<Rightarrow> bool" where
  "escalates a b = (fst a = fst b \<longrightarrow> effort_rank (snd a) < effort_rank (snd b))"

fun adjacent :: "('a \<Rightarrow> 'a \<Rightarrow> bool) \<Rightarrow> 'a list \<Rightarrow> bool" where
  "adjacent P (x # y # xs) = (P x y \<and> adjacent P (y # xs))"
| "adjacent P _ = True"

lemma effort_rank_ladder:
  "effort_rank (Some ''low'') = 1" "effort_rank (Some ''medium'') = 2" "effort_rank (Some ''high'') = 3"
  "effort_rank (Some ''xhigh'') = 4" "effort_rank (Some ''max'') = 5" "effort_rank (Some ''ultra'') = 6"
  "effort_rank None = 0"
  by (simp_all add: effort_rank_def effort_ladder_def upt_rec)

lemma rung_above_adjacent: "rung_above xs e = Some e' \<Longrightarrow> adjacent P xs \<Longrightarrow> P e e'"
  by (induction xs e rule: rung_above.induct) (auto split: if_splits)

lemma ladders:
  "ladder_of ''claude'' = [''low'', ''medium'', ''high'']"
  "ladder_of ''codex'' = [''low'', ''medium'', ''high'', ''xhigh'', ''max'', ''ultra'']"
  "ladder_of ''grok'' = [''low'', ''medium'', ''high'', ''xhigh'']"
  by (simp_all add: ladder_of_def agent_efforts_def effort_ladder_def)

lemma bump_escalates:
  assumes "with_effort_bump pin agent effort = [r, r']"
  shows "escalates r r' \<and> fst r' = agent"
proof -
  from assms have cap: "agent \<in> {''claude'', ''codex'', ''grok''}"
    and r: "r = (agent, effort)"
    and up: "(effort = None \<and> r' = (agent, Some ''high'')) \<or>
       (\<exists>e e'. effort = Some e \<and> rung_above (ladder_of agent) e = Some e' \<and> r' = (agent, Some e'))"
    by (auto simp: with_effort_bump_def effort_capable_agents_def split: if_splits option.splits)
  from up show ?thesis
  proof (elim disjE exE conjE)
    assume "effort = None" "r' = (agent, Some ''high'')"
    with r show ?thesis by (simp add: escalates_def effort_rank_ladder)
  next
    fix e e' assume e: "effort = Some e" "rung_above (ladder_of agent) e = Some e'" "r' = (agent, Some e')"
    have "adjacent (\<lambda>a b. effort_rank (Some a) < effort_rank (Some b)) (ladder_of agent)"
      using cap by (elim insertE) (simp_all only: ladders adjacent.simps effort_rank_ladder, simp_all)
    with e(2) have "effort_rank (Some e) < effort_rank (Some e')" by (rule rung_above_adjacent)
    with r e show ?thesis by (simp add: escalates_def)
  qed
qed

lemma bump_shape: "\<exists>rs. with_effort_bump pin agent effort = (agent, effort) # rs \<and> length rs \<le> 1"
  by (auto simp: with_effort_bump_def split: option.split)

lemma dedupe_short:
  "r \<noteq> r' \<Longrightarrow> dedupe_cascade_rungs [r, r'] = [r, r']" "dedupe_cascade_rungs [r] = [r]"
  "r \<noteq> r' \<Longrightarrow> r' \<noteq> r'' \<Longrightarrow> dedupe_cascade_rungs [r, r', r''] = [r, r', r'']"
  by (auto simp: dedupe_cascade_rungs_def)

lemma escalates_irrefl: "escalates r r' \<Longrightarrow> r \<noteq> r'"
  by (auto simp: escalates_def)


section \<open>A batch takes its strictest pin\<close>

text \<open>
  Among the members that pin a level the strictest wins. A member without a pin has no say,
  though: its floor, which an explicit pin overrides, is overridden by another row's pin.
\<close>

lemma unpinned_member_loses_its_floor:
  "batch_verify [t\<lparr>t_verify := Some ''none''\<rparr>, (u :: task)\<lparr>t_verify := None\<rparr>] = Some ''none'' \<and>
   q_verify (resolve_quality_levels \<lparr>in_labels = [''risk:critical''], task_verify = Some ''none'',
     task_panel = None, design_verify = None, design_panel = None, run_verify = ''llm'', run_panel = ''auto''\<rparr>) = ''none''"
proof -
  have "known known_verify (Some ''none'')" by (simp add: known_def known_verify_def)
  then show ?thesis
    by (simp add: batch_verify_def strictest_def truthy_text_def resolve_quality_levels_def Let_def
        split: prod.split)
qed

lemma taken_batch_partitions:
  "mset (fst (take_batch_group ts) @ snd (take_batch_group ts)) = mset ts"
  by (cases ts) (auto simp: take_batch_group_def split: option.split)

end
