(* ===== verification/Scope.thy ===== *)
theory Scope
  imports GitPath
begin

text \<open>
  Did a task change files it does not own (\<^verbatim>\<open>scope_excursion.py\<close> and \<^verbatim>\<open>_scope_excursion_report\<close>):
  the shell patterns of \<^verbatim>\<open>fnmatch\<close>, the ownership of a path, and the severity of the rows of
  \<^verbatim>\<open>git diff --name-status\<close>.
\<close>

section \<open>Shell patterns\<close>

datatype set_item = SingleChar char | CharRange char char

datatype fn_token = FnStar | FnAny | FnNone | FnChar char | FnSet bool "set_item list"

fun set_items :: "string \<Rightarrow> set_item list" where
  "set_items [] = []"
| "set_items [c] = [SingleChar c]"
| "set_items [c, d] = [SingleChar c, SingleChar d]"
| "set_items (c # d # e # s) =
     (if d = CHR ''-'' then CharRange c e # set_items s else SingleChar c # set_items (d # e # s))"

definition set_token :: "string \<Rightarrow> fn_token" where
  \<comment> \<open>of the text between the brackets\<close>
  "set_token t =
     (if t = [] then FnNone
      else if t = ''!'' then FnAny
      else if hd t = CHR ''!'' then FnSet True (set_items (tl t))
      else FnSet False (set_items t))"

definition bracket_skip :: "string \<Rightarrow> nat" where
  \<comment> \<open>what cannot close the set: the negation, and a bracket directly after it\<close>
  "bracket_skip s =
     (let neg = (if s \<noteq> [] \<and> hd s = CHR ''!'' then 1 else 0)
      in neg + (if drop neg s \<noteq> [] \<and> hd (drop neg s) = CHR '']'' then 1 else 0))"

definition bracket_span :: "string \<Rightarrow> (string \<times> string) option" where
  \<comment> \<open>after an opening bracket: the text up to the closing one and the rest\<close>
  "bracket_span s =
     (let k = bracket_skip s; rest = dropWhile (\<lambda>c. c \<noteq> CHR '']'') (drop k s)
      in if rest = [] then None
         else Some (take k s @ takeWhile (\<lambda>c. c \<noteq> CHR '']'') (drop k s), tl rest))"

lemma bracket_span_shorter:
  assumes "bracket_span s = Some (t, r)"
  shows "length r < length s"
proof -
  let ?rest = "dropWhile (\<lambda>c. c \<noteq> CHR '']'') (drop (bracket_skip s) s)"
  from assms have "?rest \<noteq> []" "r = tl ?rest" by (auto simp: bracket_span_def Let_def split: if_splits)
  then have "length r < length ?rest" by simp
  also have "\<dots> \<le> length (drop (bracket_skip s) s)" by (rule length_dropWhile_le)
  also have "\<dots> \<le> length s" by simp
  finally show ?thesis .
qed

function fn_tokens :: "string \<Rightarrow> fn_token list" where
  "fn_tokens s = (case s of
       [] \<Rightarrow> []
     | c # r \<Rightarrow>
         if c = CHR ''*'' then FnStar # fn_tokens r
         else if c = CHR ''?'' then FnAny # fn_tokens r
         else if c = CHR ''['' then
           (case bracket_span r of
              None \<Rightarrow> FnChar c # fn_tokens r
            | Some (t, r') \<Rightarrow> set_token t # fn_tokens r')
         else FnChar c # fn_tokens r)"
  by pat_completeness auto

termination fn_tokens
  by (relation "measure length") (auto dest: bracket_span_shorter)

declare fn_tokens.simps [simp del]

definition in_item :: "char \<Rightarrow> set_item \<Rightarrow> bool" where
  "in_item c i = (case i of SingleChar d \<Rightarrow> c = d | CharRange a b \<Rightarrow> a \<le> c \<and> c \<le> b)"

fun fn_match :: "fn_token list \<Rightarrow> string \<Rightarrow> bool" where
  "fn_match [] s = (s = [])"
| "fn_match (FnStar # ts) [] = fn_match ts []"
| "fn_match (FnStar # ts) (c # s) = (fn_match ts (c # s) \<or> fn_match (FnStar # ts) s)"
| "fn_match (FnAny # ts) s = (case s of [] \<Rightarrow> False | c # r \<Rightarrow> fn_match ts r)"
| "fn_match (FnNone # ts) s = False"
| "fn_match (FnChar d # ts) s = (case s of [] \<Rightarrow> False | c # r \<Rightarrow> c = d \<and> fn_match ts r)"
| "fn_match (FnSet neg items # ts) s =
     (case s of [] \<Rightarrow> False | c # r \<Rightarrow> (list_ex (in_item c) items \<noteq> neg) \<and> fn_match ts r)"

definition fnmatchcase :: "string \<Rightarrow> string \<Rightarrow> bool" where
  "fnmatchcase path spec = fn_match (fn_tokens spec) path"

section \<open>Ownership and severity\<close>

datatype excursion_severity = NoExcursion | NoteExcursion | ReviewExcursion | BlockExcursion

definition severity_level :: "excursion_severity \<Rightarrow> nat" where
  "severity_level s = (case s of NoExcursion \<Rightarrow> 0 | NoteExcursion \<Rightarrow> 1 | ReviewExcursion \<Rightarrow> 2 | BlockExcursion \<Rightarrow> 3)"

text \<open>\<^verbatim>\<open>Severity\<close> is an \<^verbatim>\<open>IntEnum\<close>: the verdict is the maximum over the excursions.\<close>

instantiation excursion_severity :: linorder
begin

definition less_eq_excursion_severity :: "excursion_severity \<Rightarrow> excursion_severity \<Rightarrow> bool" where
  "less_eq_excursion_severity a b = (severity_level a \<le> severity_level b)"

definition less_excursion_severity :: "excursion_severity \<Rightarrow> excursion_severity \<Rightarrow> bool" where
  "less_excursion_severity a b = (severity_level a < severity_level b)"

instance
proof
  fix a b :: excursion_severity
  assume "a \<le> b" "b \<le> a"
  then show "a = b" by (cases a; cases b) (simp_all add: less_eq_excursion_severity_def severity_level_def)
qed (auto simp: less_eq_excursion_severity_def less_excursion_severity_def)

end

record excursion =
  ex_path :: string
  ex_change :: string

definition change_severity :: "string \<Rightarrow> excursion_severity" where
  "change_severity c = (if c = ''D'' then BlockExcursion else if c = ''A'' then NoteExcursion else ReviewExcursion)"

definition owns_entry :: "string \<Rightarrow> string \<Rightarrow> bool" where
  "owns_entry path entry =
     (let spec = py_strip entry;
          spec = (if ends_with spec ''/**'' then take (length spec - 2) spec else spec)
      in spec \<noteq> [] \<and> (if ends_with spec ''/'' then starts_with path spec else fnmatchcase path spec))"

definition owns_path :: "string \<Rightarrow> string list \<Rightarrow> bool" where
  "owns_path path owns = list_ex (owns_entry path) owns"

record excursion_report =
  er_excursions :: "excursion list"
  er_severity :: excursion_severity

definition classify_scope :: "(string \<times> string) list \<Rightarrow> string list \<Rightarrow> excursion_report" where
  \<comment> \<open>rows of change letter and path\<close>
  "classify_scope rows owns =
     (if owns = [] then \<lparr>er_excursions = [], er_severity = NoExcursion\<rparr>
      else
       (let found = map (\<lambda>(c, p). \<lparr>ex_path = p, ex_change = c\<rparr>) (filter (\<lambda>(c, p). \<not> owns_path p owns) rows)
        in \<lparr>er_excursions = found,
            er_severity = foldr (\<lambda>e. max (change_severity (ex_change e))) found NoExcursion\<rparr>))"

definition blocking_excursions :: "excursion_report \<Rightarrow> excursion list" where
  "blocking_excursions r = filter (\<lambda>e. change_severity (ex_change e) = BlockExcursion) (er_excursions r)"

definition excursion_reason :: "excursion_report \<Rightarrow> string" where
  \<comment> \<open>worst first, by path among equals\<close>
  "excursion_reason r = join ''; '' (map (\<lambda>e. ex_change e @ '' '' @ ex_path e)
     (sort_key (\<lambda>e. 3 - severity_level (change_severity (ex_change e))) (sort_key ex_path (er_excursions r))))"

definition name_status_row :: "string \<Rightarrow> (string \<times> string) option" where
  "name_status_row line = (let parts = split_all (CHR 9) line in
     if 2 \<le> length parts \<and> py_strip (hd parts) \<noteq> []
     then Some (take 1 (py_strip (hd parts)), py_strip (last parts)) else None)"

definition scope_excursion_report :: "string list \<Rightarrow> string option \<Rightarrow> (string \<Rightarrow> (int \<times> string) option) \<Rightarrow> excursion_report option" where
  \<comment> \<open>\<open>run\<close> is \<^verbatim>\<open>git diff --name-status\<close> from a base, None where it could not be run\<close>
  "scope_excursion_report owns base run =
     (case base of
        None \<Rightarrow> None
      | Some b \<Rightarrow>
         if owns = [] \<or> b = [] then None
         else (case run b of
             None \<Rightarrow> None
           | Some (code, out) \<Rightarrow>
               if code \<noteq> 0 then None
               else Some (classify_scope (List.map_filter name_status_row (py_splitlines out)) owns)))"

section \<open>What is reported\<close>

lemma foldr_max_ge: "e \<in> set es \<Longrightarrow> f e \<le> foldr (\<lambda>e. max (f e)) es (z :: 'a :: linorder)"
  by (induction es) (auto simp: le_max_iff_disj)

lemma foldr_max_reached: "foldr (\<lambda>e. max (f e)) es (z :: 'a :: linorder) = z \<or> (\<exists>e \<in> set es. foldr (\<lambda>e. max (f e)) es z = f e)"
  by (induction es) (auto simp: max_def)

lemma block_top: "BlockExcursion \<le> s \<longleftrightarrow> s = BlockExcursion"
  by (cases s) (simp_all add: less_eq_excursion_severity_def severity_level_def)

lemma change_severity_block: "change_severity c = BlockExcursion \<longleftrightarrow> c = ''D''"
  by (simp add: change_severity_def)

lemma excursions_with:
  "(\<exists>e \<in> set (map (\<lambda>(c, p). \<lparr>ex_path = p, ex_change = c\<rparr>) rs). ex_change e = d) \<longleftrightarrow> (\<exists>p. (d, p) \<in> set rs)"
  by (induction rs) auto

text \<open>
  The scope gate blocks exactly the deletion of a foreign file: a report blocks if and only
  if the task declares what it owns and some row deletes a path none of its entries covers.
\<close>

theorem scope_blocks_exactly:
  "er_severity (classify_scope rows owns) = BlockExcursion \<longleftrightarrow>
     owns \<noteq> [] \<and> (\<exists>p. (''D'', p) \<in> set rows \<and> \<not> owns_path p owns)"
proof (cases "owns = []")
  case True
  then show ?thesis by (simp add: classify_scope_def)
next
  case False
  let ?found = "map (\<lambda>(c, p). \<lparr>ex_path = p, ex_change = c\<rparr>) (filter (\<lambda>(c, p). \<not> owns_path p owns) rows)"
  let ?s = "foldr (\<lambda>e. max (change_severity (ex_change e))) ?found NoExcursion"
  have "?s = BlockExcursion \<longleftrightarrow> (\<exists>e \<in> set ?found. change_severity (ex_change e) = BlockExcursion)"
  proof
    assume "?s = BlockExcursion"
    moreover have "?s = NoExcursion \<or> (\<exists>e \<in> set ?found. ?s = change_severity (ex_change e))"
      by (rule foldr_max_reached)
    ultimately show "\<exists>e \<in> set ?found. change_severity (ex_change e) = BlockExcursion"
      by (metis excursion_severity.distinct(5))
  next
    assume "\<exists>e \<in> set ?found. change_severity (ex_change e) = BlockExcursion"
    then obtain e where "e \<in> set ?found" "change_severity (ex_change e) = BlockExcursion" by blast
    with foldr_max_ge [of e ?found "\<lambda>e. change_severity (ex_change e)" NoExcursion]
    show "?s = BlockExcursion" by (simp only: block_top)
  qed
  also have "\<dots> \<longleftrightarrow> (\<exists>p. (''D'', p) \<in> set rows \<and> \<not> owns_path p owns)"
    by (simp only: change_severity_block excursions_with) simp
  finally show ?thesis using False by (simp add: classify_scope_def Let_def)
qed

text \<open>
  The path is taken as git prints it. One that git quotes begins with the quote, so an owned
  directory no longer covers it.
\<close>

lemma quoted_path_not_owned:
  assumes "\<forall>e \<in> set owns. ends_with e ''/'' \<and> e \<noteq> [] \<and> hd e \<noteq> dquote \<and> py_strip e = e"
  shows "\<not> owns_path (dquote # p) owns"
proof -
  have "\<not> owns_entry (dquote # p) e" if "e \<in> set owns" for e
  proof -
    from assms that have e: "ends_with e ''/''" "e \<noteq> []" "hd e \<noteq> dquote" "py_strip e = e" by auto
    then obtain c s where c: "e = c # s" "c \<noteq> dquote" by (cases e) auto
    have "\<not> ends_with e ''/**''"
      using e(1) by (auto simp: ends_with_iff_suffix)
    with e c show ?thesis by (simp add: owns_entry_def Let_def)
  qed
  then show ?thesis by (auto simp: owns_path_def list_ex_iff)
qed

end
