(* ===== verification/LoopGate.thy ===== *)
theory LoopGate
  imports RoleGate
begin

text \<open>
  The role gate of the dispatch loop (\<^verbatim>\<open>loop_gate.py\<close>): the rows of a branch are resolved to one
  role, one rule and one base, the branch is checked by \<^verbatim>\<open>check_branch\<close>, and the verdict becomes
  a decision. The messages are reduced to the status they explain; the refused deadline parameter,
  which no caller passes, is left out.
\<close>

section \<open>Statuses and decisions\<close>

datatype loop_status =
    NotEnabled | CheckedClean | CheckedViolation | CheckedUndetermined | RoleUnresolved
  | RuleUnresolved | BaseUnresolved | DeadlineExceeded | GateError

datatype loop_decision = Proceed | BlockTask

definition decision_for :: "loop_status \<Rightarrow> loop_decision" where
  "decision_for s = (case s of NotEnabled \<Rightarrow> Proceed | CheckedClean \<Rightarrow> Proceed | CheckedViolation \<Rightarrow> BlockTask
     | CheckedUndetermined \<Rightarrow> BlockTask | RoleUnresolved \<Rightarrow> BlockTask | RuleUnresolved \<Rightarrow> BlockTask
     | BaseUnresolved \<Rightarrow> BlockTask | DeadlineExceeded \<Rightarrow> BlockTask | GateError \<Rightarrow> BlockTask)"

definition status_for_verdict :: "diff_verdict \<Rightarrow> loop_status" where
  "status_for_verdict v = (case v of Clean \<Rightarrow> CheckedClean | Violation \<Rightarrow> CheckedViolation
     | Undetermined \<Rightarrow> CheckedUndetermined)"

definition blocked_reason_prefix :: "loop_status \<Rightarrow> string option" where
  "blocked_reason_prefix s = (case s of
       CheckedViolation \<Rightarrow> Some ''role_diff_loop_violation''
     | CheckedUndetermined \<Rightarrow> Some ''role_diff_loop_undetermined''
     | RoleUnresolved \<Rightarrow> Some ''role_diff_loop_role_unresolved''
     | RuleUnresolved \<Rightarrow> Some ''role_diff_loop_rule_unresolved''
     | BaseUnresolved \<Rightarrow> Some ''role_diff_loop_base_unresolved''
     | DeadlineExceeded \<Rightarrow> Some ''role_diff_loop_deadline_exceeded''
     | GateError \<Rightarrow> Some ''role_diff_loop_gate_error''
     | _ \<Rightarrow> None)"

definition blocked_reason :: "loop_status \<Rightarrow> string \<Rightarrow> string option" where
  \<comment> \<open>None where the code raises: the status is not one that blocks\<close>
  "blocked_reason s detail = (case blocked_reason_prefix s of
       None \<Rightarrow> None
     | Some p \<Rightarrow> Some (if py_strip detail = [] then p else p @ '': '' @ py_strip detail))"

section \<open>Resolving the inputs\<close>

record loop_repo =
  lr_text_at :: "string \<Rightarrow> unit + string option"   \<comment> \<open>the configuration pinned at a base\<close>
  lr_yaml :: "string \<Rightarrow> unit + pyval"
  lr_branch :: "string \<Rightarrow> branch_inputs"            \<comment> \<open>git's answers about the branch, by base revision\<close>

definition sole_role :: "role_spec list \<Rightarrow> role option" where
  "sole_role specs = (case remdups (map rs_role specs) of [r] \<Rightarrow> Some r | _ \<Rightarrow> None)"

definition sole_rule :: "role_spec list \<Rightarrow> bool" where
  "sole_rule specs = (length (remdups (map (\<lambda>s. (rs_added_immutable_globs s, rs_disputed_paths s)) specs)) = 1)"

definition resolve_inputs ::
  "loop_repo \<Rightarrow> string \<Rightarrow> string \<Rightarrow> string option \<Rightarrow> role_spec list \<Rightarrow> loop_status + branch_inputs" where
  "resolve_inputs repo base_branch branch pre_spawn specs =
     (case sole_role specs of
        None \<Rightarrow> Inl RoleUnresolved
      | Some role \<Rightarrow>
          if \<not> sole_rule specs then Inl RuleUnresolved
          else (case pre_spawn of
              None \<Rightarrow> Inl BaseUnresolved
            | Some base \<Rightarrow>
               (case load_role_policy_from_base (lr_text_at repo) (lr_yaml repo) base_branch of
                  Inl _ \<Rightarrow> Inl GateError
                | Inr p \<Rightarrow> Inr ((lr_branch repo base)\<lparr>bi_policy := Some p, bi_base := base, bi_branch := branch,
                      bi_role := role, bi_spec := Some (hd specs)\<rparr>))))"

record loop_outcome =
  lo_decision :: loop_decision
  lo_status :: loop_status
  lo_result :: "role_diff_result option"

definition without_result :: "loop_status \<Rightarrow> loop_outcome" where
  "without_result s = \<lparr>lo_decision = decision_for s, lo_status = s, lo_result = None\<rparr>"

definition check_after_implementer ::
  "bool \<Rightarrow> loop_repo \<Rightarrow> string \<Rightarrow> string \<Rightarrow> string option \<Rightarrow> role_spec list \<Rightarrow> loop_outcome" where
  "check_after_implementer enabled repo base_branch branch pre_spawn specs =
     (if \<not> enabled then without_result NotEnabled
      else (case resolve_inputs repo base_branch branch pre_spawn specs of
          Inl s \<Rightarrow> without_result s
        | Inr i \<Rightarrow>
           (let r = check_branch i; s = status_for_verdict (rd_verdict r)
            in \<lparr>lo_decision = decision_for s, lo_status = s, lo_result = Some r\<rparr>)))"

section \<open>When the loop goes on\<close>

lemma sole_role_Some: "sole_role specs = Some r \<longleftrightarrow> specs \<noteq> [] \<and> (\<forall>s \<in> set specs. rs_role s = r)"
proof -
  have "remdups xs = [x] \<longleftrightarrow> xs \<noteq> [] \<and> (\<forall>y \<in> set xs. y = x)" for xs and x :: role
  proof
    assume "remdups xs = [x]"
    then have "set xs = {x}" by (metis list.set(1,2) set_remdups)
    then show "xs \<noteq> [] \<and> (\<forall>y \<in> set xs. y = x)" by auto
  next
    assume a: "xs \<noteq> [] \<and> (\<forall>y \<in> set xs. y = x)"
    then have "set xs \<subseteq> {x}" by blast
    moreover have "set xs \<noteq> {}" using a by (simp only: set_empty) simp
    ultimately have "set xs = {x}" by (simp only: subset_singleton_iff simp_thms)
    then have "set (remdups xs) = {x}" by (simp only: set_remdups)
    then have "length (remdups xs) = 1" by (simp add: length_remdups_card_conv)
    then obtain a where "remdups xs = [a]" by (auto simp: length_Suc_conv)
    with \<open>set (remdups xs) = {x}\<close> show "remdups xs = [x]" by (metis list.set(1,2) singleton_insert_inj_eq)
  qed
  then have "remdups (map rs_role specs) = [r] \<longleftrightarrow> specs \<noteq> [] \<and> (\<forall>s \<in> set specs. rs_role s = r)" by auto
  moreover have "sole_role specs = Some r \<longleftrightarrow> remdups (map rs_role specs) = [r]"
    by (auto simp: sole_role_def split: list.split)
  ultimately show ?thesis by simp
qed

lemma sole_rule_iff:
  "specs \<noteq> [] \<Longrightarrow> sole_rule specs \<longleftrightarrow> (\<forall>s \<in> set specs.
     rs_added_immutable_globs s = rs_added_immutable_globs (hd specs) \<and> rs_disputed_paths s = rs_disputed_paths (hd specs))"
proof -
  assume ne: "specs \<noteq> []"
  let ?f = "\<lambda>s. (rs_added_immutable_globs s, rs_disputed_paths s)"
  have "sole_rule specs \<longleftrightarrow> card (set (map ?f specs)) = 1" by (simp add: sole_rule_def length_remdups_card_conv)
  also have "\<dots> \<longleftrightarrow> (\<forall>s \<in> set specs. ?f s = ?f (hd specs))"
  proof
    assume "card (set (map ?f specs)) = 1"
    then obtain x where x: "set (map ?f specs) = {x}" by (auto simp: card_1_singleton_iff)
    have "?f s = x" if "s \<in> set specs" for s
      using x imageI [OF that, of ?f] unfolding set_map by (simp only: singleton_iff)
    then show "\<forall>s \<in> set specs. ?f s = ?f (hd specs)" using hd_in_set [OF ne] by simp
  next
    assume "\<forall>s \<in> set specs. ?f s = ?f (hd specs)"
    then have "?f ` set specs = {?f (hd specs)}" using hd_in_set [OF ne] by blast
    then have "set (map ?f specs) = {?f (hd specs)}" by (simp only: set_map)
    then show "card (set (map ?f specs)) = 1" by simp
  qed
  finally show ?thesis by auto
qed

lemma decision_proceed: "decision_for s = Proceed \<longleftrightarrow> s = NotEnabled \<or> s = CheckedClean"
  by (cases s) (simp_all add: decision_for_def)

lemma status_clean: "status_for_verdict v = CheckedClean \<longleftrightarrow> v = Clean" "status_for_verdict v \<noteq> NotEnabled"
  by (cases v; simp add: status_for_verdict_def)+

lemma resolve_not_enabled: "resolve_inputs repo b br pre specs \<noteq> Inl NotEnabled"
  "resolve_inputs repo b br pre specs \<noteq> Inl CheckedClean"
  by (auto simp: resolve_inputs_def split: option.split sum.split)

text \<open>
  The enabled role gate lets a branch pass only when it was judged, and found clean: the rows
  share one role and the same additions, the revision before the implementer is known, the policy
  of the base loads, and the check of the branch against that revision is clean.
\<close>

theorem loop_gate_proceeds_exactly:
  "lo_decision (check_after_implementer True repo base_branch branch pre specs) = Proceed \<longleftrightarrow>
     (\<exists>spec base p. spec \<in> set specs \<and> spec = hd specs \<and> pre = Some base \<and>
        list_all (\<lambda>s. rs_role s = rs_role spec \<and> rs_added_immutable_globs s = rs_added_immutable_globs spec \<and>
          rs_disputed_paths s = rs_disputed_paths spec) specs \<and>
        load_role_policy_from_base (lr_text_at repo) (lr_yaml repo) base_branch = Inr p \<and>
        rd_verdict (check_branch ((lr_branch repo base)\<lparr>bi_policy := Some p, bi_base := base, bi_branch := branch,
          bi_role := rs_role spec, bi_spec := Some spec\<rparr>)) = Clean)"
    (is "?l \<longleftrightarrow> ?r")
proof -
  have "?l \<longleftrightarrow> (\<exists>i. resolve_inputs repo base_branch branch pre specs = Inr i \<and> rd_verdict (check_branch i) = Clean)"
    using resolve_not_enabled [of repo base_branch branch pre specs]
    by (auto simp: check_after_implementer_def without_result_def decision_proceed status_clean Let_def split: sum.split)
  also have "\<dots> \<longleftrightarrow> ?r"
  proof
    assume "\<exists>i. resolve_inputs repo base_branch branch pre specs = Inr i \<and> rd_verdict (check_branch i) = Clean"
    then obtain i where i: "resolve_inputs repo base_branch branch pre specs = Inr i" "rd_verdict (check_branch i) = Clean"
      by blast
    then obtain role base p where r: "sole_role specs = Some role" "sole_rule specs" "pre = Some base"
      "load_role_policy_from_base (lr_text_at repo) (lr_yaml repo) base_branch = Inr p"
      "i = (lr_branch repo base)\<lparr>bi_policy := Some p, bi_base := base, bi_branch := branch,
          bi_role := role, bi_spec := Some (hd specs)\<rparr>"
      by (auto simp: resolve_inputs_def split: option.splits sum.splits if_splits)
    from r(1) have ne: "specs \<noteq> []" "\<forall>s \<in> set specs. rs_role s = role" by (simp_all add: sole_role_Some)
    have role: "rs_role (hd specs) = role" using ne by (metis hd_in_set)
    have all: "list_all (\<lambda>s. rs_role s = rs_role (hd specs) \<and>
        rs_added_immutable_globs s = rs_added_immutable_globs (hd specs) \<and>
        rs_disputed_paths s = rs_disputed_paths (hd specs)) specs"
      unfolding list_all_iff role using ne(2) r(2) [unfolded sole_rule_iff [OF ne(1)]] by blast
    have clean: "rd_verdict (check_branch ((lr_branch repo base)\<lparr>bi_policy := Some p, bi_base := base,
        bi_branch := branch, bi_role := rs_role (hd specs), bi_spec := Some (hd specs)\<rparr>)) = Clean"
      using i(2) unfolding r(5) role .
    show ?r using hd_in_set [OF ne(1)] r(3,4) all clean by blast
  next
    assume ?r
    then obtain spec base p where s: "spec \<in> set specs" "spec = hd specs" "pre = Some base"
      "list_all (\<lambda>s. rs_role s = rs_role spec \<and> rs_added_immutable_globs s = rs_added_immutable_globs spec \<and>
          rs_disputed_paths s = rs_disputed_paths spec) specs"
      "load_role_policy_from_base (lr_text_at repo) (lr_yaml repo) base_branch = Inr p"
      "rd_verdict (check_branch ((lr_branch repo base)\<lparr>bi_policy := Some p, bi_base := base, bi_branch := branch,
          bi_role := rs_role spec, bi_spec := Some spec\<rparr>)) = Clean" by blast
    then have ne: "specs \<noteq> []" by auto
    have "sole_role specs = Some (rs_role spec)" unfolding sole_role_Some using s(4) [unfolded list_all_iff] ne by blast
    moreover have "sole_rule specs" unfolding sole_rule_iff [OF ne] using s(2) s(4) [unfolded list_all_iff] by blast
    ultimately show "\<exists>i. resolve_inputs repo base_branch branch pre specs = Inr i \<and> rd_verdict (check_branch i) = Clean"
      using s(2,3,5,6) by (simp add: resolve_inputs_def)
  qed
  finally show ?thesis .
qed

text \<open>
  The gate can always say why it blocks: a blocking decision has a reason text, and a
  reason is only available for one.
\<close>

theorem blocked_reason_total:
  "(\<exists>t. blocked_reason s detail = Some t) \<longleftrightarrow> decision_for s = BlockTask"
  by (cases s) (simp_all add: blocked_reason_def blocked_reason_prefix_def decision_for_def)

end
