(* ===== verification/Holes.thy ===== *)
theory Holes
  imports RolePhases
begin

text \<open>
  The declared-holes gate: which holes a branch is judged against (\<^verbatim>\<open>role_protocol.holes_expected_of\<close>),
  the report over the functions of the files that hold them (\<^verbatim>\<open>scaffold_shape.declared_holes_report\<close>)
  and the orchestrator's decision (\<^verbatim>\<open>_check_declared_holes\<close>). The measurement of a source file,
  which functions it defines and which of them are stubs, is Python's \<^verbatim>\<open>ast\<close> and a parameter.
\<close>

section \<open>The holes of a task\<close>

definition hole_phase :: "role \<Rightarrow> string option" where
  "hole_phase r = (case r of Scaffold \<Rightarrow> Some ''scaffold'' | Bodies \<Rightarrow> Some ''bodies'' | _ \<Rightarrow> None)"

definition declared_holes_of :: "task \<Rightarrow> role_error + string list" where
  "declared_holes_of t = map_sum id rs_declared_holes (parse_task_role_spec (t_raw t) (t_key t))"

definition scaffold_of :: "task list \<Rightarrow> string \<Rightarrow> string option" where
  \<comment> \<open>the scaffold of the first unit that has the task among its bodies\<close>
  "scaffold_of ts k = map_option uv_id (find (\<lambda>u. k \<in> set (uv_bodies u)) (units_of ts))"

definition holes_expected_of :: "string \<Rightarrow> task list \<Rightarrow> role_error + string list" where
  "holes_expected_of k ts =
     (case by_key ts k of
        None \<Rightarrow> Inr []
      | Some t \<Rightarrow>
         (case parse_task_role_spec (t_raw t) k of
            Inl e \<Rightarrow> Inl e
          | Inr sp \<Rightarrow>
              if hole_phase (rs_role sp) = None then Inr []
              else if rs_role sp = Scaffold then Inr (rs_declared_holes sp)
              else (case scaffold_of ts k of
                  None \<Rightarrow> Inr []
                | Some u \<Rightarrow>
                   (case by_key ts u of
                      None \<Rightarrow> Inr []
                    | Some s \<Rightarrow> map_sum id rs_declared_holes (parse_task_role_spec (t_raw s) u)))))"

section \<open>The report\<close>

type_synonym shape = "string \<times> (string \<times> bool) list"
  \<comment> \<open>a path and its functions: qualified name, whether a stub\<close>

definition hole_path :: "string \<Rightarrow> string" where
  "hole_path h = fst (split_double_colon h)"

record hole_report =
  hr_phase :: string
  hr_ok :: "string list"
  hr_wrong :: "string list"
  hr_missing :: "string list"

definition holes_passed :: "hole_report \<Rightarrow> bool" where
  "holes_passed r = (hr_wrong r = [] \<and> hr_missing r = [])"

definition shape_entries :: "shape \<Rightarrow> (string \<times> bool) list" where
  "shape_entries sh = map (\<lambda>(q, stub). (fst sh @ ''::'' @ q, stub)) (snd sh)"

definition hole_index :: "shape list \<Rightarrow> string \<Rightarrow> bool option" where
  \<comment> \<open>a dictionary: a later function of the same name decides\<close>
  "hole_index ss = map_of (rev (concat (map shape_entries ss)))"

definition declared_holes_report :: "string list \<Rightarrow> shape list \<Rightarrow> string \<Rightarrow> hole_report" where
  "declared_holes_report holes ss phase =
     (let want = (phase = ''scaffold''); ix = hole_index ss in
      \<lparr>hr_phase = phase,
       hr_ok = filter (\<lambda>h. ix h = Some want) holes,
       hr_wrong = filter (\<lambda>h. ix h = Some (\<not> want)) holes,
       hr_missing = filter (\<lambda>h. ix h = None) holes\<rparr>)"

definition count_text :: "string list \<Rightarrow> string" where
  "count_text xs = nat_digits (length xs)"

definition hole_detail :: "hole_report \<Rightarrow> string" where
  "hole_detail r =
     (let miss = (if hr_missing r = [] then []
                  else [count_text (hr_missing r) @ '' declared hole(s) do not exist: '' @ join '', '' (hr_missing r)]);
          wrong = (if hr_wrong r = [] then []
                   else if hr_phase r = ''scaffold''
                   then [count_text (hr_wrong r) @ '' declared hole(s) are already implemented, so the seals have nothing to redden against: ''
                          @ join '', '' (hr_wrong r)]
                   else [count_text (hr_wrong r) @ '' declared hole(s) are still stubs: '' @ join '', '' (hr_wrong r)]);
          text = join ''; '' (miss @ wrong)
      in if text = [] then ''all '' @ count_text (hr_ok r) @ '' declared hole(s) as expected'' else text)"

section \<open>The gate\<close>

definition measured_shapes :: "(string \<Rightarrow> (string \<times> bool) list option) \<Rightarrow> string list \<Rightarrow> shape list" where
  \<comment> \<open>\<open>funs_of\<close>: the functions of a file of the worktree, None where it does not exist\<close>
  "measured_shapes funs_of holes = List.map_filter (\<lambda>p. map_option (Pair p) (funs_of p))
     (sort (remdups (map hole_path holes)))"

definition check_declared_holes ::
  "role list \<Rightarrow> string \<Rightarrow> task list \<Rightarrow> (string \<Rightarrow> (string \<times> bool) list option) \<Rightarrow> role_error + string option" where
  \<comment> \<open>the roles of the dispatched rows; the reason that blocks the task, if there is one\<close>
  "check_declared_holes roles k ts funs_of =
     (case remdups roles of
        [r] \<Rightarrow>
         (case hole_phase r of
            None \<Rightarrow> Inr None
          | Some phase \<Rightarrow>
             (case holes_expected_of k ts of
                Inl e \<Rightarrow> Inl e
              | Inr holes \<Rightarrow>
                  if holes = [] then Inr None
                  else (let r = declared_holes_report holes (measured_shapes funs_of holes) phase
                        in Inr (if holes_passed r then None
                                else Some (''declared_holes_'' @ phase @ '': '' @ hole_detail r)))))
      | _ \<Rightarrow> Inr None)"

section \<open>What the gate lets pass\<close>

lemma passed_iff:
  "holes_passed (declared_holes_report holes ss phase) \<longleftrightarrow>
     (\<forall>h \<in> set holes. hole_index ss h = Some (phase = ''scaffold''))"
proof -
  have one: "(ix = Some w) \<longleftrightarrow> ix \<noteq> Some (\<not> w) \<and> ix \<noteq> None" for ix :: "bool option" and w
    by (cases ix) auto
  show ?thesis unfolding one [of _ "phase = ''scaffold''"]
    unfolding holes_passed_def declared_holes_report_def Let_def hole_report.simps filter_empty_conv by blast
qed

lemma split_double_colon_parts:
  "contains s ''::'' \<Longrightarrow> split_double_colon s = (p, q) \<Longrightarrow>
     s = p @ ''::'' @ q \<and> split_double_colon (p @ ''::'' @ x) = (p, x)"
proof (induction s arbitrary: p q rule: split_double_colon.induct)
  case (1 a b s)
  show ?case
  proof (cases "a = CHR '':'' \<and> b = CHR '':''")
    case True
    with 1(3) show ?thesis by simp
  next
    case False
    with 1(3) obtain p' where p': "split_double_colon (b # s) = (p', q)" "p = a # p'"
      by (auto split: prod.splits)
    from 1(2) False have "contains (b # s) ''::''" by (subst (asm) contains.simps) auto
    from 1(1) [OF False this p'(1)] have ih: "b # s = p' @ ''::'' @ q" "split_double_colon (p' @ ''::'' @ x) = (p', x)"
      by simp_all
    moreover have "split_double_colon (a # p' @ ''::'' @ x) = (a # p', x)"
    proof (cases p')
      case Nil
      with ih(1) False have "a \<noteq> CHR '':''" by auto
      with Nil show ?thesis by simp
    next
      case (Cons c p'')
      with ih False show ?thesis by simp
    qed
    ultimately show ?thesis using p'(2) by simp
  qed
qed (simp_all add: contains.simps)

lemma double_colon_count: "count_double_colon s = Suc 0 \<Longrightarrow> contains s ''::''"
proof -
  have "count_double_colon s \<noteq> 0 \<Longrightarrow> contains s ''::''"
    by (induction s rule: count_double_colon.induct) (auto simp: contains.simps [of "_ # _"] split: if_splits)
  then show "count_double_colon s = Suc 0 \<Longrightarrow> contains s ''::''" by simp
qed

lemma contains_rev: "contains (rev s) ''::'' = contains s ''::''"
proof -
  have "contains s ''::'' \<Longrightarrow> contains (rev s) ''::''" for s
  proof -
    assume "contains s ''::''"
    then obtain a b where "s = a @ ''::'' @ b" by (auto simp: contains_iff)
    then have "rev s = rev b @ ''::'' @ rev a" by simp
    then show ?thesis unfolding contains_iff by blast
  qed
  from this [of s] this [of "rev s"] show ?thesis by auto
qed

lemma contains_dropWhile: "contains (dropWhile py_space s) ''::'' = contains s ''::''"
proof (induction s)
  case (Cons c s)
  have "\<not> py_space (CHR '':'')" by (simp add: py_space_def)
  with Cons show ?case by (auto simp: contains.simps [of "c # s"])
qed simp

lemma contains_strip: "contains (py_strip s) ''::'' = contains s ''::''"
  by (simp add: py_strip_def contains_rev contains_dropWhile)

lemma parsed_holes_split:
  "hole_entries vs = Inr hs \<Longrightarrow> h \<in> set hs \<Longrightarrow> contains h ''::''"
  by (induction vs arbitrary: hs)
    (auto simp: contains_strip double_colon_count split: pyval.splits if_splits prod.splits)

lemma read_holes_entries: "read_holes r ro = Inr hs \<Longrightarrow> hs = [] \<or> (\<exists>vs. hole_entries vs = Inr hs)"
  unfolding read_holes_def Let_def
  by (auto simp del: hole_entries.simps split: option.splits pyval.splits if_splits list.splits)

lemma expected_holes_split:
  assumes "holes_expected_of k ts = Inr holes" "h \<in> set holes"
  shows "contains h ''::''"
proof -
  have read: "contains h ''::''" if "read_holes r ro = Inr hs" "h \<in> set hs" for r ro hs
  proof -
    from read_holes_entries [OF that(1)] that(2) parsed_holes_split show ?thesis by auto
  qed
  have spec: "contains h ''::''" if "parse_task_role_spec r k = Inr sp" "h \<in> set (rs_declared_holes sp)" for r k sp
    using parse_task_role_spec_Inr [OF that(1)] read that(2) by blast
  show ?thesis using assms spec
    by (auto simp: holes_expected_of_def split: option.splits sum.splits if_splits)
qed

lemma index_of_measured:
  assumes "h \<in> set holes" and split: "\<And>h. h \<in> set holes \<Longrightarrow> contains h ''::''"
    and h: "split_double_colon h = (p, q)"
  shows "hole_index (measured_shapes funs_of holes) h =
     (case funs_of p of None \<Rightarrow> None | Some fs \<Rightarrow> map_of (rev fs) q)"
proof -
  let ?ps = "sort (remdups (map hole_path holes))"
  have hq: "h = p @ ''::'' @ q" using split_double_colon_parts [OF split [OF assms(1)] h] by simp
  have row_same: "map_of (rev (shape_entries (p, fs))) h = map_of (rev fs) q" for fs
  proof -
    have "map_of (map (\<lambda>(q, stub). (p @ ''::'' @ q, stub)) gs) h = map_of gs q" for gs :: "(string \<times> bool) list"
      by (induction gs) (auto simp: hq)
    then show ?thesis by (simp add: shape_entries_def rev_map)
  qed
  have row_other: "map_of (rev (shape_entries (p', fs))) h = None"
    if "p' \<noteq> p" "p' \<in> set ?ps" for p' fs
  proof -
    from that(2) obtain h' where h': "h' \<in> set holes" "p' = fst (split_double_colon h')"
      by (auto simp: hole_path_def)
    have "split_double_colon (p' @ ''::'' @ x) = (p', x)" for x
      using split_double_colon_parts [OF split [OF h'(1)], of p' "snd (split_double_colon h')" x] h'(2) by simp
    with h that(1) have other: "h \<noteq> p' @ ''::'' @ x" for x by force
    have "h \<notin> fst ` set (shape_entries (p', fs))"
    proof
      assume "h \<in> fst ` set (shape_entries (p', fs))"
      then obtain x where "h = p' @ ''::'' @ x" by (auto simp: shape_entries_def)
      with other show False by blast
    qed
    then show ?thesis by (simp add: map_of_eq_None_iff)
  qed
  have gen: "hole_index (List.map_filter (\<lambda>p. map_option (Pair p) (funs_of p)) ps) h =
      (if p \<in> set ps then (case funs_of p of None \<Rightarrow> None | Some fs \<Rightarrow> map_of (rev fs) q) else None)"
    if "distinct ps" "set ps \<subseteq> set ?ps" for ps
    using that
  proof (induction ps)
    case Nil
    then show ?case by (simp add: hole_index_def map_filter_simps)
  next
    case (Cons p' ps)
    have ih: "hole_index (List.map_filter (\<lambda>p. map_option (Pair p) (funs_of p)) ps) h =
      (if p \<in> set ps then (case funs_of p of None \<Rightarrow> None | Some fs \<Rightarrow> map_of (rev fs) q) else None)"
      using Cons by simp
    show ?case
    proof (cases "funs_of p'")
      case None
      then show ?thesis using ih Cons.prems(1) by (auto simp: map_filter_simps)
    next
      case (Some fs)
      have cons: "hole_index (sh # ss) x = (case hole_index ss x of Some b \<Rightarrow> Some b
          | None \<Rightarrow> map_of (rev (shape_entries sh)) x)" for sh ss x
        by (simp only: hole_index_def map_add_def list.map concat.simps rev_append map_of_append prod.case)
      show ?thesis
      proof (cases "p' = p")
        case True
        then show ?thesis using ih Some Cons.prems(1) row_same by (simp add: map_filter_simps cons)
      next
        case False
        then show ?thesis using ih Some row_other [OF False] Cons.prems(2)
          by (auto simp: map_filter_simps cons split: option.splits)
      qed
    qed
  qed
  have "p \<in> set ?ps" using assms(1) h by (force simp: hole_path_def)
  then show ?thesis using gen [of ?ps] by (simp add: measured_shapes_def)
qed


definition holey_plan :: "task list" where
  "holey_plan =
     [(example_task ''A'' [] TODO)\<lparr>t_raw := [(''role'', PStr ''scaffold''),
        (''declares'', PDict [(''holes'', PList [PStr ''src/a.py::f''])])]\<rparr>,
      (example_task ''B'' [''A''] TODO)\<lparr>t_raw := [(''role'', PStr ''seals'')]\<rparr>,
      (example_task ''C'' [''B''] TODO)\<lparr>t_raw := [(''role'', PStr ''bodies'')]\<rparr>]"


end
