(* ===== verification/SealVerify.thy ===== *)
theory SealVerify
  imports Roles GitPath
begin

text \<open>
  Seal verification (\<^verbatim>\<open>seal_verify.py\<close>): the partition of a change into test files and other
  files, the inversion gate (the suite must go red when everything but the tests is put back to
  the base) and the redness gate of a seals branch (red as committed, green without its tests). Git,
  the file system and the suite are the parameter \<open>seal_ops\<close> over a world of any type. The texts of the
  results are reduced to their kinds.
\<close>

section \<open>The surroundings\<close>

datatype unlinked = Unlinked | NotThere | UnlinkRaised

record 'w seal_ops =
  sl_diff :: "string \<Rightarrow> 'w \<Rightarrow> (int \<times> string) option"       \<comment> \<open>\<^verbatim>\<open>git diff --name-status --no-renames base...HEAD\<close>; None: it raised\<close>
  sl_checkout :: "string \<Rightarrow> string list \<Rightarrow> 'w \<Rightarrow> int option \<times> 'w"
  sl_unlink :: "string \<Rightarrow> 'w \<Rightarrow> unlinked \<times> 'w"
  sl_run :: "string \<Rightarrow> 'w \<Rightarrow> (int option \<times> string) \<times> 'w"     \<comment> \<open>the exit code, if there is one, and the tail\<close>
  sl_reset :: "'w \<Rightarrow> int option \<times> 'w"
  sl_clean :: "'w \<Rightarrow> int option \<times> 'w"
  sl_status :: "'w \<Rightarrow> (int \<times> string) option"

datatype partition_error = DiffNotRun | DiffExited int | UndecodablePath string unquote_error

section \<open>The partition\<close>

fun partition_lines :: "string list \<Rightarrow> partition_error + (string \<times> string) list \<times> (string \<times> string) list" where
  "partition_lines [] = Inr ([], [])"
| "partition_lines (l # ls) =
     (let parts = split_all (CHR 9) l in
      if length parts < 2 then partition_lines ls
      else (case unquote_git_path (last parts) of
          Inl e \<Rightarrow> Inl (UndecodablePath (last parts) e)
        | Inr p \<Rightarrow>
           (case partition_lines ls of
              Inl e \<Rightarrow> Inl e
            | Inr (ts, ns) \<Rightarrow>
                (let entry = (take 1 (hd parts), p) in
                 Inr (if is_test_path p then (entry # ts, ns) else (ts, entry # ns))))))"

definition partition_changed ::
  "'w seal_ops \<Rightarrow> string \<Rightarrow> 'w \<Rightarrow> partition_error + (string \<times> string) list \<times> (string \<times> string) list" where
  "partition_changed ops base w =
     (case sl_diff ops base w of
        None \<Rightarrow> Inl DiffNotRun
      | Some (rc, out) \<Rightarrow> if rc \<noteq> 0 then Inl (DiffExited rc) else partition_lines (py_splitlines out))"

section \<open>Putting files back\<close>

definition restore :: "'w seal_ops \<Rightarrow> 'w \<Rightarrow> bool \<times> 'w" where
  "restore ops w =
     (case sl_reset ops w of
        (Some rc, w) \<Rightarrow>
          if rc \<noteq> 0 then (False, w)
          else (case sl_clean ops w of
              (Some rc, w) \<Rightarrow>
                if rc \<noteq> 0 then (False, w)
                else ((case sl_status ops w of None \<Rightarrow> False | Some (rc, out) \<Rightarrow> rc = 0 \<and> py_strip out = []), w)
            | (None, w) \<Rightarrow> (False, w))
      | (None, w) \<Rightarrow> (False, w))"

fun unlink_all :: "'w seal_ops \<Rightarrow> string list \<Rightarrow> 'w \<Rightarrow> bool \<times> 'w" where
  \<comment> \<open>whether no removal raised, a file that is not there aside\<close>
  "unlink_all ops [] w = (True, w)"
| "unlink_all ops (p # ps) w =
     (case sl_unlink ops p w of (UnlinkRaised, w) \<Rightarrow> (False, w) | (_, w) \<Rightarrow> unlink_all ops ps w)"

datatype reverted = Reverted | CheckoutRefused | RevertRaised

definition revert_entries :: "'w seal_ops \<Rightarrow> string \<Rightarrow> (string \<times> string) list \<Rightarrow> 'w \<Rightarrow> reverted \<times> 'w" where
  "revert_entries ops base es w =
     (let added = map snd (filter (\<lambda>e. fst e = ''A'') es);
          existing = map snd (filter (\<lambda>e. fst e \<noteq> ''A'') es) in
      case (if existing = [] then (Some 0, w) else sl_checkout ops base existing w) of
        (None, w) \<Rightarrow> (RevertRaised, w)
      | (Some rc, w) \<Rightarrow>
          if rc \<noteq> 0 then (CheckoutRefused, w)
          else (case unlink_all ops added w of (ok, w) \<Rightarrow> (if ok then Reverted else RevertRaised, w)))"

section \<open>The gates\<close>

definition undone :: "'w seal_ops \<Rightarrow> 'w \<Rightarrow> string \<Rightarrow> string \<Rightarrow> (string \<times> string) \<times> 'w" where
  \<comment> \<open>an outcome that stands only if the tree is back\<close>
  "undone ops w outcome detail = (case restore ops w of (ok, w) \<Rightarrow>
     (if ok then (outcome, detail) else (''error'', ''worktree restore failed: tree state suspect''), w))"

definition run_seal_inversion :: "'w seal_ops \<Rightarrow> string \<Rightarrow> string \<Rightarrow> 'w \<Rightarrow> (string \<times> string) \<times> 'w" where
  "run_seal_inversion ops base command w =
     (case partition_changed ops base w of
        Inl e \<Rightarrow> ((''error'', ''partition''), w)
      | Inr (tests, non_tests) \<Rightarrow>
          if tests = [] then ((''skipped'', ''no test files changed''), w)
          else if non_tests = [] then ((''skipped'', ''test-only change''), w)
          else (case revert_entries ops base non_tests w of
              (CheckoutRefused, w) \<Rightarrow> undone ops w ''error'' ''could not revert to base for inversion''
            | (RevertRaised, w) \<Rightarrow> ((''error'', ''inversion failed''), snd (restore ops w))
            | (Reverted, w) \<Rightarrow>
                (case sl_run ops command w of ((code, tail), w) \<Rightarrow>
                   (case code of
                      None \<Rightarrow> undone ops w ''error'' ''the inverted suite never reached a verdict''
                    | Some c \<Rightarrow> if c = 0 then undone ops w ''failed'' ''suite stayed green with the fix reverted''
                        else undone ops w ''passed'' ''suite went red without the fix''))))"

definition run_seal_redness :: "'w seal_ops \<Rightarrow> string \<Rightarrow> string \<Rightarrow> 'w \<Rightarrow> (string \<times> string) \<times> 'w" where
  "run_seal_redness ops base command w =
     (case partition_changed ops base w of
        Inl e \<Rightarrow> ((''error'', ''partition''), w)
      | Inr (tests, non_tests) \<Rightarrow>
          if tests = [] then ((''failed'', ''no test file changed''), w)
          else if non_tests \<noteq> [] then ((''error'', ''non-test files changed''), w)
          else (case sl_run ops command w of ((code, tail), w) \<Rightarrow>
            (if code = None then ((''error'', ''the committed suite never reached a verdict''), w)
             else if code = Some 0 then ((''failed'', ''suite is green as committed''), w)
             else (case revert_entries ops base tests w of
                 (CheckoutRefused, w) \<Rightarrow> undone ops w ''error'' ''could not revert the test files''
               | (RevertRaised, w) \<Rightarrow> ((''error'', ''reverting the seals failed''), snd (restore ops w))
               | (Reverted, w) \<Rightarrow>
                   (case sl_run ops command w of ((code, tail), w) \<Rightarrow>
                      (case code of
                         None \<Rightarrow> undone ops w ''error'' ''the suite without the new rows never reached a verdict''
                       | Some c \<Rightarrow> if c \<noteq> 0 then undone ops w ''failed'' ''the redness is inherited''
                           else undone ops w ''passed'' ''the redness is its own''))))))"

definition seal_labels :: "string list" where
  "seal_labels = [''type:fix'', ''seal-check'', ''kind:fix'']"

definition seal_applies :: "string \<Rightarrow> string list \<Rightarrow> bool" where
  "seal_applies key ls = (starts_with (py_lower key) ''fix-'' \<or> list_ex (\<lambda>l. l \<in> set seal_labels) ls)"

section \<open>What git says\<close>

fun listing_of :: "(string \<times> string) list \<Rightarrow> string \<Rightarrow> bool" where
  \<comment> \<open>the lines of \<^verbatim>\<open>--name-status\<close>: a letter, a tab and a rendering of the path\<close>
  "listing_of [] out = (out = [])"
| "listing_of (e # es) out = (\<exists>c r rest. fst e = [c] \<and> out = c # CHR 9 # r @ CHR 10 # rest
     \<and> unquote_git_path r = Inr (snd e) \<and> list_all (\<lambda>x. \<not> line_break x \<and> x \<noteq> CHR 9) (c # r) \<and> listing_of es rest)"

lemma splitlines_line:
  "list_all (\<lambda>c. \<not> line_break c) l \<Longrightarrow>
     splitlines_from False acc (l @ CHR 10 # s) = (rev acc @ l) # splitlines_from False [] s"
  by (induction l arbitrary: acc) (simp_all add: line_break_def)

lemma split_no_sep: "c \<notin> set s \<Longrightarrow> split_all c s = [s]"
  by (induction s) auto

lemma listing_partition:
  "listing_of es out \<Longrightarrow> partition_lines (py_splitlines out) =
     Inr (filter (\<lambda>e. is_test_path (snd e)) es, filter (\<lambda>e. \<not> is_test_path (snd e)) es)"
proof (induction es arbitrary: out)
  case (Cons e es)
  then obtain c p r rest where e: "e = ([c], p)" "unquote_git_path r = Inr p" "listing_of es rest"
    and out: "out = (c # CHR 9 # r) @ CHR 10 # rest" and clean: "list_all (\<lambda>x. \<not> line_break x \<and> x \<noteq> CHR 9) (c # r)"
    by (cases e) auto
  have "list_all (\<lambda>x. \<not> line_break x) (c # CHR 9 # r)" using clean by (auto simp: list_all_iff line_break_def)
  from splitlines_line [OF this, of "[]" rest] out
  have lines: "py_splitlines out = (c # CHR 9 # r) # py_splitlines rest" by (simp add: py_splitlines_def)
  have parts: "split_all (CHR 9) (c # CHR 9 # r) = [[c], r]"
    using clean split_no_sep [of "CHR 9" r] by (auto simp: list_all_iff)
  show ?case unfolding lines partition_lines.simps parts by (simp add: e Cons.IH [OF e(3)])
qed (simp add: py_splitlines_def)

section \<open>What a certificate is worth\<close>

text \<open>
  \<open>tree\<close> is the content of the files git sees in the worktree. The premises on git are what its documentation
  says of the commands: the listing names exactly the paths on which the base and HEAD differ,
  with A for those the base does not have; a checkout of paths writes them and leaves the others alone, save what stood below a path
  that becomes a file; a reset, a clean
  and an empty status mean the tree is HEAD's.
\<close>

definition git_contract ::
  "'w seal_ops \<Rightarrow> ('w \<Rightarrow> string \<Rightarrow> string option) \<Rightarrow> (string \<Rightarrow> string option) \<Rightarrow> string \<Rightarrow> (string \<Rightarrow> string option) \<Rightarrow> bool" where
  "git_contract ops tree head base at_base =
     ((\<forall>w out. sl_diff ops base w = Some (0, out) \<longrightarrow> (\<exists>es. listing_of es out
          \<and> set (map snd es) = {p. head p \<noteq> at_base p} \<and> (\<forall>e \<in> set es. fst e = ''A'' \<longleftrightarrow> at_base (snd e) = None)))
      \<and> (\<forall>w w' ps. sl_checkout ops base ps w = (Some 0, w') \<longrightarrow> (\<forall>p. tree w' p = (if p \<in> set ps then at_base p else tree w p)
          \<or> tree w' p = None \<and> (\<exists>q \<in> set ps. starts_with p (q @ ''/''))))
      \<and> (\<forall>w w' p. sl_unlink ops p w = (Unlinked, w') \<longrightarrow> tree w' = (tree w)(p := None))
      \<and> (\<forall>w w' p. sl_unlink ops p w = (NotThere, w') \<longrightarrow> tree w' = tree w \<and> tree w p = None)
      \<and> (\<forall>w w1 w2 out. sl_reset ops w = (Some 0, w1) \<longrightarrow> sl_clean ops w1 = (Some 0, w2) \<longrightarrow> sl_status ops w2 = Some (0, out)
          \<longrightarrow> py_strip out = [] \<longrightarrow> tree w2 = head))"

definition no_clash :: "(string \<Rightarrow> string option) \<Rightarrow> (string \<Rightarrow> string option) \<Rightarrow> bool" where
  \<comment> \<open>no file of the base is a directory of HEAD or of the base\<close>
  "no_clash at_base head = (\<forall>p q. at_base q \<noteq> None \<longrightarrow> head p \<noteq> None \<or> at_base p \<noteq> None \<longrightarrow> \<not> starts_with p (q @ ''/''))"

lemma restore_head:
  "git_contract ops tree head base at_base \<Longrightarrow> restore ops w = (True, w') \<Longrightarrow> tree w' = head"
  by (auto simp: restore_def git_contract_def split: prod.splits option.splits if_splits)

lemma unlink_all_tree:
  "git_contract ops tree head base at_base \<Longrightarrow> unlink_all ops ps w = (True, w') \<Longrightarrow>
     tree w' = (\<lambda>p. if p \<in> set ps then None else tree w p)"
proof (induction ps arbitrary: w)
  case (Cons p ps)
  obtain u w1 where u: "sl_unlink ops p w = (u, w1)" by fastforce
  have one: "tree w1 = (tree w)(p := None)" if "u \<noteq> UnlinkRaised"
    using Cons.prems(1) u that by (cases u) (auto simp: git_contract_def fun_upd_idem)
  from Cons.prems(2) u have "u \<noteq> UnlinkRaised" "unlink_all ops ps w1 = (True, w')" by (cases u; simp)+
  with Cons.IH [OF Cons.prems(1)] one show ?case by (auto simp: fun_eq_iff)
qed simp

lemma revert_tree:
  assumes git: "git_contract ops tree head base at_base" and clash: "no_clash at_base head" and w: "tree w = head"
    and run: "revert_entries ops base es w = (Reverted, w')"
    and es: "\<And>e. e \<in> set es \<Longrightarrow> fst e = ''A'' \<longleftrightarrow> at_base (snd e) = None"
  shows "tree w' = (\<lambda>p. if p \<in> set (map snd es) then at_base p else head p)"
proof -
  let ?added = "map snd (filter (\<lambda>e. fst e = ''A'') es)"
  let ?existing = "map snd (filter (\<lambda>e. fst e \<noteq> ''A'') es)"
  obtain w1 where co: "(if ?existing = [] then (Some 0, w) else sl_checkout ops base ?existing w) = (Some 0, w1)"
    and un: "unlink_all ops ?added w1 = (True, w')"
    using run unfolding revert_entries_def Let_def by (auto split: prod.splits option.splits if_splits)
  have "tree w1 p = (if p \<in> set ?existing then at_base p else head p)" for p
  proof (cases "?existing = []")
    case True
    with co w have "tree w1 = head" by simp
    with True show ?thesis by (simp del: set_map)
  next
    case False
    with co git w have "tree w1 p = (if p \<in> set ?existing then at_base p else head p)
        \<or> tree w1 p = None \<and> (\<exists>q \<in> set ?existing. starts_with p (q @ ''/''))"
      unfolding git_contract_def by (metis (no_types, lifting))
    moreover have "at_base q \<noteq> None" if "q \<in> set ?existing" for q using that es by auto
    ultimately show ?thesis using clash unfolding no_clash_def by metis
  qed
  with unlink_all_tree [OF git un] es show ?thesis by (fastforce simp: fun_eq_iff image_iff)
qed

lemma partition_contract:
  assumes "git_contract ops tree head base at_base" "partition_changed ops base w = Inr (ts, ns)"
  shows "set (map snd ts) = {p. is_test_path p \<and> head p \<noteq> at_base p}"
    "set (map snd ns) = {p. \<not> is_test_path p \<and> head p \<noteq> at_base p}"
    "\<And>e. e \<in> set ts \<union> set ns \<Longrightarrow> fst e = ''A'' \<longleftrightarrow> at_base (snd e) = None"
proof -
  from assms(2) obtain out where out: "sl_diff ops base w = Some (0, out)" "partition_lines (py_splitlines out) = Inr (ts, ns)"
    by (auto simp: partition_changed_def split: option.splits if_splits)
  with assms(1) obtain es where es: "listing_of es out" "set (map snd es) = {p. head p \<noteq> at_base p}"
      "\<forall>e \<in> set es. fst e = ''A'' \<longleftrightarrow> at_base (snd e) = None"
    unfolding git_contract_def by meson
  from listing_partition [OF es(1)] out(2)
  have parts: "ts = filter (\<lambda>e. is_test_path (snd e)) es" "ns = filter (\<lambda>e. \<not> is_test_path (snd e)) es" by simp_all
  show "set (map snd ts) = {p. is_test_path p \<and> head p \<noteq> at_base p}"
    "set (map snd ns) = {p. \<not> is_test_path p \<and> head p \<noteq> at_base p}" using parts es(2) by auto
  show "\<And>e. e \<in> set ts \<union> set ns \<Longrightarrow> fst e = ''A'' \<longleftrightarrow> at_base (snd e) = None" using parts es(3) by auto
qed

lemma undone_outcome:
  assumes "undone ops w outcome detail = ((o', d), w')" "o' \<noteq> ''error''"
  shows "o' = outcome \<and> restore ops w = (True, w')"
  using assms by (auto simp: undone_def split: prod.splits if_splits)

lemma inversion_passed:
  assumes "run_seal_inversion ops base command w = ((''passed'', d), w')"
  obtains ts ns w1 code tail w2 where "partition_changed ops base w = Inr (ts, ns)" "ts \<noteq> []" "ns \<noteq> []"
    "revert_entries ops base ns w = (Reverted, w1)" "sl_run ops command w1 = ((Some code, tail), w2)" "code \<noteq> 0"
    "restore ops w2 = (True, w')"
  using assms
  by (auto simp: run_seal_inversion_def dest!: undone_outcome
      split: sum.splits prod.splits if_splits reverted.splits option.splits)

lemma redness_passed:
  assumes "run_seal_redness ops base command w = ((''passed'', d), w')"
  obtains ts c t w1 w2 t' w3 where "partition_changed ops base w = Inr (ts, [])" "ts \<noteq> []"
    "sl_run ops command w = ((Some c, t), w1)" "c \<noteq> 0" "revert_entries ops base ts w1 = (Reverted, w2)"
    "sl_run ops command w2 = ((Some 0, t'), w3)" "restore ops w3 = (True, w')"
  using assms
  by (auto simp: run_seal_redness_def dest!: undone_outcome
      split: sum.splits prod.splits if_splits reverted.splits option.splits)


text \<open>
  A passed redness check attributes the redness: the suite was red on HEAD's tree, green on the tree of the base
  (the branch changed nothing but test files), and the worktree is HEAD's tree again, for a suite
  that leaves the files as they are.
\<close>

theorem passed_redness_is_its_own:
  assumes "git_contract ops tree head base at_base" "no_clash at_base head" "tree w = head"
    and "\<And>v. tree (snd (sl_run ops command v)) = tree v"
    and "run_seal_redness ops base command w = ((''passed'', d), w')"
  shows "(\<exists>c t w1. sl_run ops command w = ((Some c, t), w1) \<and> c \<noteq> 0)
     \<and> (\<exists>w2 t w3. sl_run ops command w2 = ((Some 0, t), w3) \<and> tree w2 = at_base)
     \<and> (\<forall>p. \<not> is_test_path p \<longrightarrow> head p = at_base p) \<and> tree w' = head"
proof -
  from assms(5) obtain ts c t w1 w2 t' w3 where run: "partition_changed ops base w = Inr (ts, [])" "ts \<noteq> []"
    "sl_run ops command w = ((Some c, t), w1)" "c \<noteq> 0" "revert_entries ops base ts w1 = (Reverted, w2)"
    "sl_run ops command w2 = ((Some 0, t'), w3)" "restore ops w3 = (True, w')" by (rule redness_passed)
  note parts = partition_contract [OF assms(1) run(1)]
  have w1: "tree w1 = head" using assms(3) assms(4) [of w] run(3) by simp
  have "tree w2 = (\<lambda>p. if p \<in> set (map snd ts) then at_base p else head p)"
    by (rule revert_tree [OF assms(1,2) w1 run(5)]) (use parts(3) in blast)
  then have "tree w2 = at_base" using parts(1,2) by (auto simp: fun_eq_iff)
  then show ?thesis using run restore_head [OF assms(1) run(7)] parts(2) by auto
qed

lemma inversion_keeps_the_tree:
  assumes "git_contract ops tree head base at_base" "tree w = head"
    and "run_seal_inversion ops base command w = ((outcome, d), w')" "outcome \<noteq> ''error''"
  shows "tree w' = head"
  using assms restore_head [OF assms(1)]
  by (auto simp: run_seal_inversion_def dest!: undone_outcome
      split: sum.splits prod.splits if_splits reverted.splits option.splits)

lemma inversion_trusts_any_red:
  \<comment> \<open>a suite that is red for a reason of its own certifies every change with a test and another file\<close>
  assumes "partition_changed ops base w = Inr (ts, ns)" "ts \<noteq> []" "ns \<noteq> []" "revert_entries ops base ns w = (Reverted, w1)"
    and "sl_run ops command w1 = ((Some 1, tail), w2)" "restore ops w2 = (True, w')"
  shows "fst (fst (run_seal_inversion ops base command w)) = ''passed''"
  using assms by (simp add: run_seal_inversion_def undone_def)

section \<open>A worktree\<close>

definition tree_ops ::
  "(string \<Rightarrow> string option) \<Rightarrow> (string \<Rightarrow> string option) \<Rightarrow> string \<Rightarrow> ((string \<Rightarrow> string option) \<Rightarrow> bool)
   \<Rightarrow> (string \<Rightarrow> string option) seal_ops" where
  \<comment> \<open>a world that is the tree, a suite that reads it\<close>
  "tree_ops head at_base listing suite = \<lparr>sl_diff = (\<lambda>_ _. Some (0, listing)),
     sl_checkout = (\<lambda>_ ps w. (Some 0, \<lambda>p. if p \<in> set ps then at_base p else w p)),
     sl_unlink = (\<lambda>p w. if w p = None then (NotThere, w) else (Unlinked, w(p := None))),
     sl_run = (\<lambda>_ w. ((Some (if suite w then 0 else 1), []), w)),
     sl_reset = (\<lambda>_. (Some 0, head)), sl_clean = (\<lambda>w. (Some 0, w)), sl_status = (\<lambda>_. Some (0, []))\<rparr>"

definition some_base :: "string \<Rightarrow> string option" where
  "some_base = [''a.py'' \<mapsto> ''old'']"

definition fixed_head :: "string \<Rightarrow> string option" where
  "fixed_head = [''a.py'' \<mapsto> ''new'', ''tests/t.py'' \<mapsto> ''row'']"

definition sealed_head :: "string \<Rightarrow> string option" where
  "sealed_head = [''a.py'' \<mapsto> ''old'', ''tests/t.py'' \<mapsto> ''row'']"

definition added_line :: string where "added_line = ''A'' @ CHR 9 # ''tests/t.py'' @ [CHR 10]"
definition modified_line :: string where "modified_line = ''M'' @ CHR 9 # ''a.py'' @ [CHR 10]"

definition some_suite :: "(string \<Rightarrow> string option) \<Rightarrow> bool" where
  \<comment> \<open>the row is green on the new code only\<close>
  "some_suite w = (w ''tests/t.py'' = None \<or> w ''a.py'' = Some ''new'')"

lemma tree_ops_contract:
  assumes "listing_of es listing" "set (map snd es) = {p. head p \<noteq> at_base p}"
    "\<forall>e \<in> set es. fst e = ''A'' \<longleftrightarrow> at_base (snd e) = None"
  shows "git_contract (tree_ops head at_base listing suite) (\<lambda>w. w) head base at_base"
  using assms unfolding git_contract_def tree_ops_def by (auto split: if_splits)

lemma listing_line:
  assumes "unquote_git_path r = Inr p" "list_all (\<lambda>x. \<not> line_break x \<and> x \<noteq> CHR 9) (c # r)" "listing_of es rest"
  shows "listing_of (([c], p) # es) (c # CHR 9 # r @ CHR 10 # rest)"
  using assms by auto

lemma some_lines:
  "listing_of [(''A'', ''tests/t.py'')] added_line"
  "listing_of [(''M'', ''a.py''), (''A'', ''tests/t.py'')] (modified_line @ added_line)"
proof -
  have "listing_of [([CHR ''A''], ''tests/t.py'')] (CHR ''A'' # CHR 9 # ''tests/t.py'' @ CHR 10 # [])"
    by (rule listing_line, code_simp, code_simp, simp)
  then show a: "listing_of [(''A'', ''tests/t.py'')] added_line" by (simp add: added_line_def)
  have "listing_of [([CHR ''M''], ''a.py''), (''A'', ''tests/t.py'')] (CHR ''M'' # CHR 9 # ''a.py'' @ CHR 10 # added_line)"
    by (rule listing_line, code_simp, code_simp, rule a)
  then show "listing_of [(''M'', ''a.py''), (''A'', ''tests/t.py'')] (modified_line @ added_line)"
    by (simp add: modified_line_def)
qed

lemma some_no_clash: "no_clash some_base fixed_head" "no_clash some_base sealed_head"
  by (auto simp: no_clash_def some_base_def fixed_head_def sealed_head_def starts_with_def split: if_splits)


theorem passed_redness_is_its_own_witness:
  "snd (run_seal_redness (tree_ops sealed_head some_base added_line some_suite) ''b'' ''test'' sealed_head) = sealed_head"
proof -
  let ?ops = "tree_ops sealed_head some_base added_line some_suite"
  have git: "git_contract ?ops (\<lambda>w. w) sealed_head ''b'' some_base"
    by (rule tree_ops_contract [OF some_lines(1)]) (auto simp: sealed_head_def some_base_def split: if_splits)
  have "fst (fst (run_seal_redness ?ops ''b'' ''test'' sealed_head)) = ''passed''" by code_simp
  then obtain d w' where run: "run_seal_redness ?ops ''b'' ''test'' sealed_head = ((''passed'', d), w')"
    by (metis prod.collapse)
  from passed_redness_is_its_own [OF git some_no_clash(2) refl _ run] run show ?thesis
    by (simp add: tree_ops_def)
qed

end
