(* ===== verification/KnownRed.thy ===== *)
theory KnownRed
  imports Tasks
begin

text \<open>
  The register of rows that are red by design (\<^verbatim>\<open>known_red.py\<close>, and
  \<^verbatim>\<open>orchestrator._known_red_exclusions\<close>): its reading, the rows to hide from a task's test
  run, the file they travel in, and the faults that block instead of dropping an exclusion.
\<close>

section \<open>The register\<close>

datatype exclusion_style = PytestDeselect | VitestNamePattern | GoSkip

datatype register_fault = UnsupportedStyle | CommandIgnoresExclusions

record red_entry =
  re_rows :: "string list"
  re_seals_task :: string
  re_body_task :: string
  re_reason :: string
  re_registered_at :: string

record exclusions =
  ex_rows :: "string list"
  ex_file :: "string option"           \<comment> \<open>the content of the rows file \<^verbatim>\<open>env\<close> names\<close>
  ex_fault :: "register_fault option"

datatype register_error =
    EntryNotMapping nat
  | EntryMissingKeys nat "string list"
  | RowsNotList nat
  | BadRow nat
  | BlankField nat string
  | NotYaml
  | TopLevelNotMapping
  | EntriesNotList

definition required_keys :: "string list" where
  "required_keys = [''rows'', ''seals_task'', ''body_task'', ''reason'']"

definition blank_text :: "pyval \<Rightarrow> bool" where
  \<comment> \<open>no string, or one of white space\<close>
  "blank_text v = (case v of PStr s \<Rightarrow> py_strip s = [] | _ \<Rightarrow> True)"

definition stripped :: "row \<Rightarrow> string \<Rightarrow> string" where
  "stripped r k = py_strip (py_str (row_get r k))"

definition as_entry :: "nat \<Rightarrow> pyval \<Rightarrow> register_error + red_entry" where
  "as_entry i raw =
     (case raw of
        PDict r \<Rightarrow>
          (let missing = filter (\<lambda>k. map_of r k = None) required_keys in
           if missing \<noteq> [] then Inl (EntryMissingKeys i missing)
           else (case row_get r ''rows'' of
               PList (x # xs) \<Rightarrow>
                 if list_ex blank_text (x # xs) then Inl (BadRow i)
                 else (case filter (\<lambda>k. blank_text (row_get r k)) [''seals_task'', ''body_task'', ''reason''] of
                     k # _ \<Rightarrow> Inl (BlankField i k)
                   | [] \<Rightarrow> Inr \<lparr>re_rows = map (\<lambda>v. py_strip (py_str v)) (x # xs), re_seals_task = stripped r ''seals_task'',
                       re_body_task = stripped r ''body_task'', re_reason = stripped r ''reason'',
                       re_registered_at = (if truthy (row_get r ''registered_at_sha'') then stripped r ''registered_at_sha'' else [])\<rparr>)
             | _ \<Rightarrow> Inl (RowsNotList i)))
      | _ \<Rightarrow> Inl (EntryNotMapping i))"

fun as_entries :: "nat \<Rightarrow> pyval list \<Rightarrow> register_error + red_entry list" where
  "as_entries i [] = Inr []"
| "as_entries i (v # vs) = (case as_entry i v of Inl e \<Rightarrow> Inl e
     | Inr x \<Rightarrow> (case as_entries (Suc i) vs of Inl e \<Rightarrow> Inl e | Inr xs \<Rightarrow> Inr (x # xs)))"

definition load_register :: "(unit + pyval) option \<Rightarrow> register_error + red_entry list" where
  \<comment> \<open>of the parsed file, None where there is none\<close>
  "load_register file =
     (case file of
        None \<Rightarrow> Inr []
      | Some (Inl _) \<Rightarrow> Inl NotYaml
      | Some (Inr PNone) \<Rightarrow> Inr []
      | Some (Inr (PDict doc)) \<Rightarrow>
          (case row_get doc ''entries'' of
             PNone \<Rightarrow> Inr []
           | PList vs \<Rightarrow> as_entries 0 vs
           | _ \<Rightarrow> Inl EntriesNotList)
      | Some (Inr _) \<Rightarrow> Inl TopLevelNotMapping)"

section \<open>The rows of a task\<close>

definition applies_to :: "string \<Rightarrow> string list \<Rightarrow> red_entry \<Rightarrow> bool" where
  "applies_to key landed e = (if re_body_task e = key then False else re_body_task e \<notin> set landed)"

fun collect_rows :: "string list \<Rightarrow> string list \<Rightarrow> string list \<Rightarrow> string list" where
  \<comment> \<open>the inner loop; \<open>out\<close> holds the rows so far, the latest first\<close>
  "collect_rows own [] out = out"
| "collect_rows own (r # rs) out = collect_rows own rs (if r \<in> set own \<or> r \<in> set out then out else r # out)"

definition rows_for_task :: "string \<Rightarrow> string list \<Rightarrow> red_entry list \<Rightarrow> string list" where
  "rows_for_task key landed register =
     (let own = concat (map re_rows (filter (\<lambda>e. re_body_task e = key) register)) in
      rev (fold (\<lambda>e out. if applies_to key landed e then collect_rows own (re_rows e) out else out) register []))"

section \<open>The file\<close>

definition js_special :: string where
  "js_special = ''^$'' @ CHR 92 # ''.*+?()[]{}|/''"

definition js_regex_escape :: "string \<Rightarrow> string" where
  "js_regex_escape s = concat (map (\<lambda>c. if c \<in> set js_special then [CHR 92, c] else [c]) s)"

definition name_pattern :: "string list \<Rightarrow> string" where
  "name_pattern rows = ''^(?!(?:'' @ join ''|'' (map js_regex_escape rows) @ '')$)''"

definition py_special :: string where
  \<comment> \<open>what \<^verbatim>\<open>re.escape\<close> escapes\<close>
  "py_special = ''()[]{}?*+-|^$'' @ CHR 92 # ''.&~#'' @ map char_of [32, 9, 10, 13, 11, 12 :: nat]"

definition py_regex_escape :: "string \<Rightarrow> string" where
  "py_regex_escape s = concat (map (\<lambda>c. if c \<in> set py_special then [CHR 92, c] else [c]) s)"

definition go_skip_pattern :: "string list \<Rightarrow> string" where
  "go_skip_pattern rows = ''^('' @ join ''|'' (map py_regex_escape rows) @ '')$''"

definition rows_payload :: "exclusion_style \<Rightarrow> string list \<Rightarrow> string" where
  "rows_payload style rows =
     (if rows = [] then []
      else (case style of VitestNamePattern \<Rightarrow> name_pattern rows | GoSkip \<Rightarrow> go_skip_pattern rows
          | PytestDeselect \<Rightarrow> join [CHR 10] rows) @ [CHR 10])"

definition exclusion_env :: string where
  "exclusion_env = ''DISPATCHER_KNOWN_RED_FILE''"

definition no_exclusions :: exclusions where
  "no_exclusions = \<lparr>ex_rows = [], ex_file = None, ex_fault = None\<rparr>"

definition resolve_exclusions ::
  "string \<Rightarrow> string list \<Rightarrow> exclusion_style option \<Rightarrow> string option \<Rightarrow> string list \<Rightarrow> red_entry list \<Rightarrow> exclusions" where
  "resolve_exclusions key landed style command texts register =
     (let rows = rows_for_task key landed register in
      if rows = [] then no_exclusions
      else (case style of
          None \<Rightarrow> \<lparr>ex_rows = rows, ex_file = None, ex_fault = Some UnsupportedStyle\<rparr>
        | Some st \<Rightarrow>
            if (case command of None \<Rightarrow> False | Some t \<Rightarrow> contains t exclusion_env) \<or> list_ex (\<lambda>t. contains t exclusion_env) texts
            then \<lparr>ex_rows = rows, ex_file = Some (rows_payload st rows), ex_fault = None\<rparr>
            else \<lparr>ex_rows = rows, ex_file = None, ex_fault = Some CommandIgnoresExclusions\<rparr>))"

definition landed_keys :: "task list \<Rightarrow> string list" where
  "landed_keys ts = map t_key (filter (\<lambda>t. py_strip (t_status t) \<in> {DONE, MERGED}) ts)"

definition known_red_exclusions ::
  "string \<Rightarrow> task list \<Rightarrow> exclusion_style option \<Rightarrow> string option \<Rightarrow> string list \<Rightarrow> (unit + pyval) option \<Rightarrow> exclusions" where
  \<comment> \<open>an unreadable register is a fault, never an empty one\<close>
  "known_red_exclusions key ts style command texts file =
     (case load_register file of
        Inl e \<Rightarrow> \<lparr>ex_rows = [], ex_file = None, ex_fault = Some UnsupportedStyle\<rparr>
      | Inr register \<Rightarrow> if register = [] then no_exclusions
          else resolve_exclusions key (landed_keys ts) style command texts register)"

section \<open>Which rows are hidden\<close>

lemma collect_rows_set: "set (collect_rows own rs out) = set out \<union> (set rs - set own)"
  by (induction rs arbitrary: out) auto

lemma collect_rows_distinct: "distinct out \<Longrightarrow> distinct (collect_rows own rs out)"
  by (induction rs arbitrary: out) auto

lemma rows_fold_set:
  "set (fold (\<lambda>e out. if applies_to key landed e then collect_rows own (re_rows e) out else out) es out)
     = set out \<union> ((\<Union>e \<in> set (filter (applies_to key landed) es). set (re_rows e)) - set own)"
  by (induction es arbitrary: out) (auto simp: collect_rows_set)

lemma rows_fold_distinct:
  "distinct out \<Longrightarrow>
     distinct (fold (\<lambda>e out. if applies_to key landed e then collect_rows own (re_rows e) out else out) es out)"
  by (induction es arbitrary: out) (simp_all add: collect_rows_distinct)

text \<open>
  The rows hidden from a task, exactly: those of an entry of another task whose body has not
  landed, unless the task owns the row itself through an entry of its own; each is named once.
\<close>

theorem hidden_rows_exact:
  "distinct (rows_for_task key landed register)
   \<and> set (rows_for_task key landed register) = {r. \<exists>e. e \<in> set register \<and> r \<in> set (re_rows e)
        \<and> re_body_task e \<noteq> key \<and> re_body_task e \<notin> set landed
        \<and> (\<nexists>e'. e' \<in> set register \<and> re_body_task e' = key \<and> r \<in> set (re_rows e'))}"
proof -
  let ?own = "concat (map re_rows (filter (\<lambda>e. re_body_task e = key) register))"
  have rows: "rows_for_task key landed register
      = rev (fold (\<lambda>e out. if applies_to key landed e then collect_rows ?own (re_rows e) out else out) register [])"
    by (simp add: rows_for_task_def Let_def)
  have "distinct (rows_for_task key landed register)" unfolding rows distinct_rev by (rule rows_fold_distinct) simp
  moreover have "set (rows_for_task key landed register)
      = (\<Union>e \<in> set (filter (applies_to key landed) register). set (re_rows e)) - set ?own"
    unfolding rows set_rev rows_fold_set by simp
  ultimately show ?thesis by (auto simp: applies_to_def)
qed

text \<open>
  C21. The register fails closed: the exclusions are without a fault exactly when the register reads
  and either no row is to be hidden, or the repository declares a style and its command places the file;
  then all rows are in the file.
\<close>

theorem register_fails_closed:
  "ex_fault (known_red_exclusions key ts style command texts file) = None \<longleftrightarrow>
     (\<exists>register. load_register file = Inr register \<and>
        (let rows = rows_for_task key (landed_keys ts) register; ex = known_red_exclusions key ts style command texts file in
         if rows = [] then ex = no_exclusions
         else \<exists>st. style = Some st \<and> (\<exists>t. t \<in> set_option command \<union> set texts \<and> contains t exclusion_env)
           \<and> ex = \<lparr>ex_rows = rows, ex_file = Some (rows_payload st rows), ex_fault = None\<rparr>))"
proof (cases "load_register file")
  case (Inr register)
  have none: "rows_for_task key landed [] = []" for landed by (simp add: rows_for_task_def)
  show ?thesis
  proof (cases "register = []")
    case True
    with Inr none show ?thesis by (simp add: known_red_exclusions_def no_exclusions_def)
  next
    case False
    with Inr show ?thesis
      by (cases style; cases command)
        (auto simp: known_red_exclusions_def resolve_exclusions_def no_exclusions_def list_ex_iff Let_def)
  qed
qed (simp add: known_red_exclusions_def)

section \<open>The patterns name exactly the rows\<close>

fun alternatives :: "string \<Rightarrow> string \<Rightarrow> string list" where
  \<comment> \<open>the alternatives of a pattern of escaped texts; \<open>acc\<close>: the current one, in reverse\<close>
  "alternatives acc [] = [rev acc]"
| "alternatives acc (c # s) =
     (if c = CHR 92 then (case s of [] \<Rightarrow> [rev (c # acc)] | d # t \<Rightarrow> alternatives (d # acc) t)
      else if c = CHR ''|'' then rev acc # alternatives [] s
      else alternatives (c # acc) s)"

definition escaped :: "string \<Rightarrow> string \<Rightarrow> string" where
  "escaped special s = concat (map (\<lambda>c. if c \<in> set special then [CHR 92, c] else [c]) s)"

lemma alternatives_escaped:
  assumes "CHR 92 \<in> set special" "CHR ''|'' \<in> set special"
  shows "alternatives acc (escaped special r @ rest) = alternatives (rev r @ acc) rest"
  using assms by (induction r arbitrary: acc) (auto simp: escaped_def)

lemma alternatives_join:
  assumes "CHR 92 \<in> set special" "CHR ''|'' \<in> set special" "rows \<noteq> []"
  shows "alternatives [] (join ''|'' (map (escaped special) rows)) = rows"
  using assms(3)
proof (induction rows rule: induct_list012)
  case (2 r)
  then show ?case using alternatives_escaped [OF assms(1,2), of "[]" r "[]"] by simp
next
  case (3 r r' rows)
  then show ?case using alternatives_escaped [OF assms(1,2), of "[]" r "''|'' @ join ''|'' (map (escaped special) (r' # rows))"]
    by simp
qed simp

text \<open>
  The patterns of the rows file name exactly the rows: whatever characters the rows hold, reading
  the alternatives of the rendered pattern back, an escaped character for itself and a bare bar as the
  separator, gives the rows.
\<close>

theorem patterns_name_the_rows:
  assumes "rows \<noteq> []"
  shows "alternatives [] (join ''|'' (map js_regex_escape rows)) = rows
   \<and> alternatives [] (join ''|'' (map py_regex_escape rows)) = rows"
proof -
  have "js_regex_escape = escaped js_special" "py_regex_escape = escaped py_special"
    by (simp_all add: fun_eq_iff js_regex_escape_def py_regex_escape_def escaped_def)
  moreover have "CHR 92 \<in> set js_special" "CHR ''|'' \<in> set js_special" "CHR 92 \<in> set py_special" "CHR ''|'' \<in> set py_special"
    by (simp_all add: js_special_def py_special_def)
  ultimately show ?thesis using assms alternatives_join by metis
qed

lemma row_with_a_line_break:
  \<comment> \<open>a row with a line break inside reaches the shell loop as two rows\<close>
  "rows_payload PytestDeselect [''a'' @ CHR 10 # ''b''] = rows_payload PytestDeselect [''a'', ''b'']"
  by (simp add: rows_payload_def)

theorem patterns_name_the_rows_witness:
  "alternatives [] (join ''|'' (map js_regex_escape [''a|b'', ''c(d)''])) = [''a|b'', ''c(d)'']
   \<and> alternatives [] (join ''|'' (map py_regex_escape [''a|b'', ''c(d)''])) = [''a|b'', ''c(d)'']"
  using patterns_name_the_rows [of "[''a|b'', ''c(d)'']"] by simp

definition fault_value :: "register_fault \<Rightarrow> string" where
  "fault_value f = (case f of UnsupportedStyle \<Rightarrow> ''known_red_unsupported_style''
     | CommandIgnoresExclusions \<Rightarrow> ''known_red_command_ignores_exclusions'')"

end
