(* ===== verification/Summary.thy ===== *)
theory Summary
  imports Tasks Json Regex
begin

text \<open>
  The summary a session leaves behind and its reading (\<^verbatim>\<open>summary.py\<close>): the metadata lines, the
  sections, the pull request section, and the problems that make a summary malformed. The regular
  expressions of the module are written out as the scans they amount to. The texts of the problems
  are reduced to their kinds.
\<close>

section \<open>A summary\<close>

datatype problem =
    SummaryNotFound
  | MissingStatus
  | InvalidStatus string
  | UnterminatedFence
  | UnfilledPlaceholder "string list"
  | UnfinishedSession "string list"
  | MissingPrepared "string list"
  | UnparseablePr string

record summary =
  sm_task_key :: "string option"
  sm_status :: "string option"
  sm_started :: "string option"
  sm_completed :: "string option"
  sm_iterations :: int
  sm_linter_cycles :: int
  sm_gate_fired :: bool
  sm_score :: "int option"
  sm_what_landed :: string
  sm_key_decisions :: string
  sm_deferred_findings :: "string list"
  sm_review_consensus :: "(string \<times> string \<times> string) list"
  sm_files_changed :: "string list"
  sm_pr_url :: "string option"
  sm_pr_not_raised :: "string option"
  sm_pr_title :: "string option"
  sm_pr_branch :: "string option"
  sm_pr_body :: "string option"
  sm_escalation :: string
  sm_problems :: "problem list"

definition empty_summary :: summary where
  "empty_summary = \<lparr>sm_task_key = None, sm_status = None, sm_started = None, sm_completed = None,
     sm_iterations = 0, sm_linter_cycles = 0, sm_gate_fired = False, sm_score = None, sm_what_landed = [],
     sm_key_decisions = [], sm_deferred_findings = [], sm_review_consensus = [], sm_files_changed = [],
     sm_pr_url = None, sm_pr_not_raised = None, sm_pr_title = None, sm_pr_branch = None, sm_pr_body = None,
     sm_escalation = [], sm_problems = []\<rparr>"

definition add_problem :: "problem \<Rightarrow> summary \<Rightarrow> summary" where
  "add_problem p s = s\<lparr>sm_problems := sm_problems s @ [p]\<rparr>"

definition malformed :: "summary \<Rightarrow> bool" where
  "malformed s = (sm_problems s \<noteq> [])"

definition valid_statuses :: "string list" where
  "valid_statuses = [DONE, BLOCKED, ESCALATED]"

definition awaiting_human_approval :: "summary \<Rightarrow> bool" where
  "awaiting_human_approval s = (sm_status s = Some BLOCKED \<and> sm_pr_title s \<noteq> None
     \<and> sm_pr_branch s \<noteq> None \<and> sm_pr_body s \<noteq> None)"

section \<open>Scans\<close>

definition newline :: char where "newline = CHR 10"

definition line_rest :: "string \<Rightarrow> string" where
  "line_rest s = takeWhile (\<lambda>c. c \<noteq> newline) s"

definition value_after :: "string \<Rightarrow> string option" where
  \<comment> \<open>the group of \<^verbatim>\<open>\s*(.+)$\<close> (multi-line) at the start of a text: white space is skipped, line breaks
      included; in a text of white space only the last character that is no line break is given back\<close>
  "value_after s = (case dropWhile py_space s of
       c # r \<Rightarrow> Some (line_rest (c # r))
     | [] \<Rightarrow> (case dropWhile (\<lambda>c. c = newline) (rev s) of [] \<Rightarrow> None | c # _ \<Rightarrow> Some [c]))"

fun find_field :: "string \<Rightarrow> string \<Rightarrow> string option" where
  \<comment> \<open>\<^verbatim>\<open>re.search(marker + r"\s*(.+)$", text, re.MULTILINE)\<close>\<close>
  "find_field marker [] = (if marker = [] then value_after [] else None)"
| "find_field marker (c # s) =
     (case (if starts_with (c # s) marker then value_after (drop (length marker) (c # s)) else None) of
        Some v \<Rightarrow> Some v
      | None \<Rightarrow> find_field marker s)"

definition field_marker :: "string \<Rightarrow> string" where
  "field_marker label = ''**'' @ label @ '':**''"

definition field :: "string \<Rightarrow> string \<Rightarrow> string option" where
  "field label text = find_field (field_marker label) text"

definition strip_chars :: "char \<Rightarrow> string \<Rightarrow> string" where
  "strip_chars c s = rev (dropWhile ((=) c) (rev (dropWhile ((=) c) s)))"

definition strip_md :: "string \<Rightarrow> string" where
  "strip_md v = py_strip (strip_chars (CHR ''*'') (py_strip v))"

fun find_int :: "string \<Rightarrow> int option" where
  \<comment> \<open>the first match of \<^verbatim>\<open>-?\d+\<close>\<close>
  "find_int [] = None"
| "find_int (c # s) =
     (if is_digit c then Some (int (digits_value (takeWhile is_digit (c # s))))
      else if c = CHR ''-'' \<and> s \<noteq> [] \<and> is_digit (hd s) then Some (- int (digits_value (takeWhile is_digit s)))
      else find_int s)"

definition parse_int :: "string \<Rightarrow> int" where
  "parse_int raw = (case find_int raw of None \<Rightarrow> 0 | Some i \<Rightarrow> i)"

definition fraction_at :: "string \<Rightarrow> bool" where
  \<comment> \<open>\<^verbatim>\<open>\s*/\s*\d\<close> at the start of a text\<close>
  "fraction_at s = (case dropWhile py_space s of
      c # r \<Rightarrow> c = CHR ''/'' \<and> (case dropWhile py_space r of d # _ \<Rightarrow> is_digit d | [] \<Rightarrow> False)
    | [] \<Rightarrow> False)"

fun find_fraction :: "string \<Rightarrow> nat option" where
  \<comment> \<open>the numerator of the first \<^verbatim>\<open>(\d+)\s*/\s*\d+\<close>\<close>
  "find_fraction [] = None"
| "find_fraction (c # s) =
     (if is_digit c \<and> fraction_at (dropWhile is_digit s) then Some (digits_value (c # takeWhile is_digit s))
      else find_fraction s)"

fun find_digits :: "string \<Rightarrow> nat option" where
  "find_digits [] = None"
| "find_digits (c # s) = (if is_digit c then Some (digits_value (c # takeWhile is_digit s)) else find_digits s)"

definition parse_score :: "string \<Rightarrow> int option" where
  \<comment> \<open>a text with a dash (no character below code point 256) is no score either\<close>
  "parse_score raw =
     (let raw = py_strip raw in
      if starts_with (py_lower raw) ''not reviewed'' then None
      else map_option int (case find_fraction raw of Some n \<Rightarrow> Some n | None \<Rightarrow> find_digits raw))"

definition parse_yes_no :: "string \<Rightarrow> bool" where
  "parse_yes_no raw = starts_with (py_lower (py_strip raw)) ''y''"

definition title_at :: "string \<Rightarrow> string option" where
  \<comment> \<open>\<^verbatim>\<open>#\s+(\S+):\<close> at the start of a text: the longest word with a colon after it\<close>
  "title_at s =
     (if starts_with s ''#'' \<and> drop 1 s \<noteq> [] \<and> py_space (s ! 1) then
        (let word = takeWhile (\<lambda>c. \<not> py_space c) (dropWhile py_space (drop 1 s));
             key = rev (drop 1 (dropWhile (\<lambda>c. c \<noteq> CHR '':'') (rev word)))
         in if key = [] then None else Some key)
      else None)"

fun find_title :: "bool \<Rightarrow> string \<Rightarrow> string option" where
  \<comment> \<open>\<open>b\<close>: at the start of a line\<close>
  "find_title b [] = None"
| "find_title b (c # s) = (case (if b then title_at (c # s) else None) of
     Some k \<Rightarrow> Some k | None \<Rightarrow> find_title (c = newline) s)"

definition fence_line :: "string \<Rightarrow> bool" where
  \<comment> \<open>\<^verbatim>\<open>^```[\w-]*\s*$\<close>\<close>
  "fence_line l = (starts_with l ''```''
     \<and> list_all py_space (dropWhile (\<lambda>c. word_char c \<or> c = CHR ''-'') (drop 3 l)))"

fun word_runs :: "string \<Rightarrow> string \<Rightarrow> string list" where
  \<comment> \<open>the maximal runs of word characters\<close>
  "word_runs acc [] = (if acc = [] then [] else [rev acc])"
| "word_runs acc (c # s) = (if word_char c then word_runs (c # acc) s
     else (if acc = [] then [] else [rev acc]) @ word_runs [] s)"

definition placeholder_char :: "char \<Rightarrow> bool" where
  "placeholder_char c = (let n = of_char c :: nat in (65 \<le> n \<and> n \<le> 90) \<or> is_digit c \<or> c = CHR ''_'')"

definition placeholders :: "string \<Rightarrow> string list" where
  "placeholders text = sort (remdups (filter (\<lambda>w. list_all placeholder_char w \<and> contains w ''PLACEHOLDER'') (word_runs [] text)))"

definition unfinished_phrases :: "string list" where
  \<comment> \<open>three more phrases hold a dash and match no text below code point 256\<close>
  "unfinished_phrases = [''session in progress'', ''suites in flight'', ''not run yet'', ''see final version'']"

definition unfinished :: "string \<Rightarrow> string list" where
  "unfinished text = filter (\<lambda>p. contains (py_lower text) p) unfinished_phrases"

section \<open>Sections\<close>

definition heading_text :: "string \<Rightarrow> string option" where
  \<comment> \<open>what follows \<^verbatim>\<open>##\s+\<close> on a line\<close>
  "heading_text l = (if starts_with l ''##'' \<and> drop 2 l \<noteq> [] \<and> py_space (l ! 2)
     then Some (dropWhile py_space (drop 2 l)) else None)"

definition is_heading :: "string \<Rightarrow> string \<Rightarrow> bool" where
  "is_heading h l = (case heading_text l of None \<Rightarrow> False
     | Some r \<Rightarrow> starts_with r h \<and> list_all py_space (drop (length h) r))"

definition any_heading :: "string \<Rightarrow> bool" where
  "any_heading l = (case heading_text l of None \<Rightarrow> False | Some r \<Rightarrow> r \<noteq> [])"

fun section_lines :: "string \<Rightarrow> bool \<Rightarrow> bool \<Rightarrow> string list \<Rightarrow> string list" where
  \<comment> \<open>inside the section, inside a fence\<close>
  "section_lines h inside fence [] = []"
| "section_lines h inside fence (l # ls) =
     (if fence_line l then (if inside then [l] else []) @ section_lines h inside (\<not> fence) ls
      else if \<not> fence \<and> is_heading h l then section_lines h True fence ls
      else if inside \<and> \<not> fence \<and> any_heading l then []
      else (if inside then [l] else []) @ section_lines h inside fence ls)"

definition extract_section :: "string \<Rightarrow> string \<Rightarrow> string" where
  "extract_section text h = join [newline] (section_lines h False False (py_splitlines text))"

definition extract_bullets :: "string \<Rightarrow> string list" where
  "extract_bullets body = map (\<lambda>l. py_strip (drop 2 (py_strip l)))
     (filter (\<lambda>l. starts_with (py_strip l) ''- '') (py_splitlines body))"

definition table_row :: "string \<Rightarrow> (string \<times> string \<times> string) option" where
  "table_row l =
     (let l = py_strip l; cells = map py_strip (split_all (CHR ''|'') (strip_chars (CHR ''|'') l)) in
      if \<not> starts_with l ''|'' \<or> starts_with l ''|--'' \<or> length cells < 3 \<or> py_lower (hd cells) = ''reviewer''
      then None else Some (cells ! 0, cells ! 1, cells ! 2))"

definition extract_review_table :: "string \<Rightarrow> (string \<times> string \<times> string) list" where
  "extract_review_table body = List.map_filter table_row (py_splitlines body)"

section \<open>The pull request\<close>

fun head_line :: "string list \<Rightarrow> string" where
  "head_line [] = []"
| "head_line (l # ls) = (if py_strip l = [] then head_line ls
     else if starts_with (py_strip l) ''###'' then [] else py_strip l)"

fun until_fence :: "string \<Rightarrow> string option" where
  \<comment> \<open>the group of \<^verbatim>\<open>(.*?)\n```\<close>\<close>
  "until_fence [] = None"
| "until_fence (c # s) = (if starts_with (c # s) (newline # ''```'') then Some [] else map_option ((#) c) (until_fence s))"

fun first_some :: "('a \<Rightarrow> 'b option) \<Rightarrow> 'a list \<Rightarrow> 'b option" where
  "first_some f [] = None"
| "first_some f (x # xs) = (case f x of Some y \<Rightarrow> Some y | None \<Rightarrow> first_some f xs)"

definition body_after :: "string \<Rightarrow> string option" where
  \<comment> \<open>\<^verbatim>\<open>\s*\n```(?:markdown)?\s*\n(.*?)\n```\<close> at the start of a text: of the white space after the
      fence as much is skipped as leaves a closing fence\<close>
  "body_after s =
     (let gap = takeWhile py_space s; r = dropWhile py_space s in
      if gap = [] \<or> last gap \<noteq> newline \<or> \<not> starts_with r ''```'' then None
      else (let r = drop 3 r;
                r = (if starts_with r ''markdown'' then drop 8 r else r);
                n = length (takeWhile py_space r)
            in first_some (\<lambda>k. until_fence (drop (Suc k) r)) (filter (\<lambda>k. r ! k = newline) (rev [0..<n]))))"

fun find_body :: "string \<Rightarrow> string option" where
  "find_body [] = None"
| "find_body (c # s) =
     (case (if starts_with (c # s) ''**Body:**'' then body_after (drop 9 (c # s)) else None) of
        Some b \<Rightarrow> Some b | None \<Rightarrow> find_body s)"

definition parse_pr_section :: "string \<Rightarrow> summary \<Rightarrow> summary" where
  "parse_pr_section raw s =
     (let body = py_strip raw; h = head_line (py_splitlines body) in
      if body = [] then s
      else if starts_with h ''http'' then s\<lparr>sm_pr_url := Some (takeWhile (\<lambda>c. \<not> py_space c) h)\<rparr>
      else if starts_with (py_lower h) ''not raised'' then
        s\<lparr>sm_pr_not_raised := Some (if CHR '':'' \<in> set h then py_strip (snd (split_once (CHR '':'') h)) else ''unspecified'')\<rparr>
      else if contains (py_lower h) ''awaiting human approval'' then
        (let title = map_option py_strip (field ''Title'' body);
             branch = map_option py_strip (field ''Branch'' body);
             text = map_option py_strip (find_body body);
             missing = (if title = None then [''Title''] else []) @ (if branch = None then [''Branch''] else [])
               @ (if text = None then [''Body''] else []);
             s = s\<lparr>sm_pr_title := title, sm_pr_branch := branch, sm_pr_body := text\<rparr>
         in if missing = [] then s else add_problem (MissingPrepared missing) s)
      else add_problem (UnparseablePr h) s)"

section \<open>Parsing\<close>

definition none_if_empty :: "string \<Rightarrow> string option" where
  "none_if_empty s = (if s = [] then None else Some s)"

definition parse_metadata :: "string \<Rightarrow> summary" where
  "parse_metadata text = empty_summary\<lparr>
     sm_task_key := find_title True text,
     sm_status := map_option (\<lambda>v. strip_chars (CHR ''`'') (strip_md v)) (field ''Status'' text),
     sm_started := Option.bind (field ''Started'' text) (\<lambda>v. none_if_empty (strip_md v)),
     sm_completed := Option.bind (field ''Completed'' text) (\<lambda>v. none_if_empty (strip_md v)),
     sm_iterations := (case field ''Iterations'' text of None \<Rightarrow> 0 | Some v \<Rightarrow> parse_int v),
     sm_linter_cycles := (case field ''Linter cycles'' text of None \<Rightarrow> 0 | Some v \<Rightarrow> parse_int v),
     sm_gate_fired := (case field ''Human gate fired'' text of None \<Rightarrow> False | Some v \<Rightarrow> parse_yes_no v),
     sm_score := Option.bind (field ''Final quality score'' text) parse_score\<rparr>"

definition status_problems :: "summary \<Rightarrow> problem list" where
  "status_problems s = (case sm_status s of None \<Rightarrow> [MissingStatus]
     | Some st \<Rightarrow> if st \<in> set valid_statuses then [] else [InvalidStatus st])"

definition text_problems :: "string \<Rightarrow> problem list" where
  "text_problems text =
     (if odd (length (filter fence_line (split_all newline text))) then [UnterminatedFence] else [])
     @ (if placeholders text = [] then [] else [UnfilledPlaceholder (placeholders text)])
     @ (if unfinished text = [] then [] else [UnfinishedSession (unfinished text)])"

definition escalation_reason :: "string \<Rightarrow> string" where
  "escalation_reason text =
     (let r = py_strip (extract_section text ''Escalation reason (if Blocked or Escalated)'')
      in if r = [] then py_strip (extract_section text ''Escalation reason'') else r)"

definition parse_text :: "string \<Rightarrow> summary" where
  "parse_text text =
     (let s = parse_metadata text;
          s = s\<lparr>sm_problems := status_problems s @ text_problems text,
               sm_what_landed := py_strip (extract_section text ''What landed''),
               sm_key_decisions := py_strip (extract_section text ''Key decisions''),
               sm_escalation := escalation_reason text,
               sm_deferred_findings := extract_bullets (extract_section text ''Deferred findings''),
               sm_files_changed := extract_bullets (extract_section text ''Files changed''),
               sm_review_consensus := extract_review_table (extract_section text ''Review consensus'')\<rparr>
      in parse_pr_section (extract_section text ''PR'') s)"

definition parse_summary :: "string option \<Rightarrow> summary" where
  \<comment> \<open>of the file's text, None where there is no file\<close>
  "parse_summary file = (case file of None \<Rightarrow> add_problem SummaryNotFound empty_summary | Some text \<Rightarrow> parse_text text)"

section \<open>Which summaries are taken\<close>

definition pr_readable :: "string \<Rightarrow> bool" where
  "pr_readable raw =
     (let body = py_strip raw; h = head_line (py_splitlines body) in
      body = [] \<or> starts_with h ''http'' \<or> starts_with (py_lower h) ''not raised''
      \<or> (contains (py_lower h) ''awaiting human approval'' \<and> field ''Title'' body \<noteq> None
          \<and> field ''Branch'' body \<noteq> None \<and> find_body body \<noteq> None))"

definition declared_status :: "string \<Rightarrow> string option" where
  "declared_status text = map_option (\<lambda>v. strip_chars (CHR ''`'') (strip_md v)) (field ''Status'' text)"

lemma pr_section_keeps [simp]: "sm_status (parse_pr_section raw s) = sm_status s"
  by (simp add: parse_pr_section_def add_problem_def Let_def)

lemma pr_section_problems: "sm_problems (parse_pr_section raw s) = [] \<longleftrightarrow> sm_problems s = [] \<and> pr_readable raw"
  by (simp add: parse_pr_section_def add_problem_def pr_readable_def Let_def)

lemma parse_text_status [simp]: "sm_status (parse_text text) = declared_status text"
  by (simp add: parse_text_def parse_metadata_def declared_status_def Let_def)

lemma parse_text_problems:
  "sm_problems (parse_text text) = [] \<longleftrightarrow> status_problems (parse_metadata text) = [] \<and> text_problems text = []
     \<and> pr_readable (extract_section text ''PR'')"
  by (simp add: parse_text_def pr_section_problems Let_def)

lemma status_problems_none:
  "status_problems (parse_metadata text) = [] \<longleftrightarrow> (\<exists>st \<in> set valid_statuses. declared_status text = Some st)"
  by (auto simp: status_problems_def parse_metadata_def declared_status_def split: option.splits)

lemma text_problems_none:
  "text_problems text = [] \<longleftrightarrow> even (length (filter fence_line (split_all newline text)))
     \<and> placeholders text = [] \<and> unfinished text = []"
  by (simp add: text_problems_def)

lemma sound_summary_status:
  "\<not> malformed (parse_summary file) \<Longrightarrow> \<exists>st \<in> set valid_statuses. sm_status (parse_summary file) = Some st"
  by (auto simp: malformed_def parse_summary_def parse_text_problems status_problems_none add_problem_def empty_summary_def
      split: option.splits)


lemma empty_value_taken_from_next_line:
  \<comment> \<open>the white space after a marker may hold the line break\<close>
  "field ''Started'' ([CHR 42, CHR 42] @ ''Started:**'' @ [newline] @ ''**Status:** Done'') = Some ''**Status:** Done''"
  by code_simp

section \<open>Sections are read back\<close>

fun closed_body :: "bool \<Rightarrow> string list \<Rightarrow> bool" where
  \<comment> \<open>every heading stands inside a fence, every fence is closed; \<open>fence\<close>: inside one\<close>
  "closed_body fence [] = (\<not> fence)"
| "closed_body fence (l # ls) =
     (if fence_line l then closed_body (\<not> fence) ls else (fence \<or> \<not> any_heading l) \<and> closed_body fence ls)"

definition heading_name :: "string \<Rightarrow> bool" where
  "heading_name h = (h \<noteq> [] \<and> \<not> py_space (hd h) \<and> \<not> py_space (last h))"

definition render_sections :: "(string \<times> string list) list \<Rightarrow> string list" where
  "render_sections secs = concat (map (\<lambda>hb. (''## '' @ fst hb) # snd hb) secs)"

definition file_of :: "string list \<Rightarrow> string" where
  "file_of ls = concat (map (\<lambda>l. l @ [newline]) ls)"

lemma heading_text_name: "heading_name h \<Longrightarrow> heading_text (''## '' @ h) = Some h"
  by (cases h) (simp_all add: heading_text_def heading_name_def starts_with_def py_space_def)

lemma rendered_heading:
  assumes "heading_name h'"
  shows "\<not> fence_line (''## '' @ h')" "any_heading (''## '' @ h')"
    "heading_name h \<Longrightarrow> is_heading h (''## '' @ h') \<longleftrightarrow> h = h'"
proof -
  show "\<not> fence_line (''## '' @ h')" by (simp add: fence_line_def starts_with_def)
  show "any_heading (''## '' @ h')"
    using assms heading_text_name [OF assms] by (simp add: any_heading_def heading_name_def del: append.simps)
  assume h: "heading_name h"
  have "h = h'" if "h' = h @ r" "list_all py_space r" for r
    using that assms by (cases r rule: rev_cases) (auto simp: heading_name_def)
  then show "is_heading h (''## '' @ h') \<longleftrightarrow> h = h'"
    using heading_text_name [OF assms] by (auto simp: is_heading_def starts_with_iff_prefix simp del: append.simps)
qed

lemma heading_is_any: "is_heading h l \<Longrightarrow> h \<noteq> [] \<Longrightarrow> any_heading l"
  by (auto simp: is_heading_def any_heading_def starts_with_iff_prefix split: option.splits)

lemma section_lines_skip:
  "closed_body fence pre \<Longrightarrow> h \<noteq> [] \<Longrightarrow> section_lines h False fence (pre @ ls) = section_lines h False False ls"
  by (induction pre arbitrary: fence) (auto dest: heading_is_any split: if_splits)

lemma section_lines_take:
  "closed_body fence b \<Longrightarrow> h \<noteq> [] \<Longrightarrow> section_lines h True fence (b @ ls) = b @ section_lines h True False ls"
  by (induction b arbitrary: fence) (auto dest: heading_is_any split: if_splits)

lemma section_lines_stop:
  assumes "\<forall>s \<in> set secs. heading_name (fst s)" "heading_name h" "h \<notin> fst ` set secs"
  shows "section_lines h True False (render_sections secs) = []"
  using assms rendered_heading by (cases secs) (auto simp: render_sections_def)

lemma section_lines_find:
  assumes "\<forall>s \<in> set secs. heading_name (fst s) \<and> closed_body False (snd s)" "distinct (map fst secs)" "map_of secs h = Some b"
  shows "section_lines h False False (render_sections secs) = b"
  using assms
proof (induction secs)
  case (Cons s secs)
  have h: "heading_name h" using Cons.prems map_of_SomeD by fastforce
  have render: "render_sections (s # secs) = (''## '' @ fst s) # snd s @ render_sections secs"
    by (simp add: render_sections_def)
  show ?case
  proof (cases "fst s = h")
    case True
    with Cons.prems have "snd s = b" "h \<notin> fst ` set secs" by auto
    with Cons.prems h True show ?thesis
      unfolding render using rendered_heading [of h] section_lines_take [of False b h] section_lines_stop [of secs h]
      by (simp add: heading_name_def [of h])
  next
    case False
    with Cons h show ?thesis
      unfolding render using rendered_heading [of "fst s"] section_lines_skip [of False "snd s" h]
      by (simp add: heading_name_def [of h])
  qed
qed simp

lemma splitlines_from_line:
  "list_all (\<lambda>c. \<not> line_break c) l \<Longrightarrow>
     splitlines_from False acc (l @ newline # s) = (rev acc @ l) # splitlines_from False [] s"
  by (induction l arbitrary: acc) (simp_all add: line_break_def newline_def)

lemma splitlines_file: "\<forall>l \<in> set ls. list_all (\<lambda>c. \<not> line_break c) l \<Longrightarrow> py_splitlines (file_of ls) = ls"
  by (induction ls) (simp_all add: py_splitlines_def file_of_def splitlines_from_line)

text \<open>
  A section is read back as it was written: from a file of a preamble and sections of distinct
  names, whose headings stand inside closed code fences or start a section, the reader gives
  exactly the lines of the section asked for, the headings inside its fences included.
\<close>

theorem section_read_back:
  assumes "closed_body False pre"
    and "\<forall>s \<in> set secs. heading_name (fst s) \<and> closed_body False (snd s)"
    and "distinct (map fst secs)"
    and "\<forall>l \<in> set (pre @ render_sections secs). list_all (\<lambda>c. \<not> line_break c) l"
    and "map_of secs h = Some b"
  shows "extract_section (file_of (pre @ render_sections secs)) h = join [newline] b"
proof -
  have "h \<noteq> []" using assms(2,5) map_of_SomeD by (fastforce simp: heading_name_def)
  with assms show ?thesis
    by (simp add: extract_section_def splitlines_file section_lines_skip section_lines_find)
qed

theorem section_read_back_witness:
  "extract_section (file_of ([''# T-1: x''] @ render_sections
       [(''What landed'', [''a'']), (''PR'', [''```markdown'', ''## What'', ''b'', ''```'']), (''Files changed'', [''- c''])])) ''PR''
   = join [newline] [''```markdown'', ''## What'', ''b'', ''```'']"
  by (rule section_read_back) (code_simp+)

end
