(* ===== verification/Verifier.thy ===== *)
theory Verifier
  imports SpawnFailure
begin

text \<open>
  The independent verifier of a task's work (\<^verbatim>\<open>verifier.py\<close>): the prompt's fields, the reading of a
  verdict out of a response, and the run of the CLI. Texts are UTF-8 bytes as in \<^verbatim>\<open>Json\<close>. The
  patterns are those of the source, constructor by constructor, over the matcher of \<^verbatim>\<open>Regex\<close>; their
  white space and their dashes are the Unicode ones, while \<^verbatim>\<open>\w\<close>, \<^verbatim>\<open>\b\<close>, \<^verbatim>\<open>\d\<close> and the caseless
  letters are those of ASCII text. Token counts and durations are left out.
\<close>

section \<open>Verdicts\<close>

datatype verdict_kind = VERIFIED | INCOMPLETE

record gap =
  gp_index :: nat
  gp_location :: "string option"
  gp_description :: string

record verifier_verdict =
  vv_verdict :: verdict_kind
  vv_gaps :: "gap list"
  vv_reason :: "string option"
  vv_raw :: string

definition REASON_MALFORMED :: string where "REASON_MALFORMED = ''verifier_output_malformed''"
definition REASON_GAPS_UNPARSED :: string where "REASON_GAPS_UNPARSED = ''verifier_gaps_unparsed''"
definition REASON_CONFLICTING :: string where "REASON_CONFLICTING = ''verifier_conflicting_verdicts''"
definition REASON_SPAWN_FAILED :: string where "REASON_SPAWN_FAILED = ''verifier_spawn_failed''"

section \<open>Patterns\<close>

definition ascii_word :: "char \<Rightarrow> bool" where
  "ascii_word c = (let n = of_char c :: nat in
     (48 \<le> n \<and> n \<le> 57) \<or> (65 \<le> n \<and> n \<le> 90) \<or> (97 \<le> n \<and> n \<le> 122) \<or> n = 95)"

definition any_rx :: rx where "any_rx = RClass (\<lambda>_. True)"

definition space_rx :: rx where "space_rx = RAlts (map (RText RChar) space_texts)"
definition non_space_rx :: rx where "non_space_rx = RSeq (RNot space_rx) any_rx"
definition blank_rx :: rx where "blank_rx = RClass (\<lambda>c. c = CHR 32 \<or> c = CHR 9)"
definition not_newline_rx :: rx where "not_newline_rx = RClass (\<lambda>c. c \<noteq> CHR 10)"
definition digits_rx :: rx where "digits_rx = RSome (RClass is_digit)"
definition word_rx :: rx where "word_rx = RSome (RClass ascii_word)"
definition dash_rx :: rx where
  "dash_rx = RAlts [RText RChar [CHR 0xE2, CHR 0x80, CHR 0x94], RText RChar [CHR 0xE2, CHR 0x80, CHR 0x93],
     RChar (CHR ''-'')]"
definition emphasis_rx :: rx where "emphasis_rx = RAlt (RText RChar ''**'') (RSome (RChar (CHR 96)))"

definition ansi_sequence :: rx where
  "ansi_sequence = RSeqs [RText RChar [CHR 27, CHR ''[''],
     RMany (RClass (\<lambda>c. is_digit c \<or> c = CHR '';'' \<or> c = CHR ''?'')),
     RMany (RClass (\<lambda>c. CHR 32 \<le> c \<and> c \<le> CHR ''/'')), RClass (\<lambda>c. CHR ''@'' \<le> c \<and> c \<le> CHR ''~'')]"

definition verified_parts :: "rx list" where
  "verified_parts = [RMany blank_rx, ROpt emphasis_rx, RMany space_rx, RText RChar ''Verdict:'',
     RMany space_rx, RText RChar ''VERIFIED'', RMany space_rx, ROpt emphasis_rx, RMany blank_rx]"

definition verdict_line :: rx where
  "verdict_line = RSeqs ([RLineStart] @ verified_parts @ [RLineEnd])"

definition claim_parts :: "rx list" where
  \<comment> \<open>the evidence up to the word itself\<close>
  "claim_parts = [RMany blank_rx,
     ROpt (RSeq (RAlts [RClass (\<lambda>c. c \<in> {CHR ''-'', CHR ''*'', CHR ''>''}), RRep 1 (Some 6) (RChar (CHR ''#'')),
        RSeq digits_rx (RClass (\<lambda>c. c = CHR ''.'' \<or> c = CHR '')''))]) (RSome space_rx)),
     ROpt emphasis_rx, RMany space_rx,
     ROpt (RSeqs [word_rx, ROpt (RSeq (RSome space_rx) word_rx), RSome space_rx]),
     RText RCaseless ''Verdict'', RMany space_rx, RChar (CHR '':''), RMany space_rx, ROpt emphasis_rx, RMany space_rx,
     RText RCaseless ''INCOMPLETE'']"

definition echo_parts :: "rx list" where
  "echo_parts = [RMany space_rx, RChar (CHR ''|''), RMany space_rx,
     RAlt (RText RCaseless ''VERIFIED'') (RText RCaseless ''INCOMPLETE'')]"

definition incomplete_evidence :: rx where
  "incomplete_evidence = RSeqs ([RLineStart] @ (claim_parts @ [RWordEdge ascii_word,
     RNot (RSeqs (echo_parts @ [RWordEdge ascii_word])), RGroup 1 (RMany not_newline_rx)]) @ [RLineEnd])"

text \<open>The patterns below are matched against one line, so the end of a line is the end of the text.\<close>

definition gap_item :: rx where
  "gap_item = RSeqs [RMany space_rx, RGroup 1 digits_rx, RClass (\<lambda>c. c = CHR ''.'' \<or> c = CHR '')''), RSome space_rx,
     RGroup 2 (RSeq non_space_rx (RLazy not_newline_rx)), RMany space_rx, RLineEnd]"

definition gap_item_stub :: rx where
  "gap_item_stub = RSeqs [RMany space_rx, digits_rx, ROpt (RClass (\<lambda>c. c = CHR ''.'' \<or> c = CHR '')'')),
     RMany space_rx, RLineEnd]"

definition gaps_header :: rx where
  "gaps_header = RSeqs [RMany space_rx, ROpt (RText RChar ''**''), RText RCaseless ''Gaps'', ROpt (RChar (CHR '':'')),
     ROpt (RText RChar ''**''), RMany space_rx, RLineEnd]"

definition fence_rx :: rx where
  "fence_rx = RSeq (RMany space_rx) (RText RChar [CHR 96, CHR 96, CHR 96])"

definition gap_location :: rx where
  "gap_location = RSeqs [
     RGroup 1 (RSeqs [RSome (RSeq (RNot (RAlts [space_rx, RChar (CHR '':''),
           RText RChar [CHR 0xE2, CHR 0x80, CHR 0x94], RText RChar [CHR 0xE2, CHR 0x80, CHR 0x93]])) any_rx),
        RChar (CHR ''.''), word_rx,
        ROpt (RSeq (RChar (CHR '':'')) (RAlt digits_rx (RChar (CHR ''?''))))]),
     RMany space_rx, RAlt dash_rx (RChar (CHR '':'')), RSome space_rx,
     RGroup 2 (RSeq non_space_rx (RMany not_newline_rx)), RLineEnd]"

definition leading_marks :: rx where
  "leading_marks = RSome (RAlts [space_rx, dash_rx, RChar (CHR '':''), RChar (CHR ''|''), RText RChar ''**'',
     RChar (CHR 96)])"

definition trailing_marks :: rx where
  "trailing_marks = RSeq (RSome (RAlts [space_rx, RText RChar ''**'', RChar (CHR 96)])) RLineEnd"

definition group_or_empty :: "groups \<Rightarrow> nat \<Rightarrow> string" where
  "group_or_empty g n = (case rx_group g n of Some s \<Rightarrow> s | None \<Rightarrow> [])"

section \<open>Scope\<close>

definition strip_ansi :: "string \<Rightarrow> string" where
  "strip_ansi t = rx_remove ansi_sequence t"

definition rx_matches :: "rx \<Rightarrow> string \<Rightarrow> bool" where
  \<comment> \<open>\<^verbatim>\<open>r.match(s)\<close>\<close>
  "rx_matches r s = (rx_match r ([], s) \<noteq> None)"

fun blocks_from :: "string list option \<Rightarrow> string list \<Rightarrow> string list" where
  \<comment> \<open>the lines of the open block, in reverse\<close>
  "blocks_from None [] = []"
| "blocks_from (Some ls) [] = (if ls = [] then [] else [join [CHR 10] (rev ls)])"
| "blocks_from None (l # ls) = (if rx_matches fence_rx l then blocks_from (Some []) ls else blocks_from None ls)"
| "blocks_from (Some b) (l # ls) =
     (if rx_matches fence_rx l then join [CHR 10] (rev b) # blocks_from None ls else blocks_from (Some (l # b)) ls)"

definition fenced_blocks :: "string \<Rightarrow> string list" where
  "fenced_blocks t = blocks_from None (text_lines [] t)"

definition has_verdict :: "string \<Rightarrow> bool" where
  "has_verdict b = (rx_search verdict_line b \<noteq> None \<or> rx_search incomplete_evidence b \<noteq> None)"

definition verdict_scope :: "string \<Rightarrow> string" where
  "verdict_scope cleaned =
     (case find has_verdict (rev (fenced_blocks cleaned)) of Some b \<Rightarrow> b | None \<Rightarrow> cleaned)"

section \<open>Gaps\<close>

definition suffix_gap :: "string \<Rightarrow> gap list" where
  "suffix_gap suf =
     (let t = strip_text suf;
          t = (case rx_match leading_marks ([], t) of Some (_, q) \<Rightarrow> snd q | None \<Rightarrow> t);
          t = rx_remove trailing_marks t
      in if list_ex ascii_word t then [\<lparr>gp_index = 1, gp_location = None, gp_description = t\<rparr>] else [])"

fun gap_items :: "(nat \<times> string) list \<Rightarrow> string list \<Rightarrow> (nat \<times> string) list" where
  \<comment> \<open>the items read so far, in reverse\<close>
  "gap_items acc [] = rev acc"
| "gap_items acc (l # ls) =
     (if rx_matches fence_rx l then rev acc
      else if strip_text l = [] \<or> rx_matches gaps_header l \<or> rx_matches gap_item_stub l then gap_items acc ls
      else (case rx_match gap_item ([], l) of
          Some (g, _) \<Rightarrow> gap_items ((digits_value (group_or_empty g 1), group_or_empty g 2) # acc) ls
        | None \<Rightarrow> (case acc of
              (n, t) # before \<Rightarrow> gap_items ((n, t @ [CHR 32] @ strip_text l) # before) ls
            | [] \<Rightarrow> gap_items acc ls)))"

definition gap_of_item :: "nat \<times> string \<Rightarrow> gap" where
  "gap_of_item it = (case rx_match gap_location ([], snd it) of
       Some (g, _) \<Rightarrow> \<lparr>gp_index = fst it, gp_location = Some (group_or_empty g 1),
                       gp_description = strip_text (group_or_empty g 2)\<rparr>
     | None \<Rightarrow> \<lparr>gp_index = fst it, gp_location = None, gp_description = snd it\<rparr>)"

definition parse_gaps :: "string \<Rightarrow> gap list" where
  "parse_gaps t = map gap_of_item (gap_items [] (text_lines [] t))"

section \<open>The verdict\<close>

definition incomplete_verdict :: "gap list \<Rightarrow> string option \<Rightarrow> string \<Rightarrow> verifier_verdict" where
  "incomplete_verdict gs reason raw =
     \<lparr>vv_verdict = INCOMPLETE, vv_gaps = gs, vv_reason = reason, vv_raw = raw\<rparr>"

definition parse_verdict :: "string \<Rightarrow> verifier_verdict" where
  "parse_verdict raw =
     (let cleaned = strip_ansi raw; scope = verdict_scope cleaned;
          verified = rx_finditer verdict_line scope;
          incomplete_in_scope = rx_finditer incomplete_evidence scope;
          incomplete_anywhere = rx_finditer incomplete_evidence cleaned
      in if verified = [] \<and> incomplete_anywhere = [] then incomplete_verdict [] (Some REASON_MALFORMED) raw
         else if incomplete_anywhere = []
         then \<lparr>vv_verdict = VERIFIED, vv_gaps = [], vv_reason = None, vv_raw = raw\<rparr>
         else (let (g, q) = last (if incomplete_in_scope \<noteq> [] then incomplete_in_scope else incomplete_anywhere);
                   gaps = parse_gaps (snd q);
                   gaps = (if gaps = [] then suffix_gap (group_or_empty g 1) else gaps)
               in incomplete_verdict gaps
                    (if verified \<noteq> [] then Some REASON_CONFLICTING
                     else if gaps = [] then Some REASON_GAPS_UNPARSED else None) raw))"

section \<open>The prompt\<close>

definition MAX_DIFF_LINES :: nat where "MAX_DIFF_LINES = 24000"

definition GENERATED_EXCLUSION_NOTICE :: string where
  "GENERATED_EXCLUSION_NOTICE =
     ''NOTE: this diff deliberately EXCLUDES generated artifacts ''
     @ ''(*.pb.go, *_grpc.pb.go, *connect Go packages, *_pb.ts, sqlc output, ''
     @ ''lockfiles). Their absence from the diff is BY DESIGN and must never ''
     @ ''be reported as a gap; the mechanical test gate already compiled the ''
     @ ''task against them. Judge only hand-written code.'' @ [CHR 10, CHR 10]"

definition protocol_context :: "string option \<Rightarrow> string list \<Rightarrow> string" where
  "protocol_context role declared_holes =
     (case role of None \<Rightarrow> [] | Some r \<Rightarrow>
        if r = [] then []
        else join [CHR 10, CHR 10]
          ([''The author'' @ [CHR 39] @ ''s role is **'' @ r @ ''**.'']
           @ (if r = ''scaffold'' then
                [''A SCAFFOLD delivers the contract and STUBS; the decision logic its ''
                 @ ''seals will judge belongs to a later task. An unimplemented body is ''
                 @ ''therefore its deliverable, NOT a gap'' @ em_dash @ ''and a scaffold that ''
                 @ ''implemented that logic instead has destroyed the point of sealing ''
                 @ ''first, which IS worth reporting.'']
              else if r = ''bodies'' then
                [''A BODIES task fills the stubs a scaffold left. Any declared hole ''
                 @ ''still unimplemented is a gap.'']
              else if r = ''seals'' then
                [''A SEALS task delivers TESTS ONLY, committed deliberately RED ''
                 @ ''against stubs that do not work yet. Red rows are its deliverable; ''
                 @ ''it may not write the implementation at all, so do not report a ''
                 @ ''missing implementation against it.'']
              else if r = ''adjudicate'' then
                [''An ADJUDICATE task rules on ONE disputed artifact and touches ''
                 @ ''nothing else. A narrow diff is correct here.'']
              else [])
           @ (if declared_holes \<noteq> [] then
                [''The plan DECLARED these functions as the body'' @ [CHR 39] @ ''s to fill, so a stub ''
                 @ ''at any of them is expected rather than a gap:'' @ [CHR 10]
                 @ join [CHR 10] (map (\<lambda>h. ''  - '' @ h) declared_holes) @ [CHR 10]
                 @ ''A stub ANYWHERE ELSE is still a gap, and so is a declared hole the ''
                 @ ''diff never created.'']
              else
                [''The plan declared no holes for this unit, so judge stubs on the ''
                 @ ''task description alone.''])))"

record task_texts =
  tt_key :: string
  tt_summary :: string
  tt_type :: string
  tt_labels :: "string list"
  tt_description :: string

definition text_or :: "string \<Rightarrow> string \<Rightarrow> string" where
  "text_or s d = (if s = [] then d else s)"

definition prompt_diff :: "nat \<Rightarrow> string \<Rightarrow> string" where
  "prompt_diff max_lines diff =
     (let ls = text_lines [] diff in
      GENERATED_EXCLUSION_NOTICE @
      (if max_lines < length ls
       then join [CHR 10] (take max_lines ls) @ [CHR 10, CHR 10] @ ''... [diff truncated at ''
            @ nat_digits max_lines @ '' lines of '' @ nat_digits (length ls) @ '' total] ...''
       else diff))"

definition prompt_fields :: "task_texts \<Rightarrow> string \<Rightarrow> string \<Rightarrow> nat \<Rightarrow> string \<Rightarrow> (string \<times> string) list" where
  \<comment> \<open>what \<^verbatim>\<open>build_verifier_prompt\<close> fills the template with\<close>
  "prompt_fields t diff summary_text max_lines protocol =
     [(''task_key'', text_or (tt_key t) ''unknown''), (''task_summary'', tt_summary t),
      (''task_type'', text_or (tt_type t) ''unknown''), (''task_labels'', join '', '' (tt_labels t)),
      (''task_description'', tt_description t), (''summary_md'', summary_text),
      (''diff'', prompt_diff max_lines diff),
      (''protocol'', text_or protocol (''(no role protocol on this task'' @ em_dash
         @ ''judge stubs on the task description alone)''))]"

section \<open>Running the verifier\<close>

datatype cli_exn = CliNotFound string | CliTimedOut | CliRaised string

type_synonym cli_run = "cli_exn + int \<times> string \<times> string"
  \<comment> \<open>exit code, standard output, standard error\<close>

record cli_world =
  cw_template :: "(string \<times> string) list \<Rightarrow> cli_exn + string"
    \<comment> \<open>the prompt file, filled in; \<open>Inl\<close> where it is missing or cannot be read\<close>
  cw_run :: "string list \<Rightarrow> string \<Rightarrow> cli_run"
    \<comment> \<open>of a command, and the prompt it reads from its input or its file\<close>
  cw_prompt_file :: string

record verifier_result =
  va_verdict :: verifier_verdict
  va_error :: "string option"

definition extract_message :: "(string \<Rightarrow> string) \<Rightarrow> string \<Rightarrow> string option" where
  "extract_message fl out =
     (case loads fl (strip_text out) of
        Inr (JObj d) \<Rightarrow> List.find (\<lambda>s. strip_text s \<noteq> [])
           (List.map_filter (\<lambda>k. case map_of d k of Some (JStr s) \<Rightarrow> Some s | _ \<Rightarrow> None)
              [''result'', ''response'', ''text''])
      | _ \<Rightarrow> None)"

fun last_points :: "nat \<Rightarrow> string \<Rightarrow> string" where
  \<comment> \<open>of a reversed text, its first characters, reversed\<close>
  "last_points n [] = []"
| "last_points 0 (c # s) = []"
| "last_points (Suc n) (c # s) =
     c # (if 128 \<le> (of_char c :: nat) \<and> (of_char c :: nat) < 192 then last_points (Suc n) s else last_points n s)"

definition spawn_failed :: "string \<Rightarrow> verifier_result" where
  "spawn_failed message = \<lparr>va_verdict = incomplete_verdict [] (Some REASON_SPAWN_FAILED) [],
     va_error = Some message\<rparr>"

definition claude_command :: "string \<Rightarrow> string option \<Rightarrow> string list" where
  "claude_command bin model = [bin, ''--print'', ''--output-format'', ''json'', ''--permission-mode'',
     ''bypassPermissions'', ''--allow-dangerously-skip-permissions'']
     @ (case model of Some m \<Rightarrow> if m = [] then [] else [''--model'', m] | None \<Rightarrow> [])"

definition grok_command :: "string \<Rightarrow> string \<Rightarrow> string option \<Rightarrow> string list" where
  "grok_command bin path model = [bin, ''--always-approve'', ''--output-format'', ''json'', ''--prompt-file'', path]
     @ (case model of
          Some m \<Rightarrow> if m = [] \<or> contains (lower_ascii m) ''claude'' then [] else [''--model'', m]
        | None \<Rightarrow> [])"

definition result_of_run :: "(string \<Rightarrow> string) \<Rightarrow> string \<Rightarrow> int \<Rightarrow> cli_run \<Rightarrow> verifier_result" where
  "result_of_run fl cli timeout r =
     (case r of
        Inl (CliNotFound e) \<Rightarrow> spawn_failed (''cli not found: '' @ e)
      | Inl CliTimedOut \<Rightarrow> spawn_failed (''cli timed out after '' @ int_text timeout @ ''s'')
      | Inl (CliRaised e) \<Rightarrow> spawn_failed (''cli invocation raised: '' @ e)
      | Inr (code, out, err) \<Rightarrow>
          if code \<noteq> 0
          then spawn_failed (cli @ '' exit='' @ int_text code @ '': ''
                 @ rev (last_points 400 (rev (strip_text err))))
          else \<lparr>va_verdict = parse_verdict (case extract_message fl out of Some m \<Rightarrow> m | None \<Rightarrow> out),
                va_error = None\<rparr>)"

record verifier_setup =
  vs_claude_bin :: string
  vs_grok_bin :: string
  vs_model :: "string option"
  vs_timeout :: int
  vs_agent :: string

definition uses_grok :: "verifier_setup \<Rightarrow> bool" where
  "uses_grok c = (lower_ascii (strip_text (text_or (vs_agent c) ''claude'')) = ''grok'')"

definition verifier_command :: "verifier_setup \<Rightarrow> string \<Rightarrow> string list" where
  "verifier_command c prompt_file =
     (if uses_grok c then grok_command (vs_grok_bin c) prompt_file (vs_model c)
      else claude_command (vs_claude_bin c) (vs_model c))"

definition run_verifier ::
  "(string \<Rightarrow> string) \<Rightarrow> cli_world \<Rightarrow> verifier_setup \<Rightarrow> task_texts \<Rightarrow> string \<Rightarrow> string \<Rightarrow> string \<Rightarrow> verifier_result" where
  "run_verifier fl w c task diff summary_text protocol =
     result_of_run fl (if uses_grok c then ''grok'' else ''claude'') (vs_timeout c)
       (case cw_template w (prompt_fields task diff summary_text MAX_DIFF_LINES protocol) of
          Inl e \<Rightarrow> Inl e
        | Inr prompt \<Rightarrow> cw_run w (verifier_command c (cw_prompt_file w)) prompt)"

section \<open>What is read as a verdict\<close>

definition spaces :: "string set" where "spaces = {concat ws |ws. set ws \<subseteq> set space_texts}"
definition blanks :: "string set" where "blanks = {w. set w \<subseteq> {CHR 32, CHR 9}}"
definition marks :: "string set" where "marks = {[], ''**''} \<union> {replicate n (CHR 96) |n. 0 < n}"

definition strict_verdicts :: "string set" where
  "strict_verdicts =
     in_sequence [blanks, marks, spaces, {''Verdict:''}, spaces, {''VERIFIED''}, spaces, marks, blanks]"

definition caseless :: "string \<Rightarrow> string set" where
  "caseless s = {w. map lower_char w = map lower_char s}"

definition bullets :: "string set" where
  \<comment> \<open>a list, quote, heading or numbering mark\<close>
  "bullets = {''-'', ''*'', ''>''} \<union> {replicate n (CHR ''#'') |n. 1 \<le> n \<and> n \<le> 6}
     \<union> in_sequence [{d. d \<noteq> [] \<and> list_all is_digit d}, {''.'', '')''}]"

definition some_spaces :: "string set" where "some_spaces = spaces - {[]}"
definition plain_words :: "string set" where "plain_words = {w. w \<noteq> [] \<and> list_all ascii_word w}"

definition qualifiers :: "string set" where
  \<comment> \<open>up to two words before \<^verbatim>\<open>Verdict\<close>\<close>
  "qualifiers = {[]} \<union> in_sequence [plain_words, {[]} \<union> in_sequence [some_spaces, plain_words], some_spaces]"

definition incomplete_claims :: "string set" where
  "incomplete_claims = in_sequence [blanks, {[]} \<union> in_sequence [bullets, some_spaces], marks, spaces, qualifiers,
     caseless ''Verdict'', spaces, {'':''}, spaces, marks, spaces, caseless ''INCOMPLETE'']"

definition ends_word :: "string \<Rightarrow> bool" where
  "ends_word t = (t = [] \<or> \<not> ascii_word (hd t))"

definition echoes :: "string \<Rightarrow> bool" where
  \<comment> \<open>a verdict follows after a bar\<close>
  "echoes t = (\<exists>w t'. t = w @ t' \<and> ends_word t'
     \<and> w \<in> in_sequence [spaces, {''|''}, spaces, caseless ''VERIFIED'' \<union> caseless ''INCOMPLETE''])"

definition states_verified :: "string \<Rightarrow> bool" where
  "states_verified t = (\<exists>u w v. t = u @ w @ v \<and> w \<in> strict_verdicts \<and> (u = [] \<or> last u = CHR 10)
     \<and> (v = [] \<or> hd v = CHR 10))"

definition states_incomplete :: "string \<Rightarrow> bool" where
  "states_incomplete t = (\<exists>u w v. t = u @ w @ v \<and> w \<in> incomplete_claims \<and> (u = [] \<or> last u = CHR 10)
     \<and> ends_word v \<and> \<not> echoes v)"

lemma space_shape [simp]: "plain space_rx" "rx_ok space_rx" "consumes space_rx"
proof -
  have "s \<noteq> []" if "s \<in> set space_texts" for s using that by (auto simp: space_texts_def)
  then show "plain space_rx" "rx_ok space_rx" "consumes space_rx"
    by (auto simp: space_rx_def rx_shape list_all_iff)
qed

lemma pattern_shape [simp]:
  "plain blank_rx" "rx_ok blank_rx" "consumes blank_rx" "plain digits_rx" "rx_ok digits_rx" "consumes digits_rx"
  "plain word_rx" "rx_ok word_rx" "consumes word_rx" "plain emphasis_rx" "rx_ok emphasis_rx"
  "plain not_newline_rx" "rx_ok not_newline_rx" "consumes not_newline_rx"
  by (simp_all add: blank_rx_def digits_rx_def word_rx_def emphasis_rx_def not_newline_rx_def RSome_def rx_shape
      del: RText.simps)

lemmas parts_defs = verified_parts_def claim_parts_def echo_parts_def verdict_line_def incomplete_evidence_def

lemma patterns_ok: "rx_ok verdict_line" "rx_ok incomplete_evidence" "consumes verdict_line" "consumes incomplete_evidence"
  by (simp_all add: parts_defs rx_shape RMany_def RSome_def del: RText.simps RSeqs.simps RAlts.simps)

lemma parts_plain: "plain (RSeqs verified_parts)" "plain (RSeqs claim_parts)" "plain (RSeqs echo_parts)"
  by (simp_all add: parts_defs rx_shape RMany_def RSome_def del: RText.simps RSeqs.simps RAlts.simps)

lemma parts_some: "verified_parts \<noteq> []" "claim_parts \<noteq> []" "echo_parts \<noteq> []"
  by (simp_all add: verified_parts_def claim_parts_def echo_parts_def)

lemma verdict_line_lang:
  "(p, q) \<in> rx_lang verdict_line \<longleftrightarrow> line_start p \<and> line_end q \<and> (p, q) \<in> rx_lang (RSeqs verified_parts)"
  unfolding verdict_line_def rx_lang_seqs_between [OF parts_some(1)] by (cases q) (auto simp: relcomp_unfold)

lemma words_space: "rx_words space_rx = set space_texts"
proof -
  have "[] \<notin> set space_texts" by code_simp
  then have "s \<in> set space_texts \<Longrightarrow> rx_words (RText RChar s) = {s}" for s by (intro rx_words_text) auto
  then show ?thesis by (auto simp: space_rx_def rx_words_alts)
qed

lemma words_spaces: "rx_words (RMany space_rx) = spaces"
  by (simp add: RMany_def words_space spaces_def)

lemma words_some_spaces: "rx_words (RSome space_rx) = some_spaces"
proof -
  have ne: "[] \<notin> set space_texts" by code_simp
  have "ws \<noteq> [] \<longleftrightarrow> concat ws \<noteq> []" if "set ws \<subseteq> set space_texts" for ws
    using that ne by (cases ws) auto
  then show ?thesis by (auto simp: RSome_def words_space spaces_def some_spaces_def Suc_le_eq)
qed

lemma words_blanks: "rx_words (RMany blank_rx) = blanks"
  by (auto simp: blank_rx_def rx_words_many_class blanks_def list_all_iff)

lemma words_marks: "rx_words (ROpt emphasis_rx) = marks"
  using rx_words_copies [of 1 None "CHR 96"]
  by (auto simp: emphasis_rx_def marks_def RSome_def Suc_le_eq simp del: RText.simps)

lemma words_strict: "rx_words (RSeqs verified_parts) = strict_verdicts"
  unfolding verified_parts_def rx_words_seqs strict_verdicts_def list.map words_blanks words_marks words_spaces
  by (simp del: RText.simps)

lemma line_start_text: "line_start (rev u, v) \<longleftrightarrow> u = [] \<or> last u = CHR 10"
  by (cases u rule: rev_cases) (simp_all add: line_start_def)

lemma line_end_text: "line_end (b, v) \<longleftrightarrow> v = [] \<or> hd v = CHR 10"
  by (cases v) (simp_all add: line_end_def)

lemma verdict_line_occurs: "occurs verdict_line t \<longleftrightarrow> states_verified t"
proof -
  have "occurs verdict_line t \<longleftrightarrow> (\<exists>u v q w. t = u @ v \<and> line_start (rev u, v) \<and> line_end q
      \<and> w \<in> strict_verdicts \<and> onward w (rev u, v) q)"
    unfolding occurs_def verdict_line_lang rx_lang_words [OF parts_plain(1)] words_strict by blast
  also have "\<dots> \<longleftrightarrow> (\<exists>u v w x. t = u @ v \<and> line_start (rev u, v) \<and> line_end (rev w @ rev u, x)
      \<and> w \<in> strict_verdicts \<and> v = w @ x)"
    unfolding onward_def by (metis fst_conv prod.collapse snd_conv)
  also have "\<dots> \<longleftrightarrow> states_verified t"
    unfolding states_verified_def line_start_text line_end_text by blast
  finally show ?thesis .
qed

lemma in_sequence_last: "w \<in> in_sequence (As @ [A]) \<Longrightarrow> \<exists>u v. w = u @ v \<and> v \<in> A"
proof (induction As arbitrary: w)
  case Nil
  then show ?case by (metis append_Nil in_sequence_one)
next
  case (Cons B As)
  then obtain x y where "w = x @ y" "y \<in> in_sequence (As @ [A])" by (auto simp: in_sequence.simps(2))
  with Cons.IH [of y] show ?case by (metis append.assoc)
qed

lemma letters_are_words: "lower_char c \<in> {CHR ''d'', CHR ''e''} \<Longrightarrow> ascii_word c"
proof -
  assume "lower_char c \<in> {CHR ''d'', CHR ''e''}"
  then have "(of_char (lower_char c) :: nat) \<in> {100, 101}" by auto
  then show "ascii_word c" by (auto simp: lower_char_def ascii_word_def Let_def split: if_splits)
qed

lemma caseless_last:
  assumes "w \<in> caseless ''VERIFIED'' \<union> caseless ''INCOMPLETE''"
  shows "w \<noteq> [] \<and> ascii_word (last w)"
proof -
  have lower: "map lower_char ''VERIFIED'' = ''verified''" "map lower_char ''INCOMPLETE'' = ''incomplete''"
    by code_simp+
  from assms have len: "length w \<in> {8, 10}" by (auto simp: caseless_def dest: arg_cong [of _ _ length])
  then have ne: "w \<noteq> []" by auto
  from assms have "last (map lower_char w) \<in> {CHR ''d'', CHR ''e''}"
    unfolding caseless_def lower by auto
  with ne letters_are_words show ?thesis by (simp add: last_map)
qed

lemma word_edge_after:
  "w \<noteq> [] \<Longrightarrow> ascii_word (last w) \<Longrightarrow> word_edge ascii_word (rev w @ b, v) \<longleftrightarrow> ends_word v"
  by (cases w rule: rev_cases) (auto simp: word_edge_def ends_word_def)

lemma words_some_class: "rx_words (RSome (RClass P)) = {w. w \<noteq> [] \<and> list_all P w}"
proof (intro equalityI subsetI)
  fix w assume "w \<in> {w. w \<noteq> [] \<and> list_all P w}"
  then show "w \<in> rx_words (RSome (RClass P))"
    by (auto simp: RSome_def list_all_iff Suc_le_eq intro!: exI [of _ "map (\<lambda>c. [c]) w"])
next
  fix w assume "w \<in> rx_words (RSome (RClass P))"
  then obtain ws where ws: "w = concat ws" "ws \<noteq> []" "set ws \<subseteq> {[c] |c. P c}" by (auto simp: RSome_def Suc_le_eq)
  from ws(3) have "list_all P (concat ws)" by (induction ws) auto
  moreover from ws(2,3) have "concat ws \<noteq> []" by (cases ws) auto
  ultimately show "w \<in> {w. w \<noteq> [] \<and> list_all P w}" by (simp add: ws(1))
qed

lemma words_pair: "rx_words (RSeq a b) = in_sequence [rx_words a, rx_words b]"
  by (simp add: in_sequence.simps(2) [of "rx_words a"])

lemma words_opt: "rx_words (ROpt a) = {[]} \<union> rx_words a"
  by simp

lemma words_bullets: "rx_words (RAlts [RClass (\<lambda>c. c \<in> {CHR ''-'', CHR ''*'', CHR ''>''}),
    RRep 1 (Some 6) (RChar (CHR ''#'')), RSeq digits_rx (RClass (\<lambda>c. c = CHR ''.'' \<or> c = CHR '')''))]) = bullets"
proof -
  have d: "rx_words digits_rx = {d. d \<noteq> [] \<and> list_all is_digit d}" by (simp add: digits_rx_def words_some_class)
  have c: "rx_words (RClass (\<lambda>c. c = CHR ''.'' \<or> c = CHR '')'')) = {''.'', '')''}"
    "rx_words (RClass (\<lambda>c. c \<in> {CHR ''-'', CHR ''*'', CHR ''>''})) = {''-'', ''*'', ''>''}" by auto
  show ?thesis unfolding RAlts.simps rx_words.simps(3) words_pair rx_words_copies d c bullets_def by auto
qed

lemma words_word: "rx_words word_rx = plain_words"
  by (simp add: word_rx_def words_some_class plain_words_def)

lemma words_letters: "s \<noteq> [] \<Longrightarrow> rx_words (RText RCaseless s) = caseless s"
  by (simp add: rx_words_caseless caseless_def)

lemma words_char: "rx_words (RChar c) = {[c]}"
  by (auto simp: RChar_def)

lemma words_claims: "rx_words (RSeqs claim_parts) = incomplete_claims"
proof -
  have q: "rx_words (ROpt (RSeqs [word_rx, ROpt (RSeq (RSome space_rx) word_rx), RSome space_rx])) = qualifiers"
    unfolding words_opt rx_words_seqs list.map words_pair words_word words_some_spaces qualifiers_def ..
  have v: "rx_words (RText RCaseless ''Verdict'') = caseless ''Verdict''"
    "rx_words (RText RCaseless ''INCOMPLETE'') = caseless ''INCOMPLETE''" by (rule words_letters, simp)+
  have l: "rx_words (ROpt (RSeq (RAlts [RClass (\<lambda>c. c \<in> {CHR ''-'', CHR ''*'', CHR ''>''}),
      RRep 1 (Some 6) (RChar (CHR ''#'')), RSeq digits_rx (RClass (\<lambda>c. c = CHR ''.'' \<or> c = CHR '')''))])
      (RSome space_rx))) = {[]} \<union> in_sequence [bullets, some_spaces]"
    unfolding words_opt words_pair [of _ "RSome space_rx"] words_bullets words_some_spaces ..
  show ?thesis
    unfolding claim_parts_def rx_words_seqs list.map q v l words_char words_blanks words_marks words_spaces
      incomplete_claims_def ..
qed

lemma words_echo:
  "rx_words (RSeqs echo_parts) = in_sequence [spaces, {''|''}, spaces, caseless ''VERIFIED'' \<union> caseless ''INCOMPLETE'']"
proof -
  have v: "rx_words (RText RCaseless ''VERIFIED'') = caseless ''VERIFIED''"
    "rx_words (RText RCaseless ''INCOMPLETE'') = caseless ''INCOMPLETE''" by (rule words_letters, simp)+
  show ?thesis unfolding echo_parts_def rx_words_seqs list.map rx_words.simps(3) v words_char words_spaces ..
qed

lemma echo_lang: "((c, x) \<in> Domain (rx_lang (RSeqs (echo_parts @ [RWordEdge ascii_word])))) = echoes x"
proof -
  have lang: "rx_lang (RSeqs (echo_parts @ [RWordEdge ascii_word]))
      = rx_lang (RSeqs echo_parts) O rx_lang (RWordEdge ascii_word)"
    by (subst rx_lang_seqs_append) (simp_all add: parts_some)
  have "w \<noteq> [] \<and> ascii_word (last w)" if w: "w \<in> rx_words (RSeqs echo_parts)" for w
  proof -
    have "w \<in> in_sequence ([spaces, {''|''}, spaces] @ [caseless ''VERIFIED'' \<union> caseless ''INCOMPLETE''])"
      using w by (simp add: words_echo)
    from in_sequence_last [OF this] caseless_last show ?thesis by fastforce
  qed
  note edge = word_edge_after [OF conjunct1 conjunct2, OF this this]
  have "((c, x) \<in> Domain (rx_lang (RSeqs (echo_parts @ [RWordEdge ascii_word])))) =
      (\<exists>w\<in>rx_words (RSeqs echo_parts). \<exists>t'. x = w @ t' \<and> word_edge ascii_word (rev w @ c, t'))"
    unfolding lang by (auto simp: Domain_unfold relcomp_unfold rx_lang_words [OF parts_plain(3)] onward_def)
  also have "\<dots> = echoes x"
    unfolding echoes_def words_echo [symmetric] using edge by blast
  finally show ?thesis .
qed

lemma claim_ends: "w \<in> incomplete_claims \<Longrightarrow> w \<noteq> [] \<and> ascii_word (last w)"
proof -
  assume "w \<in> incomplete_claims"
  then have "w \<in> in_sequence ([blanks, {[]} \<union> in_sequence [bullets, some_spaces], marks, spaces, qualifiers,
     caseless ''Verdict'', spaces, {'':''}, spaces, marks, spaces] @ [caseless ''INCOMPLETE''])"
    by (simp add: incomplete_claims_def)
  from in_sequence_last [OF this] caseless_last show "w \<noteq> [] \<and> ascii_word (last w)" by fastforce
qed

lemma evidence_lang:
  "((b, v), q) \<in> rx_lang incomplete_evidence \<longleftrightarrow> line_start (b, v)
     \<and> (\<exists>w x. w \<in> incomplete_claims \<and> v = w @ x \<and> ends_word x \<and> \<not> echoes x
          \<and> ((rev w @ b, x), q) \<in> rx_lang (RMany not_newline_rx) \<and> line_end q)"
proof -
  let ?after = "[RWordEdge ascii_word, RNot (RSeqs (echo_parts @ [RWordEdge ascii_word])),
     RGroup 1 (RMany not_newline_rx)]"
  have after: "(m, q) \<in> rx_lang (RSeqs ?after) \<longleftrightarrow> word_edge ascii_word m \<and> \<not> echoes (snd m)
      \<and> (m, q) \<in> rx_lang (RMany not_newline_rx)" for m q
    by (cases m; cases q) (simp add: relcomp_unfold echo_lang)
  have "rx_lang incomplete_evidence =
      rx_lang RLineStart O (rx_lang (RSeqs claim_parts) O rx_lang (RSeqs ?after)) O rx_lang RLineEnd"
    unfolding incomplete_evidence_def
    by (subst rx_lang_seqs_between) (simp_all only: rx_lang_seqs_append parts_some append_is_Nil_conv list.distinct simp_thms)
  then have "((b, v), q) \<in> rx_lang incomplete_evidence \<longleftrightarrow> line_start (b, v) \<and> line_end q
      \<and> (\<exists>m. ((b, v), m) \<in> rx_lang (RSeqs claim_parts) \<and> (m, q) \<in> rx_lang (RSeqs ?after))"
    by (cases q) (auto simp: relcomp_unfold simp del: RSeqs.simps)
  also have "\<dots> \<longleftrightarrow> line_start (b, v) \<and> line_end q \<and> (\<exists>w x. w \<in> incomplete_claims \<and> v = w @ x
      \<and> ((rev w @ b, x), q) \<in> rx_lang (RSeqs ?after))"
    unfolding rx_lang_words [OF parts_plain(2)] words_claims onward_def by (metis fst_conv prod.collapse snd_conv)
  finally show ?thesis
    unfolding after using claim_ends word_edge_after by (auto; metis)
qed

lemma to_the_line_end: "\<exists>q. (p, q) \<in> rx_lang (RMany not_newline_rx) \<and> line_end q"
proof -
  let ?w = "takeWhile (\<lambda>c. c \<noteq> CHR 10) (snd p)" and ?x = "dropWhile (\<lambda>c. c \<noteq> CHR 10) (snd p)"
  have "plain (RMany not_newline_rx)" by (simp add: RMany_def not_newline_rx_def)
  note lang = rx_lang_words [OF this]
  have "?w \<in> rx_words (RMany not_newline_rx)"
    by (auto simp: not_newline_rx_def rx_words_many_class list_all_iff dest: set_takeWhileD)
  then have "(p, (rev ?w @ fst p, ?x)) \<in> rx_lang (RMany not_newline_rx)"
    unfolding lang by (intro bexI [of _ ?w]) (simp_all add: onward_def)
  moreover have "line_end (rev ?w @ fst p, ?x)"
    using hd_dropWhile [of "\<lambda>c. c \<noteq> CHR 10" "snd p"] by (auto simp: line_end_text)
  ultimately show ?thesis by blast
qed

lemma evidence_occurs: "occurs incomplete_evidence t \<longleftrightarrow> states_incomplete t"
proof -
  have "(\<exists>q. ((b, v), q) \<in> rx_lang incomplete_evidence) \<longleftrightarrow> line_start (b, v)
      \<and> (\<exists>w x. w \<in> incomplete_claims \<and> v = w @ x \<and> ends_word x \<and> \<not> echoes x)" (is "?l \<longleftrightarrow> ?r") for b v
  proof
    assume ?l
    then show ?r unfolding evidence_lang by blast
  next
    assume r: ?r
    then obtain w x where w: "w \<in> incomplete_claims" "v = w @ x" "ends_word x" "\<not> echoes x" by blast
    obtain q where "((rev w @ b, x), q) \<in> rx_lang (RMany not_newline_rx)" "line_end q"
      using to_the_line_end by blast
    with r w show ?l unfolding evidence_lang by blast
  qed
  note some = this
  have "occurs incomplete_evidence t \<longleftrightarrow> (\<exists>u v. t = u @ v \<and> (\<exists>q. ((rev u, v), q) \<in> rx_lang incomplete_evidence))"
    unfolding occurs_def by blast
  also have "\<dots> \<longleftrightarrow> states_incomplete t"
    unfolding some states_incomplete_def line_start_text by blast
  finally show ?thesis .
qed

lemma verdict_matches:
  "rx_finditer verdict_line t \<noteq> [] \<longleftrightarrow> states_verified t"
  "rx_finditer incomplete_evidence t \<noteq> [] \<longleftrightarrow> states_incomplete t"
  by (simp_all add: rx_finditer_occurs patterns_ok verdict_line_occurs evidence_occurs)

lemma has_verdict_iff: "has_verdict t \<longleftrightarrow> states_verified t \<or> states_incomplete t"
  unfolding has_verdict_def using rx_search_occurs [OF patterns_ok(1)] rx_search_occurs [OF patterns_ok(2)]
  by (simp add: verdict_line_occurs evidence_occurs)

section \<open>The verifier never verifies by accident\<close>

text \<open>
  A response is read as \<open>VERIFIED\<close> exactly when no line of it, anywhere, states \<open>INCOMPLETE\<close>
  in one of the loose shapes, and the text the verdict is read from has the strict verdict and
  nothing else between two line ends. That text is the last fenced block that states a verdict, or
  the whole response where none does.
\<close>

theorem verified_exactly:
  "vv_verdict (parse_verdict raw) = VERIFIED \<longleftrightarrow>
     \<not> states_incomplete (strip_ansi raw) \<and> states_verified (verdict_scope (strip_ansi raw))"
  by (auto simp: parse_verdict_def incomplete_verdict_def Let_def verdict_matches [symmetric] split: prod.split)

definition response_text :: "(string \<Rightarrow> string) \<Rightarrow> string \<Rightarrow> string" where
  "response_text fl out = (case extract_message fl out of Some m \<Rightarrow> m | None \<Rightarrow> out)"

lemma result_of_run_verified:
  "vv_verdict (va_verdict (result_of_run fl cli timeout r)) = VERIFIED \<longleftrightarrow>
     (\<exists>out err. r = Inr (0, out, err) \<and> vv_verdict (parse_verdict (response_text fl out)) = VERIFIED)"
  by (auto simp: result_of_run_def spawn_failed_def incomplete_verdict_def response_text_def
      split: sum.splits cli_exn.splits)

lemma result_of_run_error:
  "va_error (result_of_run fl cli timeout r) \<noteq> None \<longleftrightarrow>
     vv_reason (va_verdict (result_of_run fl cli timeout r)) = Some REASON_SPAWN_FAILED"
proof -
  have "vv_reason (parse_verdict t) \<noteq> Some REASON_SPAWN_FAILED" for t
    by (simp add: parse_verdict_def incomplete_verdict_def Let_def REASON_SPAWN_FAILED_def REASON_MALFORMED_def
        REASON_CONFLICTING_def REASON_GAPS_UNPARSED_def split: prod.split)
  then show ?thesis
    by (auto simp: result_of_run_def spawn_failed_def incomplete_verdict_def split: sum.splits cli_exn.splits)
qed


section \<open>Where the reading is looser than it says\<close>

lemma spacesI: "w \<in> set space_texts \<Longrightarrow> w \<in> spaces" "[] \<in> spaces"
  unfolding spaces_def by (intro CollectI exI [of _ "[w]"], simp, intro CollectI exI [of _ "[]"], simp)

lemma some_in_spaces: "[CHR 10] \<in> spaces" "[CHR 32] \<in> spaces"
  by (rule spacesI, simp add: space_texts_def)+

lemma verdict_over_two_lines:
  \<comment> \<open>the white space of the strict line may be a line end\<close>
  "states_verified (''Verdict:'' @ [CHR 10] @ ''VERIFIED'')"
proof -
  have "[] \<in> blanks" "[] \<in> marks" by (simp_all add: blanks_def marks_def)
  then have "[] @ [] @ [] @ ''Verdict:'' @ [CHR 10] @ ''VERIFIED'' @ [] @ [] @ [] \<in> strict_verdicts"
    unfolding strict_verdicts_def by (intro in_sequenceI some_in_spaces spacesI) simp_all
  then show ?thesis unfolding states_verified_def
    by (intro exI [of _ "[]"] exI [of _ "''Verdict:'' @ [CHR 10] @ ''VERIFIED''"]) simp
qed

lemma echo_on_the_next_line:
  \<comment> \<open>a table row below \<^verbatim>\<open>Verdict: INCOMPLETE\<close> is taken for the rest of the instruction's line, and
      the claim above it is then no evidence\<close>
  "echoes ([CHR 10] @ ''| VERIFIED | 3 rows |'')"
proof -
  have "''VERIFIED'' \<in> in_sequence [caseless ''VERIFIED'' \<union> caseless ''INCOMPLETE'']"
    by (simp add: caseless_def)
  then have "[CHR 10] @ ''|'' @ [CHR 32] @ ''VERIFIED''
      \<in> in_sequence [spaces, {''|''}, spaces, caseless ''VERIFIED'' \<union> caseless ''INCOMPLETE'']"
    by (intro in_sequenceI some_in_spaces) simp_all
  moreover have "ends_word '' | 3 rows |''" by (simp add: ends_word_def ascii_word_def)
  moreover have "[CHR 10] @ ''| VERIFIED | 3 rows |'' = ([CHR 10] @ ''|'' @ [CHR 32] @ ''VERIFIED'') @ '' | 3 rows |''"
    by simp
  ultimately show ?thesis unfolding echoes_def by metis
qed

end
