(* ===== verification/Acceptance.thy ===== *)
theory Acceptance
  imports Cascade Panel LoopGate Scope Holes Verifier Summary SealVerify KnownRed
begin

text \<open>
  The acceptance of a task's work (\<^verbatim>\<open>orchestrator._run_task\<close>, the loop over acceptance passes, with
  \<^verbatim>\<open>_resolve_summary\<close>, \<^verbatim>\<open>_resolve_gate_base\<close>, \<^verbatim>\<open>_verify_mechanical_and_maybe_retry\<close>,
  \<^verbatim>\<open>_verify_seal\<close>, \<^verbatim>\<open>_verify_llm_and_maybe_iterate\<close>, \<^verbatim>\<open>_spawn_panel_iterate\<close> and
  \<^verbatim>\<open>_verification_subject_problem\<close>). A pass reads one commit and puts it through the role gate,
  the scope gate, the holes gate, the test command, the seal inversion, the verifier and the panel.
  A corrective agent run in between restarts the pass on what it left.

  What git, the file system, the agents and the reviewers do is the parameter \<open>task_ops\<close>, over a
  world of any type that every one of them may change.
\<close>

section \<open>The task and its surroundings\<close>

record task_conf =
  tc_key :: string
  tc_quality :: panel_inputs           \<comment> \<open>labels, quality pins and the run's\<close>
  tc_specs :: "role_spec list"
  tc_owns :: "string list"
  tc_anchor :: "string option"         \<comment> \<open>\<^verbatim>\<open>snap.gate_base_sha\<close>\<close>
  tc_branch :: string
  tc_base :: string
  tc_base_sha :: string                \<comment> \<open>\<^verbatim>\<open>base_sha_before\<close>, where the policy is pinned\<close>
  tc_pr_mode :: bool
  tc_unattended :: bool
  tc_loop_gate :: bool
  tc_max_verify :: int
  tc_panel_iterate :: int
  tc_patience :: int

datatype spawn_kind = TestFixRetry | VerifierIterate | PanelIterate | CommitRetry | SummaryRecovery
datatype verifier_answer = VerifiedWork | VerifierDown string | Gaps "string list" "string option"
  \<comment> \<open>the gaps, rendered, and the reason of an answer without any\<close>

record 'w task_ops =
  to_summary :: "'w \<Rightarrow> string option"                                   \<comment> \<open>the text of the summary file\<close>
  to_human :: "'w \<Rightarrow> string \<times> 'w"
  to_raise_pr :: "summary \<Rightarrow> 'w \<Rightarrow> (string + string) \<times> 'w"         \<comment> \<open>\<open>Inr\<close> its URL\<close>
  to_head :: "'w \<Rightarrow> string option"
  to_sha :: "string \<Rightarrow> 'w \<Rightarrow> string option"
  to_dirty :: "'w \<Rightarrow> string list"
  to_ancestor :: "string \<Rightarrow> string \<Rightarrow> 'w \<Rightarrow> bool"
  to_repo :: "'w \<Rightarrow> loop_repo"
  to_name_status :: "'w \<Rightarrow> string \<Rightarrow> (int \<times> string) option"
  to_tasks :: "'w \<Rightarrow> task list"
  to_functions :: "'w \<Rightarrow> string \<Rightarrow> (string \<times> bool) list option"
  to_base_config :: "'w \<Rightarrow> string + string option"                      \<comment> \<open>the test command at the base\<close>
  to_style :: "'w \<Rightarrow> exclusion_style option"
  to_register :: "'w \<Rightarrow> (unit + pyval) option"                           \<comment> \<open>the known-red register\<close>
  to_scripts :: "string \<Rightarrow> 'w \<Rightarrow> string list"                            \<comment> \<open>the scripts a command runs\<close>
  to_test :: "string \<Rightarrow> string option \<Rightarrow> 'w \<Rightarrow> (bool \<times> string) \<times> 'w"     \<comment> \<open>of the command and the rows file\<close>
  to_seal :: "'w seal_ops"
  to_diff :: "'w \<Rightarrow> string"
  to_verifier :: "'w \<Rightarrow> verifier_result \<times> 'w"                          \<comment> \<open>of \<open>run_verifier\<close>\<close>
  to_classified :: "'w \<Rightarrow> classification option"
  to_panel :: "'w \<Rightarrow> (string + panel_verdict) \<times> 'w"
  to_agent :: "spawn_kind \<Rightarrow> 'w \<Rightarrow> int option \<times> 'w"                  \<comment> \<open>None where the spawn raised\<close>

section \<open>The state of an acceptance\<close>

datatype event =
    PassStarted nat string
  | ScopeExcursion excursion_severity
  | RoleChecked loop_status
  | HolesChecked "string option"
  | MechanicalChecked string
  | SealChecked string
  | VerificationSkipped
  | VerifierAnswered verifier_answer
  | PanelAnswered panel_verdict
  | PanelFailed
  | AgentRan spawn_kind

record 'w acceptance =
  ac_world :: 'w
  ac_events :: "event list"            \<comment> \<open>the latest first\<close>
  ac_generation :: nat
  ac_retried :: bool                   \<comment> \<open>\<^verbatim>\<open>cycle.mechanical_retried\<close>\<close>
  ac_iterations :: nat                 \<comment> \<open>\<^verbatim>\<open>cycle.verifier_iterations\<close>\<close>
  ac_requires_panel :: bool
  ac_invalidated :: bool
  ac_config :: "string option option"  \<comment> \<open>\<^verbatim>\<open>cycle.base_config\<close>\<close>
  ac_summary :: summary
  ac_status :: string
  ac_url :: "string option"
  ac_reason :: "string option"
  ac_pass_head :: "string option"
  ac_role :: "loop_outcome option"
  ac_gate_base :: "string option"
  ac_mech :: "(string \<times> string option) option"
  ac_seal :: "(string \<times> string option) option"
  ac_verified :: "bool option"
  ac_verify_iterations :: nat
  ac_verify_detail :: "string option"
  ac_panel :: "panel_verdict option"
  ac_panel_used :: nat
  ac_history :: "nat list"
  ac_stalled :: bool
  ac_fail_reason :: "string option"
  ac_advance :: bool                   \<comment> \<open>\<^verbatim>\<open>advance_cascade\<close>\<close>

datatype flow = Next | Stop | Restart

definition followed_by :: "('s \<Rightarrow> flow \<times> 's) \<Rightarrow> ('s \<Rightarrow> flow \<times> 's) \<Rightarrow> 's \<Rightarrow> flow \<times> 's" where
  "followed_by f g s = (case f s of (Next, s') \<Rightarrow> g s' | (Stop, s') \<Rightarrow> (Stop, s') | (Restart, s') \<Rightarrow> (Restart, s'))"

definition observe :: "event \<Rightarrow> 'w acceptance \<Rightarrow> 'w acceptance" where
  "observe e s = s\<lparr>ac_events := e # ac_events s\<rparr>"

definition blocked :: "string option \<Rightarrow> 'w acceptance \<Rightarrow> flow \<times> 'w acceptance" where
  "blocked reason s = (Stop, s\<lparr>ac_status := BLOCKED, ac_reason := reason\<rparr>)"

definition rejected :: "bool \<Rightarrow> string \<Rightarrow> string \<Rightarrow> 'w acceptance \<Rightarrow> flow \<times> 'w acceptance" where
  \<comment> \<open>blocked by a gate whose refusal the next rung may answer, if there is one\<close>
  "rejected further why reason s = (let s = s\<lparr>ac_status := BLOCKED, ac_reason := Some reason\<rparr> in
     (Stop, if further then s\<lparr>ac_fail_reason := Some why, ac_advance := True\<rparr> else s))"

definition restart :: "spawn_kind \<Rightarrow> 'w acceptance \<Rightarrow> flow \<times> 'w acceptance" where
  "restart k s = (Restart, s\<lparr>ac_invalidated := True, ac_generation := Suc (ac_generation s),
     ac_retried := (k = TestFixRetry \<and> ac_retried s)\<rparr>)"

section \<open>The stages of a pass\<close>

definition begin_pass :: "'w acceptance \<Rightarrow> flow \<times> 'w acceptance" where
  "begin_pass s = (Next, s\<lparr>ac_invalidated := False, ac_mech := None, ac_seal := None, ac_verified := None,
     ac_verify_iterations := ac_iterations s, ac_verify_detail := None, ac_panel := None, ac_role := None\<rparr>)"

definition resolve_summary ::
  "task_conf \<Rightarrow> 'w task_ops \<Rightarrow> summary \<Rightarrow> 'w \<Rightarrow> (string \<times> string option \<times> string option) \<times> 'w" where
  \<comment> \<open>status, URL and reason\<close>
  "resolve_summary c ops sm w =
     (if \<not> awaiting_human_approval sm then
        (let st = or_default (sm_status sm) BLOCKED
         in ((st, None, if st \<in> {BLOCKED, ESCALATED} then none_if_empty (sm_escalation sm) else None), w))
      else if tc_pr_mode c then ((DONE, None, None), w)
      else if tc_unattended c then ((BLOCKED, None, Some ''awaiting human PR approval''), w)
      else (case to_human ops w of (decision, w) \<Rightarrow>
          if decision = ''approve'' then
            (case to_raise_pr ops sm w of
               (Inr url, w) \<Rightarrow> ((DONE, Some url, None), w)
             | (Inl e, w) \<Rightarrow> ((BLOCKED, None, Some (''gh pr create failed: '' @ e)), w))
          else if decision = ''reject'' then ((BLOCKED, None, Some ''human rejected PR''), w)
          else ((BLOCKED, None, Some ''human skipped PR approval''), w)))"

definition reread_summary :: "task_conf \<Rightarrow> 'w task_ops \<Rightarrow> 'w acceptance \<Rightarrow> flow \<times> 'w acceptance" where
  "reread_summary c ops s =
     (if ac_generation s = 0 then (Next, s)
      else (let sm = parse_summary (to_summary ops (ac_world s)) in
        if malformed sm then blocked (Some ''summary_malformed after corrective spawn'') (s\<lparr>ac_summary := sm\<rparr>)
        else (case resolve_summary c ops sm (ac_world s) of ((st, url, reason), w) \<Rightarrow>
          (if st = DONE then Next else Stop,
           s\<lparr>ac_summary := sm, ac_world := w, ac_status := st, ac_url := url, ac_reason := reason\<rparr>))))"

definition pin_subject :: "'w task_ops \<Rightarrow> 'w acceptance \<Rightarrow> flow \<times> 'w acceptance" where
  "pin_subject ops s =
     (case to_head ops (ac_world s) of
        None \<Rightarrow> blocked (Some ''verification_subject_unavailable'') (s\<lparr>ac_pass_head := None\<rparr>)
      | Some h \<Rightarrow> (Next, observe (PassStarted (ac_generation s) h) (s\<lparr>ac_pass_head := Some h\<rparr>)))"

definition resolve_gate_base :: "task_conf \<Rightarrow> 'w task_ops \<Rightarrow> string option \<Rightarrow> 'w \<Rightarrow> string option" where
  "resolve_gate_base c ops pre_spawn w =
     (let anchor = py_strip (or_default (tc_anchor c) []) in
      if anchor = [] then pre_spawn
      else (case pre_spawn of
          None \<Rightarrow> None
        | Some p \<Rightarrow> if anchor = p then Some p
            else if to_ancestor ops anchor (tc_branch c) w then Some anchor else Some p))"

definition role_and_scope ::
  "task_conf \<Rightarrow> 'w task_ops \<Rightarrow> string option \<Rightarrow> 'w acceptance \<Rightarrow> flow \<times> 'w acceptance" where
  \<comment> \<open>the reason of a role refusal is reduced to its kind, that of a scope refusal to the paths\<close>
  "role_and_scope c ops pre_spawn s =
     (let w = ac_world s;
          base = resolve_gate_base c ops pre_spawn w;
          out = check_after_implementer (tc_loop_gate c) (to_repo ops w) (tc_base c) (tc_branch c) base (tc_specs c);
          s = s\<lparr>ac_role := Some out, ac_gate_base := base\<rparr>;
          report = scope_excursion_report (tc_owns c) base (to_name_status ops w);
          severity = (case report of None \<Rightarrow> NoExcursion | Some r \<Rightarrow> er_severity r);
          s = (if severity \<noteq> NoExcursion then observe (ScopeExcursion severity) s else s)
      in if severity = BlockExcursion
         then blocked (Some (''scope excursion: this task changed files it does not own'' @ em_dash
             @ (case report of None \<Rightarrow> [] | Some r \<Rightarrow> excursion_reason r))) s
         else (let s = observe (RoleChecked (lo_status out)) s in
           if lo_decision out = BlockTask then blocked (blocked_reason (lo_status out) []) s else (Next, s)))"

definition holes_stage :: "task_conf \<Rightarrow> 'w task_ops \<Rightarrow> 'w acceptance \<Rightarrow> flow \<times> 'w acceptance" where
  \<comment> \<open>a role specification that no longer parses raises, and the worker's handler blocks the task\<close>
  "holes_stage c ops s =
     (case check_declared_holes (map rs_role (tc_specs c)) (tc_key c) (to_tasks ops (ac_world s))
             (to_functions ops (ac_world s)) of
        Inl e \<Rightarrow> blocked (Some ''worker_exception: role specification'') s
      | Inr None \<Rightarrow> (Next, observe (HolesChecked None) s)
      | Inr (Some reason) \<Rightarrow> blocked (Some reason) (observe (HolesChecked (Some reason)) s))"

subsection \<open>The test command\<close>

definition suite_expectation_for :: "role_spec list \<Rightarrow> suite_expectation" where
  "suite_expectation_for specs = (case sole_role specs of None \<Rightarrow> Green | Some r \<Rightarrow> suite_expectation_of r)"

definition mech_done :: "string \<Rightarrow> string option \<Rightarrow> 'w acceptance \<Rightarrow> flow \<times> 'w acceptance" where
  "mech_done outcome detail s = (Next, observe (MechanicalChecked outcome) (s\<lparr>ac_mech := Some (outcome, detail)\<rparr>))"

definition run_agent :: "'w task_ops \<Rightarrow> spawn_kind \<Rightarrow> 'w acceptance \<Rightarrow> int option \<times> 'w acceptance" where
  "run_agent ops k s = (case to_agent ops k (ac_world s) of (code, w) \<Rightarrow> (code, observe (AgentRan k) (s\<lparr>ac_world := w\<rparr>)))"

definition verify_seal_redness ::
  "'w task_ops \<Rightarrow> string \<Rightarrow> 'w acceptance \<Rightarrow> flow \<times> 'w acceptance" where
  "verify_seal_redness ops command s =
     (case truthy_text (ac_gate_base s) of
        None \<Rightarrow> mech_done ''failed'' (Some ''no gate base'') s
      | Some base \<Rightarrow>
         (case run_seal_redness (to_seal ops) base command (ac_world s) of ((outcome, detail), w) \<Rightarrow>
           (let s = s\<lparr>ac_world := w\<rparr> in
            if outcome = ''passed'' then mech_done ''passed'' None s else mech_done ''failed'' (Some detail) s)))"

definition task_exclusions :: "task_conf \<Rightarrow> 'w task_ops \<Rightarrow> string \<Rightarrow> 'w \<Rightarrow> exclusions" where
  "task_exclusions c ops command w = known_red_exclusions (tc_key c) (to_tasks ops w) (to_style ops w) (Some command)
     (to_scripts ops command w) (to_register ops w)"

definition verify_mechanical :: "task_conf \<Rightarrow> 'w task_ops \<Rightarrow> 'w acceptance \<Rightarrow> flow \<times> 'w acceptance" where
  "verify_mechanical c ops s =
     (case (case ac_config s of Some t \<Rightarrow> Inr t | None \<Rightarrow> to_base_config ops (ac_world s)) of
        Inl err \<Rightarrow> mech_done ''failed'' (Some (take 500 err)) s
      | Inr test \<Rightarrow>
         (let s = s\<lparr>ac_config := Some test\<rparr>; dirty = to_dirty ops (ac_world s) in
          case test of
            None \<Rightarrow> mech_done ''skipped'' None s
          | Some command \<Rightarrow>
             if dirty \<noteq> [] then mech_done ''failed'' (Some (''uncommitted changes in worktree at verification time''
                 @ em_dash @ ''test evidence is not keyed to the committed tree: '' @ join '', '' dirty)) s
             else if suite_expectation_for (tc_specs c) = Unjudged then mech_done ''skipped'' None s
             else if suite_expectation_for (tc_specs c) = RedFromOwnRows then verify_seal_redness ops command s
             else (case ex_fault (task_exclusions c ops command (ac_world s)) of
                 Some fault \<Rightarrow> mech_done ''failed'' (Some (fault_value fault)) s
               | None \<Rightarrow>
                  (case to_test ops command (ex_file (task_exclusions c ops command (ac_world s))) (ac_world s) of ((passed, tail), w) \<Rightarrow>
                   (let s = s\<lparr>ac_world := w\<rparr> in
                    if passed then mech_done ''passed'' None s
                    else if ac_retried s then mech_done ''failed'' (Some tail) s
                    else restart TestFixRetry
                      (snd (run_agent ops TestFixRetry (observe (MechanicalChecked ''failed'') (s\<lparr>ac_retried := True\<rparr>)))))))))"

definition mechanical_stage :: "bool \<Rightarrow> task_conf \<Rightarrow> 'w task_ops \<Rightarrow> 'w acceptance \<Rightarrow> flow \<times> 'w acceptance" where
  \<comment> \<open>\<open>further\<close>: another rung of the cascade is left\<close>
  "mechanical_stage further c ops = followed_by (verify_mechanical c ops)
     (\<lambda>s. if map_option fst (ac_mech s) = Some ''failed''
          then rejected further ''mechanical_verification_failed'' ''mechanical_verification_failed'' s
          else (Next, s))"

subsection \<open>Seal inversion\<close>

definition seal_done :: "string \<Rightarrow> string option \<Rightarrow> 'w acceptance \<Rightarrow> 'w acceptance" where
  "seal_done outcome detail s = observe (SealChecked outcome) (s\<lparr>ac_seal := Some (outcome, detail)\<rparr>)"

definition verify_seal :: "task_conf \<Rightarrow> 'w task_ops \<Rightarrow> 'w acceptance \<Rightarrow> 'w acceptance" where
  "verify_seal c ops s =
     (case to_base_config ops (ac_world s) of
        Inl err \<Rightarrow> seal_done ''error'' (Some (take 500 err)) s
      | Inr None \<Rightarrow> seal_done ''skipped'' None s
      | Inr (Some command) \<Rightarrow>
         (case run_seal_inversion (to_seal ops) (tc_base_sha c) command (ac_world s) of ((outcome, detail), w) \<Rightarrow>
            seal_done outcome (Some detail) (s\<lparr>ac_world := w\<rparr>)))"

definition seal_stage :: "bool \<Rightarrow> task_conf \<Rightarrow> 'w task_ops \<Rightarrow> 'w acceptance \<Rightarrow> flow \<times> 'w acceptance" where
  "seal_stage further c ops s =
     (if ac_status s = DONE \<and> map_option fst (ac_mech s) = Some ''passed'' \<and> tc_base_sha c \<noteq> []
         \<and> seal_applies (tc_key c) (pi_labels (tc_quality c))
      then (let s = verify_seal c ops s in
        if map_option fst (ac_seal s) \<in> {Some ''failed'', Some ''error''}
        then rejected further ''seal_verification_failed'' ''seal_verification_failed'' s else (Next, s))
      else (Next, s))"

subsection \<open>The verifier\<close>

definition skeleton :: "string list \<Rightarrow> bool" where
  "skeleton ls = list_ex (\<lambda>l. norm_label l = ''skeleton'') ls"

definition verify_level :: "task_conf \<Rightarrow> string" where
  "verify_level c = q_verify (resolved_quality (tc_quality c))"

definition skips_verifier :: "task_conf \<Rightarrow> bool" where
  "skips_verifier c = (skeleton (pi_labels (tc_quality c)) \<or> pi_skip_verification (tc_quality c)
     \<or> verify_level c \<in> {''none'', ''mechanical''})"

definition verify_budget :: "task_conf \<Rightarrow> int" where
  "verify_budget c = tc_max_verify c + (if verify_level c = ''llm_strict'' then 1 else 0)"

definition render_gap :: "gap \<Rightarrow> string" where
  "render_gap g = nat_digits (gp_index g) @ ''. ''
     @ (case gp_location g of Some l \<Rightarrow> if l = [] then [] else l @ '': '' | None \<Rightarrow> []) @ gp_description g"

definition answer_of :: "verifier_result \<Rightarrow> verifier_answer" where
  \<comment> \<open>what \<^verbatim>\<open>_verify_llm_and_maybe_iterate\<close> makes of a result\<close>
  "answer_of r =
     (if vv_verdict (va_verdict r) = VERIFIED then VerifiedWork
      else if vv_reason (va_verdict r) = Some REASON_SPAWN_FAILED
      then VerifierDown (or_default (va_error r) REASON_SPAWN_FAILED)
      else Gaps (map render_gap (vv_gaps (va_verdict r))) (vv_reason (va_verdict r)))"

definition empty_diff_result :: verifier_result where
  "empty_diff_result = \<lparr>va_verdict = incomplete_verdict [\<lparr>gp_index = 1, gp_location = None,
     gp_description = ''No code changes committed vs base branch.''\<rparr>] None [], va_error = None\<rparr>"

definition run_llm_verifier :: "'w task_ops \<Rightarrow> 'w \<Rightarrow> verifier_answer \<times> 'w" where
  "run_llm_verifier ops w =
     (if py_strip (to_diff ops w) = [] then (answer_of empty_diff_result, w)
      else (case to_verifier ops w of (r, w') \<Rightarrow> (answer_of r, w')))"

definition gaps_detail :: "string list \<Rightarrow> string option \<Rightarrow> string" where
  "gaps_detail gs reason = take 2000
     (if gs \<noteq> [] then join [CHR 10] gs
      else or_default reason ''verifier returned INCOMPLETE with no parsed gaps'')"

definition advanced :: "string option \<Rightarrow> string option \<Rightarrow> bool" where
  "advanced before after = (case (before, after) of (Some a, Some b) \<Rightarrow> a \<noteq> b | _ \<Rightarrow> False)"

definition corrected :: "task_conf \<Rightarrow> 'w task_ops \<Rightarrow> spawn_kind \<Rightarrow> bool \<Rightarrow> 'w acceptance \<Rightarrow> bool \<times> 'w acceptance" where
  \<comment> \<open>run the agent on something concrete; whether it exited clean and the branch or the base moved\<close>
  "corrected c ops k concrete s =
     (if \<not> concrete then (False, s)
      else (case run_agent ops k s of (code, s') \<Rightarrow>
        (code = Some 0
           \<and> (advanced (to_sha ops (tc_branch c) (ac_world s)) (to_sha ops (tc_branch c) (ac_world s'))
              \<or> advanced (to_sha ops (tc_base c) (ac_world s)) (to_sha ops (tc_base c) (ac_world s'))), s')))"

definition verify_llm :: "bool \<Rightarrow> task_conf \<Rightarrow> 'w task_ops \<Rightarrow> 'w acceptance \<Rightarrow> flow \<times> 'w acceptance" where
  "verify_llm further c ops s =
     (case run_llm_verifier ops (ac_world s) of (answer, w) \<Rightarrow>
      (let n = ac_iterations s;
           s = observe (VerifierAnswered answer) (s\<lparr>ac_world := w, ac_verify_iterations := n\<rparr>) in
       case answer of
         VerifiedWork \<Rightarrow> (Next, s\<lparr>ac_verified := Some True, ac_verify_detail := None\<rparr>)
       | VerifierDown detail \<Rightarrow> blocked (Some ''verifier_unavailable'')
           (s\<lparr>ac_verified := Some False, ac_verify_detail := Some (take 2000 detail)\<rparr>)
       | Gaps gs reason \<Rightarrow>
          (let detail = gaps_detail gs reason;
               give_up = (\<lambda>s. rejected further ''verification_incomplete'' ''verification_incomplete''
                 (s\<lparr>ac_verified := Some False, ac_verify_detail := Some detail\<rparr>)) in
           if verify_budget c \<le> int n then give_up s
           else (case corrected c ops VerifierIterate (gs \<noteq> []) (s\<lparr>ac_invalidated := True\<rparr>) of (ok, s) \<Rightarrow>
             (let s = s\<lparr>ac_iterations := Suc n\<rparr> in
              if ok then restart VerifierIterate s
              else give_up (s\<lparr>ac_verify_iterations := Suc n\<rparr>))))))"

definition llm_stage :: "bool \<Rightarrow> task_conf \<Rightarrow> 'w task_ops \<Rightarrow> 'w acceptance \<Rightarrow> flow \<times> 'w acceptance" where
  "llm_stage further c ops s =
     (if skips_verifier c then
        (let s = observe VerificationSkipped s in
         (Next, if map_option fst (ac_mech s) = Some ''passed'' \<and> verify_level c \<in> {''none'', ''mechanical''}
                then s\<lparr>ac_verified := Some True, ac_verify_iterations := 0\<rparr> else s))
      else verify_llm further c ops s)"

subsection \<open>The panel\<close>

definition panel_wanted :: "task_conf \<Rightarrow> 'w task_ops \<Rightarrow> 'w acceptance \<Rightarrow> bool" where
  "panel_wanted c ops s = (ac_requires_panel s \<or> panel_should_run (tc_quality c)
     \<or> (case to_classified ops (ac_world s) of None \<Rightarrow> False | Some cls \<Rightarrow> requires_full_panel cls))"

definition panel_settled :: "bool \<Rightarrow> panel_verdict \<Rightarrow> 'w acceptance \<Rightarrow> flow \<times> 'w acceptance" where
  \<comment> \<open>the reason is reduced to its prefix\<close>
  "panel_settled further v s = (if is_approve v then (Next, s)
     else rejected further ''cross_family_panel_block'' ''cross_family_panel'' s)"

definition panel_stage :: "bool \<Rightarrow> task_conf \<Rightarrow> 'w task_ops \<Rightarrow> 'w acceptance \<Rightarrow> flow \<times> 'w acceptance" where
  "panel_stage further c ops s =
     (if ac_status s = DONE \<and> panel_wanted c ops s then
        (let s = s\<lparr>ac_requires_panel := True\<rparr>;
             left = max 0 (tc_panel_iterate c - int (ac_panel_used s)) in
         case to_panel ops (ac_world s) of
           (Inl e, w) \<Rightarrow> blocked (Some (''cross_family_panel_error: '' @ e))
             (observe PanelFailed (s\<lparr>ac_world := w, ac_panel := None\<rparr>))
         | (Inr v, w) \<Rightarrow>
            (let s = observe (PanelAnswered v) (s\<lparr>ac_world := w, ac_panel := Some v,
                   ac_history := ac_history s @ [length (pl_blocking v)]\<rparr>) in
             if is_approve v \<or> left \<le> 0 then panel_settled further v s
             else if convergence_stalled (ac_history s) (tc_patience c)
             then panel_settled further v (s\<lparr>ac_stalled := True\<rparr>)
             else (case corrected c ops PanelIterate (pl_blocking v \<noteq> []) (s\<lparr>ac_invalidated := True\<rparr>) of (ok, s) \<Rightarrow>
               (let s = s\<lparr>ac_panel_used := Suc (ac_panel_used s)\<rparr> in
                if ok then restart PanelIterate s else panel_settled further v s))))
      else (Next, s))"

subsection \<open>The subject, again\<close>

definition subject_problem :: "'w task_ops \<Rightarrow> string option \<Rightarrow> 'w \<Rightarrow> string option" where
  "subject_problem ops expected w =
     (if to_head ops w = None \<or> to_head ops w \<noteq> expected
      then Some ''verification_subject_changed: HEAD moved during acceptance checks''
      else if to_dirty ops w \<noteq> []
      then Some (''verification_subject_changed: uncommitted changes: '' @ join '', '' (to_dirty ops w))
      else None)"

definition subject_stage :: "'w task_ops \<Rightarrow> 'w acceptance \<Rightarrow> flow \<times> 'w acceptance" where
  "subject_stage ops s =
     (if ac_status s = DONE then
        (case subject_problem ops (ac_pass_head s) (ac_world s) of
           Some p \<Rightarrow> blocked (Some p) (s\<lparr>ac_invalidated := True\<rparr>)
         | None \<Rightarrow> (Stop, s))
      else (Stop, s))"

section \<open>The loop\<close>

definition acceptance_pass ::
  "bool \<Rightarrow> task_conf \<Rightarrow> 'w task_ops \<Rightarrow> string option \<Rightarrow> 'w acceptance \<Rightarrow> flow \<times> 'w acceptance" where
  "acceptance_pass further c ops pre_spawn =
     followed_by begin_pass (followed_by (reread_summary c ops) (followed_by (pin_subject ops)
       (followed_by (role_and_scope c ops pre_spawn) (followed_by (holes_stage c ops)
       (followed_by (mechanical_stage further c ops) (followed_by (seal_stage further c ops)
       (followed_by (llm_stage further c ops) (followed_by (panel_stage further c ops) (subject_stage ops)))))))))"

definition discard_evidence :: "'w acceptance \<Rightarrow> 'w acceptance" where
  \<comment> \<open>evidence a corrective agent has outdated is not kept, a refusal is\<close>
  "discard_evidence s =
     (if ac_invalidated s then s\<lparr>ac_mech := None, ac_seal := None, ac_role := None,
        ac_verified := (if ac_verified s = Some True then None else ac_verified s),
        ac_panel := (case ac_panel s of Some v \<Rightarrow> if is_approve v then None else Some v | None \<Rightarrow> None)\<rparr>
      else s)"

definition work_left :: "task_conf \<Rightarrow> 'w acceptance \<Rightarrow> nat" where
  \<comment> \<open>bounds the restarts left: two for an iteration of the verifier or the panel, one for the test fix\<close>
  "work_left c s = 2 * nat (verify_budget c - int (ac_iterations s))
     + 2 * nat (tc_panel_iterate c - int (ac_panel_used s)) + (if ac_retried s then 0 else 1)"

definition counters :: "'w acceptance \<Rightarrow> nat \<times> nat \<times> bool" where
  "counters s = (ac_iterations s, ac_panel_used s, ac_retried s)"

definition bounded :: "task_conf \<Rightarrow> ('w acceptance \<Rightarrow> flow \<times> 'w acceptance) \<Rightarrow> bool" where
  \<comment> \<open>going on keeps the counters, a restart uses work up\<close>
  "bounded c f = (\<forall>s s'. (f s = (Next, s') \<longrightarrow> counters s' = counters s) \<and>
     (f s = (Restart, s') \<longrightarrow> work_left c s' < work_left c s))"

lemma work_left_counters: "counters s = counters s' \<Longrightarrow> work_left c s = work_left c s'"
  by (simp add: counters_def work_left_def)

lemma followed_by_Next: "followed_by f g s = (Next, s'') \<longleftrightarrow> (\<exists>s'. f s = (Next, s') \<and> g s' = (Next, s''))"
  by (auto simp: followed_by_def split: prod.splits flow.splits)

lemma followed_by_Restart: "followed_by f g s = (Restart, s'') \<longleftrightarrow>
    f s = (Restart, s'') \<or> (\<exists>s'. f s = (Next, s') \<and> g s' = (Restart, s''))"
  by (auto simp: followed_by_def split: prod.splits flow.splits)

lemma followed_by_Stop: "followed_by f g s = (Stop, s'') \<longleftrightarrow>
    f s = (Stop, s'') \<or> (\<exists>s'. f s = (Next, s') \<and> g s' = (Stop, s''))"
  by (auto simp: followed_by_def split: prod.splits flow.splits)

lemmas followed_by_simps = followed_by_Next followed_by_Restart followed_by_Stop

lemma bounded_followed_by: "bounded c f \<Longrightarrow> bounded c g \<Longrightarrow> bounded c (followed_by f g)"
  unfolding bounded_def followed_by_simps by (metis work_left_counters)

text \<open>
  What every stage of a pass observes and their sequencing keeps, the pass observes: the bound on
  the restarts, the payment for the agents, the range of the status.
\<close>

locale pass_contract =
  fixes observed :: "('w acceptance \<Rightarrow> flow \<times> 'w acceptance) \<Rightarrow> bool"
  assumes in_sequence: "observed f \<Longrightarrow> observed g \<Longrightarrow> observed (followed_by f g)"
begin

lemma by_the_pass:
  assumes "observed begin_pass" "observed (reread_summary c ops)" "observed (pin_subject ops)"
    "observed (role_and_scope c ops pre_spawn)" "observed (holes_stage c ops)"
    "observed (mechanical_stage further c ops)" "observed (seal_stage further c ops)"
    "observed (llm_stage further c ops)" "observed (panel_stage further c ops)" "observed (subject_stage ops)"
  shows "observed (acceptance_pass further c ops pre_spawn)"
  unfolding acceptance_pass_def using assms by (intro in_sequence)

end

interpretation restarts: pass_contract "bounded c" for c
  by unfold_locales (rule bounded_followed_by)

lemmas flow_defs = blocked_def rejected_def restart_def observe_def mech_done_def seal_done_def Let_def

lemma bounded_begin: "bounded c begin_pass"
  by (auto simp: bounded_def begin_pass_def counters_def)

lemma bounded_reread: "bounded c (reread_summary c ops)"
  by (auto simp: bounded_def reread_summary_def counters_def flow_defs split: if_splits option.splits prod.splits)

lemma bounded_pin: "bounded c (pin_subject ops)"
  by (auto simp: bounded_def pin_subject_def counters_def flow_defs split: option.splits)

lemma bounded_role: "bounded c (role_and_scope c ops pre_spawn)"
  by (auto simp: bounded_def role_and_scope_def counters_def flow_defs split: if_splits)

lemma bounded_holes: "bounded c (holes_stage c ops)"
  by (auto simp: bounded_def holes_stage_def counters_def flow_defs split: sum.splits option.splits)

lemma verify_seal_redness_shape: "\<exists>out d w. verify_seal_redness ops command s = mech_done out d (s\<lparr>ac_world := w\<rparr>)"
proof -
  show ?thesis
  proof (cases "truthy_text (ac_gate_base s)")
    case None
    then have "verify_seal_redness ops command s = mech_done ''failed'' (Some ''no gate base'') (s\<lparr>ac_world := ac_world s\<rparr>)"
      by (simp add: verify_seal_redness_def)
    then show ?thesis by blast
  next
    case (Some base)
    obtain out d w where "run_seal_redness (to_seal ops) base command (ac_world s) = ((out, d), w)" by (metis surj_pair)
    with Some show ?thesis by (auto simp: verify_seal_redness_def Let_def)
  qed
qed

definition test_fix :: "'w task_ops \<Rightarrow> 'w acceptance \<Rightarrow> flow \<times> 'w acceptance" where
  "test_fix ops s = restart TestFixRetry
     (snd (run_agent ops TestFixRetry (observe (MechanicalChecked ''failed'') (s\<lparr>ac_retried := True\<rparr>))))"

lemma verify_mechanical_shape:
  \<comment> \<open>one outcome, or the one test fix of the cycle\<close>
  obtains (outcome) out d t w where "verify_mechanical c ops s = mech_done out d (s\<lparr>ac_config := t, ac_world := w\<rparr>)"
  | (again) t w where "\<not> ac_retried s" "verify_mechanical c ops s = test_fix ops (s\<lparr>ac_config := t, ac_world := w\<rparr>)"
proof -
  let ?config = "case ac_config s of Some t \<Rightarrow> Inr t | None \<Rightarrow> to_base_config ops (ac_world s)"
  show thesis
  proof (cases ?config)
    case (Inl err)
    then have "verify_mechanical c ops s = mech_done ''failed'' (Some (take 500 err)) (s\<lparr>ac_config := ac_config s, ac_world := ac_world s\<rparr>)"
      by (simp add: verify_mechanical_def)
    then show thesis by (rule outcome)
  next
    case (Inr test)
    show thesis
    proof (cases "test = None \<or> to_dirty ops (ac_world s) \<noteq> [] \<or> suite_expectation_for (tc_specs c) = Unjudged
        \<or> (\<exists>cmd. test = Some cmd \<and> ex_fault (task_exclusions c ops cmd (ac_world s)) \<noteq> None)
           \<and> suite_expectation_for (tc_specs c) \<noteq> RedFromOwnRows")
      case True
      with Inr have "\<exists>out d. verify_mechanical c ops s = mech_done out d (s\<lparr>ac_config := Some test, ac_world := ac_world s\<rparr>)"
        by (cases test) (auto simp: verify_mechanical_def Let_def, blast?)
      then show thesis using outcome by blast
    next
      case False
      then obtain command where test: "test = Some command" by auto
      let ?ex = "task_exclusions c ops command (ac_world s)"
      show thesis
      proof (cases "suite_expectation_for (tc_specs c) = RedFromOwnRows")
        case True
        with False Inr test have "verify_mechanical c ops s = verify_seal_redness ops command (s\<lparr>ac_config := Some test\<rparr>)"
          by (simp add: verify_mechanical_def Let_def)
        with verify_seal_redness_shape [of ops command "s\<lparr>ac_config := Some test\<rparr>"] show thesis using outcome by auto
      next
        case green: False
        obtain passed tail w where "to_test ops command (ex_file ?ex) (ac_world s) = ((passed, tail), w)" by (metis surj_pair)
        with False Inr test green have run: "verify_mechanical c ops s = (let s = s\<lparr>ac_config := Some test, ac_world := w\<rparr> in
            if passed then mech_done ''passed'' None s else if ac_retried s then mech_done ''failed'' (Some tail) s
            else test_fix ops s)"
          by (simp add: verify_mechanical_def test_fix_def Let_def)
        show thesis
        proof (cases "passed \<or> ac_retried s")
          case True
          with run outcome show thesis by (cases passed) (simp_all add: Let_def)
        next
          case False
          with run again show thesis by (simp add: Let_def)
        qed
      qed
    qed
  qed
qed

lemmas test_fix_defs = test_fix_def run_agent_def restart_def observe_def case_prod_beta

lemma bounded_mechanical: "bounded c (mechanical_stage further c ops)"
proof -
  have "bounded c (verify_mechanical c ops)" unfolding bounded_def
  proof (intro allI)
    fix s s'
    show "(verify_mechanical c ops s = (Next, s') \<longrightarrow> counters s' = counters s)
       \<and> (verify_mechanical c ops s = (Restart, s') \<longrightarrow> work_left c s' < work_left c s)"
      by (cases rule: verify_mechanical_shape [of c ops s])
        (auto simp: mech_done_def observe_def counters_def test_fix_defs work_left_def)
  qed
  moreover have "bounded c (\<lambda>s. if map_option fst (ac_mech s) = Some ''failed'' then
      rejected further ''mechanical_verification_failed'' ''mechanical_verification_failed'' s else (Next, s))"
    by (auto simp: bounded_def counters_def flow_defs)
  ultimately show ?thesis unfolding mechanical_stage_def by (rule bounded_followed_by)
qed

lemma verify_seal_counters: "counters (verify_seal c ops s) = counters s"
  by (auto simp: verify_seal_def counters_def flow_defs split: sum.split option.split prod.split)

lemma bounded_seal: "bounded c (seal_stage further c ops)"
  using verify_seal_counters
  by (auto simp: bounded_def seal_stage_def rejected_def Let_def split: if_splits)

lemma corrected_counters:
  "corrected c ops k concrete s = (ok, s') \<Longrightarrow> counters s' = counters s \<and> ac_status s' = ac_status s"
  by (auto simp: corrected_def run_agent_def counters_def observe_def split: if_splits prod.splits)

lemma bounded_llm: "bounded c (llm_stage further c ops)"
proof -
  have "bounded c (verify_llm further c ops)"
    unfolding bounded_def
    by (auto simp: verify_llm_def counters_def work_left_def flow_defs
        dest!: corrected_counters split: if_splits prod.splits verifier_answer.splits)
  then show ?thesis by (auto simp: bounded_def llm_stage_def counters_def flow_defs split: if_splits)
qed

lemma bounded_panel: "bounded c (panel_stage further c ops)"
  unfolding bounded_def
  by (auto simp: panel_stage_def panel_settled_def counters_def work_left_def flow_defs
      dest!: corrected_counters split: if_splits prod.splits sum.splits)

lemma bounded_subject: "bounded c (subject_stage ops)"
  by (auto simp: bounded_def subject_stage_def flow_defs split: if_splits option.splits)

lemma bounded_pass: "bounded c (acceptance_pass further c ops pre_spawn)"
  by (intro restarts.by_the_pass bounded_begin bounded_reread bounded_pin bounded_role bounded_holes
      bounded_mechanical bounded_seal bounded_llm bounded_panel bounded_subject)

function accept ::
  "bool \<Rightarrow> task_conf \<Rightarrow> 'w task_ops \<Rightarrow> string option \<Rightarrow> 'w acceptance \<Rightarrow> 'w acceptance" where
  "accept further c ops pre_spawn s =
     (case acceptance_pass further c ops pre_spawn s of
        (Restart, s') \<Rightarrow> accept further c ops pre_spawn s'
      | (Stop, s') \<Rightarrow> discard_evidence s'
      | (Next, s') \<Rightarrow> discard_evidence s')"
  by pat_completeness auto

termination accept
proof (relation "measure (\<lambda>(further, c, ops, pre_spawn, s). work_left c s)", goal_cases)
  case (2 further c ops pre_spawn s p s')
  then have "acceptance_pass further c ops pre_spawn s = (Restart, s')" by simp
  then show ?case using bounded_pass [of c further ops pre_spawn] by (simp add: bounded_def)
qed simp

declare accept.simps [simp del]

end
