(* ===== verification/Accepted.thy ===== *)
theory Accepted
  imports Acceptance
begin

text \<open>
  What it takes for a task to be accepted: the observations of the last acceptance pass, the
  commit they are about, and the bound on the passes.
\<close>

section \<open>What an accepted pass has seen\<close>

definition passed_so_far :: "'w acceptance \<Rightarrow> event list \<Rightarrow> bool" where
  \<comment> \<open>the observations since the pass read its commit, in their order\<close>
  "passed_so_far s evs = (\<exists>gen h old. ac_events s = rev evs @ PassStarted gen h # old
     \<and> ac_pass_head s = Some h \<and> ac_status s = DONE)"

definition scope_seen :: "event list \<Rightarrow> bool" where
  "scope_seen evs = (evs = [] \<or> (\<exists>v. v \<noteq> BlockExcursion \<and> evs = [ScopeExcursion v]))"

definition seal_due :: "task_conf \<Rightarrow> string \<Rightarrow> bool" where
  "seal_due c outcome = (outcome = ''passed'' \<and> tc_base_sha c \<noteq> [] \<and> seal_applies (tc_key c) (pi_labels (tc_quality c)))"

definition seal_seen :: "task_conf \<Rightarrow> string \<Rightarrow> event list \<Rightarrow> bool" where
  "seal_seen c outcome evs = (if seal_due c outcome
     then \<exists>so. so \<noteq> ''failed'' \<and> so \<noteq> ''error'' \<and> evs = [SealChecked so] else evs = [])"

definition verifier_seen :: "task_conf \<Rightarrow> event" where
  "verifier_seen c = (if skips_verifier c then VerificationSkipped else VerifierAnswered VerifiedWork)"

definition panel_seen :: "bool \<Rightarrow> event list \<Rightarrow> bool" where
  "panel_seen required evs = (if required then \<exists>v. is_approve v \<and> evs = [PanelAnswered v] else evs = [])"

lemma passed_so_farI:
  "passed_so_far s evs \<Longrightarrow> ac_events s' = rev es @ ac_events s \<Longrightarrow> ac_pass_head s' = ac_pass_head s
   \<Longrightarrow> ac_status s' = ac_status s \<Longrightarrow> passed_so_far s' (evs @ es)"
  by (auto simp: passed_so_far_def)

lemma blocked_not_done [simp]: "BLOCKED \<noteq> DONE" "DONE \<noteq> BLOCKED"
  by (simp_all add: status_defs)

lemma outcome_decision:
  "lo_decision (check_after_implementer en repo bb br pre specs)
     = decision_for (lo_status (check_after_implementer en repo bb br pre specs))"
  by (simp add: check_after_implementer_def without_result_def Let_def split: sum.split)

lemma begin_Next: "begin_pass s = (fl, s') \<Longrightarrow> fl = Next \<and> ac_status s' = ac_status s"
  by (auto simp: begin_pass_def)

lemma reread_status:
  "reread_summary c ops s = (fl, s') \<Longrightarrow> ac_status s = DONE \<Longrightarrow> ac_status s' = DONE \<longleftrightarrow> fl = Next"
  by (auto simp: reread_summary_def flow_defs split: if_splits option.splits prod.splits)

lemma pin_passes:
  "pin_subject ops s = (fl, s') \<Longrightarrow> ac_status s = DONE \<Longrightarrow>
     (case fl of Next \<Rightarrow> passed_so_far s' [] | Stop \<Rightarrow> ac_status s' \<noteq> DONE | Restart \<Rightarrow> False)"
  by (auto simp: pin_subject_def passed_so_far_def flow_defs split: option.splits)

lemma role_passes:
  "role_and_scope c ops pre s = (fl, s') \<Longrightarrow> passed_so_far s evs \<Longrightarrow>
     (case fl of Next \<Rightarrow> \<exists>scope st. scope_seen scope \<and> decision_for st = Proceed
            \<and> passed_so_far s' (evs @ scope @ [RoleChecked st])
      | Stop \<Rightarrow> ac_status s' \<noteq> DONE | Restart \<Rightarrow> False)"
proof -
  assume run: "role_and_scope c ops pre s = (fl, s')" and seen: "passed_so_far s evs"
  let ?base = "resolve_gate_base c ops pre (ac_world s)"
  let ?out = "check_after_implementer (tc_loop_gate c) (to_repo ops (ac_world s)) (tc_base c) (tc_branch c) ?base (tc_specs c)"
  let ?sev = "case scope_excursion_report (tc_owns c) ?base (to_name_status ops (ac_world s)) of
      None \<Rightarrow> NoExcursion | Some r \<Rightarrow> er_severity r"
  let ?scope = "if ?sev \<noteq> NoExcursion then [ScopeExcursion ?sev] else []"
  have decided: "lo_decision ?out \<noteq> BlockTask \<Longrightarrow> decision_for (lo_status ?out) = Proceed"
    using outcome_decision by (metis loop_decision.exhaust)
  let ?s' = "s\<lparr>ac_role := Some ?out, ac_gate_base := ?base,
      ac_events := rev (?scope @ [RoleChecked (lo_status ?out)]) @ ac_events s\<rparr>"
  have shape: "(fl = Stop \<and> ac_status s' \<noteq> DONE)
      \<or> (fl = Next \<and> s' = ?s' \<and> ?sev \<noteq> BlockExcursion \<and> lo_decision ?out \<noteq> BlockTask)"
    using run by (auto simp: role_and_scope_def flow_defs split: if_splits)
  have here: "passed_so_far ?s' (evs @ ?scope @ [RoleChecked (lo_status ?out)])"
    by (rule passed_so_farI [OF seen]) simp_all
  have scope: "?sev \<noteq> BlockExcursion \<Longrightarrow> scope_seen ?scope" by (simp add: scope_seen_def)
  from shape show ?thesis
  proof (elim disjE conjE)
    assume fl: "fl = Next" and s': "s' = ?s'" and "?sev \<noteq> BlockExcursion" "lo_decision ?out \<noteq> BlockTask"
    with here scope decided have "scope_seen ?scope \<and> decision_for (lo_status ?out) = Proceed
        \<and> passed_so_far s' (evs @ ?scope @ [RoleChecked (lo_status ?out)])" by blast
    then show ?thesis unfolding fl flow.case by blast
  qed simp
qed

lemma holes_passes:
  "holes_stage c ops s = (fl, s') \<Longrightarrow> passed_so_far s evs \<Longrightarrow>
     (case fl of Next \<Rightarrow> passed_so_far s' (evs @ [HolesChecked None]) | Stop \<Rightarrow> ac_status s' \<noteq> DONE | Restart \<Rightarrow> False)"
  by (auto simp: holes_stage_def flow_defs intro: passed_so_farI split: sum.splits option.splits)

lemma mechanical_passes:
  "mechanical_stage further c ops s = (fl, s') \<Longrightarrow> passed_so_far s evs \<Longrightarrow>
     (case fl of Next \<Rightarrow> \<exists>outcome. outcome \<noteq> ''failed'' \<and> map_option fst (ac_mech s') = Some outcome
            \<and> passed_so_far s' (evs @ [MechanicalChecked outcome])
      | Stop \<Rightarrow> ac_status s' \<noteq> DONE | Restart \<Rightarrow> ac_status s' = DONE)"
proof -
  assume run: "mechanical_stage further c ops s = (fl, s')" and seen: "passed_so_far s evs"
  obtain fl1 s1 where first: "verify_mechanical c ops s = (fl1, s1)" by fastforce
  have one: "case fl1 of Next \<Rightarrow> \<exists>outcome. map_option fst (ac_mech s1) = Some outcome
            \<and> passed_so_far s1 (evs @ [MechanicalChecked outcome])
      | Stop \<Rightarrow> False | Restart \<Rightarrow> ac_status s1 = DONE"
    using first seen
    by (cases rule: verify_mechanical_shape [of c ops s])
      (auto simp: mech_done_def observe_def test_fix_defs passed_so_far_def)
  show ?thesis
  proof (cases fl1)
    case Next
    with one run first show ?thesis
      by (auto simp: mechanical_stage_def followed_by_def rejected_def Let_def split: if_splits)
  qed (use one run first in \<open>auto simp: mechanical_stage_def followed_by_def\<close>)
qed

lemma verify_seal_shape: "\<exists>so d w. verify_seal c ops s = seal_done so d (s\<lparr>ac_world := w\<rparr>)"
proof -
  have keep: "seal_done so d s = seal_done so d (s\<lparr>ac_world := ac_world s\<rparr>)" for so d by simp
  show ?thesis
  proof (cases "to_base_config ops (ac_world s)")
    case (Inl e)
    then have "verify_seal c ops s = seal_done ''error'' (Some (take 500 e)) s" by (simp add: verify_seal_def)
    then show ?thesis using keep by metis
  next
    case (Inr t)
    show ?thesis
    proof (cases t)
      case None
      with Inr have "verify_seal c ops s = seal_done ''skipped'' None s" by (simp add: verify_seal_def)
      then show ?thesis using keep by metis
    next
      case (Some command)
      obtain so d w where "run_seal_inversion (to_seal ops) (tc_base_sha c) command (ac_world s) = ((so, d), w)" by (metis surj_pair)
      with Inr Some have "verify_seal c ops s = seal_done so (Some d) (s\<lparr>ac_world := w\<rparr>)" by (simp add: verify_seal_def)
      then show ?thesis by blast
    qed
  qed
qed

lemma seal_passes:
  "seal_stage further c ops s = (fl, s') \<Longrightarrow> passed_so_far s evs \<Longrightarrow> map_option fst (ac_mech s) = Some outcome \<Longrightarrow>
     (case fl of Next \<Rightarrow> \<exists>es. seal_seen c outcome es \<and> ac_mech s' = ac_mech s \<and> passed_so_far s' (evs @ es)
      | Stop \<Rightarrow> ac_status s' \<noteq> DONE | Restart \<Rightarrow> False)"
proof -
  assume run: "seal_stage further c ops s = (fl, s')" and seen: "passed_so_far s evs"
    and mech: "map_option fst (ac_mech s) = Some outcome"
  show ?thesis
  proof (cases "seal_due c outcome")
    case True
    obtain so d where seal: "ac_seal (verify_seal c ops s) = Some (so, d)"
        "passed_so_far (verify_seal c ops s) (evs @ [SealChecked so])" "ac_mech (verify_seal c ops s) = ac_mech s"
      using seen verify_seal_shape [of c ops s] by (auto simp: seal_done_def observe_def passed_so_far_def)
    have due: "ac_status s = DONE \<and> map_option fst (ac_mech s) = Some ''passed'' \<and> tc_base_sha c \<noteq> []
        \<and> seal_applies (tc_key c) (pi_labels (tc_quality c))"
      using True seen mech by (auto simp: seal_due_def passed_so_far_def)
    have r: "(if so = ''failed'' \<or> so = ''error''
        then rejected further ''seal_verification_failed'' ''seal_verification_failed'' (verify_seal c ops s)
        else (Next, verify_seal c ops s)) = (fl, s')"
      using run unfolding seal_stage_def Let_def if_P [OF due] by (simp add: seal(1))
    show ?thesis
    proof (cases "so = ''failed'' \<or> so = ''error''")
      case True
      from r [unfolded if_P [OF True]] show ?thesis by (auto simp: rejected_def Let_def split: if_splits)
    next
      case False
      from r [unfolded if_not_P [OF False]] have "fl = Next" "s' = verify_seal c ops s" by simp_all
      with seal \<open>seal_due c outcome\<close> False show ?thesis unfolding seal_seen_def by auto
    qed
  next
    case False
    with run seen mech show ?thesis
      by (auto simp: seal_stage_def seal_due_def seal_seen_def passed_so_far_def split: if_splits)
  qed
qed

lemma llm_passes:
  "llm_stage further c ops s = (fl, s') \<Longrightarrow> passed_so_far s evs \<Longrightarrow>
     (case fl of Next \<Rightarrow> passed_so_far s' (evs @ [verifier_seen c])
      | Stop \<Rightarrow> ac_status s' \<noteq> DONE | Restart \<Rightarrow> ac_status s' = DONE)"
proof -
  assume run: "llm_stage further c ops s = (fl, s')" and seen: "passed_so_far s evs"
  show ?thesis
  proof (cases "skips_verifier c")
    case True
    with run seen show ?thesis by (auto simp: llm_stage_def verifier_seen_def passed_so_far_def flow_defs split: if_splits)
  next
    case False
    with run seen show ?thesis
      by (auto simp: llm_stage_def verify_llm_def verifier_seen_def passed_so_far_def flow_defs
          dest!: corrected_counters split: if_splits prod.splits verifier_answer.splits)
  qed
qed

lemma panel_passes:
  "panel_stage further c ops s = (fl, s') \<Longrightarrow> passed_so_far s evs \<Longrightarrow>
     (case fl of Next \<Rightarrow> \<exists>es. panel_seen (ac_requires_panel s') es \<and> passed_so_far s' (evs @ es)
            \<and> (panel_should_run (tc_quality c) \<longrightarrow> ac_requires_panel s')
      | Stop \<Rightarrow> ac_status s' \<noteq> DONE | Restart \<Rightarrow> ac_status s' = DONE)"
  by (auto simp: panel_stage_def panel_wanted_def panel_settled_def panel_seen_def passed_so_far_def flow_defs
      dest!: corrected_counters split: if_splits prod.splits sum.splits)

lemma subject_passes:
  "subject_stage ops s = (fl, s') \<Longrightarrow> fl = Stop \<and> (ac_status s' = DONE \<longrightarrow>
     s' = s \<and> ac_status s = DONE \<and> to_head ops (ac_world s) = ac_pass_head s \<and> to_dirty ops (ac_world s) = [])"
  by (auto simp: subject_stage_def subject_problem_def flow_defs split: if_splits option.splits)

definition clean_pass :: "task_conf \<Rightarrow> bool \<Rightarrow> event list \<Rightarrow> bool" where
  \<comment> \<open>the observations of a pass every gate of which let the work through, in their order\<close>
  "clean_pass c panel evs = (\<exists>scope st outcome seal reviews.
     evs = scope @ [RoleChecked st, HolesChecked None, MechanicalChecked outcome] @ seal @ [verifier_seen c] @ reviews
     \<and> scope_seen scope \<and> decision_for st = Proceed \<and> outcome \<noteq> ''failed''
     \<and> seal_seen c outcome seal \<and> panel_seen panel reviews)"

definition accepted_here :: "task_conf \<Rightarrow> 'w task_ops \<Rightarrow> 'w acceptance \<Rightarrow> bool" where
  "accepted_here c ops s = (\<exists>evs. passed_so_far s evs \<and> clean_pass c (ac_requires_panel s) evs
     \<and> (panel_should_run (tc_quality c) \<longrightarrow> ac_requires_panel s)
     \<and> to_head ops (ac_world s) = ac_pass_head s \<and> to_dirty ops (ac_world s) = [])"

definition establishes ::
  "('w acceptance \<Rightarrow> bool) \<Rightarrow> ('w acceptance \<Rightarrow> flow \<times> 'w acceptance) \<Rightarrow> ('w acceptance \<Rightarrow> bool) \<Rightarrow> bool" where
  \<comment> \<open>a stage that goes on establishes \<open>Q\<close>, one that stops refuses\<close>
  "establishes P f Q = (\<forall>s fl s'. P s \<longrightarrow> f s = (fl, s') \<longrightarrow>
     (case fl of Next \<Rightarrow> Q s' | Stop \<Rightarrow> ac_status s' \<noteq> DONE | Restart \<Rightarrow> ac_status s' = DONE))"

definition decides ::
  "task_conf \<Rightarrow> 'w task_ops \<Rightarrow> ('w acceptance \<Rightarrow> bool) \<Rightarrow> ('w acceptance \<Rightarrow> flow \<times> 'w acceptance) \<Rightarrow> bool" where
  "decides c ops P f = (\<forall>s fl s'. P s \<longrightarrow> f s = (fl, s') \<longrightarrow>
     (case fl of Next \<Rightarrow> False | Stop \<Rightarrow> ac_status s' = DONE \<longrightarrow> accepted_here c ops s' | Restart \<Rightarrow> ac_status s' = DONE))"

lemma decides_followed_by: "establishes P f Q \<Longrightarrow> decides c ops Q g \<Longrightarrow> decides c ops P (followed_by f g)"
  unfolding decides_def
proof (intro allI impI)
  fix s fl s'
  assume f: "establishes P f Q" and g: "\<forall>s fl s'. Q s \<longrightarrow> g s = (fl, s') \<longrightarrow>
     (case fl of Next \<Rightarrow> False | Stop \<Rightarrow> ac_status s' = DONE \<longrightarrow> accepted_here c ops s' | Restart \<Rightarrow> ac_status s' = DONE)"
    and s: "P s" and run: "followed_by f g s = (fl, s')"
  obtain fl1 s1 where f1: "f s = (fl1, s1)" by fastforce
  note est = f [unfolded establishes_def, rule_format, OF s f1]
  show "case fl of Next \<Rightarrow> False | Stop \<Rightarrow> ac_status s' = DONE \<longrightarrow> accepted_here c ops s' | Restart \<Rightarrow> ac_status s' = DONE"
  proof (cases fl1)
    case Next
    with est have q: "Q s1" by simp
    from run f1 Next have "g s1 = (fl, s')" by (simp add: followed_by_def)
    with g q show ?thesis by blast
  qed (use est run f1 in \<open>auto simp: followed_by_def\<close>)
qed

definition role_seen :: "'w acceptance \<Rightarrow> event list \<Rightarrow> bool" where
  "role_seen s tail = (\<exists>scope st. scope_seen scope \<and> decision_for st = Proceed
     \<and> passed_so_far s (scope @ [RoleChecked st] @ tail))"

definition tests_seen :: "task_conf \<Rightarrow> 'w acceptance \<Rightarrow> (string \<Rightarrow> event list \<Rightarrow> bool) \<Rightarrow> bool" where
  "tests_seen c s tail = (\<exists>outcome es. outcome \<noteq> ''failed'' \<and> map_option fst (ac_mech s) = Some outcome
     \<and> tail outcome es \<and> role_seen s ([HolesChecked None, MechanicalChecked outcome] @ es))"

lemma begin_establishes: "establishes (\<lambda>s. ac_status s = DONE) begin_pass (\<lambda>s. ac_status s = DONE)"
  by (auto simp: establishes_def begin_pass_def)

lemma reread_establishes: "establishes (\<lambda>s. ac_status s = DONE) (reread_summary c ops) (\<lambda>s. ac_status s = DONE)"
  unfolding establishes_def
  by (auto simp: reread_summary_def flow_defs split: if_splits option.splits prod.splits)

lemma pin_establishes: "establishes (\<lambda>s. ac_status s = DONE) (pin_subject ops) (\<lambda>s. passed_so_far s [])"
  unfolding establishes_def using pin_passes by (fastforce split: flow.splits)

lemma role_establishes: "establishes (\<lambda>s. passed_so_far s []) (role_and_scope c ops pre) (\<lambda>s. role_seen s [])"
  unfolding establishes_def role_seen_def using role_passes by (fastforce split: flow.splits)

lemma holes_establishes: "establishes (\<lambda>s. role_seen s []) (holes_stage c ops) (\<lambda>s. role_seen s [HolesChecked None])"
  unfolding establishes_def role_seen_def using holes_passes by (fastforce split: flow.splits)

lemma mechanical_establishes:
  "establishes (\<lambda>s. role_seen s [HolesChecked None]) (mechanical_stage further c ops)
     (\<lambda>s. tests_seen c s (\<lambda>_ es. es = []))"
  unfolding establishes_def
proof (intro allI impI)
  fix s fl s'
  assume "role_seen s [HolesChecked None]" and run: "mechanical_stage further c ops s = (fl, s')"
  then obtain scope st where scope: "scope_seen scope" "decision_for st = Proceed"
    and seen: "passed_so_far s (scope @ [RoleChecked st] @ [HolesChecked None])" by (auto simp: role_seen_def)
  from mechanical_passes [OF run seen]
  show "case fl of Next \<Rightarrow> tests_seen c s' (\<lambda>_ es. es = []) | Stop \<Rightarrow> ac_status s' \<noteq> DONE | Restart \<Rightarrow> ac_status s' = DONE"
    using scope by (cases fl) (auto simp: tests_seen_def role_seen_def)
qed

lemma seal_establishes:
  "establishes (\<lambda>s. tests_seen c s (\<lambda>_ es. es = [])) (seal_stage further c ops) (\<lambda>s. tests_seen c s (seal_seen c))"
  unfolding establishes_def
proof (intro allI impI)
  fix s fl s'
  assume "tests_seen c s (\<lambda>_ es. es = [])" and run: "seal_stage further c ops s = (fl, s')"
  then obtain scope st outcome where scope: "scope_seen scope" "decision_for st = Proceed"
    and outcome: "outcome \<noteq> ''failed''" "map_option fst (ac_mech s) = Some outcome"
    and seen: "passed_so_far s (scope @ [RoleChecked st] @ [HolesChecked None, MechanicalChecked outcome])"
    by (auto simp: tests_seen_def role_seen_def)
  from seal_passes [OF run seen outcome(2)]
  show "case fl of Next \<Rightarrow> tests_seen c s' (seal_seen c) | Stop \<Rightarrow> ac_status s' \<noteq> DONE | Restart \<Rightarrow> ac_status s' = DONE"
    using scope outcome by (cases fl) (auto simp: tests_seen_def role_seen_def, blast)
qed

lemma llm_establishes:
  "establishes (\<lambda>s. tests_seen c s (seal_seen c)) (llm_stage further c ops)
     (\<lambda>s. \<exists>outcome es. outcome \<noteq> ''failed'' \<and> seal_seen c outcome es
        \<and> role_seen s ([HolesChecked None, MechanicalChecked outcome] @ es @ [verifier_seen c]))"
  unfolding establishes_def
proof (intro allI impI)
  fix s fl s'
  assume "tests_seen c s (seal_seen c)" and run: "llm_stage further c ops s = (fl, s')"
  then obtain scope st outcome es where scope: "scope_seen scope" "decision_for st = Proceed"
    and outcome: "outcome \<noteq> ''failed''" "seal_seen c outcome es"
    and seen: "passed_so_far s (scope @ [RoleChecked st] @ [HolesChecked None, MechanicalChecked outcome] @ es)"
    by (auto simp: tests_seen_def role_seen_def)
  from llm_passes [OF run seen]
  show "case fl of Next \<Rightarrow> \<exists>outcome es. outcome \<noteq> ''failed'' \<and> seal_seen c outcome es
        \<and> role_seen s' ([HolesChecked None, MechanicalChecked outcome] @ es @ [verifier_seen c])
      | Stop \<Rightarrow> ac_status s' \<noteq> DONE | Restart \<Rightarrow> ac_status s' = DONE"
    using scope outcome by (cases fl) (auto simp: role_seen_def)
qed

lemma panel_establishes:
  "establishes (\<lambda>s. \<exists>outcome es. outcome \<noteq> ''failed'' \<and> seal_seen c outcome es
        \<and> role_seen s ([HolesChecked None, MechanicalChecked outcome] @ es @ [verifier_seen c]))
     (panel_stage further c ops)
     (\<lambda>s. (panel_should_run (tc_quality c) \<longrightarrow> ac_requires_panel s)
        \<and> (\<exists>evs. passed_so_far s evs \<and> clean_pass c (ac_requires_panel s) evs))"
  unfolding establishes_def
proof (intro allI impI)
  fix s fl s'
  assume "\<exists>outcome es. outcome \<noteq> ''failed'' \<and> seal_seen c outcome es
        \<and> role_seen s ([HolesChecked None, MechanicalChecked outcome] @ es @ [verifier_seen c])"
    and run: "panel_stage further c ops s = (fl, s')"
  then obtain scope st outcome es where scope: "scope_seen scope" "decision_for st = Proceed"
    and outcome: "outcome \<noteq> ''failed''" "seal_seen c outcome es"
    and seen: "passed_so_far s (scope @ [RoleChecked st] @ [HolesChecked None, MechanicalChecked outcome] @ es @ [verifier_seen c])"
    by (auto simp: role_seen_def)
  from panel_passes [OF run seen]
  show "case fl of Next \<Rightarrow> (panel_should_run (tc_quality c) \<longrightarrow> ac_requires_panel s')
        \<and> (\<exists>evs. passed_so_far s' evs \<and> clean_pass c (ac_requires_panel s') evs)
      | Stop \<Rightarrow> ac_status s' \<noteq> DONE | Restart \<Rightarrow> ac_status s' = DONE"
  proof (cases fl)
    case Next
    from panel_passes [OF run seen] obtain rs where rs: "panel_seen (ac_requires_panel s') rs"
      "passed_so_far s' ((scope @ [RoleChecked st] @ [HolesChecked None, MechanicalChecked outcome] @ es @ [verifier_seen c]) @ rs)"
      "panel_should_run (tc_quality c) \<longrightarrow> ac_requires_panel s'" unfolding Next by auto
    have "clean_pass c (ac_requires_panel s')
        ((scope @ [RoleChecked st] @ [HolesChecked None, MechanicalChecked outcome] @ es @ [verifier_seen c]) @ rs)"
      unfolding clean_pass_def
      by (rule exI [of _ scope], rule exI [of _ st], rule exI [of _ outcome], rule exI [of _ es], rule exI [of _ rs])
        (use scope outcome rs(1) in simp)
    with rs show ?thesis unfolding Next flow.case by blast
  qed auto
qed

lemma subject_decides:
  "decides c ops (\<lambda>s. (panel_should_run (tc_quality c) \<longrightarrow> ac_requires_panel s)
        \<and> (\<exists>evs. passed_so_far s evs \<and> clean_pass c (ac_requires_panel s) evs)) (subject_stage ops)"
  unfolding decides_def accepted_here_def using subject_passes by (fastforce split: flow.splits)

lemma pass_decides: "decides c ops (\<lambda>s. ac_status s = DONE) (acceptance_pass further c ops pre)"
  unfolding acceptance_pass_def
  by (intro decides_followed_by [OF begin_establishes] decides_followed_by [OF reread_establishes]
      decides_followed_by [OF pin_establishes] decides_followed_by [OF role_establishes]
      decides_followed_by [OF holes_establishes] decides_followed_by [OF mechanical_establishes]
      decides_followed_by [OF seal_establishes] decides_followed_by [OF llm_establishes]
      decides_followed_by [OF panel_establishes] subject_decides)

lemma discard_keeps [simp]:
  "ac_status (discard_evidence s) = ac_status s" "ac_events (discard_evidence s) = ac_events s"
  "ac_world (discard_evidence s) = ac_world s" "ac_pass_head (discard_evidence s) = ac_pass_head s"
  "ac_requires_panel (discard_evidence s) = ac_requires_panel s"
  by (simp_all add: discard_evidence_def)

lemma accepted_discard [simp]: "accepted_here c ops (discard_evidence s) = accepted_here c ops s"
  by (simp add: accepted_here_def passed_so_far_def)

lemma accept_accepts:
  "ac_status s = DONE \<Longrightarrow> ac_status (accept further c ops pre s) = DONE \<Longrightarrow>
     accepted_here c ops (accept further c ops pre s)"
proof (induction further c ops pre s rule: accept.induct)
  case (1 further c ops pre s)
  obtain fl s' where run: "acceptance_pass further c ops pre s = (fl, s')" by fastforce
  note d = pass_decides [unfolded decides_def, rule_format, OF 1(2) run]
  show ?case
  proof (cases fl)
    case Restart
    with d have "ac_status s' = DONE" by simp
    with 1(1) [OF run [symmetric] Restart] 1(3) run Restart show ?thesis by (simp add: accept.simps [of further c ops pre s])
  next
    case Stop
    with d 1(3) run show ?thesis by (simp add: accept.simps [of further c ops pre s])
  next
    case Next
    with d show ?thesis by simp
  qed
qed

section \<open>Evidence an agent has outdated\<close>

fun is_pass :: "event \<Rightarrow> bool" where
  "is_pass (PassStarted _ _) = True"
| "is_pass _ = False"

fun is_agent :: "event \<Rightarrow> bool" where
  "is_agent (AgentRan _) = True"
| "is_agent _ = False"

definition agent_since_pass :: "'w acceptance \<Rightarrow> bool" where
  "agent_since_pass s = list_ex is_agent (takeWhile (\<lambda>e. \<not> is_pass e) (ac_events s))"

definition no_evidence :: "'w acceptance \<Rightarrow> bool" where
  "no_evidence s = (ac_mech s = None \<and> ac_seal s = None \<and> ac_role s = None \<and> ac_verified s \<noteq> Some True
     \<and> (case ac_panel s of None \<Rightarrow> True | Some v \<Rightarrow> \<not> is_approve v))"

definition marks :: "('w acceptance \<Rightarrow> flow \<times> 'w acceptance) \<Rightarrow> bool" where
  \<comment> \<open>a stage that lets an agent run does not go on, and says that the evidence is void\<close>
  "marks f = (\<forall>s fl s'. \<not> agent_since_pass s \<longrightarrow> f s = (fl, s') \<longrightarrow>
     (case fl of Next \<Rightarrow> \<not> agent_since_pass s' | Stop \<Rightarrow> agent_since_pass s' \<longrightarrow> ac_invalidated s' | Restart \<Rightarrow> True))"

lemma marks_followed_by:
  assumes "marks f" "marks g" shows "marks (followed_by f g)"
  unfolding marks_def
proof (intro allI impI)
  fix s fl s'
  assume s: "\<not> agent_since_pass s" and run: "followed_by f g s = (fl, s')"
  obtain fl1 s1 where f1: "f s = (fl1, s1)" by fastforce
  note m = assms(1) [unfolded marks_def, rule_format, OF s f1]
  show "case fl of Next \<Rightarrow> \<not> agent_since_pass s' | Stop \<Rightarrow> agent_since_pass s' \<longrightarrow> ac_invalidated s' | Restart \<Rightarrow> True"
  proof (cases fl1)
    case Next
    with m have q: "\<not> agent_since_pass s1" by simp
    from run f1 Next have "g s1 = (fl, s')" by (simp add: followed_by_def)
    from assms(2) [unfolded marks_def, rule_format, OF q this] show ?thesis .
  qed (use m run f1 in \<open>auto simp: followed_by_def\<close>)
qed

lemma corrected_marks:
  "corrected c ops k concrete s = (ok, s') \<Longrightarrow> ac_invalidated s' = ac_invalidated s"
  by (auto simp: corrected_def run_agent_def observe_def split: if_splits prod.splits)

lemma marks_role: "marks (role_and_scope c ops pre)"
  unfolding marks_def by (auto simp: role_and_scope_def flow_defs agent_since_pass_def split: if_splits)

lemma marks_holes: "marks (holes_stage c ops)"
  unfolding marks_def by (auto simp: holes_stage_def flow_defs agent_since_pass_def split: sum.splits option.splits)

lemma marks_mechanical: "marks (mechanical_stage further c ops)"
  unfolding mechanical_stage_def
proof (rule marks_followed_by)
  show "marks (verify_mechanical c ops)" unfolding marks_def
  proof (intro allI impI)
    fix s fl s'
    assume "\<not> agent_since_pass s" "verify_mechanical c ops s = (fl, s')"
    then show "case fl of Next \<Rightarrow> \<not> agent_since_pass s' | Stop \<Rightarrow> agent_since_pass s' \<longrightarrow> ac_invalidated s' | Restart \<Rightarrow> True"
      by (cases rule: verify_mechanical_shape [of c ops s])
        (auto simp: mech_done_def observe_def test_fix_defs agent_since_pass_def)
  qed
  show "marks (\<lambda>s. if map_option fst (ac_mech s) = Some ''failed'' then
      rejected further ''mechanical_verification_failed'' ''mechanical_verification_failed'' s else (Next, s))"
    unfolding marks_def by (auto simp: flow_defs agent_since_pass_def split: if_splits)
qed

lemma marks_seal: "marks (seal_stage further c ops)"
proof -
  have "agent_since_pass (verify_seal c ops s) = agent_since_pass s" for s
    using verify_seal_shape [of c ops s] by (auto simp: seal_done_def observe_def agent_since_pass_def)
  then show ?thesis unfolding marks_def seal_stage_def rejected_def Let_def
    by (auto simp: agent_since_pass_def split: if_splits)
qed

lemma marks_llm: "marks (llm_stage further c ops)"
  unfolding marks_def
  by (auto simp: llm_stage_def verify_llm_def flow_defs agent_since_pass_def
      dest!: corrected_marks split: if_splits prod.splits verifier_answer.splits)

lemma marks_panel: "marks (panel_stage further c ops)"
  unfolding marks_def
  by (auto simp: panel_stage_def panel_settled_def flow_defs agent_since_pass_def
      dest!: corrected_marks split: if_splits prod.splits sum.splits)

lemma marks_subject: "marks (subject_stage ops)"
  unfolding marks_def by (auto simp: subject_stage_def flow_defs agent_since_pass_def split: if_splits option.splits)

lemma pass_voids:
  assumes "acceptance_pass further c ops pre s = (fl, s')" "fl \<noteq> Restart"
  shows "agent_since_pass (discard_evidence s') \<longrightarrow> no_evidence (discard_evidence s')"
proof -
  obtain s1 where s1: "begin_pass s = (Next, s1)" "no_evidence s1" "agent_since_pass s1 = agent_since_pass s"
    by (auto simp: begin_pass_def no_evidence_def agent_since_pass_def)
  obtain f2 s2 where s2: "reread_summary c ops s1 = (f2, s2)" by fastforce
  have kept: "no_evidence s2" "f2 \<noteq> Restart"
    using s2 s1(2) by (auto simp: reread_summary_def flow_defs no_evidence_def split: if_splits option.splits prod.splits)
  obtain f3 s3 where s3: "pin_subject ops s2 = (f3, s3)" by fastforce
  have pinned: "no_evidence s3" "f3 = Next \<longrightarrow> \<not> agent_since_pass s3" "f3 \<noteq> Restart"
    using s3 kept(1) by (auto simp: pin_subject_def flow_defs no_evidence_def agent_since_pass_def split: option.splits)
  have none: "no_evidence s \<Longrightarrow> no_evidence (discard_evidence s)" for s :: "'a acceptance"
    by (auto simp: no_evidence_def discard_evidence_def split: option.splits)
  have void: "ac_invalidated s \<Longrightarrow> no_evidence (discard_evidence s)" for s :: "'a acceptance"
    by (auto simp: no_evidence_def discard_evidence_def split: option.splits)
  have rest: "marks (followed_by (role_and_scope c ops pre) (followed_by (holes_stage c ops)
       (followed_by (mechanical_stage further c ops) (followed_by (seal_stage further c ops)
       (followed_by (llm_stage further c ops) (followed_by (panel_stage further c ops) (subject_stage ops)))))))"
    by (intro marks_followed_by marks_role marks_holes marks_mechanical marks_seal marks_llm marks_panel marks_subject)
  note run = assms(1) [unfolded acceptance_pass_def followed_by_def [of begin_pass] followed_by_def [of "reread_summary c ops"]
      followed_by_def [of "pin_subject ops"] s1(1) prod.case flow.case s2]
  have keep: "agent_since_pass (discard_evidence s') = agent_since_pass s'" by (simp add: agent_since_pass_def)
  show ?thesis
  proof (cases "f2 = Next \<and> f3 = Next")
    case True
    note run = run [unfolded conjunct1 [OF True] flow.case prod.case s3 conjunct2 [OF True]]
    from rest [unfolded marks_def, rule_format, OF _ run] pinned True void assms(2) keep
    show ?thesis by (cases fl) auto
  next
    case False
    with run s3 kept pinned have "s' = s2 \<or> s' = s3" by (cases f2; cases f3) auto
    with kept pinned none show ?thesis by auto
  qed
qed

lemma accept_voids:
  "agent_since_pass (accept further c ops pre s) \<Longrightarrow> no_evidence (accept further c ops pre s)"
proof (induction further c ops pre s rule: accept.induct)
  case (1 further c ops pre s)
  obtain fl s' where run: "acceptance_pass further c ops pre s = (fl, s')" by fastforce
  show ?case
  proof (cases fl)
    case Restart
    with 1(1) [OF run [symmetric] Restart] 1(2) run show ?thesis by (simp add: accept.simps [of further c ops pre s])
  qed (use pass_voids [OF run] 1(2) run in \<open>simp_all add: accept.simps [of further c ops pre s]\<close>)
qed

section \<open>How often the agent is called back\<close>

definition agents :: "'w acceptance \<Rightarrow> nat" where
  "agents s = length (filter is_agent (ac_events s))"

definition pays :: "task_conf \<Rightarrow> ('w acceptance \<Rightarrow> flow \<times> 'w acceptance) \<Rightarrow> bool" where
  "pays c f = (\<forall>s fl s'. f s = (fl, s') \<longrightarrow>
     agents s' + work_left c s' \<le> agents s + work_left c s
     \<and> ac_generation s' + agents s \<le> ac_generation s + agents s')"

lemma pays_followed_by: "pays c f \<Longrightarrow> pays c g \<Longrightarrow> pays c (followed_by f g)"
proof -
  assume f: "pays c f" and g: "pays c g"
  show "pays c (followed_by f g)" unfolding pays_def
  proof (intro allI impI)
    fix s fl s'
    assume run: "followed_by f g s = (fl, s')"
    obtain fl1 s1 where f1: "f s = (fl1, s1)" by fastforce
    note p1 = f [unfolded pays_def, rule_format, OF f1]
    show "agents s' + work_left c s' \<le> agents s + work_left c s \<and> ac_generation s' + agents s \<le> ac_generation s + agents s'"
    proof (cases fl1)
      case Next
      with run f1 have "g s1 = (fl, s')" by (simp add: followed_by_def)
      from g [unfolded pays_def, rule_format, OF this] p1 show ?thesis by linarith
    qed (use run f1 p1 in \<open>auto simp: followed_by_def\<close>)
  qed
qed

lemmas pay_defs = pays_def agents_def work_left_def flow_defs

lemma pays_begin: "pays c begin_pass"
  by (auto simp: pay_defs begin_pass_def)

lemma pays_reread: "pays c (reread_summary c ops)"
  by (auto simp: pay_defs reread_summary_def split: if_splits option.splits prod.splits)

lemma pays_pin: "pays c (pin_subject ops)"
  by (auto simp: pay_defs pin_subject_def split: option.splits)

lemma pays_role: "pays c (role_and_scope c ops pre)"
  unfolding pays_def by (auto simp: agents_def work_left_def flow_defs role_and_scope_def split: if_splits)

lemma pays_holes: "pays c (holes_stage c ops)"
  by (auto simp: pay_defs holes_stage_def split: sum.splits option.splits)

definition idle :: "'w acceptance \<Rightarrow> 'w acceptance \<Rightarrow> bool" where
  "idle s s' = (counters s' = counters s \<and> agents s' = agents s \<and> ac_generation s' = ac_generation s)"

lemma idle_pays: "idle s s' \<Longrightarrow> agents s' + work_left c s' \<le> agents s + work_left c s
     \<and> ac_generation s' + agents s \<le> ac_generation s + agents s'"
  using work_left_counters [of s s' c] by (simp add: idle_def)

lemma verify_mechanical_cases:
  assumes "verify_mechanical c ops s = (fl, s')"
  shows "idle s s' \<or> (\<not> ac_retried s \<and> counters s' = (ac_iterations s, ac_panel_used s, True)
     \<and> agents s' = Suc (agents s) \<and> ac_generation s' = Suc (ac_generation s))"
  using assms
  by (cases rule: verify_mechanical_shape [of c ops s])
    (auto simp: mech_done_def observe_def test_fix_defs idle_def counters_def agents_def)

lemma corrected_pays:
  "corrected c ops k concrete s = (ok, s') \<Longrightarrow> counters s' = counters s \<and> ac_generation s' = ac_generation s
     \<and> (agents s' = agents s \<and> \<not> ok \<or> agents s' = Suc (agents s))"
  by (auto simp: corrected_def run_agent_def observe_def counters_def agents_def split: if_splits prod.splits)

lemma panel_stage_cases:
  assumes "panel_stage further c ops s = (fl, s')"
  shows "idle s s' \<or> (int (ac_panel_used s) < tc_panel_iterate c \<and> ac_panel_used s' = Suc (ac_panel_used s)
     \<and> ac_iterations s' = ac_iterations s \<and> agents s' \<le> Suc (agents s)
     \<and> ac_generation s' + agents s \<le> ac_generation s + agents s')"
  using assms
  by (auto simp: panel_stage_def panel_settled_def idle_def counters_def agents_def flow_defs
      dest!: corrected_pays split: if_splits prod.splits sum.splits)

lemma verify_llm_cases:
  assumes "verify_llm further c ops s = (fl, s')"
  shows "idle s s' \<or> (int (ac_iterations s) < verify_budget c \<and> ac_iterations s' = Suc (ac_iterations s)
     \<and> ac_panel_used s' = ac_panel_used s \<and> agents s' \<le> Suc (agents s)
     \<and> ac_generation s' + agents s \<le> ac_generation s + agents s')"
  using assms
  by (auto simp: verify_llm_def idle_def counters_def agents_def flow_defs
      dest!: corrected_pays split: if_splits prod.splits verifier_answer.splits)

lemma pays_mechanical: "pays c (mechanical_stage further c ops)"
  unfolding mechanical_stage_def
proof (rule pays_followed_by)
  show "pays c (verify_mechanical c ops)" unfolding pays_def
  proof (intro allI impI)
    fix s fl s'
    assume "verify_mechanical c ops s = (fl, s')"
    from verify_mechanical_cases [OF this] idle_pays [of s s' c]
    show "agents s' + work_left c s' \<le> agents s + work_left c s \<and> ac_generation s' + agents s \<le> ac_generation s + agents s'"
      by (auto simp: work_left_def counters_def)
  qed
  show "pays c (\<lambda>s. if map_option fst (ac_mech s) = Some ''failed'' then
      rejected further ''mechanical_verification_failed'' ''mechanical_verification_failed'' s else (Next, s))"
    by (auto simp: pay_defs split: if_splits)
qed

lemma pays_seal: "pays c (seal_stage further c ops)"
proof -
  have "agents (verify_seal c ops s) = agents s \<and> work_left c (verify_seal c ops s) = work_left c s
      \<and> ac_generation (verify_seal c ops s) = ac_generation s" for s
    using verify_seal_shape [of c ops s] by (auto simp: seal_done_def observe_def agents_def work_left_def)
  then show ?thesis unfolding pays_def seal_stage_def rejected_def Let_def
    by (auto simp: agents_def work_left_def split: if_splits)
qed

lemma pays_llm: "pays c (llm_stage further c ops)"
proof -
  have "pays c (verify_llm further c ops)" unfolding pays_def
  proof (intro allI impI)
    fix s fl s'
    assume "verify_llm further c ops s = (fl, s')"
    from verify_llm_cases [OF this] idle_pays [of s s' c]
    show "agents s' + work_left c s' \<le> agents s + work_left c s \<and> ac_generation s' + agents s \<le> ac_generation s + agents s'"
      by (auto simp: work_left_def)
  qed
  then show ?thesis by (auto simp: llm_stage_def pay_defs split: if_splits)
qed

lemma pays_panel: "pays c (panel_stage further c ops)" unfolding pays_def
proof (intro allI impI)
  fix s fl s'
  assume "panel_stage further c ops s = (fl, s')"
  from panel_stage_cases [OF this] idle_pays [of s s' c]
  show "agents s' + work_left c s' \<le> agents s + work_left c s \<and> ac_generation s' + agents s \<le> ac_generation s + agents s'"
    by (auto simp: work_left_def)
qed

lemma pays_subject: "pays c (subject_stage ops)"
  by (auto simp: pay_defs subject_stage_def split: if_splits option.splits)

interpretation payment: pass_contract "pays c" for c
  by unfold_locales (rule pays_followed_by)

lemma pays_pass: "pays c (acceptance_pass further c ops pre)"
  by (intro payment.by_the_pass pays_begin pays_reread pays_pin pays_role pays_holes
      pays_mechanical pays_seal pays_llm pays_panel pays_subject)

lemma accept_pays:
  "agents (accept further c ops pre s) \<le> agents s + work_left c s
   \<and> ac_generation (accept further c ops pre s) + agents s \<le> ac_generation s + agents (accept further c ops pre s)"
proof (induction further c ops pre s rule: accept.induct)
  case (1 further c ops pre s)
  obtain fl s' where run: "acceptance_pass further c ops pre s = (fl, s')" by fastforce
  note p = pays_pass [of c further ops pre, unfolded pays_def, rule_format, OF run]
  have d: "agents (discard_evidence s') = agents s'" "ac_generation (discard_evidence s') = ac_generation s'"
    by (simp_all add: agents_def discard_evidence_def)
  show ?case
  proof (cases fl)
    case Restart
    with 1(1) [OF run [symmetric] Restart] p run show ?thesis by (simp add: accept.simps [of further c ops pre s])
  qed (use p run d in \<open>simp_all add: accept.simps [of further c ops pre s]\<close>)
qed

section \<open>The statuses an acceptance ends with\<close>

definition keeps_valid :: "('w acceptance \<Rightarrow> flow \<times> 'w acceptance) \<Rightarrow> bool" where
  "keeps_valid f = (\<forall>s. ac_status s \<in> set valid_statuses \<longrightarrow> ac_status (snd (f s)) \<in> set valid_statuses)"

interpretation statuses: pass_contract keeps_valid
  by unfold_locales (auto simp: keeps_valid_def followed_by_def split: prod.splits flow.splits)

lemma blocked_valid [simp]: "BLOCKED \<in> set valid_statuses" "ESCALATED \<in> set valid_statuses" "DONE \<in> set valid_statuses"
  by (simp_all add: valid_statuses_def)

lemma resolve_summary_valid:
  assumes "resolve_summary c ops sm w = ((st, url, reason), w')" "\<not> malformed sm" "sm = parse_summary file"
  shows "st \<in> set valid_statuses"
  using sound_summary_status [of "file"] assms
  by (auto simp: resolve_summary_def or_default_def Let_def split: if_splits prod.splits sum.splits)

lemma keeps_valid_stages:
  "keeps_valid begin_pass" "keeps_valid (pin_subject ops)"
  "keeps_valid (holes_stage c ops)" "keeps_valid (subject_stage ops)"
  by (auto simp: keeps_valid_def begin_pass_def pin_subject_def holes_stage_def subject_stage_def flow_defs
      split: if_splits option.splits sum.splits)

lemma keeps_valid_role: "keeps_valid (role_and_scope c ops pre)"
  unfolding keeps_valid_def by (auto simp: role_and_scope_def flow_defs split: if_splits)

lemma keeps_valid_reread: "keeps_valid (reread_summary c ops)"
  unfolding keeps_valid_def reread_summary_def
  by (auto simp: flow_defs split: if_splits prod.splits dest!: resolve_summary_valid)

lemma keeps_valid_mechanical: "keeps_valid (mechanical_stage further c ops)"
  unfolding mechanical_stage_def
proof (rule statuses.in_sequence)
  have "ac_status (snd (verify_mechanical c ops s)) = ac_status s" for s
    by (cases rule: verify_mechanical_shape [of c ops s]) (auto simp: mech_done_def observe_def test_fix_defs)
  then show "keeps_valid (verify_mechanical c ops)" by (simp add: keeps_valid_def)
qed (auto simp: keeps_valid_def rejected_def Let_def)

lemma keeps_valid_seal: "keeps_valid (seal_stage further c ops)"
proof -
  have "ac_status (verify_seal c ops s) = ac_status s" for s
    using verify_seal_shape [of c ops s] by (auto simp: seal_done_def observe_def)
  then show ?thesis by (auto simp: keeps_valid_def seal_stage_def rejected_def Let_def)
qed

lemma keeps_valid_llm: "keeps_valid (llm_stage further c ops)"
  unfolding keeps_valid_def
  by (auto simp: llm_stage_def verify_llm_def flow_defs dest!: corrected_counters
      split: if_splits prod.splits verifier_answer.splits)

lemma keeps_valid_panel: "keeps_valid (panel_stage further c ops)"
  unfolding keeps_valid_def
  by (auto simp: panel_stage_def panel_settled_def flow_defs dest!: corrected_counters
      split: if_splits prod.splits sum.splits)

lemma accept_valid: "ac_status s \<in> set valid_statuses \<Longrightarrow> ac_status (accept further c ops pre s) \<in> set valid_statuses"
proof (induction further c ops pre s rule: accept.induct)
  case (1 further c ops pre s)
  obtain fl s' where run: "acceptance_pass further c ops pre s = (fl, s')" by fastforce
  have "keeps_valid (acceptance_pass further c ops pre)"
    by (intro statuses.by_the_pass keeps_valid_stages keeps_valid_reread keeps_valid_role keeps_valid_mechanical
        keeps_valid_seal keeps_valid_llm keeps_valid_panel)
  with run 1(2) have valid: "ac_status s' \<in> set valid_statuses" by (auto simp: keeps_valid_def dest!: spec [of _ s])
  show ?case
  proof (cases fl)
    case Restart
    with 1(1) [OF run [symmetric] Restart] valid run show ?thesis by (simp add: accept.simps [of further c ops pre s])
  qed (use valid run in \<open>simp_all add: accept.simps [of further c ops pre s]\<close>)
qed

section \<open>The acceptance of a rung\<close>

definition start_acceptance :: "'w \<Rightarrow> summary \<Rightarrow> string option \<Rightarrow> 'w acceptance" where
  \<comment> \<open>a rung's locals and a new cycle, once its summary resolved to Done\<close>
  "start_acceptance w sm url = \<lparr>ac_world = w, ac_events = [], ac_generation = 0, ac_retried = False, ac_iterations = 0,
     ac_requires_panel = False, ac_invalidated = False, ac_config = None, ac_summary = sm, ac_status = DONE, ac_url = url,
     ac_reason = None, ac_pass_head = None, ac_role = None, ac_gate_base = None, ac_mech = None, ac_seal = None,
     ac_verified = None, ac_verify_iterations = 0, ac_verify_detail = None, ac_panel = None, ac_panel_used = 0,
     ac_history = [], ac_stalled = False, ac_fail_reason = None, ac_advance = False\<rparr>"

definition some_task :: task_conf where
  "some_task = \<lparr>tc_key = ''FIX-1'',
     tc_quality = \<lparr>pi_type = ''docs'', pi_labels = [''size:S''], pi_verify = Some ''llm'', pi_panel = None, pi_design_verify = None,
       pi_design_panel = None, pi_run_panel = ''auto'', pi_skip_verification = False\<rparr>,
     tc_specs = [], tc_owns = [], tc_anchor = None, tc_branch = ''b'', tc_base = ''main'', tc_base_sha = ''0'',
     tc_pr_mode = False, tc_unattended = True, tc_loop_gate = False, tc_max_verify = 2, tc_panel_iterate = 1, tc_patience = 2\<rparr>"

definition some_summary_text :: string where
  "some_summary_text = ''**Status:** Done''"

definition some_summary :: summary where
  "some_summary = parse_summary (Some some_summary_text)"

definition counting_git :: "nat seal_ops" where
  \<comment> \<open>git answers and changes nothing\<close>
  "counting_git = \<lparr>sl_diff = (\<lambda>_ _. Some (0, [])), sl_checkout = (\<lambda>_ _ w. (Some 0, w)), sl_unlink = (\<lambda>_ w. (NotThere, w)),
     sl_run = (\<lambda>_ w. ((Some 0, []), w)), sl_reset = (\<lambda>w. (Some 0, w)), sl_clean = (\<lambda>w. (Some 0, w)),
     sl_status = (\<lambda>_. Some (0, []))\<rparr>"

definition verified_result :: verifier_result where
  "verified_result = \<lparr>va_verdict = \<lparr>vv_verdict = VERIFIED, vv_gaps = [], vv_reason = None, vv_raw = []\<rparr>,
     va_error = None\<rparr>"

definition gap_result :: verifier_result where
  "gap_result = \<lparr>va_verdict = incomplete_verdict [\<lparr>gp_index = 1, gp_location = None, gp_description = ''g''\<rparr>] None [],
     va_error = None\<rparr>"

definition counting_ops :: "bool \<Rightarrow> (nat \<Rightarrow> verifier_result) \<Rightarrow> nat task_ops" where
  \<comment> \<open>the world counts the commits; \<open>commits\<close> is whether the agent makes one\<close>
  "counting_ops commits verifier = \<lparr>to_summary = \<lambda>_. Some some_summary_text, to_human = \<lambda>w. (''skip'', w),
     to_raise_pr = \<lambda>_ w. (Inl [], w), to_head = \<lambda>w. Some (nat_digits w), to_sha = \<lambda>_ w. Some (nat_digits w),
     to_dirty = \<lambda>_. [], to_ancestor = \<lambda>_ _ _. False, to_repo = \<lambda>_. \<lparr>lr_text_at = \<lambda>_. Inl (), lr_yaml = \<lambda>_. Inl (), lr_branch = \<lambda>_. bodies_inputs\<rparr>, to_name_status = \<lambda>_ _. None,
     to_tasks = \<lambda>_. [], to_functions = \<lambda>_ _. None, to_base_config = \<lambda>_. Inr (Some ''make test''),
     to_style = \<lambda>_. None, to_register = \<lambda>_. None, to_scripts = \<lambda>_ _. [], to_test = \<lambda>_ _ w. ((True, []), w), to_seal = counting_git,
     to_diff = \<lambda>_. ''diff'', to_verifier = \<lambda>w. (verifier w, w), to_classified = \<lambda>_. None,
     to_panel = \<lambda>w. (Inl [], w), to_agent = \<lambda>_ w. (Some 0, if commits then Suc w else w)\<rparr>"

text \<open>
  C14. Nothing is accepted on evidence about other work: when the acceptance of a rung ends with Done,
  its last pass read one commit, and in that pass, with no agent run and no restart in between,
  the scope gate saw no blocking excursion, the role gate and the holes gate let the branch pass, the
  test command did not fail, the seal inversion (where it is due) did not fail, the verifier answered
  verified (unless its level or label skips it) and the panel approved (whenever it is required);
  HEAD is still that commit and the tree is clean.
\<close>

theorem accepted_on_one_commit:
  assumes "ac_status (accept further c ops pre (start_acceptance w sm url)) = DONE"
  shows "accepted_here c ops (accept further c ops pre (start_acceptance w sm url))"
  using accept_accepts [OF _ assms] by (simp add: start_acceptance_def)

theorem accepted_on_one_commit_witness:
  "accepted_here some_task (counting_ops True (\<lambda>w. if w < 1 then gap_result else verified_result))
     (accept False some_task (counting_ops True (\<lambda>w. if w < 1 then gap_result else verified_result)) None
        (start_acceptance 0 some_summary None))"
  by (rule accepted_on_one_commit) code_simp

text \<open>
  C17. What an agent has outdated is not stamped on the row: if an agent ran after the last pass had
  read its commit, the acceptance leaves no test outcome, no seal outcome, no role gate outcome, no
  positive verification and no approval of the panel behind; refusals are kept.
\<close>

theorem outdated_evidence_discarded:
  assumes "agent_since_pass (accept further c ops pre s)"
  shows "no_evidence (accept further c ops pre s)"
  using assms by (rule accept_voids)

theorem outdated_evidence_discarded_witness:
  "ac_mech (accept False some_task (counting_ops False (\<lambda>w. gap_result)) None (start_acceptance 0 some_summary None)) = None"
proof -
  have "agent_since_pass (accept False some_task (counting_ops False (\<lambda>w. gap_result)) None (start_acceptance 0 some_summary None))"
    by code_simp
  from outdated_evidence_discarded [OF this] show ?thesis by (simp add: no_evidence_def)
qed

text \<open>
  C19. The acceptance ends: whatever the tests, the verifier and the panel answer, a rung's acceptance
  calls the agent back at most twice per iteration its verifier budget and its panel budget allow,
  and once more, and makes no more restarts than that.
\<close>

theorem acceptance_bounded:
  "agents (accept further c ops pre (start_acceptance w sm url))
     \<le> 2 * nat (verify_budget c) + 2 * nat (tc_panel_iterate c) + 1
   \<and> ac_generation (accept further c ops pre (start_acceptance w sm url))
     \<le> agents (accept further c ops pre (start_acceptance w sm url))"
  using accept_pays [of further c ops pre "start_acceptance w sm url"]
  by (simp add: start_acceptance_def agents_def work_left_def)

end
