(* ===== verification/TaskRun.thy ===== *)
theory TaskRun
  imports Accepted Accounts
begin

text \<open>
  A task's run (\<^verbatim>\<open>orchestrator._run_task\<close> from the pre-implementer commit on): the rungs of the
  cascade, each a spawn with its provider retries, the recovery of a missing summary or commit and
  an acceptance, then the landing of the work and the row the task is left with
  (\<^verbatim>\<open>_apply\<close>, \<^verbatim>\<open>_mark_blocked\<close>, \<^verbatim>\<open>_record_retry_anchor\<close>, \<^verbatim>\<open>_forget_escalated_effort\<close>).
  Token counts, log lines, notifications and journal events are left out.
\<close>

section \<open>The surroundings of a run\<close>

record landing =
  li_status :: string
  li_sha :: "string option"
  li_detail :: string

record 'w driver =
  dv_ops :: "'w task_ops"
  dv_spawner :: "rung \<Rightarrow> 'w spawner"
  dv_reset :: "string option \<Rightarrow> 'w \<Rightarrow> 'w"        \<comment> \<open>the worktree back on a commit, the summary removed\<close>
  dv_summary_there :: "'w \<Rightarrow> bool"
  dv_commits :: "string \<Rightarrow> 'w \<Rightarrow> int option"     \<comment> \<open>\<^verbatim>\<open>git rev-list --count X..HEAD\<close>\<close>
  dv_base_commits :: "string \<Rightarrow> string \<Rightarrow> string option \<Rightarrow> 'w \<Rightarrow> int option"
  dv_subjects :: "'w \<Rightarrow> string list option"
  dv_integrate :: "'w \<Rightarrow> landing \<times> 'w"
  dv_open_pr :: "summary \<Rightarrow> 'w \<Rightarrow> (string + string \<times> int option) \<times> 'w"
  dv_push :: "'w \<Rightarrow> bool \<times> 'w"                   \<comment> \<open>whether the push is still owed\<close>

record run_conf =
  rc_task :: task_conf
  rc_baseline :: "string option"                \<comment> \<open>\<^verbatim>\<open>feat_baseline_sha\<close>\<close>
  rc_pre_spawn :: "string option"
  rc_implementer :: "string option"
  rc_version :: string
  rc_agent_version :: "string option"
  rc_auto_integrate :: bool
  rc_now :: string

record 'w task_run =
  tr_world :: 'w
  tr_row :: row
  tr_spawn :: spawn_state
  tr_agent :: "string option"                   \<comment> \<open>\<^verbatim>\<open>snap.agent\<close>, \<^verbatim>\<open>snap.effort\<close>\<close>
  tr_effort :: "string option"
  tr_fail :: "string option"                    \<comment> \<open>\<^verbatim>\<open>fail_reason\<close>\<close>
  tr_later :: bool                              \<comment> \<open>not on the first rung\<close>

section \<open>The row\<close>

definition set_some :: "string \<Rightarrow> pyval option \<Rightarrow> row \<Rightarrow> row" where
  "set_some k v r = (case v of None \<Rightarrow> r | Some x \<Rightarrow> row_set r k x)"

definition text_value :: "string option \<Rightarrow> pyval option" where
  \<comment> \<open>\<^verbatim>\<open>if v:\<close>\<close>
  "text_value v = map_option PStr (truthy_text v)"

definition agent_meta :: "run_conf \<Rightarrow> string option \<Rightarrow> row" where
  "agent_meta g agent = [(''agent'', PStr (or_default agent (or_default (rc_implementer g) ''claude''))),
     (''dispatcher_version'', PStr (rc_version g))]
     @ (case truthy_text (rc_agent_version g) of None \<Rightarrow> [] | Some v \<Rightarrow> [(''agent_version'', PStr v)])"

definition mark_blocked :: "run_conf \<Rightarrow> string \<Rightarrow> row \<Rightarrow> row" where
  "mark_blocked g reason r = row_update r ([(''status'', PStr BLOCKED), (''completed_at'', PStr (rc_now g)),
     (''blocked_reason'', PStr reason)] @ agent_meta g None)"

definition forget_escalated_effort :: "string \<Rightarrow> row \<Rightarrow> row" where
  "forget_escalated_effort st r =
     (if st \<noteq> DONE then r
      else (let r = (if truthy (row_get r ''effort_escalated'')
                     then row_pop (row_pop r ''effort_escalated'') ''effort'' else row_pop r ''effort_escalated'')
            in if truthy (row_get r ''agent_escalated'')
               then row_pop (row_pop r ''agent_escalated'') ''agent'' else row_pop r ''agent_escalated''))"

definition record_retry_anchor :: "string \<Rightarrow> string option \<Rightarrow> row \<Rightarrow> row" where
  "record_retry_anchor st base r =
     (if st = DONE then row_pop r ''gate_base_sha''
      else if st = BLOCKED \<and> truthy_text base \<noteq> None \<and> map_of r ''gate_base_sha'' = None
      then set_some ''gate_base_sha'' (text_value base) r else r)"

definition stamp_agent_effort :: "rung \<Rightarrow> string option \<Rightarrow> string option \<Rightarrow> row \<Rightarrow> row" where
  \<comment> \<open>the rung used, the effort and the agent that were planned\<close>
  "stamp_agent_effort u planned_effort planned_agent r =
     (let r = row_set r ''agent'' (PStr (fst u));
          r = (if truthy_text (snd u) = None then r
               else (let r = set_some ''effort'' (text_value (snd u)) r
                     in if snd u \<noteq> planned_effort then row_set r ''effort_escalated'' (PBool True) else r))
      in if truthy_text planned_agent \<noteq> None \<and> planned_agent \<noteq> Some (fst u)
         then row_set r ''agent_escalated'' (PBool True) else r)"

section \<open>The commits of a branch\<close>

definition has_commits :: "run_conf \<Rightarrow> 'w driver \<Rightarrow> string option \<Rightarrow> 'w \<Rightarrow> bool" where
  \<comment> \<open>\<open>before\<close>: the base's commit before the agent ran\<close>
  "has_commits g d before w =
     (let base = tc_base (rc_task g) in
      case dv_commits d (or_default (rc_baseline g) base) w of
        None \<Rightarrow> False
      | Some n \<Rightarrow>
          if 0 < n then True
          else (case (before, to_sha (dv_ops d) base w) of
              (Some b, Some a) \<Rightarrow> a \<noteq> b \<and>
                (case dv_base_commits d b a (truthy_text (rc_baseline g)) w of None \<Rightarrow> False | Some m \<Rightarrow> 0 < m)
            | _ \<Rightarrow> False))"

definition own_commits :: "run_conf \<Rightarrow> 'w driver \<Rightarrow> 'w \<Rightarrow> bool" where
  "own_commits g d w = (case dv_subjects d w of None \<Rightarrow> False
     | Some ls \<Rightarrow> list_ex (\<lambda>l. contains l (''['' @ tc_key (rc_task g) @ '']'')) ls)"

definition base_before :: "run_conf \<Rightarrow> string option" where
  "base_before g = Some (tc_base_sha (rc_task g))"

definition recover_missing_summary :: "run_conf \<Rightarrow> 'w driver \<Rightarrow> 'w \<Rightarrow> bool \<times> 'w" where
  "recover_missing_summary g d w =
     (if \<not> has_commits g d (base_before g) w then (False, w)
      else (case to_agent (dv_ops d) SummaryRecovery w of
          (None, w) \<Rightarrow> (False, w)
        | (Some _, w) \<Rightarrow> (dv_summary_there d w, w)))"

definition retry_for_commit :: "run_conf \<Rightarrow> 'w driver \<Rightarrow> 'w \<Rightarrow> bool \<times> 'w" where
  "retry_for_commit g d w =
     (let before = to_sha (dv_ops d) (tc_base (rc_task g)) w in
      case to_agent (dv_ops d) CommitRetry w of
        (None, w) \<Rightarrow> (False, w)
      | (Some _, w) \<Rightarrow> (has_commits g d before w, w))"

section \<open>A rung\<close>

datatype 'w rung_end =
    NextRung
  | GiveUp                                      \<comment> \<open>no agent's work to settle\<close>
  | BlockRow string                             \<comment> \<open>\<^verbatim>\<open>_mark_blocked\<close> and return\<close>
  | SettleRow "'w acceptance"

definition accept_work ::
  "bool \<Rightarrow> run_conf \<Rightarrow> 'w driver \<Rightarrow> summary \<Rightarrow> 'w task_run \<Rightarrow> 'w rung_end \<times> 'w task_run" where
  "accept_work further g d sm st =
     (case resolve_summary (rc_task g) (dv_ops d) sm (tr_world st) of ((status, url, reason), w) \<Rightarrow>
        if status \<noteq> DONE
        then (SettleRow ((start_acceptance w sm url)\<lparr>ac_status := status, ac_reason := reason\<rparr>), st\<lparr>tr_world := w\<rparr>)
        else (let a = accept further (rc_task g) (dv_ops d) (rc_pre_spawn g) (start_acceptance w sm url);
                  st = st\<lparr>tr_world := ac_world a\<rparr>
              in if ac_advance a then (NextRung, st\<lparr>tr_fail := ac_fail_reason a\<rparr>) else (SettleRow a, st)))"

definition check_work :: "bool \<Rightarrow> run_conf \<Rightarrow> 'w driver \<Rightarrow> 'w task_run \<Rightarrow> 'w rung_end \<times> 'w task_run" where
  \<comment> \<open>the reasons of a malformed summary are reduced to their kind\<close>
  "check_work further g d st =
     (let sm = parse_summary (to_summary (dv_ops d) (tr_world st)) in
      if malformed sm then (BlockRow ''summary_malformed'', st)
      else if sm_status sm = Some DONE \<and> \<not> has_commits g d (base_before g) (tr_world st) \<and> \<not> own_commits g d (tr_world st)
      then (case retry_for_commit g d (tr_world st) of (ok, w) \<Rightarrow>
        (let st = st\<lparr>tr_world := w\<rparr> in
         if \<not> ok then (BlockRow ''no commits produced after commit-retry; Tasker spawn 2x failed to commit'', st)
         else (let sm = parse_summary (to_summary (dv_ops d) w) in
           if malformed sm then (BlockRow ''summary_malformed after commit retry'', st)
           else accept_work further g d sm st)))
      else accept_work further g d sm st)"

definition use_rung :: "string option \<Rightarrow> string option \<Rightarrow> rung \<Rightarrow> 'w task_run \<Rightarrow> 'w task_run" where
  \<comment> \<open>stamp a rung that is not the row's own\<close>
  "use_rung planned_effort planned_agent u st =
     (if fst u \<noteq> or_default (tr_agent st) ''claude'' \<or> snd u \<noteq> tr_effort st
      then st\<lparr>tr_row := stamp_agent_effort u planned_effort planned_agent (tr_row st),
              tr_agent := Some (fst u), tr_effort := snd u\<rparr>
      else st)"

definition after_spawn ::
  "(string \<Rightarrow> string) \<Rightarrow> bool \<Rightarrow> run_conf \<Rightarrow> 'w driver \<Rightarrow> string option \<Rightarrow> string option \<Rightarrow> rung
   \<Rightarrow> string + spawn_out \<Rightarrow> 'w task_run \<Rightarrow> 'w rung_end \<times> 'w task_run" where
  "after_spawn fl further g d planned_effort planned_agent u out st =
     (case out of
        Inl e \<Rightarrow> (NextRung, st\<lparr>tr_fail := Some e\<rparr>)
      | Inr r \<Rightarrow>
          if so_exit r \<noteq> 0 then
            (let f = classify fl (so_exit r) (so_out r) (so_err r)
             in if blocks_cascade f then (GiveUp, st) else (NextRung, st\<lparr>tr_fail := Some (fl_reason f)\<rparr>))
          else (case (if dv_summary_there d (tr_world st) then (True, tr_world st)
                      else recover_missing_summary g d (tr_world st)) of (there, w) \<Rightarrow>
            (let st = st\<lparr>tr_world := w\<rparr> in
             if \<not> there then (NextRung, st\<lparr>tr_fail := Some ''summary_missing''\<rparr>)
             else check_work further g d (use_rung planned_effort planned_agent u st))))"

definition run_rung ::
  "nat \<Rightarrow> (string \<Rightarrow> string) \<Rightarrow> bool \<Rightarrow> run_conf \<Rightarrow> 'w driver \<Rightarrow> string option \<Rightarrow> string option \<Rightarrow> rung
   \<Rightarrow> 'w task_run \<Rightarrow> ('w rung_end \<times> 'w task_run) option" where
  "run_rung fuel fl further g d planned_effort planned_agent u st =
     (let w = (if tr_later st then dv_reset d (rc_pre_spawn g) (tr_world st) else tr_world st) in
      case spawn_loop fuel fl (dv_spawner d u) ((tr_spawn st)\<lparr>sp_retries := 0\<rparr>) w of
        None \<Rightarrow> None
      | Some (out, sp, w) \<Rightarrow> Some (after_spawn fl further g d planned_effort planned_agent u out
          (st\<lparr>tr_world := w, tr_spawn := sp, tr_later := True\<rparr>)))"

fun run_rungs ::
  "nat \<Rightarrow> (string \<Rightarrow> string) \<Rightarrow> run_conf \<Rightarrow> 'w driver \<Rightarrow> string option \<Rightarrow> string option \<Rightarrow> rung list
   \<Rightarrow> 'w task_run \<Rightarrow> ('w rung_end \<times> 'w task_run) option" where
  "run_rungs fuel fl g d pe pa [] st = Some (GiveUp, st)"
| "run_rungs fuel fl g d pe pa (u # us) st =
     (case run_rung fuel fl (us \<noteq> []) g d pe pa u st of
        None \<Rightarrow> None
      | Some (NextRung, st') \<Rightarrow> run_rungs fuel fl g d pe pa us st'
      | Some (e, st') \<Rightarrow> Some (e, st'))"

section \<open>Landing\<close>

definition landed_statuses :: "string list" where
  "landed_statuses = [''integrated'', ''skipped-disabled'', ''skipped-already-on'', ''skipped-no-commits'']"

definition integrate_work :: "run_conf \<Rightarrow> 'w driver \<Rightarrow> 'w acceptance \<Rightarrow> landing option \<times> 'w acceptance" where
  "integrate_work g d a =
     (if rc_auto_integrate g \<and> ac_status a = DONE then
        (case dv_integrate d (ac_world a) of (li, w) \<Rightarrow>
           (Some li, if li_status li \<in> set landed_statuses then a\<lparr>ac_world := w\<rparr>
              else a\<lparr>ac_world := w, ac_status := BLOCKED,
                ac_reason := Some (''auto_integrate_'' @ li_status li @ '': '' @ take 300 (li_detail li))\<rparr>))
      else (None, a))"

record 'w landed =
  la_acceptance :: "'w acceptance"
  la_number :: "int option"
  la_needs_push :: bool

definition land_work :: "run_conf \<Rightarrow> 'w driver \<Rightarrow> 'w acceptance \<Rightarrow> 'w landed" where
  "land_work g d a =
     (if tc_pr_mode (rc_task g) \<and> ac_status a = DONE then
        (case dv_open_pr d (ac_summary a) (ac_world a) of
           (Inr (url, n), w) \<Rightarrow> \<lparr>la_acceptance = a\<lparr>ac_world := w, ac_status := AWAITING_REVIEW, ac_url := Some url\<rparr>,
              la_number = n, la_needs_push = False\<rparr>
         | (Inl reason, w) \<Rightarrow> \<lparr>la_acceptance = a\<lparr>ac_world := w, ac_status := BLOCKED, ac_reason := Some reason\<rparr>,
              la_number = None, la_needs_push = False\<rparr>)
      else if ac_status a = DONE \<and> \<not> rc_auto_integrate g \<and> ac_url a = None then
        (case dv_push d (ac_world a) of (owed, w) \<Rightarrow>
         (case subject_problem (dv_ops d) (ac_pass_head a) w of
            None \<Rightarrow> \<lparr>la_acceptance = a\<lparr>ac_world := w\<rparr>, la_number = None, la_needs_push = owed\<rparr>
          | Some p \<Rightarrow> \<lparr>la_acceptance = a\<lparr>ac_world := w, ac_status := BLOCKED,
                ac_reason := Some (p @ '' after push recovery''), ac_mech := None, ac_seal := None,
                ac_verified := None, ac_panel := None, ac_role := None\<rparr>, la_number = None, la_needs_push = owed\<rparr>))
      else \<lparr>la_acceptance = a, la_number = None, la_needs_push = False\<rparr>)"

section \<open>The row a run leaves\<close>

definition tail_chars :: nat where "tail_chars = 2000"

definition loop_status_value :: "loop_status \<Rightarrow> string" where
  "loop_status_value s = (case s of NotEnabled \<Rightarrow> ''not_enabled'' | CheckedClean \<Rightarrow> ''checked_clean''
     | CheckedViolation \<Rightarrow> ''checked_violation'' | CheckedUndetermined \<Rightarrow> ''checked_undetermined''
     | RoleUnresolved \<Rightarrow> ''role_unresolved'' | RuleUnresolved \<Rightarrow> ''rule_unresolved''
     | BaseUnresolved \<Rightarrow> ''base_unresolved'' | DeadlineExceeded \<Rightarrow> ''deadline_exceeded'' | GateError \<Rightarrow> ''gate_error'')"

definition consensus_value :: "consensus \<Rightarrow> string" where
  "consensus_value c = (case c of ApproveConsensus \<Rightarrow> ''approve'' | BlockConsensus \<Rightarrow> ''block''
     | IncompleteConsensus \<Rightarrow> ''incomplete'')"

definition verdict_value :: "seat_verdict \<Rightarrow> string" where
  "verdict_value v = (case v of Approve \<Rightarrow> ''APPROVE'' | ChangesRequested \<Rightarrow> ''CHANGES_REQUESTED'' | Reject \<Rightarrow> ''REJECT''
     | seat_verdict.ParseFailed \<Rightarrow> ''PARSE_FAILED'' | seat_verdict.Unavailable \<Rightarrow> ''UNAVAILABLE'')"

definition stamp_summary :: "summary \<Rightarrow> row \<Rightarrow> row" where
  "stamp_summary sm r =
     (let r = row_set r ''iteration_count'' (PInt (sm_iterations sm));
          r = row_set r ''linter_cycles'' (PInt (sm_linter_cycles sm));
          r = set_some ''final_quality_score'' (map_option PInt (sm_score sm)) r;
          r = row_set r ''human_gate_fired'' (PBool (sm_gate_fired sm))
      in row_set r ''deferred_findings_count'' (PInt (int (length (sm_deferred_findings sm)))))"

definition stamp_pr :: "summary \<Rightarrow> string option \<Rightarrow> int option \<Rightarrow> row \<Rightarrow> row" where
  "stamp_pr sm url number r =
     (let r = (if truthy_text url \<noteq> None then set_some ''pr_url'' (text_value url) r
               else if truthy_text (sm_pr_url sm) \<noteq> None then set_some ''pr_url'' (text_value (sm_pr_url sm)) r
               else set_some ''pr_not_raised_reason'' (text_value (sm_pr_not_raised sm)) r)
      in set_some ''pr_number'' (map_option PInt number) r)"

definition stamp_evidence :: "'w acceptance \<Rightarrow> row \<Rightarrow> row" where
  \<comment> \<open>the gates' outcomes; of the role gate and the panel without their texts\<close>
  "stamp_evidence a r =
     (let r = set_some ''blocked_reason'' (text_value (ac_reason a)) r;
          r = (case ac_mech a of None \<Rightarrow> r
               | Some (outcome, detail) \<Rightarrow>
                   (let r = row_set r ''mechanical_verification'' (PStr outcome) in
                    if outcome = ''failed'' then set_some ''mechanical_verification_detail'' (text_value detail) r else r));
          r = (case ac_role a of None \<Rightarrow> r
               | Some out \<Rightarrow> row_set r ''role_diff_loop'' (PStr (loop_status_value (lo_status out))));
          r = record_retry_anchor (ac_status a) (ac_gate_base a) r;
          r = (case ac_seal a of None \<Rightarrow> r
               | Some (outcome, detail) \<Rightarrow>
                   (let r = row_set r ''seal_verification'' (PStr outcome) in
                    if outcome \<in> {''failed'', ''error''}
                    then set_some ''seal_verification_detail'' (map_option (\<lambda>v. PStr (take tail_chars v)) (truthy_text detail)) r
                    else r))
      in case ac_verified a of None \<Rightarrow> r
         | Some v \<Rightarrow>
            (let r = row_set (row_set r ''verified'' (PBool v)) ''verification_iterations'' (PInt (int (ac_verify_iterations a)))
             in if v then r else set_some ''verification_detail'' (text_value (ac_verify_detail a)) r))"

definition stamp_panel :: "nat \<Rightarrow> panel_verdict option \<Rightarrow> row \<Rightarrow> row" where
  "stamp_panel used p r =
     (case p of None \<Rightarrow> r
      | Some v \<Rightarrow>
         (let r = row_set r ''panel_consensus'' (PStr (consensus_value (pl_consensus v)));
              r = row_set r ''panel_blocking_findings'' (PInt (int (length (pl_blocking v))));
              r = (if used \<noteq> 0 then row_set r ''panel_iterations_used'' (PInt (int used)) else r)
          in fold (\<lambda>s r. row_set r (''panel_verdict_'' @ rv_family s) (PStr (verdict_value (rv_verdict s)))) (pl_reviews v) r))"

definition stamp_landing :: "landing option \<Rightarrow> row \<Rightarrow> row" where
  "stamp_landing l r =
     (case l of None \<Rightarrow> r
      | Some li \<Rightarrow>
         (let r = row_set r ''auto_integrate_status'' (PStr (li_status li));
              r = set_some ''auto_integrate_merge_sha'' (text_value (li_sha li)) r
          in if li_detail li \<noteq> [] \<and> li_status li \<notin> set landed_statuses
             then row_set r ''auto_integrate_detail'' (PStr (take 500 (li_detail li))) else r))"

definition apply_row :: "run_conf \<Rightarrow> string option \<Rightarrow> landing option \<Rightarrow> 'w landed \<Rightarrow> row \<Rightarrow> row" where
  "apply_row g agent li la r =
     (let a = la_acceptance la; sm = ac_summary a;
          r = row_set (row_set r ''status'' (PStr (ac_status a))) ''completed_at'' (PStr (rc_now g));
          r = forget_escalated_effort (ac_status a) r;
          r = stamp_pr sm (ac_url a) (la_number la) (stamp_summary sm r);
          r = stamp_evidence a r;
          r = (if la_needs_push la then row_set r ''needs_push'' (PBool True) else r);
          r = set_some ''prepared_pr_title'' (text_value (sm_pr_title sm)) r;
          r = set_some ''prepared_pr_branch'' (text_value (sm_pr_branch sm)) r;
          r = stamp_landing li (stamp_panel (ac_panel_used a) (ac_panel a) r);
          r = row_update r (agent_meta g (if truthy_text agent = None then rc_implementer g else agent))
      in set_some ''agent'' (text_value agent) r)"

definition settle_row :: "run_conf \<Rightarrow> 'w driver \<Rightarrow> 'w acceptance \<Rightarrow> 'w task_run \<Rightarrow> string \<times> row" where
  "settle_row g d a st =
     (case integrate_work g d a of (li, a) \<Rightarrow>
      (let la = land_work g d a
       in (ac_status (la_acceptance la), apply_row g (tr_agent st) li la (tr_row st))))"

definition run_task ::
  "nat \<Rightarrow> (string \<Rightarrow> string) \<Rightarrow> run_conf \<Rightarrow> 'w driver \<Rightarrow> cascade_inputs \<Rightarrow> 'w task_run \<Rightarrow> (string \<times> row) option" where
  \<comment> \<open>None when a rung's spawns exceed the fuel; the status and the row\<close>
  "run_task fuel fl g d i st =
     (let st = (if truthy_text (rc_pre_spawn g) \<noteq> None \<and> map_of (tr_row st) ''gate_base_sha'' = None
                then st\<lparr>tr_row := set_some ''gate_base_sha'' (text_value (rc_pre_spawn g)) (tr_row st)\<rparr> else st)
      in case run_rungs fuel fl g d (tr_effort st) (tr_agent st) (implementer_cascade i) st of
        None \<Rightarrow> None
      | Some (SettleRow a, st) \<Rightarrow> Some (settle_row g d a st)
      | Some (BlockRow reason, st) \<Rightarrow> Some (BLOCKED, mark_blocked g reason (tr_row st))
      | Some (_, st) \<Rightarrow> Some (BLOCKED, mark_blocked g (or_default (tr_fail st) ''spawn_failed'') (tr_row st)))"

section \<open>Only accepted work is landed\<close>

definition settled :: "run_conf \<Rightarrow> 'w driver \<Rightarrow> 'w acceptance \<Rightarrow> bool" where
  \<comment> \<open>the end of a rung: a refusal, or the acceptance of the rung's own summary\<close>
  "settled g d a = (ac_status a \<in> set valid_statuses \<and> (ac_status a = DONE \<longrightarrow>
     (\<exists>further w sm url. a = accept further (rc_task g) (dv_ops d) (rc_pre_spawn g) (start_acceptance w sm url))
     \<and> accepted_here (rc_task g) (dv_ops d) a))"

lemma start_done [simp]: "ac_status (start_acceptance w sm url) = DONE"
  by (simp add: start_acceptance_def)

lemma settled_accept:
  "settled g d (accept further (rc_task g) (dv_ops d) (rc_pre_spawn g) (start_acceptance w sm url))"
  using accept_accepts [of "start_acceptance w sm url" further "rc_task g" "dv_ops d" "rc_pre_spawn g"]
    accept_valid [of "start_acceptance w sm url" further "rc_task g" "dv_ops d" "rc_pre_spawn g"]
  unfolding settled_def by auto

lemma accept_work_settled:
  assumes "accept_work further g d (parse_summary file) st = (SettleRow a, st')" "\<not> malformed (parse_summary file)"
  shows "settled g d a"
proof -
  obtain status url reason w where r: "resolve_summary (rc_task g) (dv_ops d) (parse_summary file) (tr_world st) = ((status, url, reason), w)"
    by (metis surj_pair)
  show ?thesis
  proof (cases "status = DONE")
    case True
    with assms(1) r show ?thesis using settled_accept by (auto simp: accept_work_def Let_def split: if_splits)
  next
    case False
    with assms(1) r have "a = (start_acceptance w (parse_summary file) url)\<lparr>ac_status := status, ac_reason := reason\<rparr>"
      by (simp add: accept_work_def)
    with False resolve_summary_valid [OF r assms(2) refl] show ?thesis by (simp add: settled_def)
  qed
qed

lemma check_work_settled: "check_work further g d st = (SettleRow a, st') \<Longrightarrow> settled g d a"
  by (auto simp: check_work_def Let_def dest: accept_work_settled split: if_splits prod.splits)

lemma after_spawn_settled: "after_spawn fl further g d pe pa u out st = (SettleRow a, st') \<Longrightarrow> settled g d a"
  by (auto simp: after_spawn_def Let_def dest: check_work_settled split: if_splits prod.splits sum.splits)

lemma run_rung_settled: "run_rung fuel fl further g d pe pa u st = Some (SettleRow a, st') \<Longrightarrow> settled g d a"
  by (auto simp: run_rung_def Let_def dest: after_spawn_settled split: prod.splits option.splits)

lemma run_rungs_settled: "run_rungs fuel fl g d pe pa us st = Some (SettleRow a, st') \<Longrightarrow> settled g d a"
  by (induction us arbitrary: st)
    (auto dest: run_rung_settled split: option.splits prod.splits rung_end.splits)

lemma status_names [simp]:
  "BLOCKED \<noteq> AWAITING_REVIEW" "DONE \<noteq> AWAITING_REVIEW" "AWAITING_REVIEW \<notin> set valid_statuses"
  "AWAITING_REVIEW \<noteq> DONE" "AWAITING_REVIEW \<noteq> BLOCKED"
  by (simp_all add: status_defs AWAITING_REVIEW_def valid_statuses_def)

lemma integrate_work_done:
  assumes "integrate_work g d a = (li, a')"
  shows "ac_status a' = DONE \<longleftrightarrow> ac_status a = DONE
      \<and> (rc_auto_integrate g \<longrightarrow> li_status (fst (dv_integrate d (ac_world a))) \<in> set landed_statuses)"
    "ac_status a \<in> set valid_statuses \<Longrightarrow> ac_status a' \<in> set valid_statuses"
  using assms by (auto simp: integrate_work_def split: if_splits prod.splits)

lemma land_work_status:
  assumes "ac_status a \<in> set valid_statuses"
  shows "ac_status (la_acceptance (land_work g d a)) = AWAITING_REVIEW \<Longrightarrow>
      ac_status a = DONE \<and> tc_pr_mode (rc_task g)"
    "ac_status (la_acceptance (land_work g d a)) = DONE \<Longrightarrow> ac_status a = DONE \<and> \<not> tc_pr_mode (rc_task g)"
    "ac_status (la_acceptance (land_work g d a)) \<in> insert AWAITING_REVIEW (set valid_statuses)"
  using assms by (auto simp: land_work_def split: if_splits prod.splits sum.splits option.splits)

lemma settle_row_done:
  assumes "settle_row g d a st = (status, r)" "settled g d a" "status = DONE \<or> status = AWAITING_REVIEW"
  shows "ac_status a = DONE \<and> (status = AWAITING_REVIEW \<longleftrightarrow> tc_pr_mode (rc_task g))
     \<and> (rc_auto_integrate g \<longrightarrow> li_status (fst (dv_integrate d (ac_world a))) \<in> set landed_statuses)"
proof -
  obtain li a' where i: "integrate_work g d a = (li, a')" by fastforce
  with assms(1) have st: "status = ac_status (la_acceptance (land_work g d a'))" by (simp add: settle_row_def Let_def)
  have "ac_status a' \<in> set valid_statuses" using integrate_work_done(2) [OF i] assms(2) by (simp add: settled_def)
  from land_work_status [OF this, of g d] assms(3) integrate_work_done(1) [OF i] st show ?thesis by auto
qed

definition some_driver :: "nat driver" where
  \<comment> \<open>the agent commits, the verifier is satisfied, the push goes through\<close>
  "some_driver = \<lparr>dv_ops = counting_ops True (\<lambda>_. verified_result),
     dv_spawner = (\<lambda>_. \<lparr>sp_run = (\<lambda>_ w. (Inr \<lparr>so_exit = 0, so_out = [], so_err = []\<rparr>, Suc w)), sp_clock = (\<lambda>_. 0)\<rparr>),
     dv_reset = (\<lambda>_ w. w), dv_summary_there = (\<lambda>_. True), dv_commits = (\<lambda>_ w. Some (int w)),
     dv_base_commits = (\<lambda>_ _ _ _. Some 0), dv_subjects = (\<lambda>_. None), dv_integrate = (\<lambda>w. (\<lparr>li_status = ''integrated'',
     li_sha = None, li_detail = []\<rparr>, w)), dv_open_pr = (\<lambda>_ w. (Inl [], w)), dv_push = (\<lambda>w. (False, w))\<rparr>"

definition some_run :: run_conf where
  "some_run = \<lparr>rc_task = some_task, rc_baseline = None, rc_pre_spawn = Some ''0'', rc_implementer = None, rc_version = ''1'',
     rc_agent_version = None, rc_auto_integrate = False, rc_now = ''now''\<rparr>"

definition some_rungs :: cascade_inputs where
  "some_rungs = \<lparr>ci_agent = Some ''claude'', ci_effort = Some ''high'', ci_labels = [], ci_terminal = ''claude'',
     ci_stay_in_family = True, ci_pin_effort = True\<rparr>"

definition some_start :: "nat task_run" where
  "some_start = \<lparr>tr_world = 0, tr_row = [(''key'', PStr ''FIX-1''), (''status'', PStr ''In Progress'')],
     tr_spawn = \<lparr>sp_rotation = None, sp_account = None, sp_retries = 0, sp_spawns = 0\<rparr>,
     tr_agent = Some ''claude'', tr_effort = Some ''high'', tr_fail = None, tr_later = False\<rparr>"

text \<open>
  C13. A run lands nothing but accepted work: when a task's run ends with Done or Awaiting Review, the
  row is the settlement of one acceptance that ended Done on one clean commit, with every gate's
  observation in its last pass; with auto-integration on, the integration reported one of the statuses of a
  landed branch, and the row waits for review exactly in pull request mode.
\<close>

theorem run_lands_only_accepted_work:
  assumes "run_task fuel fl g d i st = Some (status, r)" "status = DONE \<or> status = AWAITING_REVIEW"
  shows "\<exists>a st'. (\<exists>further w sm url. a = accept further (rc_task g) (dv_ops d) (rc_pre_spawn g) (start_acceptance w sm url))
     \<and> ac_status a = DONE \<and> accepted_here (rc_task g) (dv_ops d) a \<and> settle_row g d a st' = (status, r)
     \<and> (rc_auto_integrate g \<longrightarrow> li_status (fst (dv_integrate d (ac_world a))) \<in> set landed_statuses)
     \<and> (status = AWAITING_REVIEW \<longleftrightarrow> tc_pr_mode (rc_task g))"
proof -
  obtain a pe pa st0 st' where a: "run_rungs fuel fl g d pe pa (implementer_cascade i) st0 = Some (SettleRow a, st')"
      "settle_row g d a st' = (status, r)"
    using assms by (auto simp: run_task_def Let_def split: if_splits option.splits prod.splits rung_end.splits)
  note s = run_rungs_settled [OF a(1)]
  with settle_row_done [OF a(2) s assms(2)] a(2) show ?thesis unfolding settled_def by blast
qed

lemma some_rungs_cascade: "implementer_cascade some_rungs = [(''claude'', Some ''high'')]"
  by code_simp

lemma some_summary_read: "sm_status (parse_summary (Some some_summary_text)) = Some DONE"
  "\<not> malformed (parse_summary (Some some_summary_text))"
  by code_simp+

lemma some_acceptance:
  "ac_status (accept False some_task (counting_ops True (\<lambda>_. verified_result)) (Some ''0'') (start_acceptance 1 sm None)) = DONE"
  "\<not> ac_advance (accept False some_task (counting_ops True (\<lambda>_. verified_result)) (Some ''0'') (start_acceptance 1 sm None))"
  by code_simp+

lemma some_settlement:
  "fst (settle_row some_run some_driver (accept False some_task (counting_ops True (\<lambda>_. verified_result)) (Some ''0'')
     (start_acceptance 1 sm None)) st) = DONE" (is "fst (settle_row _ _ ?a _) = _")
proof -
  have "ac_status (la_acceptance (land_work some_run some_driver (snd (integrate_work some_run some_driver ?a)))) = DONE"
    by code_simp
  then show ?thesis by (simp add: settle_row_def case_prod_beta Let_def)
qed

theorem run_lands_only_accepted_work_witness:
  "\<exists>a. ac_status a = DONE \<and> accepted_here (rc_task some_run) (dv_ops some_driver) a"
proof -
  let ?sm = "parse_summary (Some some_summary_text)"
  have sums: "resolve_summary some_task (counting_ops True (\<lambda>_. verified_result)) ?sm 1 = ((DONE, None, None), 1)"
    using some_summary_read(1) by (simp add: resolve_summary_def awaiting_human_approval_def or_default_def Let_def status_defs)
  have "map_option fst (run_task 3 (\<lambda>t. t) some_run some_driver some_rungs some_start) = Some DONE"
    using some_settlement [of ?sm] some_acceptance [of ?sm] some_summary_read sums
    by (simp add: run_task_def run_rung_def after_spawn_def check_work_def accept_work_def has_commits_def some_rungs_cascade
        some_driver_def some_run_def some_start_def counting_ops_def use_rung_def or_default_def truthy_text_def Let_def
        eval_nat_numeral)
  then obtain r where "run_task 3 (\<lambda>t. t) some_run some_driver some_rungs some_start = Some (DONE, r)" by auto
  from run_lands_only_accepted_work [OF this] show ?thesis by blast
qed

section \<open>A run ends\<close>

definition accounts_of :: "spawn_state \<Rightarrow> nat" where
  "accounts_of sp = (case sp_rotation sp of None \<Rightarrow> 0 | Some r \<Rightarrow> length (candidates r))"

lemma spawns_left_accounts: "spawns_left now sp \<le> accounts_of sp + 2"
proof -
  have "failovers_left now r \<le> length (candidates r) + 1" for r
    using length_filter_le [of "cooled r now" "candidates r"]
    by (auto simp: failovers_left_def available_def intro: le_SucI)
  then show ?thesis
    by (auto simp: spawns_left_def accounts_of_def infra_retry_limit_def split: option.split
        intro: order_trans [OF add_mono [OF diff_le_self]])
qed

lemma failover_accounts:
  assumes "failover now f sp = (b, sp')"
  shows "accounts_of sp' = accounts_of sp"
proof -
  have m: "candidates (mark_capped a now msg r) = candidates r" for a msg r
    by (simp add: mark_capped_def Let_def split: option.split)
  have n: "candidates r' = candidates r" if "next_account now r = (a, r')" for r a r'
    using candidates_next [of now r] that by simp
  show ?thesis
    using assms by (auto simp: failover_def accounts_of_def m split: option.splits if_splits prod.splits dest!: n)
qed

lemma spawn_loop_accounts: "spawn_loop n fl ops sp w = Some (out, sp', w') \<Longrightarrow> accounts_of sp' = accounts_of sp"
proof (induction n arbitrary: sp w)
  case (Suc n)
  have same: "accounts_of (sp\<lparr>sp_spawns := x\<rparr>) = accounts_of sp"
      "accounts_of (sp\<lparr>sp_spawns := x, sp_retries := y\<rparr>) = accounts_of sp" for x y
    by (simp_all add: accounts_of_def)
  from Suc show ?case
    by (auto simp: Let_def same dest!: failover_accounts split: prod.splits sum.splits if_splits bool.splits)
qed simp

lemma accept_work_spawn [simp]: "tr_spawn (snd (accept_work further g d sm st)) = tr_spawn st"
  by (auto simp: accept_work_def Let_def split: prod.split)

lemma check_work_spawn [simp]: "tr_spawn (snd (check_work further g d st)) = tr_spawn st"
  by (auto simp: check_work_def Let_def split: prod.split)

lemma use_rung_spawn [simp]: "tr_spawn (use_rung pe pa u st) = tr_spawn st"
  by (simp add: use_rung_def)

lemma after_spawn_spawn [simp]: "tr_spawn (snd (after_spawn fl further g d pe pa u out st)) = tr_spawn st"
  by (simp add: after_spawn_def Let_def split: sum.split prod.split)

lemma run_rung_ends:
  assumes "\<And>w. sp_clock (dv_spawner d u) w = now" "accounts_of (tr_spawn st) + 2 < fuel"
  shows "\<exists>e st'. run_rung fuel fl further g d pe pa u st = Some (e, st') \<and> accounts_of (tr_spawn st') = accounts_of (tr_spawn st)"
proof -
  have same: "accounts_of ((tr_spawn st)\<lparr>sp_retries := 0\<rparr>) = accounts_of (tr_spawn st)" by (simp add: accounts_of_def)
  have "spawns_left now ((tr_spawn st)\<lparr>sp_retries := 0\<rparr>) < fuel"
    using spawns_left_accounts [of now "(tr_spawn st)\<lparr>sp_retries := 0\<rparr>"] assms(2) by (simp add: same)
  from spawn_loop_ends [OF assms(1) this] obtain out sp w where
    run: "spawn_loop fuel fl (dv_spawner d u) ((tr_spawn st)\<lparr>sp_retries := 0\<rparr>)
        (if tr_later st then dv_reset d (rc_pre_spawn g) (tr_world st) else tr_world st) = Some (out, sp, w)" by blast
  let ?st = "st\<lparr>tr_world := w, tr_spawn := sp, tr_later := True\<rparr>"
  obtain e st' where "after_spawn fl further g d pe pa u out ?st = (e, st')" by fastforce
  with after_spawn_spawn [of fl further g d pe pa u out ?st] run spawn_loop_accounts [OF run] same show ?thesis
    by (auto simp: run_rung_def Let_def)
qed

lemma run_rungs_end:
  assumes "\<And>u w. sp_clock (dv_spawner d u) w = now" "accounts_of (tr_spawn st) + 2 < fuel"
  shows "\<exists>e st'. run_rungs fuel fl g d pe pa us st = Some (e, st') \<and> e \<noteq> NextRung"
  using assms(2)
proof (induction us arbitrary: st)
  case (Cons u us)
  from run_rung_ends [OF assms(1) Cons.prems] obtain e st' where
    run: "run_rung fuel fl (us \<noteq> []) g d pe pa u st = Some (e, st')" "accounts_of (tr_spawn st') = accounts_of (tr_spawn st)" by blast
  show ?case
  proof (cases "e = NextRung")
    case True
    with Cons.IH [of st'] Cons.prems run show ?thesis by simp
  next
    case False
    with run show ?thesis by (cases e) simp_all
  qed
qed simp

lemma set_some_other [simp]: "k \<noteq> k' \<Longrightarrow> map_of (set_some k v r) k' = map_of r k'"
  by (simp add: set_some_def split: option.split)

lemma stamps_keep_status:
  "map_of (stamp_summary sm r) ''status'' = map_of r ''status''"
  "map_of (stamp_pr sm url n r) ''status'' = map_of r ''status''"
  "map_of (forget_escalated_effort st r) ''status'' = map_of r ''status''"
  "map_of (record_retry_anchor st base r) ''status'' = map_of r ''status''"
  "map_of (stamp_landing li r) ''status'' = map_of r ''status''"
  "map_of (row_update r (agent_meta g agent)) ''status'' = map_of r ''status''"
  by (auto simp: stamp_summary_def stamp_pr_def forget_escalated_effort_def record_retry_anchor_def stamp_landing_def
      agent_meta_def row_update_def Let_def split: option.split)

lemma stamp_evidence_status: "map_of (stamp_evidence a r) ''status'' = map_of r ''status''"
  by (simp add: stamp_evidence_def stamps_keep_status Let_def split: option.split prod.split)

lemma stamp_panel_status: "map_of (stamp_panel n p r) ''status'' = map_of r ''status''"
proof -
  have "map_of (fold (\<lambda>s r. row_set r (''panel_verdict_'' @ rv_family s) (PStr (verdict_value (rv_verdict s)))) ss r) ''status''
      = map_of r ''status''" for ss :: "review list" and r
    by (induction ss arbitrary: r) simp_all
  then show ?thesis by (simp add: stamp_panel_def Let_def split: option.split)
qed

lemma apply_row_status: "map_of (apply_row g agent li la r) ''status'' = Some (PStr (ac_status (la_acceptance la)))"
  by (simp add: apply_row_def stamps_keep_status stamp_evidence_status stamp_panel_status Let_def)

lemma mark_blocked_status: "map_of (mark_blocked g reason r) ''status'' = Some (PStr BLOCKED)"
  by (simp add: mark_blocked_def agent_meta_def row_update_def split: option.split)

lemma settle_row_status:
  "settle_row g d a st = (status, r) \<Longrightarrow> settled g d a \<Longrightarrow>
     map_of r ''status'' = Some (PStr status) \<and> status \<in> insert AWAITING_REVIEW (set valid_statuses)"
  using land_work_status(3) integrate_work_done(2)
  by (fastforce simp: settle_row_def settled_def apply_row_status Let_def split: prod.splits)



section \<open>What a row forgets\<close>

lemma provider_reason_not_stamped:
  \<comment> \<open>a refusal of the provider that stops the cascade is not the reason the row is blocked with\<close>
  assumes "implementer_cascade i = [u]" "truthy_text (rc_pre_spawn g) = None" "\<not> tr_later st" "tr_fail st = None"
    and "spawn_loop fuel fl (dv_spawner d u) ((tr_spawn st)\<lparr>sp_retries := 0\<rparr>) (tr_world st) = Some (Inr out, sp, w)"
    and "so_exit out \<noteq> 0" "blocks_cascade (classify fl (so_exit out) (so_out out) (so_err out))"
  shows "run_task fuel fl g d i st = Some (BLOCKED, mark_blocked g ''spawn_failed'' (tr_row st))"
  using assms by (simp add: run_task_def run_rung_def after_spawn_def or_default_def Let_def)

lemma blocked_row_loses_its_pin:
  \<comment> \<open>the operator's agent is overwritten by the run's\<close>
  "row_get (mark_blocked g reason r) ''agent'' = PStr (or_default (rc_implementer g) ''claude'')"
  by (simp add: mark_blocked_def agent_meta_def row_update_def row_get_def or_default_def split: option.split)

lemma escalated_agent_kept_when_done:
  \<comment> \<open>the stamp of the escalation goes, the agent of the cascade stays\<close>
  assumes "ac_status (la_acceptance la) = DONE" "truthy_text agent = Some x"
  shows "row_get (apply_row g agent li la r) ''agent'' = PStr x"
  using assms by (simp add: apply_row_def Let_def set_some_def text_value_def row_get_def)

end
