(* ===== verification/Unblock.thy ===== *)
theory Unblock
  imports LoopGate Merge
begin

text \<open>
  The human's way back for a task that stopped (\<^verbatim>\<open>unblock.py\<close>): the review queue, \<open>unblock\<close>, which
  returns a blocked row to \<^verbatim>\<open>To Do\<close> with its verdicts cleared, and \<open>requeue\<close>, which also archives
  and deletes the row's branch. The tasks file is the loaded document; git is an operation on a
  world; what is printed is left out. A command that meets a row which is no mapping raises.
\<close>

section \<open>Fields\<close>

definition ROW_STAMPS :: "string list" where
  "ROW_STAMPS = [''role_diff_loop'', ''role_diff_loop_detail'']"

definition STALE_STAMPS :: "string list" where
  "STALE_STAMPS =
     [''blocked_reason'', ''mechanical_verification'', ''mechanical_verification_detail'',
      ''seal_verification'', ''seal_verification_detail'', ''verified'', ''verification_iterations'',
      ''verification_detail''] @ ROW_STAMPS"

definition RUN_STATE_FIELDS :: "string list" where
  "RUN_STATE_FIELDS =
     [''started_at'', ''completed_at'', ''dispatcher_run_id'', ''summary_path'', ''branch'',
      ''gate_base_sha'', ''cost_usd'', ''effort'', ''effort_escalated'', ''iteration_count'',
      ''linter_cycles'', ''final_quality_score'', ''human_gate_fired'',
      ''deferred_findings_count'', ''pr_not_raised_reason'', ''mechanical_verification'',
      ''verified'', ''verification_iterations'', ''input_tokens'', ''output_tokens'',
      ''cache_read_input_tokens'', ''cache_creation_input_tokens'', ''duration_ms'',
      ''num_turns'', ''model_used'', ''dispatcher_version'', ''agent_version'',
      ''blocked_reason'', ''blocked_at'', ''unblocked_at'', ''needs_push'',
      ''pr_url'', ''pr_number'', ''pr_approved_by'', ''merged_sha'']"

definition pop_all :: "string list \<Rightarrow> row \<Rightarrow> row" where
  "pop_all ks r = fold (\<lambda>k r. row_pop r k) ks r"

section \<open>Rows of the document\<close>

definition or_raised :: "unit + 'a \<Rightarrow> merge_exn + 'a" where
  "or_raised x = (case x of Inl _ \<Rightarrow> Inl RowRaised | Inr v \<Rightarrow> Inr v)"

definition rows_or_empty :: "pyval \<Rightarrow> merge_exn + pyval list" where
  \<comment> \<open>\<^verbatim>\<open>(doc.get("tasks") or []) if isinstance(doc, dict) else []\<close>\<close>
  "rows_or_empty doc =
     (case doc of
        PDict d \<Rightarrow> (let v = row_get d ''tasks'' in if truthy v then or_raised (iter_values v) else Inr [])
      | _ \<Rightarrow> Inr [])"

fun as_rows :: "pyval list \<Rightarrow> merge_exn + row list" where
  \<comment> \<open>\<^verbatim>\<open>r.get\<close> of every row\<close>
  "as_rows [] = Inr []"
| "as_rows (v # vs) = (case v of PDict r \<Rightarrow> map_sum id ((#) r) (as_rows vs) | _ \<Rightarrow> Inl RowRaised)"

definition is_blocked :: "row \<Rightarrow> bool" where
  "is_blocked r = (row_get r ''status'' = PStr BLOCKED)"

definition row_key :: "row \<Rightarrow> string option" where
  "row_key r = (if truthy (row_get r ''key'') then Some (py_str (row_get r ''key'')) else None)"

definition row_index :: "row list \<Rightarrow> string \<Rightarrow> nat option" where
  \<comment> \<open>the entry of \<^verbatim>\<open>by_key\<close>: the last of the rows with the key\<close>
  "row_index rows k = (case filter (\<lambda>i. row_key (rows ! i) = Some k) (rev [0..<length rows]) of
       i # _ \<Rightarrow> Some i | [] \<Rightarrow> None)"

definition with_rows :: "pyval \<Rightarrow> row list \<Rightarrow> pyval" where
  "with_rows doc rows = (case doc of PDict d \<Rightarrow> PDict (row_set d ''tasks'' (PList (map PDict rows))) | _ \<Rightarrow> doc)"

section \<open>The review queue\<close>

definition DETAIL_FIELDS :: "string list" where
  "DETAIL_FIELDS = [''mechanical_verification_detail'', ''seal_verification_detail'',
     ''verification_detail'', ROW_STAMPS ! 1, ''panel_summary'']"

definition DETAIL_EXCERPT :: nat where "DETAIL_EXCERPT = 400"

definition indented :: "string \<Rightarrow> string" where
  "indented s = concat (map (\<lambda>c. if c = CHR 10 then CHR 10 # ''    '' else [c]) s)"

definition excerpt :: "pyval \<Rightarrow> string" where
  "excerpt v = (let t = indented (py_strip (py_str v)) in
     if DETAIL_EXCERPT < length t then take DETAIL_EXCERPT t @ '' ...'' else t)"

definition queue_entry :: "row \<Rightarrow> pyval \<times> pyval \<times> (string \<times> string) list" where
  \<comment> \<open>the key, the reason and the details that are shown\<close>
  "queue_entry r = (row_get r ''key'',
     (case map_of r ''blocked_reason'' of Some v \<Rightarrow> v | None \<Rightarrow> PStr ''no reason recorded''),
     map (\<lambda>f. (f, excerpt (row_get r f))) (filter (\<lambda>f. truthy (row_get r f)) DETAIL_FIELDS))"

definition list_blocked :: "pyval \<Rightarrow> merge_exn + (int \<times> (pyval \<times> pyval \<times> (string \<times> string) list) list)" where
  "list_blocked doc =
     (case rows_or_empty doc of Inl e \<Rightarrow> Inl e | Inr vs \<Rightarrow>
      case as_rows vs of Inl e \<Rightarrow> Inl e | Inr rows \<Rightarrow>
      (let queue = filter is_blocked rows in
       Inr (if queue = [] then 0 else 3, map queue_entry queue)))"

section \<open>Clearing a blocked row\<close>

record unblock_args =
  ua_keys :: "string list"
  ua_all :: bool
  ua_note :: "string option"

definition unblock_note :: "row \<Rightarrow> string \<Rightarrow> pyval" where
  "unblock_note r note =
     (let d = (case map_of r ''description'' of Some v \<Rightarrow> py_str v | None \<Rightarrow> []);
          prior = (case map_of r ''blocked_reason'' of Some v \<Rightarrow> py_str v | None \<Rightarrow> [])
      in PStr (rev (dropWhile py_space (rev d)) @ [CHR 10, CHR 10] @ ''## Unblock note (human)'' @ [CHR 10]
               @ ''(cleared from Blocked: '' @ prior @ '')'' @ [CHR 10] @ note @ [CHR 10]))"

definition unblock_row :: "string \<Rightarrow> string option \<Rightarrow> row \<Rightarrow> row" where
  "unblock_row now note r =
     (let r' = row_set (row_set (pop_all STALE_STAMPS r) ''status'' (PStr TODO)) ''unblocked_at'' (PStr now)
      in case note of
           Some n \<Rightarrow> if n = [] then r' else row_set r' ''description'' (unblock_note r n)
         | None \<Rightarrow> r')"

fun clear_keys ::
  "string \<Rightarrow> string option \<Rightarrow> string list \<Rightarrow> row list \<times> string list \<times> string list \<Rightarrow>
     row list \<times> string list \<times> string list" where
  \<comment> \<open>the rows, the keys cleared and the keys that failed\<close>
  "clear_keys now note [] st = st"
| "clear_keys now note (k # ks) (rows, cleared, failed) = clear_keys now note ks
     (case row_index rows k of
        None \<Rightarrow> (rows, cleared, failed @ [k])
      | Some i \<Rightarrow>
          if \<not> is_blocked (rows ! i) then (rows, cleared, failed @ [k])
          else (rows[i := unblock_row now note (rows ! i)], cleared @ [k], failed))"

definition unblock :: "string \<Rightarrow> unblock_args \<Rightarrow> pyval \<Rightarrow> merge_exn + (int \<times> pyval)" where
  "unblock now a doc =
     (if ua_keys a = [] \<and> \<not> ua_all a then Inr (2, doc)
      else case rows_or_empty doc of Inl e \<Rightarrow> Inl e | Inr vs \<Rightarrow>
      case as_rows vs of Inl e \<Rightarrow> Inl e | Inr rows \<Rightarrow>
      (let targets = (if ua_all a then map (\<lambda>r. py_str (row_get r ''key'')) (filter is_blocked rows) else ua_keys a) in
       if targets = [] then Inr (0, doc)
       else (case clear_keys now (ua_note a) targets (rows, [], []) of (rows', cleared, failed) \<Rightarrow>
         Inr (if failed \<noteq> [] then 1 else 0, if cleared \<noteq> [] then with_rows doc rows' else doc))))"

section \<open>A fresh attempt\<close>

type_synonym 'w git_run = "string list \<Rightarrow> 'w \<Rightarrow> (int \<times> string \<times> string) \<times> 'w"

definition rev_parse :: "string \<Rightarrow> string list" where
  "rev_parse b = [''git'', ''rev-parse'', ''--verify'', ''--quiet'', b]"
definition tag_branch :: "string \<Rightarrow> string \<Rightarrow> string list" where
  "tag_branch t b = [''git'', ''tag'', ''-f'', t, b]"
definition list_worktrees :: "string list" where
  "list_worktrees = [''git'', ''worktree'', ''list'', ''--porcelain'']"
definition remove_worktree :: "string \<Rightarrow> string list" where
  "remove_worktree p = [''git'', ''worktree'', ''remove'', ''--force'', p]"
definition delete_branch :: "string \<Rightarrow> string list" where
  "delete_branch b = [''git'', ''branch'', ''-D'', b]"
definition delete_remote :: "string \<Rightarrow> string list" where
  "delete_remote b = [''git'', ''push'', ''origin'', ''--delete'', b]"

definition archive_tag :: "string \<Rightarrow> string \<Rightarrow> string" where
  "archive_tag key date = ''archive/'' @ key @ ''-'' @ date"

fun split_text :: "nat \<Rightarrow> string \<Rightarrow> string \<Rightarrow> string \<Rightarrow> string list" where
  \<comment> \<open>\<^verbatim>\<open>s.split(sep)\<close>: characters of a separator still to skip, the current part in reverse\<close>
  "split_text n sep acc [] = [rev acc]"
| "split_text (Suc n) sep acc (c # s) = split_text n sep acc s"
| "split_text 0 sep acc (c # s) =
     (if starts_with (c # s) sep then rev acc # split_text (length sep - 1) sep [] s
      else split_text 0 sep (c # acc) s)"

definition worktree_of :: "string \<Rightarrow> string \<Rightarrow> string option" where
  \<comment> \<open>the last match wins\<close>
  "worktree_of branch out =
     (case concat (map (\<lambda>block. if contains block (''branch refs/heads/'' @ branch)
              then List.map_filter (\<lambda>l. if starts_with l ''worktree '' then Some (drop 9 l) else None)
                     (py_splitlines block)
              else []) (split_text 0 [CHR 10, CHR 10] [] out)) of
        [] \<Rightarrow> None | ws \<Rightarrow> Some (last ws))"

definition archive_and_delete_branch :: "'w git_run \<Rightarrow> string \<Rightarrow> string \<Rightarrow> string \<Rightarrow> 'w \<Rightarrow> bool \<times> 'w" where
  "archive_and_delete_branch git branch key date w =
     (case git (rev_parse branch) w of ((code, _), w) \<Rightarrow>
      if code \<noteq> 0 then (True, w) else
      case git (tag_branch (archive_tag key date) branch) w of ((code, _), w) \<Rightarrow>
      if code \<noteq> 0 then (False, w) else
      case git list_worktrees w of ((code, out, _), w) \<Rightarrow>
      (let w = (case (if code = 0 then worktree_of branch out else None) of
           Some p \<Rightarrow> if p = [] then w else snd (git (remove_worktree p) w) | None \<Rightarrow> w) in
       case git (delete_branch branch) w of ((code, _), w) \<Rightarrow>
       if code \<noteq> 0 then (False, w) else (True, snd (git (delete_remote branch) w))))"

record requeue_args =
  ra_keys :: "string list"
  ra_keep_branch :: bool

definition requeue_row :: "row \<Rightarrow> row" where
  "requeue_row r = row_set (pop_all RUN_STATE_FIELDS r) ''status'' (PStr TODO)"

definition key_or_empty :: "row \<Rightarrow> string" where
  "key_or_empty r = (case map_of r ''key'' of Some v \<Rightarrow> py_str v | None \<Rightarrow> [])"

fun requeue_rows ::
  "'w git_run \<Rightarrow> requeue_args \<Rightarrow> string \<Rightarrow> pyval list \<Rightarrow> 'w \<Rightarrow> (merge_exn + (pyval list \<times> string list \<times> nat)) \<times> 'w" where
  \<comment> \<open>the rows, the keys seen and the number of failures; the branches of the rows before a row that
      raises are gone by then\<close>
  "requeue_rows git a date [] w = (Inr ([], [], 0), w)"
| "requeue_rows git a date (v # vs) w =
     (case v of
        PDict r \<Rightarrow>
         (let key = key_or_empty r; branch = row_get r ''branch'' in
          if key \<notin> set (ra_keys a)
          then (case requeue_rows git a date vs w of (x, w) \<Rightarrow>
                 (map_sum id (\<lambda>(vs', seen, n). (v # vs', seen, n)) x, w))
          else (case (if truthy branch \<and> \<not> ra_keep_branch a
                      then archive_and_delete_branch git (py_str branch) key date w else (True, w)) of (ok, w) \<Rightarrow>
            case requeue_rows git a date vs w of (x, w) \<Rightarrow>
              (map_sum id (\<lambda>(vs', seen, n).
                 ((if ok then PDict (requeue_row r) else v) # vs', key # seen, if ok then n else Suc n)) x, w)))
      | _ \<Rightarrow> (Inl RowRaised, w))"

definition requeue :: "'w git_run \<Rightarrow> requeue_args \<Rightarrow> string \<Rightarrow> pyval \<Rightarrow> 'w \<Rightarrow> (merge_exn + (int \<times> pyval)) \<times> 'w" where
  "requeue git a date doc w =
     (let tasks = (case doc of PDict d \<Rightarrow> row_get d ''tasks'' | v \<Rightarrow> v) in
      if ra_keys a = [] then (Inr (2, doc), w)
      else case (if truthy tasks then or_raised (iter_values tasks) else Inr []) of Inl e \<Rightarrow> (Inl e, w)
        | Inr vs \<Rightarrow>
      (case requeue_rows git a date vs w of (x, w) \<Rightarrow>
        (map_sum id (\<lambda>(vs', seen, failed).
           (if 0 < failed \<or> \<not> set (ra_keys a) \<subseteq> set seen then 1 else 0,
            if vs' = vs then doc
            else (case doc of PDict d \<Rightarrow> PDict (row_set d ''tasks'' (PList vs')) | _ \<Rightarrow> PList vs'))) x, w)))"

section \<open>What clearing does to a row\<close>

lemma pop_all_Cons: "pop_all (k # ks) r = pop_all ks (row_pop r k)"
  by (simp add: pop_all_def)

lemma map_of_pop_all [simp]: "map_of (pop_all ks r) f = (if f \<in> set ks then None else map_of r f)"
  by (induction ks arbitrary: r) (simp_all add: pop_all_Cons, simp add: pop_all_def)

lemma row_get_pop_all [simp]: "row_get (pop_all ks r) f = (if f \<in> set ks then PNone else row_get r f)"
  by (simp add: row_get_def)

definition kept_field :: "string \<Rightarrow> bool" where
  "kept_field f = (f \<notin> set STALE_STAMPS \<union> {''status'', ''unblocked_at'', ''description''})"

lemma map_of_unblock_row:
  "kept_field f \<Longrightarrow> map_of (unblock_row now note r) f = map_of r f"
  "map_of (unblock_row now note r) ''status'' = Some (PStr TODO)"
  "f \<in> set STALE_STAMPS \<Longrightarrow> map_of (unblock_row now note r) f = None"
  by (auto simp: unblock_row_def kept_field_def STALE_STAMPS_def ROW_STAMPS_def Let_def split: option.splits)

lemma unblock_row_key [simp]: "row_key (unblock_row now note r) = row_key r"
proof -
  have "kept_field ''key''" by (simp add: kept_field_def STALE_STAMPS_def ROW_STAMPS_def)
  then show ?thesis by (simp add: row_key_def row_get_def map_of_unblock_row)
qed

lemma unblock_row_not_blocked [simp]: "\<not> is_blocked (unblock_row now note r)"
  by (simp add: is_blocked_def row_get_def map_of_unblock_row TODO_def BLOCKED_def)

section \<open>Exactly the named blocked rows are cleared\<close>

definition one_row_per_key :: "row list \<Rightarrow> bool" where
  \<comment> \<open>what the loader enforces\<close>
  "one_row_per_key rows = (\<forall>i<length rows. \<forall>j<length rows. row_key (rows ! i) \<noteq> None \<longrightarrow>
     row_key (rows ! i) = row_key (rows ! j) \<longrightarrow> i = j)"

definition unblock_targets :: "unblock_args \<Rightarrow> row list \<Rightarrow> string list" where
  "unblock_targets a rows =
     (if ua_all a then map (\<lambda>r. py_str (row_get r ''key'')) (filter is_blocked rows) else ua_keys a)"

definition blocked_key :: "row list \<Rightarrow> string \<Rightarrow> bool" where
  "blocked_key rows k = (\<exists>r \<in> set rows. row_key r = Some k \<and> is_blocked r)"

definition cleared_row :: "string \<Rightarrow> string option \<Rightarrow> string list \<Rightarrow> row \<Rightarrow> row" where
  "cleared_row now note ks r =
     (if is_blocked r \<and> row_key r \<in> Some ` set ks then unblock_row now note r else r)"

lemma one_row_per_key_nth:
  "one_row_per_key rows \<Longrightarrow> i < length rows \<Longrightarrow> j < length rows \<Longrightarrow> row_key (rows ! i) = Some k \<Longrightarrow>
     row_key (rows ! j) = Some k \<Longrightarrow> i = j"
  unfolding one_row_per_key_def by auto

lemma row_index_None: "row_index rows k = None \<longleftrightarrow> (\<forall>r \<in> set rows. row_key r \<noteq> Some k)"
proof -
  have "row_index rows k = None \<longleftrightarrow> filter (\<lambda>i. row_key (rows ! i) = Some k) (rev [0..<length rows]) = []"
    by (simp add: row_index_def split: list.splits)
  also have "\<dots> \<longleftrightarrow> (\<forall>i<length rows. row_key (rows ! i) \<noteq> Some k)"
    by (auto simp: filter_empty_conv)
  finally show ?thesis by (simp add: all_set_conv_all_nth)
qed

lemma row_index_Some: "row_index rows k = Some i \<Longrightarrow> i < length rows \<and> row_key (rows ! i) = Some k"
proof -
  assume "row_index rows k = Some i"
  then have "i \<in> set (filter (\<lambda>i. row_key (rows ! i) = Some k) (rev [0..<length rows]))"
    unfolding row_index_def by (cases "filter (\<lambda>i. row_key (rows ! i) = Some k) (rev [0..<length rows])") simp_all
  then show ?thesis by auto
qed

lemma one_row_per_key_update:
  "one_row_per_key rows \<Longrightarrow> row_key r' = row_key (rows ! i) \<Longrightarrow> one_row_per_key (rows[i := r'])"
proof -
  assume one: "one_row_per_key rows" and r': "row_key r' = row_key (rows ! i)"
  have "j < length rows \<Longrightarrow> row_key (rows[i := r'] ! j) = row_key (rows ! j)" for j
    using r' by (cases "j = i") simp_all
  with one show ?thesis by (simp add: one_row_per_key_def)
qed

lemma clear_step:
  assumes one: "one_row_per_key rows" and i: "row_index rows k = Some i" and b: "is_blocked (rows ! i)"
  shows "rows[i := unblock_row now note (rows ! i)] = map (cleared_row now note [k]) rows"
proof (rule nth_equalityI)
  fix j assume "j < length (rows[i := unblock_row now note (rows ! i)])"
  then have j: "j < length rows" by simp
  note k = row_index_Some [OF i]
  show "rows[i := unblock_row now note (rows ! i)] ! j = map (cleared_row now note [k]) rows ! j"
  proof (cases "j = i")
    case True
    with j k b show ?thesis by (simp add: cleared_row_def)
  next
    case False
    with one_row_per_key_nth [OF one _ j] k have "row_key (rows ! j) \<noteq> Some k" by auto
    with False j show ?thesis by (simp add: cleared_row_def)
  qed
qed simp

lemma cleared_row_Cons:
  "cleared_row now note ks (cleared_row now note [k] r) = cleared_row now note (k # ks) r"
  by (auto simp: cleared_row_def)

lemma cleared_row_idle:
  assumes "one_row_per_key rows" "\<not> blocked_key rows k"
  shows "map (cleared_row now note (k # ks)) rows = map (cleared_row now note ks) rows"
  using assms(2) by (auto simp: cleared_row_def blocked_key_def)

lemma blocked_key_cleared:
  "one_row_per_key rows \<Longrightarrow> blocked_key (map (cleared_row now note [k]) rows) k' \<longleftrightarrow> k' \<noteq> k \<and> blocked_key rows k'"
  by (auto simp: blocked_key_def cleared_row_def split: if_splits)

lemma clear_keys_grow: "clear_keys now note ks (rows, cs, fs) = (rows', cs', fs') \<Longrightarrow> length cs \<le> length cs'"
proof (induction ks arbitrary: rows cs fs)
  case (Cons k ks)
  from Cons.prems obtain rows2 cs2 fs2 where "clear_keys now note ks (rows2, cs2, fs2) = (rows', cs', fs')"
      "length cs \<le> length cs2"
    by (force split: option.splits if_splits)
  with Cons.IH show ?case by (meson order_trans)
qed simp

lemma clear_keys_spec:
  assumes "one_row_per_key rows" "clear_keys now note ks (rows, cs, fs) = (rows', cs', fs')"
  shows "rows' = map (cleared_row now note ks) rows \<and> (cs' = [] \<longrightarrow> rows' = rows)
     \<and> (fs' = [] \<longleftrightarrow> fs = [] \<and> distinct ks \<and> (\<forall>k \<in> set ks. blocked_key rows k))"
  using assms
proof (induction ks arbitrary: rows cs fs)
  case Nil
  then show ?case by (auto simp: cleared_row_def map_idI)
next
  case (Cons k ks)
  note one = Cons.prems(1)
  show ?case
  proof (cases "blocked_key rows k")
    case True
    then obtain r where r: "r \<in> set rows" "row_key r = Some k" "is_blocked r" by (auto simp: blocked_key_def)
    then have "row_index rows k \<noteq> None" by (auto simp: row_index_None)
    then obtain i where i: "row_index rows k = Some i" by blast
    from r obtain j where j: "j < length rows" "rows ! j = r" by (auto simp: in_set_conv_nth)
    from one_row_per_key_nth [OF one, of i j k] row_index_Some [OF i] j r(2) have "j = i" by blast
    with j r have b: "is_blocked (rows ! i)" by simp
    let ?rows = "rows[i := unblock_row now note (rows ! i)]"
    have one': "one_row_per_key ?rows" using one by (rule one_row_per_key_update) simp
    from Cons.prems(2) i b have "clear_keys now note ks (?rows, cs @ [k], fs) = (rows', cs', fs')" by simp
    from Cons.IH [OF one' this] clear_step [OF one i b]
    have ih: "rows' = map (cleared_row now note ks) (map (cleared_row now note [k]) rows)"
        "fs' = [] \<longleftrightarrow> fs = [] \<and> distinct ks \<and> (\<forall>k' \<in> set ks. k' \<noteq> k \<and> blocked_key rows k')"
      by (simp_all add: blocked_key_cleared [OF one])
    from Cons.prems(2) i b have "cs' \<noteq> []" using clear_keys_grow by fastforce
    with ih True show ?thesis by (auto simp: cleared_row_Cons)
  next
    case False
    have "clear_keys now note ks (rows, cs, fs @ [k]) = (rows', cs', fs')"
    proof (cases "row_index rows k")
      case (Some i)
      with False row_index_Some [OF this] have "\<not> is_blocked (rows ! i)" by (auto simp: blocked_key_def)
      with Cons.prems(2) Some show ?thesis by simp
    qed (use Cons.prems(2) in simp)
    from Cons.IH [OF one this] False show ?thesis by (auto simp: cleared_row_idle [OF one])
  qed
qed

lemma as_rows_map [simp]: "as_rows (map PDict rows) = Inr rows"
  by (induction rows) simp_all

lemma rows_or_empty_tasks:
  "row_get d ''tasks'' = PList (map PDict rows) \<Longrightarrow> rows_or_empty (PDict d) = Inr (map PDict rows)"
  by (simp add: rows_or_empty_def or_raised_def iter_values_def)

text \<open>
  C38. \<^verbatim>\<open>dispatcher unblock\<close> changes exactly the blocked rows it is asked to: each of them is
  \<^verbatim>\<open>To Do\<close> without a verdict of the attempt before, every other row is the row it was; and it
  exits with 0 exactly when every key named is a blocked row's, named once.
\<close>

theorem unblock_exact:
  assumes tasks: "row_get d ''tasks'' = PList (map PDict rows)"
    and one: "one_row_per_key rows"
    and asked: "unblock_targets a rows \<noteq> []"
  shows "\<exists>code doc. unblock now a (PDict d) = Inr (code, doc)
     \<and> rows_or_empty doc = Inr (map (PDict \<circ> cleared_row now (ua_note a) (unblock_targets a rows)) rows)
     \<and> (code = 0 \<longleftrightarrow> distinct (unblock_targets a rows) \<and> (\<forall>k \<in> set (unblock_targets a rows). blocked_key rows k))"
proof -
  let ?ks = "unblock_targets a rows"
  from asked have usage: "\<not> (ua_keys a = [] \<and> \<not> ua_all a)" by (auto simp: unblock_targets_def split: if_splits)
  obtain rows' cs fs where c: "clear_keys now (ua_note a) ?ks (rows, [], []) = (rows', cs, fs)"
    by (metis prod_cases3)
  note spec = clear_keys_spec [OF one c]
  let ?doc = "if cs \<noteq> [] then with_rows (PDict d) rows' else PDict d"
  have "unblock now a (PDict d) = Inr (if fs \<noteq> [] then 1 else 0, ?doc)"
    using usage asked c unfolding unblock_def rows_or_empty_tasks [OF tasks] as_rows_map sum.case
    by (simp add: unblock_targets_def [symmetric] Let_def)
  moreover have "rows_or_empty ?doc = Inr (map PDict rows')"
    using spec rows_or_empty_tasks [OF tasks] rows_or_empty_tasks [of "row_set d ''tasks'' (PList (map PDict rows'))" rows']
    by (cases "cs = []") (auto simp: with_rows_def simp del: map_map)
  ultimately show ?thesis using spec by (auto simp: comp_def)
qed

definition some_blocked_row :: "string \<Rightarrow> row" where
  "some_blocked_row k = [(''key'', PStr k), (''status'', PStr BLOCKED), (''blocked_reason'', PStr ''seal''),
     (''seal_verification'', PStr ''failed'')]"

definition some_worklist :: row where
  "some_worklist = [(''tasks'', PList [PDict (some_blocked_row ''A''),
     PDict [(''key'', PStr ''B''), (''status'', PStr DONE)]])]"

lemma unblock_exact_witness:
  "\<exists>code doc. unblock ''now'' \<lparr>ua_keys = [''A'', ''B''], ua_all = False, ua_note = None\<rparr> (PDict some_worklist)
      = Inr (code, doc) \<and> code \<noteq> 0
      \<and> rows_or_empty doc = Inr [PDict [(''key'', PStr ''A''), (''status'', PStr TODO), (''unblocked_at'', PStr ''now'')],
          PDict [(''key'', PStr ''B''), (''status'', PStr DONE)]]"
proof -
  let ?a = "\<lparr>ua_keys = [''A'', ''B''], ua_all = False, ua_note = None\<rparr>"
  let ?rows = "[some_blocked_row ''A'', [(''key'', PStr ''B''), (''status'', PStr DONE)]]"
  have tasks: "row_get some_worklist ''tasks'' = PList (map PDict ?rows)" by code_simp
  have one: "one_row_per_key ?rows"
    by (auto simp: one_row_per_key_def some_blocked_row_def row_key_def row_get_def less_Suc_eq)
  have asked: "unblock_targets ?a ?rows \<noteq> []" by code_simp
  have bad: "\<not> (\<forall>k \<in> set (unblock_targets ?a ?rows). blocked_key ?rows k)" by code_simp
  have cleared: "map (PDict \<circ> cleared_row ''now'' (ua_note ?a) (unblock_targets ?a ?rows)) ?rows
      = [PDict [(''key'', PStr ''A''), (''status'', PStr TODO), (''unblocked_at'', PStr ''now'')],
         PDict [(''key'', PStr ''B''), (''status'', PStr DONE)]]" by code_simp
  from unblock_exact [OF tasks one asked, of "''now''"] bad show ?thesis unfolding cleared by blast
qed

section \<open>A cleared task is read as the task it was\<close>

definition read_fields :: "string list" where
  "read_fields = [''key'', ''summary'', ''type'', ''labels'', ''owns'', ''agent'', ''effort'', ''verify'', ''panel'',
     ''design'', ''model'', ''batch_id''] @ dep_field_aliases"

lemma read_fields_kept: "f \<in> set read_fields \<Longrightarrow> kept_field f"
  by (auto simp: read_fields_def dep_field_aliases_def kept_field_def STALE_STAMPS_def ROW_STAMPS_def)

lemma read_fields_same:
  "f \<in> set read_fields \<Longrightarrow> row_get (unblock_row now note r) f = row_get r f"
  by (simp add: row_get_def map_of_unblock_row(1) [OF read_fields_kept])

lemma unblock_row_description:
  "map_of r ''description'' \<noteq> None \<Longrightarrow> map_of (unblock_row now note r) ''description'' \<noteq> None"
  by (auto simp: unblock_row_def STALE_STAMPS_def ROW_STAMPS_def Let_def split: option.splits)

definition cleared_task :: "string \<Rightarrow> string option \<Rightarrow> string list \<Rightarrow> task \<Rightarrow> task" where
  "cleared_task now note ks t =
     (if is_blocked (t_raw t) \<and> row_key (t_raw t) \<in> Some ` set ks
      then t\<lparr>t_status := TODO, t_raw := unblock_row now note (t_raw t),
             t_description := py_str (row_get (unblock_row now note (t_raw t)) ''description'')\<rparr>
      else t)"

lemma parse_row_raw: "parse_row idx seen (PDict r) = Inr t \<Longrightarrow> t_raw t = r"
  by (auto simp: parse_row_def Let_def split: if_splits sum.splits)

lemma parse_unblocked_row:
  assumes p: "parse_row idx seen (PDict r) = Inr t"
  shows "parse_row idx seen (PDict (unblock_row now note r)) = Inr (t\<lparr>t_status := TODO,
     t_raw := unblock_row now note r, t_description := py_str (row_get (unblock_row now note r) ''description'')\<rparr>)"
proof -
  let ?u = "unblock_row now note r"
  note same = read_fields_same [of _ "now" "note" r]
  from p have none: "missing_fields r = []" by (auto simp: parse_row_def split: if_splits)
  then have have_all: "\<forall>f \<in> set required_fields. map_of r f \<noteq> None" by (simp add: missing_fields_def filter_empty_conv)
  have "map_of ?u f \<noteq> None" if f: "f \<in> set required_fields" for f
  proof (cases "f = ''description''")
    case True
    from unblock_row_description have_all f show ?thesis unfolding True by blast
  next
    case False
    with f have "f \<in> set read_fields" by (auto simp: required_fields_def read_fields_def)
    from map_of_unblock_row(1) [OF read_fields_kept [OF this]] have_all f show ?thesis by simp
  qed
  then have none': "missing_fields ?u = []" by (simp add: missing_fields_def filter_empty_conv)
  have deps: "dependency_list ?u idx = dependency_list r idx"
  proof -
    have f: "filter (\<lambda>f. row_get ?u f \<noteq> PNone) dep_field_aliases = filter (\<lambda>f. row_get r f \<noteq> PNone) dep_field_aliases"
      by (rule filter_cong) (simp_all add: same read_fields_def)
    have one: "row_get ?u f = row_get r f" if "filter (\<lambda>f. row_get r f \<noteq> PNone) dep_field_aliases = [f]" for f
    proof -
      from that have "f \<in> set dep_field_aliases" by (metis filter_is_subset list.set_intros(1) subsetD)
      then show ?thesis by (intro same) (simp add: read_fields_def)
    qed
    show ?thesis unfolding dependency_list_def f
      by (cases "filter (\<lambda>f. row_get r f \<noteq> PNone) dep_field_aliases") (simp_all add: one split: list.split)
  qed
  have reads: "row_get ?u ''key'' = row_get r ''key''" "row_get ?u ''summary'' = row_get r ''summary''"
      "row_get ?u ''type'' = row_get r ''type''" "row_get ?u ''labels'' = row_get r ''labels''"
      "row_get ?u ''owns'' = row_get r ''owns''" "read_agent ?u idx = read_agent r idx"
      "read_effort ?u idx = read_effort r idx" "read_verify ?u idx = read_verify r idx"
      "read_panel ?u idx = read_panel r idx" "read_design ?u idx = read_design r idx"
      "stripped_field ?u ''model'' = stripped_field r ''model''"
      "stripped_field ?u ''batch_id'' = stripped_field r ''batch_id''"
    by (simp_all add: same read_fields_def read_agent_def read_effort_def read_verify_def read_panel_def
        read_design_def lowered_field_def stripped_field_def fun_eq_iff)
  have status: "read_status ?u = TODO" by (simp add: read_status_def map_of_unblock_row(2))
  have "\<exists>labels owns agent effort verify panel design deps. as_str_list (row_get r ''labels'') = Inr labels
      \<and> list_ex size_pattern_match labels \<and> py_str (row_get r ''key'') \<notin> set seen
      \<and> as_str_list (row_get r ''owns'') = Inr owns \<and> read_agent r idx = Inr agent
      \<and> read_effort r idx agent = Inr effort \<and> read_verify r idx = Inr verify \<and> read_panel r idx = Inr panel
      \<and> read_design r idx = Inr design \<and> dependency_list r idx = Inr deps"
    using p unfolding parse_row_def by (simp add: Let_def split: if_splits sum.splits)
  then obtain labels owns agent effort verify panel design deps where
    ok: "as_str_list (row_get r ''labels'') = Inr labels" "list_ex size_pattern_match labels"
      "py_str (row_get r ''key'') \<notin> set seen" "as_str_list (row_get r ''owns'') = Inr owns"
      "read_agent r idx = Inr agent" "read_effort r idx agent = Inr effort" "read_verify r idx = Inr verify"
      "read_panel r idx = Inr panel" "read_design r idx = Inr design" "dependency_list r idx = Inr deps"
    by blast
  from p show ?thesis
    by (auto simp: parse_row_def none none' reads deps status ok Let_def)
qed

text \<open>
  A worklist that was read before \<^verbatim>\<open>unblock\<close> is read after it: the cleared rows are the same
  tasks in status \<^verbatim>\<open>To Do\<close>, with the operator's note in the description, and so runnable again.
\<close>

theorem unblocked_worklist_read:
  assumes "parse_rows idx seen (map PDict rows) = Inr ts"
  shows "parse_rows idx seen (map (PDict \<circ> cleared_row now note ks) rows) = Inr (map (cleared_task now note ks) ts)"
  using assms
proof (induction rows arbitrary: idx seen ts)
  case (Cons r rows)
  then obtain t ts' where t: "parse_row idx seen (PDict r) = Inr t" "ts = t # ts'"
      "parse_rows (Suc idx) (t_key t # seen) (map PDict rows) = Inr ts'"
    by (auto split: sum.splits)
  note raw = parse_row_raw [OF t(1)]
  have "parse_row idx seen (PDict (cleared_row now note ks r)) = Inr (cleared_task now note ks t)"
    using t(1) parse_unblocked_row [OF t(1)] by (simp add: cleared_row_def cleared_task_def raw)
  moreover have "t_key (cleared_task now note ks t) = t_key t" by (simp add: cleared_task_def)
  ultimately show ?case using Cons.IH [OF t(3)] t(2) by simp
qed simp

definition blocked_task_row :: row where
  "blocked_task_row = [(''key'', PStr ''A''), (''summary'', PStr ''s''), (''description'', PStr ''d''),
     (''type'', PStr ''task''), (''labels'', PList [PStr ''size:S'']), (''status'', PStr BLOCKED)]"

lemma unblocked_worklist_read_witness:
  "\<exists>ts. parse_rows 0 [] (map (PDict \<circ> cleared_row ''now'' (Some ''retry'') [''A'']) [blocked_task_row]) = Inr ts
     \<and> map is_runnable_status ts = [True]"
proof -
  let ?read = "parse_rows 0 [] (map PDict [blocked_task_row])"
  have run: "map (is_runnable_status \<circ> cleared_task ''now'' (Some ''retry'') [''A'']) (projr ?read) = [True]"
    by code_simp
  have "isl ?read = False" by code_simp
  then obtain ts where ts: "?read = Inr ts" by (cases ?read) simp_all
  from unblocked_worklist_read [OF ts, of "''now''" "Some ''retry''" "[''A'']"] run show ?thesis unfolding ts by auto
qed

section \<open>A branch goes only after its archive\<close>

definition logged :: "'w git_run \<Rightarrow> ('w \<times> (string list \<times> int) list) git_run" where
  \<comment> \<open>git with a log of its commands and their exit codes\<close>
  "logged git cmd s = (case git cmd (fst s) of (r, w) \<Rightarrow> (r, (w, snd s @ [(cmd, fst r)])))"

definition archives_first :: "string \<Rightarrow> (string list \<times> int) list \<Rightarrow> bool" where
  "archives_first date log = (\<forall>i<length log. \<forall>b. fst (log ! i) = delete_branch b \<longrightarrow>
     (\<exists>j<i. \<exists>k. log ! j = (tag_branch (archive_tag k date) b, 0)))"

lemmas git_commands = rev_parse_def tag_branch_def list_worktrees_def remove_worktree_def delete_branch_def
  delete_remote_def

lemma archives_first_append:
  "archives_first date log \<Longrightarrow> archives_first date seg \<Longrightarrow> archives_first date (log @ seg)"
proof -
  assume l: "archives_first date log" and m: "archives_first date seg"
  have "\<exists>j<i. \<exists>k. (log @ seg) ! j = (tag_branch (archive_tag k date) b, 0)"
    if i: "i < length (log @ seg)" "fst ((log @ seg) ! i) = delete_branch b" for i b
  proof (cases "i < length log")
    case True
    with i have "fst (log ! i) = delete_branch b" by (simp add: nth_append)
    with l True obtain j k where "j < i" "log ! j = (tag_branch (archive_tag k date) b, 0)"
      unfolding archives_first_def by blast
    with True show ?thesis by (intro exI [of _ j]) (auto simp: nth_append)
  next
    case False
    with i have "i - length log < length seg" "fst (seg ! (i - length log)) = delete_branch b"
      by (auto simp: nth_append)
    with m obtain j k where "j < i - length log" "seg ! j = (tag_branch (archive_tag k date) b, 0)"
      unfolding archives_first_def by blast
    with False show ?thesis by (intro exI [of _ "length log + j"]) (auto simp: nth_append)
  qed
  then show "archives_first date (log @ seg)" by (simp add: archives_first_def)
qed

lemma archives_first_plain:
  "(\<And>cmd c b. (cmd, c) \<in> set seg \<Longrightarrow> cmd \<noteq> delete_branch b) \<Longrightarrow> archives_first date seg"
  unfolding archives_first_def by (metis nth_mem prod.collapse)

lemma logged_eq [simp]: "logged git cmd (w, log) = (case git cmd w of (r, w') \<Rightarrow> (r, (w', log @ [(cmd, fst r)])))"
  by (simp add: logged_def)

lemma archive_log_shape:
  assumes "archive_and_delete_branch (logged git) b k date (w, log) = (ok, (w', log'))"
  shows "(\<exists>c. log' = log @ [(rev_parse b, c)])
     \<or> (\<exists>c. log' = log @ [(rev_parse b, 0), (tag_branch (archive_tag k date) b, c)])
     \<or> (\<exists>c rm seg. log' = log @ [(rev_parse b, 0), (tag_branch (archive_tag k date) b, 0), (list_worktrees, c)] @ rm @ seg
         \<and> (\<forall>(cmd, _) \<in> set rm. \<exists>p. cmd = remove_worktree p)
         \<and> (\<exists>d. seg = [(delete_branch b, d)] \<or> (\<exists>e. seg = [(delete_branch b, d), (delete_remote b, e)])))"
proof -
  obtain c1 x1 w1 where g1: "git (rev_parse b) w = ((c1, x1), w1)" by (metis prod.collapse)
  obtain c2 x2 w2 where g2: "git (tag_branch (archive_tag k date) b) w1 = ((c2, x2), w2)" by (metis prod.collapse)
  obtain c3 o3 x3 w3 where g3: "git list_worktrees w2 = ((c3, o3, x3), w3)" by (metis prod.collapse)
  show ?thesis
  proof (cases "c1 = 0 \<and> c2 = 0")
    case False
    with assms g1 g2 show ?thesis by (auto simp: archive_and_delete_branch_def split: if_splits)
  next
    case True
    let ?head = "log @ [(rev_parse b, 0), (tag_branch (archive_tag k date) b, 0), (list_worktrees, c3)]"
    obtain w4 rm where rm: "(case (if c3 = 0 then worktree_of b o3 else None) of
           Some p \<Rightarrow> if p = [] then (w3, ?head) else snd (logged git (remove_worktree p) (w3, ?head))
         | None \<Rightarrow> (w3, ?head)) = (w4, ?head @ rm)" "\<forall>(cmd, _) \<in> set rm. \<exists>p. cmd = remove_worktree p"
      by (cases "if c3 = 0 then worktree_of b o3 else None")
        (force split: if_splits prod.splits)+
    obtain c5 x5 w5 where g5: "git (delete_branch b) w4 = ((c5, x5), w5)" by (metis prod.collapse)
    obtain c6 x6 w6 where g6: "git (delete_remote b) w5 = ((c6, x6), w6)" by (metis prod.collapse)
    from assms True g1 g2 g3 rm(1) g5 g6
    have "\<exists>seg. log' = ?head @ rm @ seg
        \<and> (\<exists>d. seg = [(delete_branch b, d)] \<or> (\<exists>e. seg = [(delete_branch b, d), (delete_remote b, e)]))"
      by (simp add: archive_and_delete_branch_def Let_def split: if_splits) blast+
    with rm(2) show ?thesis by fastforce
  qed
qed

lemma archive_logs:
  assumes "archive_and_delete_branch (logged git) b k date (w, log) = (ok, (w', log'))"
  shows "\<exists>seg. log' = log @ seg \<and> archives_first date seg"
proof -
  let ?rev = "(rev_parse b, 0 :: int)" and ?tag = "(tag_branch (archive_tag k date) b, 0 :: int)"
  consider c where "log' = log @ [(rev_parse b, c)]"
    | c where "log' = log @ [?rev, (tag_branch (archive_tag k date) b, c)]"
    | c rm seg where "log' = log @ [?rev, ?tag, (list_worktrees, c)] @ rm @ seg"
        "\<forall>(cmd, _) \<in> set rm. \<exists>p. cmd = remove_worktree p"
        "\<exists>d. seg = [(delete_branch b, d)] \<or> (\<exists>e. seg = [(delete_branch b, d), (delete_remote b, e)])"
    using archive_log_shape [OF assms] by blast
  then show ?thesis
  proof cases
    case 3
    have "archives_first date ([?rev, ?tag, (list_worktrees, c)] @ rm @ seg)"
      unfolding archives_first_def
    proof (intro allI impI)
      fix i b' assume i: "i < length ([?rev, ?tag, (list_worktrees, c)] @ rm @ seg)"
        and del: "fst (([?rev, ?tag, (list_worktrees, c)] @ rm @ seg) ! i) = delete_branch b'"
      let ?l = "[?rev, ?tag, (list_worktrees, c)] @ rm @ seg"
      from i have "?l ! i \<in> set ?l" by (rule nth_mem)
      with del have "\<exists>e. (delete_branch b', e) \<in> set ?l" by (metis prod.collapse)
      with 3(2,3) have "b' = b" by (auto simp: git_commands)
      moreover have "1 < i" using del by (cases i; cases "i - 1") (auto simp: git_commands)
      ultimately show "\<exists>j<i. \<exists>k. ?l ! j = (tag_branch (archive_tag k date) b', 0)"
        by (intro exI [of _ 1]) auto
    qed
    with 3(1) show ?thesis by blast
  qed (auto intro!: archives_first_plain simp: git_commands)
qed

lemma requeue_rows_logs:
  "requeue_rows (logged git) a date vs (w, log) = (x, (w', log')) \<Longrightarrow>
     \<exists>seg. log' = log @ seg \<and> archives_first date seg"
proof (induction vs arbitrary: w log x)
  case Nil
  then show ?case by (auto simp: archives_first_def)
next
  case (Cons v vs)
  show ?case
  proof (cases v)
    case (PDict r)
    obtain ok w1 log1 where one: "(if key_or_empty r \<in> set (ra_keys a) \<and> truthy (row_get r ''branch'') \<and> \<not> ra_keep_branch a
        then archive_and_delete_branch (logged git) (py_str (row_get r ''branch'')) (key_or_empty r) date (w, log)
        else (True, (w, log))) = (ok, (w1, log1))" by (metis prod.collapse)
    have "\<exists>seg. log1 = log @ seg \<and> archives_first date seg"
      using one archive_logs by (auto simp: archives_first_def split: if_splits)
    moreover obtain y where "requeue_rows (logged git) a date vs (w1, log1) = (y, (w', log'))"
      using Cons.prems PDict one by (auto simp: Let_def split: if_splits prod.splits)
    ultimately show ?thesis using Cons.IH archives_first_append by (metis append.assoc)
  qed (use Cons.prems in \<open>auto simp: archives_first_def\<close>)
qed

text \<open>
  C39. Whatever git answers, \<^verbatim>\<open>dispatcher requeue\<close> deletes a branch only after a tag of that very
  branch under \<^verbatim>\<open>archive/\<close> succeeded, in the same command.
\<close>

theorem requeue_archives_first:
  assumes "requeue (logged git) a date doc (w, []) = (x, (w', log))"
  shows "archives_first date log"
proof -
  have "archives_first date []" by (simp add: archives_first_def)
  moreover from assms requeue_rows_logs [of git a date _ w "[]"] have "log = [] \<or> archives_first date log"
    by (auto simp: requeue_def Let_def split: if_splits sum.splits prod.splits)
  ultimately show ?thesis by blast
qed

text \<open>Git that answers \<open>128\<close> to one command and succeeds otherwise.\<close>

definition failing_git :: "string list \<Rightarrow> unit git_run" where
  "failing_git bad cmd w = ((if cmd = bad then 128 else 0, [], []), ())"

definition stale_row :: row where
  "stale_row = [(''key'', PStr ''A''), (''status'', PStr BLOCKED), (''branch'', PStr ''dispatch/A''),
     (''effort'', PStr ''high''), (''seal_verification'', PStr ''failed''), (''agent'', PStr ''grok'')]"

definition requeue_a :: requeue_args where "requeue_a = \<lparr>ra_keys = [''A''], ra_keep_branch = False\<rparr>"

lemma requeue_archives_first_witness:
  "\<exists>log. snd (requeue (logged (failing_git [])) requeue_a ''2026-11-19'' (PDict [(''tasks'', PList [PDict stale_row])])
      ((), [])) = ((), log) \<and> archives_first ''2026-11-19'' log \<and> (delete_branch ''dispatch/A'', 0) \<in> set log"
proof -
  let ?r = "requeue (logged (failing_git [])) requeue_a ''2026-11-19'' (PDict [(''tasks'', PList [PDict stale_row])])
    ((), [])"
  have "\<exists>x log. p = (x, ((), log))" for p :: "'a \<times> unit \<times> 'b" by (cases p) auto
  from this [of ?r] obtain x log where r: "?r = (x, ((), log))" by (elim exE)
  have "(delete_branch ''dispatch/A'', 0) \<in> set (snd (snd ?r))" by code_simp
  with requeue_archives_first [OF r] r show ?thesis by simp
qed

lemmas requeue_run = requeue_def requeue_a_def stale_row_def row_get_def or_raised_def iter_values_def Let_def
  archive_and_delete_branch_def failing_git_def git_commands archive_tag_def key_or_empty_def

lemma failed_archive_keeps_the_row:
  "fst (requeue (failing_git (tag_branch (archive_tag ''A'' ''d'') ''dispatch/A'')) requeue_a ''d''
     (PDict [(''tasks'', PList [PDict stale_row])]) ()) = Inr (1, PDict [(''tasks'', PList [PDict stale_row])])"
  by (simp add: requeue_run)

lemma requeued_without_its_branch:
  \<comment> \<open>a \<^verbatim>\<open>rev-parse\<close> that could not run reads as a branch that does not exist\<close>
  "fst (requeue (failing_git (rev_parse ''dispatch/A'')) requeue_a ''d''
     (PDict [(''tasks'', PList [PDict stale_row])]) ())
   = Inr (0, PDict [(''tasks'', PList [PDict (requeue_row stale_row)])])"
  by (simp add: requeue_run)

lemma requeue_keeps_the_seal_verdict:
  "row_get (requeue_row stale_row) ''seal_verification'' = PStr ''failed''"
  "row_get (requeue_row stale_row) ''effort'' = PNone"
  by code_simp+

lemma worktree_of_another_branch:
  \<comment> \<open>the branch is looked for as a substring: the worktree of \<open>dispatch/A10\<close> is taken for that of
      \<open>dispatch/A1\<close> and removed by force\<close>
  "worktree_of ''dispatch/A1'' (''worktree /w/A10'' @ [CHR 10] @ ''branch refs/heads/dispatch/A10'') = Some ''/w/A10''"
  by code_simp

end
